(* ===== verification/Prelude.thy ===== *)
theory Prelude
  imports Main "HOL-Library.Word" "HOL-Library.Monad_Syntax"
begin

text \<open>
  Shared vocabulary of the relay's model.

  Machine integers keep their width (\<open>u8\<close>, \<open>u16\<close>, \<open>u32\<close>); \<open>usize\<close> is
  \<open>nat\<close>.  A byte slice is a \<open>u8 list\<close>.  A panic of the code (a failed assertion, an
  \<open>expect\<close> on \<open>None\<close>, an out-of-range index or slice) is \<^const>\<open>None\<close>; a value the
  code returns is \<^const>\<open>Some\<close>.  An \<open>io::Result\<close> is a sum, \<^const>\<open>Inl\<close> the error.
  The theory holds the indexing and slicing operations of Rust with their panics, the
  big-endian accessors, and the arithmetic of the Internet checksum that the IPv4, TCP and IPv6
  components share.
\<close>

unbundle bit_operations_syntax

section \<open>Types\<close>

type_synonym u8 = "8 word"
type_synonym u16 = "16 word"
type_synonym u32 = "32 word"
type_synonym bytes = "u8 list"

text \<open>The kinds of \<open>std::io::Error\<close> the relay tells apart or builds itself.\<close>

datatype io_error = WouldBlock | Interrupted | InvalidInput | InvalidData | AlreadyExists
  | NotFound | OtherError

type_synonym 'a io_result = "io_error + 'a"

named_theorems slicing \<open>reads and writes inside the bounds\<close>
named_theorems lengths \<open>operations that keep the length of a buffer\<close>

section \<open>Indexing and slicing with Rust's panics\<close>

text \<open>\<open>raw[i]\<close>, \<open>raw[a..b]\<close> and \<open>raw[a..a+n].copy_from_slice(ys)\<close>.\<close>

definition index :: "'a list \<Rightarrow> nat \<Rightarrow> 'a option" where
  "index xs i = (if i < length xs then Some (xs ! i) else None)"

definition slice :: "nat \<Rightarrow> nat \<Rightarrow> 'a list \<Rightarrow> 'a list option" where
  "slice a b xs = (if a \<le> b \<and> b \<le> length xs then Some (take (b - a) (drop a xs)) else None)"

definition splice :: "nat \<Rightarrow> 'a list \<Rightarrow> 'a list \<Rightarrow> 'a list option" where
  "splice a ys xs = (if a + length ys \<le> length xs
     then Some (take a xs @ ys @ drop (a + length ys) xs) else None)"

text \<open>\<open>assert!\<close>.\<close>

definition assert_that :: "bool \<Rightarrow> unit option" where
  "assert_that b = (if b then Some () else None)"

lemma index_Some [slicing]: "i < length xs \<Longrightarrow> index xs i = Some (xs ! i)"
  by (simp add: index_def)

lemma index_eq_Some [simp]: "index xs i = Some x \<longleftrightarrow> i < length xs \<and> x = xs ! i"
  by (auto simp: index_def)

lemma slice_Some [slicing]:
  "a \<le> b \<Longrightarrow> b \<le> length xs \<Longrightarrow> slice a b xs = Some (take (b - a) (drop a xs))"
  by (simp add: slice_def)

lemma slice_eq_Some:
  "slice a b xs = Some ys \<longleftrightarrow> a \<le> b \<and> b \<le> length xs \<and> ys = take (b - a) (drop a xs)"
  by (auto simp: slice_def)

lemma splice_Some [slicing]:
  "a + length ys \<le> length xs \<Longrightarrow>
    splice a ys xs = Some (take a xs @ ys @ drop (a + length ys) xs)"
  by (simp add: splice_def)

lemma splice_eq_Some:
  "splice a ys xs = Some zs \<longleftrightarrow>
    a + length ys \<le> length xs \<and> zs = take a xs @ ys @ drop (a + length ys) xs"
  by (auto simp: splice_def)

lemma length_splice [lengths]: "splice a ys xs = Some zs \<Longrightarrow> length zs = length xs"
  by (auto simp: splice_def split: if_splits)

lemma assert_that_Some [simp]: "assert_that b = Some u \<longleftrightarrow> b"
  by (simp add: assert_that_def)

lemma assert_that_None [simp]: "assert_that b = None \<longleftrightarrow> \<not> b"
  by (simp add: assert_that_def)

lemma assert_that_True [simp]: "assert_that True = Some ()"
  by (simp add: assert_that_def)

lemma assert_that_False [simp]: "assert_that False = None"
  by (simp add: assert_that_def)

text \<open>The \<open>?\<close> operator on a call that may panic and returns a \<open>Result\<close>.\<close>

type_synonym ('e, 'a) fallible = "('e + 'a) option"

abbreviation ok :: "'a \<Rightarrow> ('e, 'a) fallible" where
  "ok x \<equiv> Some (Inr x)"

abbreviation err :: "'e \<Rightarrow> ('e, 'a) fallible" where
  "err e \<equiv> Some (Inl e)"

definition question :: "('e, 'a) fallible \<Rightarrow> ('a \<Rightarrow> ('e, 'b) fallible) \<Rightarrow> ('e, 'b) fallible" where
  "question m f = (case m of None \<Rightarrow> None | Some (Inl e) \<Rightarrow> Some (Inl e) | Some (Inr x) \<Rightarrow> f x)"

lemma question_simps [simp]:
  "question None f = None" "question (err e) f = err e" "question (ok x) f = f x"
  by (simp_all add: question_def)

lemma question_eq_ok: "question m f = ok y \<longleftrightarrow> (\<exists>x. m = ok x \<and> f x = ok y)"
  by (auto simp: question_def split: option.splits sum.splits)

lemma question_eq_None: "question m f = None \<longleftrightarrow> m = None \<or> (\<exists>x. m = ok x \<and> f x = None)"
  by (auto simp: question_def split: option.splits sum.splits)

section \<open>Big-endian integers\<close>

text \<open>\<open>u16::from_be_bytes\<close> and \<open>u32::from_be_bytes\<close> with their inverses.\<close>

definition be16 :: "u8 \<Rightarrow> u8 \<Rightarrow> u16" where
  "be16 a b = push_bit 8 (ucast a) OR ucast b"

definition be32 :: "u8 \<Rightarrow> u8 \<Rightarrow> u8 \<Rightarrow> u8 \<Rightarrow> u32" where
  "be32 a b c d = push_bit 24 (ucast a) OR push_bit 16 (ucast b) OR push_bit 8 (ucast c) OR ucast d"

definition enc16 :: "u16 \<Rightarrow> bytes" where
  "enc16 w = [ucast (drop_bit 8 w), ucast w]"

definition enc32 :: "u32 \<Rightarrow> bytes" where
  "enc32 w = [ucast (drop_bit 24 w), ucast (drop_bit 16 w), ucast (drop_bit 8 w), ucast w]"

text \<open>\<open>read_u16(&raw[i..i + 2])\<close> and \<open>write_u16(&mut raw[i..i + 2], v)\<close>.\<close>

definition read_u16 :: "bytes \<Rightarrow> nat \<Rightarrow> u16 option" where
  "read_u16 raw i = (if i + 2 \<le> length raw then Some (be16 (raw ! i) (raw ! (i + 1))) else None)"

definition read_u32 :: "bytes \<Rightarrow> nat \<Rightarrow> u32 option" where
  "read_u32 raw i = (if i + 4 \<le> length raw
     then Some (be32 (raw ! i) (raw ! (i + 1)) (raw ! (i + 2)) (raw ! (i + 3))) else None)"

definition write_u16 :: "nat \<Rightarrow> u16 \<Rightarrow> bytes \<Rightarrow> bytes option" where
  "write_u16 i v raw = splice i (enc16 v) raw"

definition write_u32 :: "nat \<Rightarrow> u32 \<Rightarrow> bytes \<Rightarrow> bytes option" where
  "write_u32 i v raw = splice i (enc32 v) raw"

lemma length_enc16 [simp]: "length (enc16 v) = 2"
  by (simp add: enc16_def)

lemma length_enc32 [simp]: "length (enc32 v) = 4"
  by (simp add: enc32_def)

lemma u8_less: "unat (a :: u8) < 256"
  using unsigned_less [of a] by simp

lemma u16_less: "unat (a :: u16) < 65536"
  using unsigned_less [of a] by simp

lemma u32_less: "unat (a :: u32) < 4294967296"
  using unsigned_less [of a] by simp

lemma unat_ucast_8_16 [simp]: "unat (ucast (a :: u8) :: u16) = unat a"
  using u8_less [of a] by (simp add: unsigned_ucast_eq take_bit_eq_mod)

lemma unat_ucast_8_32 [simp]: "unat (ucast (a :: u8) :: u32) = unat a"
  using u8_less [of a] by (simp add: unsigned_ucast_eq take_bit_eq_mod)

lemma unat_ucast_16_32 [simp]: "unat (ucast (a :: u16) :: u32) = unat a"
  using u16_less [of a] by (simp add: unsigned_ucast_eq take_bit_eq_mod)

lemma unat_of_nat_u16: "n < 65536 \<Longrightarrow> unat (of_nat n :: u16) = n"
  by (simp add: unat_of_nat take_bit_eq_mod)

lemma unat_of_nat_u32: "n < 4294967296 \<Longrightarrow> unat (of_nat n :: u32) = n"
  by (simp add: unat_of_nat take_bit_eq_mod)

lemma be16_add: "be16 a b = 256 * ucast a + ucast b"
proof -
  have "push_bit 8 (ucast a) AND ucast b = (0 :: u16)"
    by (rule bit_word_eqI) (auto simp: bit_simps dest: bit_imp_le_length)
  then have "be16 a b = push_bit 8 (ucast a) + ucast b"
    unfolding be16_def by (rule disjunctive_add_eq_or [symmetric])
  then show ?thesis by (simp add: push_bit_eq_mult mult.commute)
qed

lemma unat_be16: "unat (be16 a b) = 256 * unat a + unat b"
  using u8_less [of a] u8_less [of b] by (simp add: be16_add unat_word_ariths)

lemma be32_add:
  "be32 a b c d = 16777216 * ucast a + 65536 * ucast b + 256 * ucast c + ucast d"
proof -
  let ?a = "push_bit 24 (ucast a) :: u32" and ?b = "push_bit 16 (ucast b) :: u32"
    and ?c = "push_bit 8 (ucast c) :: u32" and ?d = "ucast d :: u32"
  have "?c OR ?d = ?c + ?d"
    by (rule disjunctive_add_eq_or [symmetric], rule bit_word_eqI)
      (auto simp: bit_simps dest: bit_imp_le_length)
  moreover have "?b OR (?c OR ?d) = ?b + (?c OR ?d)"
    by (rule disjunctive_add_eq_or [symmetric], rule bit_word_eqI)
      (auto simp: bit_simps dest: bit_imp_le_length)
  moreover have "?a OR (?b OR (?c OR ?d)) = ?a + (?b OR (?c OR ?d))"
    by (rule disjunctive_add_eq_or [symmetric], rule bit_word_eqI)
      (auto simp: bit_simps dest: bit_imp_le_length)
  ultimately show ?thesis by (simp add: be32_def push_bit_eq_mult ac_simps)
qed

lemma unat_be32:
  "unat (be32 a b c d) = 16777216 * unat a + 65536 * unat b + 256 * unat c + unat d"
  using u8_less [of a] u8_less [of b] u8_less [of c] u8_less [of d]
  by (simp add: be32_add unat_word_ariths)

lemma be16_enc16 [simp]: "be16 (ucast (drop_bit 8 w)) (ucast w) = w"
  unfolding be16_def by (rule bit_word_eqI) (auto simp: bit_simps)

lemma be32_enc32 [simp]:
  "be32 (ucast (drop_bit 24 w)) (ucast (drop_bit 16 w)) (ucast (drop_bit 8 w)) (ucast w) = w"
proof (rule bit_word_eqI)
  fix n assume "n < LENGTH(32)"
  then consider "n < 8" | "8 \<le> n" "n < 16" | "16 \<le> n" "n < 24" | "24 \<le> n" "n < 32"
    by fastforce
  then show "bit (be32 (ucast (drop_bit 24 w)) (ucast (drop_bit 16 w)) (ucast (drop_bit 8 w))
      (ucast w)) n = bit w n"
    unfolding be32_def by cases (auto simp: bit_simps)
qed

lemma enc16_be16 [simp]: "enc16 (be16 a b) = [a, b]"
proof -
  have "(ucast (drop_bit 8 (be16 a b)) :: u8) = a"
    unfolding be16_def by (rule bit_word_eqI) (auto simp: bit_simps dest: bit_imp_le_length)
  moreover have "(ucast (be16 a b) :: u8) = b"
    unfolding be16_def by (rule bit_word_eqI) (auto simp: bit_simps dest: bit_imp_le_length)
  ultimately show ?thesis by (simp add: enc16_def)
qed

lemma read_u16_Some [slicing]:
  "i + 2 \<le> length raw \<Longrightarrow> read_u16 raw i = Some (be16 (raw ! i) (raw ! (i + 1)))"
  by (simp add: read_u16_def)

lemma read_u32_Some [slicing]:
  "i + 4 \<le> length raw \<Longrightarrow>
    read_u32 raw i = Some (be32 (raw ! i) (raw ! (i + 1)) (raw ! (i + 2)) (raw ! (i + 3)))"
  by (simp add: read_u32_def)

lemma write_u16_Some [slicing]:
  "i + 2 \<le> length raw \<Longrightarrow> write_u16 i v raw = Some (take i raw @ enc16 v @ drop (i + 2) raw)"
  by (simp add: write_u16_def splice_def)

lemma write_u32_Some [slicing]:
  "i + 4 \<le> length raw \<Longrightarrow> write_u32 i v raw = Some (take i raw @ enc32 v @ drop (i + 4) raw)"
  by (simp add: write_u32_def splice_def)

lemma length_write_u16 [lengths]: "write_u16 i v raw = Some raw' \<Longrightarrow> length raw' = length raw"
  by (simp add: write_u16_def length_splice)

lemma length_write_u32 [lengths]: "write_u32 i v raw = Some raw' \<Longrightarrow> length raw' = length raw"
  by (simp add: write_u32_def length_splice)

text \<open>A field just written reads back; a field elsewhere is untouched.\<close>

lemma read_u16_write_u16_same:
  "write_u16 i v raw = Some raw' \<Longrightarrow> read_u16 raw' i = Some v"
  by (auto simp: write_u16_def splice_eq_Some read_u16_def enc16_def nth_append)

lemma read_u32_write_u32_same:
  "write_u32 i v raw = Some raw' \<Longrightarrow> read_u32 raw' i = Some v"
  by (auto simp: write_u32_def splice_eq_Some read_u32_def enc32_def nth_append
      numeral_2_eq_2 numeral_3_eq_3)

lemma nth_splice_other:
  assumes "splice a ys xs = Some zs" and "i < a \<or> a + length ys \<le> i"
  shows "zs ! i = xs ! i"
  using assms by (auto simp: splice_eq_Some nth_append)

lemma nth_splice_same:
  assumes "splice a ys xs = Some zs" and "i < length ys"
  shows "zs ! (a + i) = ys ! i"
  using assms by (auto simp: splice_eq_Some nth_append)


lemma nth_patch:
  assumes "k + 2 \<le> length xs" and "i \<noteq> k" and "i \<noteq> k + 1"
  shows "(take k xs @ enc16 v @ drop (k + 2) xs) ! i = xs ! i"
proof -
  have "splice k (enc16 v) xs = Some (take k xs @ enc16 v @ drop (k + 2) xs)"
    using assms by (simp add: splice_def)
  then show ?thesis by (rule nth_splice_other) (use assms in auto)
qed

lemma drop_take_split:
  "drop a (take (a + n + k) xs) = take n (drop a xs) @ take k (drop (a + n) xs)"
proof -
  have "drop a (take (a + n + k) xs) = take (n + k) (drop a xs)" by (simp add: drop_take)
  also have "\<dots> = take n (drop a xs) @ take k (drop n (drop a xs))" by (rule take_add)
  finally show ?thesis by (simp add: add.commute)
qed

text \<open>\<open>raw.swap(i, j)\<close>, and the loop \<open>for i in r { raw.swap(i, i + k) }\<close>.\<close>

definition swap_at :: "nat \<Rightarrow> nat \<Rightarrow> 'a list \<Rightarrow> 'a list option" where
  "swap_at i j xs = (if i < length xs \<and> j < length xs
     then Some (xs[i := xs ! j, j := xs ! i]) else None)"

fun swap_each :: "nat list \<Rightarrow> nat \<Rightarrow> 'a list \<Rightarrow> 'a list option" where
  "swap_each [] k xs = Some xs"
| "swap_each (i # is) k xs = do { xs' \<leftarrow> swap_at i (i + k) xs; swap_each is k xs' }"

lemma length_swap_each [lengths]: "swap_each is k xs = Some ys \<Longrightarrow> length ys = length xs"
  by (induction "is" arbitrary: xs) (auto simp: bind_eq_Some_conv swap_at_def split: if_splits)

declare swap_each.simps [simp del]

text \<open>The two 16-bit ports that open a transport header trade places.\<close>

lemma four_cells: "4 \<le> length raw \<Longrightarrow> \<exists>a b c d rest. raw = a # b # c # d # rest"
  by (auto simp: numeral_eq_Suc Suc_le_length_iff)

lemma swap_each_ports: "swap_each [0..<2] 2 (a # b # c # d # rest) = Some (c # d # a # b # rest)"
  by (simp add: swap_each.simps swap_at_def upt_rec numeral_eq_Suc)

section \<open>Editing a header in place\<close>

text \<open>
  The mutable headers of the relay are pairs of a raw slice and the data parsed from it, kept in
  step by their setters.  This is what their users (the packetizers and the TCP connection) rely
  on: no setter panics on a slice that holds the fixed header, changes the slice's length, or lets
  the data drift from the bytes.
\<close>

type_synonym 'd header_view = "bytes \<times> 'd"

locale header_view =
  fixes parse :: "bytes \<Rightarrow> 'd option"
    and fixed :: nat
    and setters :: "('d header_view \<Rightarrow> 'd header_view option) set"
  assumes parse_total: "fixed \<le> length raw \<Longrightarrow> \<exists>d. parse raw = Some d"
    and setter_total: "f \<in> setters \<Longrightarrow> fixed \<le> length raw \<Longrightarrow> \<exists>v. f (raw, d) = Some v"
    and setter_length: "f \<in> setters \<Longrightarrow> f (raw, d) = Some (raw', d') \<Longrightarrow> length raw' = length raw"
    and setter_coherent: "f \<in> setters \<Longrightarrow> parse raw = Some d \<Longrightarrow> f (raw, d) = Some (raw', d') \<Longrightarrow>
      parse raw' = Some d'"
begin

fun edit :: "('d header_view \<Rightarrow> 'd header_view option) list \<Rightarrow> 'd header_view \<Rightarrow> 'd header_view option" where
  "edit [] v = Some v"
| "edit (f # fs) v = do { v' \<leftarrow> f v; edit fs v' }"

lemma edit_coherent:
  "set fs \<subseteq> setters \<Longrightarrow> fixed \<le> length raw \<Longrightarrow> parse raw = Some d \<Longrightarrow>
    \<exists>raw' d'. edit fs (raw, d) = Some (raw', d') \<and> length raw' = length raw \<and> parse raw' = Some d'"
proof (induction fs arbitrary: raw d)
  case (Cons f fs)
  then have f: "f \<in> setters" by simp
  obtain r1 d1 where s: "f (raw, d) = Some (r1, d1)"
    using setter_total [OF f Cons.prems(2), of d] by auto
  have "length r1 = length raw" "parse r1 = Some d1"
    using setter_length [OF f s] setter_coherent [OF f Cons.prems(3) s] by simp_all
  then show ?case using Cons.IH [of r1 d1] Cons.prems s by auto
qed simp

end

section \<open>The Internet checksum (RFC 1071)\<close>

text \<open>
  \<open>words_sum\<close> is the sum of the big-endian 16-bit words of a byte string, an odd last byte
  being padded on the right with zero.  A receiver accepts a string whose words sum to a multiple
  of \<open>0xFFFF\<close> in ones' complement, that is \<open>checksum_ok\<close>.
\<close>

fun words_sum :: "bytes \<Rightarrow> nat" where
  "words_sum [] = 0"
| "words_sum [a] = 256 * unat a"
| "words_sum (a # b # rest) = 256 * unat a + unat b + words_sum rest"

definition checksum_ok :: "nat \<Rightarrow> bool" where
  "checksum_ok s \<longleftrightarrow> s mod 65535 = 0"

text \<open>
  \<open>while (sum & !0xffff) != 0 { sum = (sum & 0xffff) + (sum >> 16); }\<close>, the loop that
  \<open>Ipv4HeaderMut::update_checksum\<close> and \<open>TcpHeaderMut::update_checksum\<close> both end with.
\<close>

lemma and_ffff: "(s :: u32) AND 0xFFFF = take_bit 16 s"
proof -
  have "(0xFFFF :: u32) = mask 16" by (simp add: mask_eq_exp_minus_1)
  then show ?thesis by (simp add: take_bit_eq_mask)
qed

lemma unat_and_ffff: "unat ((s :: u32) AND 0xFFFF) = unat s mod 65536"
  by (simp add: and_ffff unsigned_take_bit_eq take_bit_eq_mod [of _ "unat s"])

lemma unat_shr_16: "unat (drop_bit 16 (s :: u32)) = unat s div 65536"
  by (simp add: unat_drop_bit_eq drop_bit_eq_div [of _ "unat s"])

lemma unat_fold_step:
  "unat (((s :: u32) AND 0xFFFF) + drop_bit 16 s) = unat s mod 65536 + unat s div 65536"
proof -
  have "unat s mod 65536 < 65536" and "unat s div 65536 < 65536"
    using u32_less [of s] by (simp_all add: less_mult_imp_div_less)
  then have "unat s mod 65536 + unat s div 65536 < 4294967296" by linarith
  then show ?thesis
    by (simp add: unat_word_ariths unat_and_ffff unat_shr_16)
qed

lemma high_part_iff: "(s :: u32) AND NOT 0xFFFF \<noteq> 0 \<longleftrightarrow> 65536 \<le> unat s"
proof -
  have "s = (s AND NOT 0xFFFF) + (s AND 0xFFFF)"
    by (subst disjunctive_add_eq_or) (auto simp: bit_eq_iff bit_simps)
  then have e: "s AND NOT 0xFFFF = s - (s AND 0xFFFF)"
    by (metis add_diff_cancel_right')
  have "s AND NOT 0xFFFF = 0 \<longleftrightarrow> s = s AND 0xFFFF"
    unfolding e by (rule right_minus_eq)
  also have "\<dots> \<longleftrightarrow> unat s = unat (s AND 0xFFFF)" by (rule word_unat_eq_iff)
  also have "\<dots> \<longleftrightarrow> unat s < 65536"
    by (metis unat_and_ffff mod_less mod_less_divisor zero_less_numeral)
  finally show ?thesis by auto
qed

lemma fold_step_less: "65536 \<le> (n :: nat) \<Longrightarrow> n mod 65536 + n div 65536 < n"
proof -
  assume "65536 \<le> n"
  then have "1 \<le> n div 65536" by (simp add: div_greater_zero_iff)
  moreover have "n = 65536 * (n div 65536) + n mod 65536" by simp
  ultimately show ?thesis by linarith
qed

function fold_carry :: "u32 \<Rightarrow> u32" where
  "fold_carry s = (if s AND NOT 0xFFFF \<noteq> 0
     then fold_carry ((s AND 0xFFFF) + drop_bit 16 s) else s)"
  by pat_completeness auto
termination
proof (relation "measure unat")
  fix s :: u32
  assume "s AND NOT 0xFFFF \<noteq> 0"
  then have "65536 \<le> unat s" by (rule high_part_iff [THEN iffD1])
  then show "((s AND 0xFFFF) + drop_bit 16 s, s) \<in> measure unat"
    by (simp add: unat_fold_step fold_step_less)
qed simp

declare fold_carry.simps [simp del]


text \<open>The fold keeps the value modulo \<open>0xFFFF\<close>, ends below \<open>0x10000\<close> and is zero only on zero.\<close>

lemma unat_fold_carry:
  "unat (fold_carry s) < 65536 \<and> unat (fold_carry s) mod 65535 = unat s mod 65535
    \<and> (fold_carry s = 0 \<longleftrightarrow> s = 0)"
proof (induction s rule: fold_carry.induct)
  case (1 s)
  show ?case
  proof (cases "s AND NOT 0xFFFF \<noteq> 0")
    case True
    let ?t = "(s AND 0xFFFF) + drop_bit 16 s"
    have big: "65536 \<le> unat s" using True by (rule high_part_iff [THEN iffD1])
    have s: "unat s = 65535 * (unat s div 65536) + unat ?t"
      by (simp add: unat_fold_step)
    then have m: "unat ?t mod 65535 = unat s mod 65535" by (metis mod_mult_self4)
    have "0 < unat s div 65536" using big by (simp add: div_greater_zero_iff)
    then have "?t \<noteq> 0" by (metis unat_fold_step unat_0 add_is_0 less_irrefl)
    moreover have "s \<noteq> 0" using big by auto
    moreover have "fold_carry s = fold_carry ?t"
      using True by (subst fold_carry.simps) simp
    ultimately show ?thesis using "1.IH" [OF True] m by simp
  next
    case False
    then have "unat s < 65536" using high_part_iff [of s] by linarith
    moreover have "fold_carry s = s" using False by (subst fold_carry.simps) simp
    ultimately show ?thesis by simp
  qed
qed

text \<open>\<open>!sum as u16\<close>.\<close>

definition not_u16 :: "u32 \<Rightarrow> u16" where
  "not_u16 s = ucast (NOT s)"

lemma unat_not_u16: "unat s < 65536 \<Longrightarrow> unat (not_u16 s) = 65535 - unat s"
proof -
  assume a: "unat s < 65536"
  have "not_u16 s = NOT (ucast s)"
    unfolding not_u16_def by (rule bit_word_eqI) (auto simp: bit_simps)
  also have "\<dots> = - 1 - ucast s" by (simp add: not_eq_complement)
  finally have "unat (not_u16 s) = unat (- 1 - ucast s :: u16)" by simp
  also have "\<dots> = unat (- 1 :: u16) - unat (ucast s :: u16)" by (subst unat_sub) simp_all
  also have "unat (ucast s :: u16) = unat s"
    using a by (simp add: unsigned_ucast_eq take_bit_eq_mod)
  finally show ?thesis by (simp add: unsigned_minus_1_eq_mask mask_eq_exp_minus_1)
qed

lemma checksum_completes:
  "checksum_ok (unat s + unat (not_u16 (fold_carry s)))"
proof -
  let ?f = "unat (fold_carry s)"
  have f: "?f < 65536" "?f mod 65535 = unat s mod 65535"
    using unat_fold_carry by blast+
  have "(unat s + unat (not_u16 (fold_carry s))) mod 65535 = (unat s + (65535 - ?f)) mod 65535"
    using f by (simp add: unat_not_u16)
  also have "\<dots> = (?f + (65535 - ?f)) mod 65535"
    by (rule mod_add_cong) (simp_all add: f(2))
  also have "\<dots> = 0" using f by simp
  finally show ?thesis by (simp add: checksum_ok_def)
qed

lemma words_sum_append: "even (length xs) \<Longrightarrow> words_sum (xs @ ys) = words_sum xs + words_sum ys"
  by (induction xs rule: words_sum.induct) auto

lemma words_sum_enc16 [simp]: "words_sum (enc16 v) = unat v"
proof -
  have "words_sum (enc16 v) = unat (be16 (ucast (drop_bit 8 v)) (ucast v))"
    unfolding unat_be16 by (simp add: enc16_def)
  then show ?thesis by simp
qed

lemma words_sum_le: "words_sum xs \<le> 65535 * ((length xs + 1) div 2)"
proof (induction xs rule: words_sum.induct)
  case (2 a)
  then show ?case using u8_less [of a] by simp
next
  case (3 a b rest)
  then show ?case using u8_less [of a] u8_less [of b] by simp
qed simp

lemma words_sum_replicate_0 [simp]: "words_sum (replicate n 0) = 0"
  by (induction n rule: nat_induct2) (simp_all add: numeral_2_eq_2)

text \<open>Reading one more 16-bit word at an even offset extends the sum.\<close>

lemma words_sum_take_step:
  assumes "i + 2 \<le> length xs"
  shows "words_sum (drop i xs) = unat (be16 (xs ! i) (xs ! (i + 1))) + words_sum (drop (i + 2) xs)"
proof -
  have "drop i xs = xs ! i # xs ! (i + 1) # drop (i + 2) xs"
    using assms by (simp add: Cons_nth_drop_Suc)
  then show ?thesis by (simp add: unat_be16)
qed

end
