(* ===== verification/Ipv4_Header.thy ===== *)
theory Ipv4_Header
  imports Prelude
begin

text \<open>
  \<open>relay/ipv4_header.rs\<close>: the fields of an IPv4 header the relay uses, their setters on the raw
  bytes, and the header checksum.
\<close>

datatype protocol = Tcp | Udp | Other

record ipv4_header_data =
  ih_version :: u8
  ih_header_length :: u8
  ih_total_length :: u16
  ih_protocol :: protocol
  ih_source :: u32
  ih_destination :: u32

definition protocol_of :: "u8 \<Rightarrow> protocol" where
  "protocol_of b = (if b = 6 then Tcp else if b = 17 then Udp else Other)"

definition ipv4_header_parse :: "bytes \<Rightarrow> ipv4_header_data option" where
  "ipv4_header_parse raw = do {
     b0 \<leftarrow> index raw 0;
     total_length \<leftarrow> read_u16 raw 2;
     b9 \<leftarrow> index raw 9;
     source \<leftarrow> read_u32 raw 12;
     destination \<leftarrow> read_u32 raw 16;
     Some \<lparr>ih_version = drop_bit 4 b0,
           ih_header_length = push_bit 2 (b0 AND 0xf),
           ih_total_length = total_length,
           ih_protocol = protocol_of b9,
           ih_source = source,
           ih_destination = destination\<rparr>
   }"

definition peek_version_length :: "bytes \<Rightarrow> (u8 \<times> u16) option" where
  "peek_version_length raw = (if length raw \<ge> 4
     then Some (drop_bit 4 (raw ! 0), be16 (raw ! 2) (raw ! 3)) else None)"

type_synonym ipv4_header_mut = "ipv4_header_data header_view"

definition ipv4_set_total_length :: "u16 \<Rightarrow> ipv4_header_mut \<Rightarrow> ipv4_header_mut option" where
  "ipv4_set_total_length v = (\<lambda>(raw, data). do {
     raw' \<leftarrow> write_u16 2 v raw;
     Some (raw', data\<lparr>ih_total_length := v\<rparr>) })"

definition ipv4_set_source :: "u32 \<Rightarrow> ipv4_header_mut \<Rightarrow> ipv4_header_mut option" where
  "ipv4_set_source v = (\<lambda>(raw, data). do {
     raw' \<leftarrow> write_u32 12 v raw;
     Some (raw', data\<lparr>ih_source := v\<rparr>) })"

definition ipv4_set_destination :: "u32 \<Rightarrow> ipv4_header_mut \<Rightarrow> ipv4_header_mut option" where
  "ipv4_set_destination v = (\<lambda>(raw, data). do {
     raw' \<leftarrow> write_u32 16 v raw;
     Some (raw', data\<lparr>ih_destination := v\<rparr>) })"

definition ipv4_swap_source_and_destination :: "ipv4_header_mut \<Rightarrow> ipv4_header_mut option" where
  "ipv4_swap_source_and_destination = (\<lambda>(raw, data). do {
     raw' \<leftarrow> swap_each [12..<16] 4 raw;
     Some (raw', data\<lparr>ih_source := ih_destination data, ih_destination := ih_source data\<rparr>) })"

definition ipv4_set_checksum :: "u16 \<Rightarrow> ipv4_header_mut \<Rightarrow> ipv4_header_mut option" where
  "ipv4_set_checksum v = (\<lambda>(raw, data). do {
     raw' \<leftarrow> write_u16 10 v raw;
     Some (raw', data) })"

text \<open>The \<open>u32\<close> sum of the 16-bit words of \<open>raw\<close> at the given word indices.\<close>

fun sum_words :: "bytes \<Rightarrow> nat list \<Rightarrow> u32 \<Rightarrow> u32 option" where
  "sum_words raw [] acc = Some acc"
| "sum_words raw (i # is) acc = do { w \<leftarrow> read_u16 raw (2 * i); sum_words raw is (acc + ucast w) }"

text \<open>The checksum field, word 5, is skipped.\<close>

definition ipv4_update_checksum :: "ipv4_header_mut \<Rightarrow> ipv4_header_mut option" where
  "ipv4_update_checksum = (\<lambda>(raw, data). do {
     let j = unat (ih_header_length data) div 2;
     sum \<leftarrow> sum_words raw ([0..<5] @ [6..<j]) 0;
     ipv4_set_checksum (not_u16 (fold_carry sum)) (raw, data) })"

section \<open>The setters keep the data in step with the bytes\<close>

lemmas ipv4_setter_defs = ipv4_set_total_length_def ipv4_set_source_def ipv4_set_destination_def
  ipv4_swap_source_and_destination_def ipv4_set_checksum_def

lemma ipv4_header_parse_eq:
  "20 \<le> length raw \<Longrightarrow> ipv4_header_parse raw = Some \<lparr>ih_version = drop_bit 4 (raw ! 0),
     ih_header_length = push_bit 2 ((raw ! 0) AND 0xf),
     ih_total_length = be16 (raw ! 2) (raw ! 3),
     ih_protocol = protocol_of (raw ! 9),
     ih_source = be32 (raw ! 12) (raw ! 13) (raw ! 14) (raw ! 15),
     ih_destination = be32 (raw ! 16) (raw ! 17) (raw ! 18) (raw ! 19)\<rparr>"
  by (auto simp: ipv4_header_parse_def index_def slicing)

lemma ipv4_header_parse_total: "20 \<le> length raw \<Longrightarrow> \<exists>d. ipv4_header_parse raw = Some d"
  using ipv4_header_parse_eq by blast

lemma ipv4_header_parse_short: "length raw < 20 \<Longrightarrow> ipv4_header_parse raw = None"
  by (simp add: ipv4_header_parse_def read_u32_def bind_eq_None_conv)

lemma ipv4_header_parse_Some_length: "ipv4_header_parse raw = Some d \<Longrightarrow> 20 \<le> length raw"
  by (rule ccontr) (simp add: ipv4_header_parse_short)

lemma swap_each_ipv4:
  "20 \<le> length raw \<Longrightarrow> swap_each [12, 13, 14, 15] 4 raw = Some
    (raw[12 := raw ! 16, 16 := raw ! 12, 13 := raw ! 17, 17 := raw ! 13,
         14 := raw ! 18, 18 := raw ! 14, 15 := raw ! 19, 19 := raw ! 15])"
  by (simp add: swap_each.simps swap_at_def)

definition ipv4_setters :: "(ipv4_header_mut \<Rightarrow> ipv4_header_mut option) set" where
  "ipv4_setters = range ipv4_set_total_length \<union> range ipv4_set_source \<union> range ipv4_set_destination
     \<union> range ipv4_set_checksum \<union> {ipv4_swap_source_and_destination}"

lemma ipv4_setter_total:
  "f \<in> ipv4_setters \<Longrightarrow> 20 \<le> length raw \<Longrightarrow> \<exists>v. f (raw, d) = Some v"
  by (auto simp: ipv4_setters_def ipv4_setter_defs slicing swap_each_ipv4)

lemma ipv4_setter_length:
  "f \<in> ipv4_setters \<Longrightarrow> f (raw, d) = Some (raw', d') \<Longrightarrow> length raw' = length raw"
  by (auto simp: ipv4_setters_def ipv4_setter_defs bind_eq_Some_conv lengths)

lemma ipv4_setter_coherent:
  assumes "f \<in> ipv4_setters" and p: "ipv4_header_parse raw = Some d" and "f (raw, d) = Some (raw', d')"
  shows "ipv4_header_parse raw' = Some d'"
proof -
  have l: "20 \<le> length raw" "20 \<le> length raw'"
    using ipv4_header_parse_Some_length [OF p] ipv4_setter_length [OF assms(1,3)] by simp_all
  show ?thesis
    using assms l
    by (auto simp: ipv4_setters_def ipv4_setter_defs bind_eq_Some_conv ipv4_header_parse_eq
        write_u16_Some write_u32_Some swap_each_ipv4 enc16_def enc32_def nth_append min_def)
qed

interpretation ipv4_view: header_view ipv4_header_parse 20 ipv4_setters
  by unfold_locales (fact ipv4_header_parse_total ipv4_setter_total ipv4_setter_length
      ipv4_setter_coherent)+

section \<open>The header checksum\<close>

lemma sum_words_append: "sum_words raw (is @ js) acc = sum_words raw is acc \<bind> sum_words raw js"
  by (induction "is" arbitrary: acc) (auto simp: bind_eq_None_conv split: bind_split)

lemma sum_words_range:
  "2 * b \<le> length raw \<Longrightarrow> a \<le> b \<Longrightarrow> sum_words raw [a..<b] acc =
    Some (acc + of_nat (words_sum (take (2 * (b - a)) (drop (2 * a) raw))))"
proof (induction "b - a" arbitrary: a acc)
  case (Suc n)
  then have ab: "a < b" "n = b - Suc a" by simp_all
  let ?xs = "take (2 * (b - a)) (drop (2 * a) raw)"
  have "words_sum ?xs = words_sum (drop 0 ?xs)" by simp
  also have "\<dots> = unat (be16 (?xs ! 0) (?xs ! 1)) + words_sum (drop 2 ?xs)"
    using Suc.prems ab by (subst words_sum_take_step) (auto simp: numeral_2_eq_2)
  also have "drop 2 ?xs = take (2 * (b - Suc a)) (drop (2 * Suc a) raw)"
    using ab by (simp add: drop_take algebra_simps)
  finally have w: "words_sum ?xs = unat (be16 (raw ! (2 * a)) (raw ! (2 * a + 1)))
      + words_sum (take (2 * (b - Suc a)) (drop (2 * Suc a) raw))"
    using ab Suc.prems by simp
  have "read_u16 raw (2 * a) = Some (be16 (raw ! (2 * a)) (raw ! (2 * a + 1)))"
    using Suc.prems ab by (simp add: read_u16_def)
  then have "sum_words raw [a..<b] acc
      = sum_words raw [Suc a..<b] (acc + ucast (be16 (raw ! (2 * a)) (raw ! (2 * a + 1))))"
    using ab by (simp add: upt_conv_Cons)
  also have "\<dots> = Some (acc + ucast (be16 (raw ! (2 * a)) (raw ! (2 * a + 1)))
      + of_nat (words_sum (take (2 * (b - Suc a)) (drop (2 * Suc a) raw))))"
    using Suc.hyps(1) [OF ab(2)] Suc.prems ab by simp
  finally show ?case by (simp only: w of_nat_add of_nat_unat add.assoc)
qed simp

text \<open>
  After \<open>update_checksum\<close> the header sums to a multiple of \<open>0xFFFF\<close>, and only the checksum
  field changed.
\<close>

lemma ipv4_update_checksum_ok:
  assumes hl: "unat (ih_header_length d) = hl" and even: "even hl" and min: "20 \<le> hl"
    and len: "hl \<le> length raw"
  shows "\<exists>c. ipv4_update_checksum (raw, d) = Some (take 10 raw @ enc16 c @ drop 12 raw, d)
    \<and> checksum_ok (words_sum (take hl (take 10 raw @ enc16 c @ drop 12 raw)))"
proof -
  let ?S = "words_sum (take 10 raw) + words_sum (take (hl - 12) (drop 12 raw))"
  let ?c = "not_u16 (fold_carry (of_nat ?S))"
  have hl256: "hl < 256" using u8_less [of "ih_header_length d"] hl by simp
  have j: "2 * (hl div 2) = hl" using even by simp
  have s1: "sum_words raw [0..<5] acc = Some (acc + of_nat (words_sum (take 10 raw)))" for acc
    using sum_words_range [of 5 raw 0 acc] len min by simp
  have s2: "sum_words raw [6..<hl div 2] acc = Some (acc + of_nat (words_sum (take (hl - 12) (drop 12 raw))))" for acc
    using sum_words_range [of "hl div 2" raw 6 acc] len min j by (simp add: right_diff_distrib')
  have "sum_words raw ([0..<5] @ [6..<hl div 2]) 0 = Some (of_nat ?S)"
    using s1 s2 by (simp only: sum_words_append bind.bind_lunit add_0 of_nat_add)
  then have eq: "ipv4_update_checksum (raw, d) = Some (take 10 raw @ enc16 ?c @ drop 12 raw, d)"
    using len min hl
    by (simp add: ipv4_update_checksum_def ipv4_set_checksum_def write_u16_Some Let_def
        del: upt_rec_numeral)
  have "?S \<le> 65535 * 6 + 65535 * ((hl - 11) div 2)"
    using words_sum_le [of "take 10 raw"] words_sum_le [of "take (hl - 12) (drop 12 raw)"] len min
    by simp
  also have "\<dots> < 4294967296" using hl256 by simp
  finally have S: "unat (of_nat ?S :: u32) = ?S" by (rule unat_of_nat_u32)
  have "words_sum (take hl (take 10 raw @ enc16 ?c @ drop 12 raw)) = ?S + unat ?c"
    using len min by (simp add: words_sum_append min_def)
  then have "checksum_ok (words_sum (take hl (take 10 raw @ enc16 ?c @ drop 12 raw)))"
    using checksum_completes [of "of_nat ?S"] S by simp
  then show ?thesis using eq by blast
qed

lemma unat_ihl: "unat (push_bit 2 (b AND 0xf) :: u8) = 4 * (unat b mod 16)"
proof -
  have "(0xf :: u8) = mask 4" by (simp add: mask_eq_exp_minus_1)
  then have "b AND 0xf = take_bit 4 b" by (simp add: take_bit_eq_mask)
  then have u: "unat (b AND 0xf) = unat b mod 16"
    by (simp add: unsigned_take_bit_eq take_bit_eq_mod [of _ "unat b"])
  have "push_bit 2 (b AND 0xf) = (b AND 0xf) * 4" by (simp add: push_bit_eq_mult mult.commute)
  then show ?thesis using u by (simp add: unat_word_ariths)
qed

lemma ipv4_parse_header_length:
  "ipv4_header_parse raw = Some d \<Longrightarrow> unat (ih_header_length d) = 4 * (unat (raw ! 0) mod 16)"
  using ipv4_header_parse_eq [of raw] ipv4_header_parse_Some_length [of raw d]
  by (auto simp: unat_ihl simp del: push_bit_and)

lemma ipv4_header_parse_append:
  "20 \<le> length xs \<Longrightarrow> ipv4_header_parse (xs @ ys) = ipv4_header_parse xs"
  by (auto simp: ipv4_header_parse_eq nth_append)

lemma ipv4_parse_protocol:
  "ipv4_header_parse raw = Some d \<Longrightarrow> ih_protocol d = protocol_of (raw ! 9)"
  using ipv4_header_parse_eq [of raw] ipv4_header_parse_Some_length [of raw d] by auto

lemma ipv4_parse_total_length:
  "ipv4_header_parse raw = Some d \<Longrightarrow> ih_total_length d = be16 (raw ! 2) (raw ! 3)"
  using ipv4_header_parse_eq [of raw] ipv4_header_parse_Some_length [of raw d] by auto

end
