(* ===== verification/Tcp_Header.thy ===== *)
theory Tcp_Header
  imports Ipv4_Header
begin

text \<open>
  \<open>relay/tcp_header.rs\<close>: the TCP header, its setters, and the checksum that the code computes
  with two separate sums of the high-order and the low-order bytes.
\<close>

record tcp_header_data =
  th_source_port :: u16
  th_destination_port :: u16
  th_sequence_number :: u32
  th_acknowledgement_number :: u32
  th_header_length :: u8
  th_flags :: u16
  th_window :: u16

definition FLAG_FIN :: u16 where
  "FLAG_FIN = 1"

definition FLAG_SYN :: u16 where
  "FLAG_SYN = push_bit 1 1"

definition FLAG_RST :: u16 where
  "FLAG_RST = push_bit 2 1"

definition FLAG_PSH :: u16 where
  "FLAG_PSH = push_bit 3 1"

definition FLAG_ACK :: u16 where
  "FLAG_ACK = push_bit 4 1"

definition tcp_header_parse :: "bytes \<Rightarrow> tcp_header_data option" where
  "tcp_header_parse raw = do {
     data_offset_and_flags \<leftarrow> read_u16 raw 12;
     source_port \<leftarrow> read_u16 raw 0;
     destination_port \<leftarrow> read_u16 raw 2;
     sequence_number \<leftarrow> read_u32 raw 4;
     acknowledgement_number \<leftarrow> read_u32 raw 8;
     window \<leftarrow> read_u16 raw 14;
     Some \<lparr>th_source_port = source_port,
           th_destination_port = destination_port,
           th_sequence_number = sequence_number,
           th_acknowledgement_number = acknowledgement_number,
           th_header_length = ucast (drop_bit 10 (data_offset_and_flags AND 0xF000)),
           th_flags = data_offset_and_flags AND 0x1FF,
           th_window = window\<rparr>
   }"

definition is_fin :: "tcp_header_data \<Rightarrow> bool" where
  "is_fin d \<longleftrightarrow> th_flags d AND FLAG_FIN \<noteq> 0"

definition is_syn :: "tcp_header_data \<Rightarrow> bool" where
  "is_syn d \<longleftrightarrow> th_flags d AND FLAG_SYN \<noteq> 0"

definition is_rst :: "tcp_header_data \<Rightarrow> bool" where
  "is_rst d \<longleftrightarrow> th_flags d AND FLAG_RST \<noteq> 0"

definition is_psh :: "tcp_header_data \<Rightarrow> bool" where
  "is_psh d \<longleftrightarrow> th_flags d AND FLAG_PSH \<noteq> 0"

definition is_ack :: "tcp_header_data \<Rightarrow> bool" where
  "is_ack d \<longleftrightarrow> th_flags d AND FLAG_ACK \<noteq> 0"

type_synonym tcp_header_mut = "tcp_header_data header_view"

definition tcp_set_source_port :: "u16 \<Rightarrow> tcp_header_mut \<Rightarrow> tcp_header_mut option" where
  "tcp_set_source_port v = (\<lambda>(raw, data). do {
     raw' \<leftarrow> write_u16 0 v raw;
     Some (raw', data\<lparr>th_source_port := v\<rparr>) })"

definition tcp_set_destination_port :: "u16 \<Rightarrow> tcp_header_mut \<Rightarrow> tcp_header_mut option" where
  "tcp_set_destination_port v = (\<lambda>(raw, data). do {
     raw' \<leftarrow> write_u16 2 v raw;
     Some (raw', data\<lparr>th_destination_port := v\<rparr>) })"

definition tcp_swap_source_and_destination :: "tcp_header_mut \<Rightarrow> tcp_header_mut option" where
  "tcp_swap_source_and_destination = (\<lambda>(raw, data). do {
     raw' \<leftarrow> swap_each [0..<2] 2 raw;
     Some (raw', data\<lparr>th_source_port := th_destination_port data,
                      th_destination_port := th_source_port data\<rparr>) })"

definition tcp_set_sequence_number :: "u32 \<Rightarrow> tcp_header_mut \<Rightarrow> tcp_header_mut option" where
  "tcp_set_sequence_number v = (\<lambda>(raw, data). do {
     raw' \<leftarrow> write_u32 4 v raw;
     Some (raw', data\<lparr>th_sequence_number := v\<rparr>) })"

definition tcp_set_acknowledgement_number :: "u32 \<Rightarrow> tcp_header_mut \<Rightarrow> tcp_header_mut option" where
  "tcp_set_acknowledgement_number v = (\<lambda>(raw, data). do {
     raw' \<leftarrow> write_u32 8 v raw;
     Some (raw', data\<lparr>th_acknowledgement_number := v\<rparr>) })"

definition tcp_set_flags :: "u16 \<Rightarrow> tcp_header_mut \<Rightarrow> tcp_header_mut option" where
  "tcp_set_flags flags = (\<lambda>(raw, data). do {
     w \<leftarrow> read_u16 raw 12;
     raw' \<leftarrow> write_u16 12 ((w AND 0xFE00) OR (flags AND 0x1FF)) raw;
     Some (raw', data\<lparr>th_flags := flags\<rparr>) })"

definition tcp_set_data_offset :: "u8 \<Rightarrow> tcp_header_mut \<Rightarrow> tcp_header_mut option" where
  "tcp_set_data_offset data_offset = (\<lambda>(raw, data). do {
     w \<leftarrow> read_u16 raw 12;
     raw' \<leftarrow> write_u16 12 ((w AND 0x0FFF) OR push_bit 12 (ucast data_offset)) raw;
     Some (raw', data\<lparr>th_header_length := push_bit 2 data_offset\<rparr>) })"

definition tcp_shrink_options :: "tcp_header_mut \<Rightarrow> tcp_header_mut option" where
  "tcp_shrink_options = tcp_set_data_offset 5"

definition tcp_set_checksum :: "u16 \<Rightarrow> tcp_header_mut \<Rightarrow> tcp_header_mut option" where
  "tcp_set_checksum v = (\<lambda>(raw, data). do {
     raw' \<leftarrow> write_u16 16 v raw;
     Some (raw', data) })"

text \<open>
  The pointer loop \<open>while p < end\<close> of the \<open>unsafe\<close> block, on offsets.  It adds the byte at
  \<open>p\<close> to the high-order sum and the byte at \<open>p + 1\<close> to the other.  A read outside the slice,
  undefined in the code, is \<^const>\<open>None\<close>.
\<close>

function tcp_sum_loop :: "bytes \<Rightarrow> nat \<Rightarrow> nat \<Rightarrow> u32 \<times> u32 \<Rightarrow> (u32 \<times> u32) option" where
  "tcp_sum_loop raw p stop (hsum, lsum) =
     (if p < stop then do {
        hi \<leftarrow> index raw p;
        lo \<leftarrow> index raw (p + 1);
        tcp_sum_loop raw (p + 2) stop (hsum + ucast hi, lsum + ucast lo)
      } else Some (hsum, lsum))"
  by pat_completeness auto
termination
  by (relation "measure (\<lambda>(raw, p, stop, acc). stop - p)") auto

declare tcp_sum_loop.simps [simp del]

text \<open>
  The \<open>u16\<close> subtractions wrap in a release build, where the two \<open>debug_assert\<close>s are not
  checked.  The end of the second loop is \<open>payload_length - 1\<close>, which is before the start for an
  empty payload.
\<close>

definition tcp_update_checksum ::
    "ipv4_header_data \<Rightarrow> bytes \<Rightarrow> tcp_header_mut \<Rightarrow> tcp_header_mut option" where
  "tcp_update_checksum ipv4_header_data payload = (\<lambda>(raw, data). do {
     let source = ih_source ipv4_header_data;
     let destination = ih_destination ipv4_header_data;
     let transport_length = ih_total_length ipv4_header_data - ucast (ih_header_length ipv4_header_data);
     let header_length = th_header_length data;
     let payload_length = transport_length - ucast header_length;
     let lsum = 6;
     let lsum = lsum + drop_bit 16 source;
     let lsum = lsum + (source AND 0xFFFF);
     let lsum = lsum + drop_bit 16 destination;
     let lsum = lsum + (destination AND 0xFFFF);
     let lsum = lsum + ucast transport_length;
     (raw, data) \<leftarrow> tcp_set_checksum 0 (raw, data);
     (hsum, lsum) \<leftarrow> tcp_sum_loop raw 0 (unat header_length) (0, lsum);
     (hsum, lsum) \<leftarrow> tcp_sum_loop payload 0 (unat payload_length - 1) (hsum, lsum);
     hsum \<leftarrow> (if unat payload_length mod 2 \<noteq> 0 then do {
         last \<leftarrow> index payload (unat payload_length - 1);
         Some (hsum + ucast last)
       } else Some hsum);
     let lsum = lsum + push_bit 8 hsum;
     let lsum = fold_carry lsum;
     tcp_set_checksum (not_u16 lsum) (raw, data) })"

section \<open>The setters keep the data in step with the bytes\<close>

lemmas tcp_setter_defs = tcp_set_source_port_def tcp_set_destination_port_def
  tcp_swap_source_and_destination_def tcp_set_sequence_number_def
  tcp_set_acknowledgement_number_def tcp_set_flags_def tcp_shrink_options_def
  tcp_set_data_offset_def tcp_set_checksum_def

lemma tcp_header_parse_eq:
  "16 \<le> length raw \<Longrightarrow> tcp_header_parse raw = Some \<lparr>
     th_source_port = be16 (raw ! 0) (raw ! 1),
     th_destination_port = be16 (raw ! 2) (raw ! 3),
     th_sequence_number = be32 (raw ! 4) (raw ! 5) (raw ! 6) (raw ! 7),
     th_acknowledgement_number = be32 (raw ! 8) (raw ! 9) (raw ! 10) (raw ! 11),
     th_header_length = ucast (drop_bit 10 (be16 (raw ! 12) (raw ! 13) AND 0xF000)),
     th_flags = be16 (raw ! 12) (raw ! 13) AND 0x1FF,
     th_window = be16 (raw ! 14) (raw ! 15)\<rparr>"
  by (simp add: tcp_header_parse_def slicing numeral_3_eq_3)

lemma tcp_header_parse_total: "20 \<le> length raw \<Longrightarrow> \<exists>d. tcp_header_parse raw = Some d"
  using tcp_header_parse_eq [of raw] by simp

lemma tcp_header_parse_short: "length raw < 16 \<Longrightarrow> tcp_header_parse raw = None"
  by (auto simp: tcp_header_parse_def read_u16_def bind_eq_None_conv)

lemma tcp_header_parse_Some_length: "tcp_header_parse raw = Some d \<Longrightarrow> 16 \<le> length raw"
  by (rule ccontr) (simp add: tcp_header_parse_short)

text \<open>The flag word keeps the data offset, and the data offset word keeps the flags.\<close>

lemma flag_masks: "(0xF000 :: u16) = push_bit 12 (mask 4)" "(0xFE00 :: u16) = push_bit 9 (mask 7)"
  "(0x1FF :: u16) = mask 9" "(0x0FFF :: u16) = mask 12"
  by (simp_all add: mask_eq_exp_minus_1 push_bit_eq_mult)

lemma flag_word:
  "((w AND 0xFE00) OR (f AND 0x1FF)) AND 0xF000 = (w :: u16) AND 0xF000"
  "((w AND 0xFE00) OR (f AND 0x1FF)) AND 0x1FF = (f :: u16) AND 0x1FF"
  unfolding flag_masks by (rule bit_word_eqI; auto simp: bit_simps)+

lemma offset_word_general:
  "((w AND 0x0FFF) OR push_bit 12 k) AND 0xF000 = (push_bit 12 k :: u16)"
  "((w AND 0x0FFF) OR push_bit 12 k) AND 0x1FF = (w :: u16) AND 0x1FF"
  unfolding flag_masks by (rule bit_word_eqI; auto simp: bit_simps)+

lemma offset_word:
  "(ucast (drop_bit 10 (((w AND 0x0FFF) OR push_bit 12 5) AND 0xF000)) :: u8) = 20"
  "((w AND 0x0FFF) OR push_bit 12 5) AND 0x1FF = (w :: u16) AND 0x1FF"
  unfolding offset_word_general by simp_all

text \<open>
  A flag value that fits the nine flag bits is what the header reads back; the code only sets such
  values.
\<close>

definition tcp_setters :: "(tcp_header_mut \<Rightarrow> tcp_header_mut option) set" where
  "tcp_setters = range tcp_set_source_port \<union> range tcp_set_destination_port
     \<union> range tcp_set_sequence_number \<union> range tcp_set_acknowledgement_number
     \<union> tcp_set_flags ` {f. f AND 0x1FF = f} \<union> range tcp_set_checksum
     \<union> {tcp_swap_source_and_destination, tcp_shrink_options}"

lemma tcp_setter_total:
  "f \<in> tcp_setters \<Longrightarrow> 20 \<le> length raw \<Longrightarrow> \<exists>v. f (raw, d) = Some v"
  using four_cells [of raw]
  by (auto simp: tcp_setters_def tcp_setter_defs slicing swap_each_ports)

lemma tcp_setter_length:
  "f \<in> tcp_setters \<Longrightarrow> f (raw, d) = Some (raw', d') \<Longrightarrow> length raw' = length raw"
  by (auto simp: tcp_setters_def tcp_setter_defs bind_eq_Some_conv lengths)

lemma sixteen_cells:
  assumes "16 \<le> length raw"
  shows "\<exists>a0 a1 a2 a3 a4 a5 a6 a7 a8 a9 a10 a11 a12 a13 a14 a15 rest.
    raw = a0 # a1 # a2 # a3 # a4 # a5 # a6 # a7 # a8 # a9 # a10 # a11 # a12 # a13 # a14 # a15 # rest"
  using assms by (auto simp: numeral_eq_Suc Suc_le_length_iff)

lemma tcp_parse_write_12:
  assumes p: "tcp_header_parse raw = Some d" and w: "write_u16 12 v raw = Some raw'"
  shows "tcp_header_parse raw' = Some (d\<lparr>th_header_length := ucast (drop_bit 10 (v AND 0xF000)),
    th_flags := v AND 0x1FF\<rparr>)"
proof -
  have l: "16 \<le> length raw" "16 \<le> length raw'"
    using tcp_header_parse_Some_length [OF p] length_write_u16 [OF w] by simp_all
  obtain a0 a1 a2 a3 a4 a5 a6 a7 a8 a9 a10 a11 a12 a13 a14 a15 rest where
    raw: "raw = a0 # a1 # a2 # a3 # a4 # a5 # a6 # a7 # a8 # a9 # a10 # a11 # a12 # a13 # a14
      # a15 # rest"
    using sixteen_cells [OF l(1)] by (elim exE)
  show ?thesis
    using p w l unfolding raw
    by (auto simp: tcp_header_parse_eq write_u16_def splice_eq_Some enc16_def)
qed

lemma tcp_set_flags_coherent:
  assumes p: "tcp_header_parse raw = Some d" and f: "f AND 0x1FF = f"
    and s: "tcp_set_flags f (raw, d) = Some (raw', d')"
  shows "tcp_header_parse raw' = Some d'"
proof -
  obtain w where w: "read_u16 raw 12 = Some w"
    "write_u16 12 ((w AND 0xFE00) OR (f AND 0x1FF)) raw = Some raw'" "d' = d\<lparr>th_flags := f\<rparr>"
    using s by (auto simp: tcp_set_flags_def bind_eq_Some_conv)
  have hl: "th_header_length d = ucast (drop_bit 10 (w AND 0xF000))"
    using p w(1) tcp_header_parse_eq [of raw] tcp_header_parse_Some_length [OF p]
    by (auto simp: read_u16_def)
  show ?thesis
    using tcp_parse_write_12 [OF p w(2)] f w(3) unfolding flag_word hl [symmetric] by simp
qed

lemma tcp_shrink_options_coherent:
  assumes p: "tcp_header_parse raw = Some d" and s: "tcp_shrink_options (raw, d) = Some (raw', d')"
  shows "tcp_header_parse raw' = Some d'"
proof -
  obtain w where w: "read_u16 raw 12 = Some w"
    "write_u16 12 ((w AND 0x0FFF) OR push_bit 12 5) raw = Some raw'"
    "d' = d\<lparr>th_header_length := 20\<rparr>"
    using s by (auto simp: tcp_shrink_options_def tcp_set_data_offset_def bind_eq_Some_conv)
  have fl: "th_flags d = w AND 0x1FF"
    using p w(1) tcp_header_parse_eq [of raw] tcp_header_parse_Some_length [OF p]
    by (auto simp: read_u16_def)
  show ?thesis
    using tcp_parse_write_12 [OF p w(2)] w(3) unfolding offset_word fl [symmetric] by simp
qed

lemma tcp_setter_coherent:
  assumes f: "f \<in> tcp_setters" and p: "tcp_header_parse raw = Some d"
    and s: "f (raw, d) = Some (raw', d')"
  shows "tcp_header_parse raw' = Some d'"
proof -
  have l: "16 \<le> length raw" "16 \<le> length raw'"
    using tcp_header_parse_Some_length [OF p] tcp_setter_length [OF f s] by simp_all
  obtain a0 a1 a2 a3 a4 a5 a6 a7 a8 a9 a10 a11 a12 a13 a14 a15 rest where
    raw: "raw = a0 # a1 # a2 # a3 # a4 # a5 # a6 # a7 # a8 # a9 # a10 # a11 # a12 # a13 # a14
      # a15 # rest"
    using sixteen_cells [OF l(1)] by (elim exE)
  consider "f \<in> tcp_set_flags ` {f. f AND 0x1FF = f}" | "f = tcp_shrink_options"
    | "f \<in> range tcp_set_source_port \<union> range tcp_set_destination_port
     \<union> range tcp_set_sequence_number \<union> range tcp_set_acknowledgement_number
     \<union> range tcp_set_checksum \<union> {tcp_swap_source_and_destination}"
    using f by (auto simp: tcp_setters_def)
  then show ?thesis
  proof cases
    case 1
    then show ?thesis using tcp_set_flags_coherent p s by blast
  next
    case 2
    then show ?thesis using tcp_shrink_options_coherent p s by blast
  next
    case 3
    then show ?thesis
      using p s l unfolding raw
      by (auto simp: tcp_setter_defs bind_eq_Some_conv tcp_header_parse_eq write_u16_def
          write_u32_def splice_eq_Some swap_each_ports enc16_def enc32_def)
  qed
qed

interpretation tcp_view: header_view tcp_header_parse 20 tcp_setters
  by unfold_locales (fact tcp_header_parse_total tcp_setter_total tcp_setter_length
      tcp_setter_coherent)+

section \<open>The checksum is the RFC 793 one\<close>

text \<open>The pseudo header of RFC 793: addresses, a zero byte, the protocol and the TCP length.\<close>

definition tcp_pseudo_header :: "u32 \<Rightarrow> u32 \<Rightarrow> u16 \<Rightarrow> bytes" where
  "tcp_pseudo_header source destination len =
     enc32 source @ enc32 destination @ [0, 6] @ enc16 len"

lemma words_sum_enc32: "words_sum (enc32 w) = unat w div 65536 + unat w mod 65536"
proof -
  let ?a = "ucast (drop_bit 24 w) :: u8" and ?b = "ucast (drop_bit 16 w) :: u8"
    and ?c = "ucast (drop_bit 8 w) :: u8" and ?d = "ucast w :: u8"
  have "unat w = unat (be32 ?a ?b ?c ?d)" by simp
  then have w: "unat w = (256 * unat ?a + unat ?b) * 65536 + (256 * unat ?c + unat ?d)"
    by (simp only: unat_be32) simp
  have "256 * unat ?c + unat ?d < 65536" using u8_less [of ?c] u8_less [of ?d] by simp
  then have "unat w div 65536 = 256 * unat ?a + unat ?b \<and> unat w mod 65536 = 256 * unat ?c + unat ?d"
    using w by (intro conjI div_nat_eqI mod_nat_eqI; linarith?) (simp_all add: w)
  then show ?thesis by (simp add: enc32_def)
qed

lemma words_sum_pseudo:
  "words_sum (tcp_pseudo_header s d len) = 6 + unat s div 65536 + unat s mod 65536
     + unat d div 65536 + unat d mod 65536 + unat len"
  by (simp add: tcp_pseudo_header_def words_sum_append words_sum_enc32)

text \<open>
  The two sums of the loop, recombined as the code does with \<open>hsum << 8\<close>, are the sum of the
  16-bit words read, \<open>(m + 1) div 2\<close> of them for a distance \<open>m\<close>.
\<close>

lemma tcp_sum_loop_words:
  assumes "p + 2 * ((stop - p + 1) div 2) \<le> length raw"
  shows "\<exists>h' l'. tcp_sum_loop raw p stop (h, l) = Some (h', l') \<and>
    l' + 256 * h' = l + 256 * h + of_nat (words_sum (take (2 * ((stop - p + 1) div 2)) (drop p raw)))"
  using assms
proof (induction raw p stop "(h, l)" arbitrary: h l rule: tcp_sum_loop.induct)
  case (1 raw p stop h l)
  show ?case
  proof (cases "p < stop")
    case True
    let ?k = "(stop - (p + 2) + 1) div 2" and ?xs = "take (2 * ((stop - p + 1) div 2)) (drop p raw)"
    have k: "(stop - p + 1) div 2 = Suc ?k"
    proof (cases "stop = p + 1")
      case False
      then have "stop - p + 1 = (stop - (p + 2) + 1) + 2" using True by linarith
      then show ?thesis by simp
    qed simp
    then have room: "p + 2 + 2 * ?k \<le> length raw" using "1.prems" by simp
    have i: "index raw p = Some (raw ! p)" "index raw (p + 1) = Some (raw ! (p + 1))"
      using room by (auto simp: index_def)
    obtain h' l' where IH: "tcp_sum_loop raw (p + 2) stop (h + ucast (raw ! p), l + ucast (raw ! (p + 1)))
        = Some (h', l')"
      "l' + 256 * h' = l + ucast (raw ! (p + 1)) + 256 * (h + ucast (raw ! p))
        + of_nat (words_sum (take (2 * ?k) (drop (p + 2) raw)))"
      using "1.hyps" [OF True i] room by blast
    have "?xs = raw ! p # raw ! (p + 1) # take (2 * ?k) (drop (p + 2) raw)"
      unfolding k using room by (simp add: Cons_nth_drop_Suc [symmetric])
    then have "words_sum ?xs = 256 * unat (raw ! p) + unat (raw ! (p + 1))
        + words_sum (take (2 * ?k) (drop (p + 2) raw))" by simp
    then have "(of_nat (words_sum ?xs) :: u32) = 256 * ucast (raw ! p) + ucast (raw ! (p + 1))
        + of_nat (words_sum (take (2 * ?k) (drop (p + 2) raw)))" by simp
    moreover have "tcp_sum_loop raw p stop (h, l) = Some (h', l')"
      using True i IH(1) by (subst tcp_sum_loop.simps) (simp add: index_def)
    ultimately show ?thesis using IH(2) by (simp add: algebra_simps)
  next
    case False
    then show ?thesis by (subst tcp_sum_loop.simps) simp
  qed
qed

text \<open>The part of the payload that the pointer loop leaves to the odd-length case.\<close>

lemma tcp_sum_payload:
  "\<exists>h' l'. tcp_sum_loop xs 0 (length xs - 1) (h, l) = Some (h', l') \<and>
    l' + 256 * h' = l + 256 * h + of_nat (words_sum (take (2 * (length xs div 2)) xs))"
proof (cases "xs = []")
  case True
  then show ?thesis by (subst tcp_sum_loop.simps) simp
next
  case False
  then have "length xs - 1 - 0 + 1 = length xs" by (cases xs) simp_all
  then show ?thesis
    using tcp_sum_loop_words [of 0 "length xs - 1" xs h l] by simp
qed

lemma words_sum_odd_tail:
  "words_sum xs = words_sum (take (2 * (length xs div 2)) xs)
     + (if odd (length xs) then 256 * unat (xs ! (length xs - 1)) else 0)"
proof (induction xs rule: words_sum.induct)
  case (3 a b rest)
  then show ?case by (cases rest) auto
qed simp_all

lemma of_nat_high_low: "drop_bit 16 (w :: u32) = of_nat (unat w div 65536)"
  "w AND 0xFFFF = of_nat (unat w mod 65536)"
  by (simp_all add: word_unat_eq_iff unat_and_ffff unat_shr_16 unat_of_nat_u32 u32_less
      less_imp_diff_less mod_less_eq_dividend [THEN le_less_trans]
      div_le_dividend [THEN le_less_trans])

lemma words_sum_three:
  "even (length xs) \<Longrightarrow> even (length ys) \<Longrightarrow>
    words_sum (xs @ ys @ zs) = words_sum xs + words_sum ys + words_sum zs"
  by (simp only: words_sum_append add.assoc)

lemma words_sum_short:
  assumes "length xs < 131072"
  shows "words_sum xs < 4294967296"
proof -
  have "(length xs + 1) div 2 \<le> 65536" using assms by simp
  then show ?thesis using words_sum_le [of xs] by linarith
qed

lemma tcp_words_checked:
  assumes "even (length xs)" and "even hl" and "20 \<le> hl" and "hl \<le> length raw"
  shows "words_sum (xs @ take hl (take 16 raw @ enc16 c @ drop 18 raw) @ ys)
    = words_sum (xs @ take hl (take 16 raw @ enc16 0 @ drop 18 raw) @ ys) + unat c"
proof -
  have "take hl (take 16 raw @ enc16 v @ drop 18 raw)
      = take 16 raw @ enc16 v @ take (hl - 18) (drop 18 raw)" for v
    using assms by simp
  then show ?thesis using assms by (simp add: words_sum_append)
qed

lemma tcp_update_checksum_ok:
  assumes hl: "unat (th_header_length data) = hl" and even: "even hl" and min: "20 \<le> hl"
    and room: "hl \<le> length raw"
    and total: "unat (ih_total_length ip) = unat (ih_header_length ip) + hl + length payload"
  shows "\<exists>c. tcp_update_checksum ip payload (raw, data) = Some (take 16 raw @ enc16 c @ drop 18 raw, data)
    \<and> checksum_ok (words_sum (tcp_pseudo_header (ih_source ip) (ih_destination ip)
          (of_nat (hl + length payload))
        @ take hl (take 16 raw @ enc16 c @ drop 18 raw) @ payload))"
proof -
  let ?n = "length payload"
  let ?tl = "ih_total_length ip - ucast (ih_header_length ip)"
  let ?raw0 = "take 16 raw @ enc16 0 @ drop 18 raw"
  let ?s = "ih_source ip" and ?d = "ih_destination ip"
  let ?pseudo = "tcp_pseudo_header ?s ?d (of_nat (hl + ?n))"
  let ?S = "words_sum (?pseudo @ take hl ?raw0 @ payload)"
  let ?c = "not_u16 (fold_carry (of_nat ?S))"
  have tot: "unat ?tl = hl + ?n"
    using total by (subst unat_sub) (simp_all add: word_le_nat_alt)
  have tl: "?tl = of_nat (hl + ?n)" by (simp add: word_unat_eq_iff tot [symmetric])
  have pl: "unat (?tl - ucast (th_header_length data)) = ?n"
    using tot hl by (subst unat_sub) (simp_all add: word_le_nat_alt)
  have set0: "tcp_set_checksum 0 (raw, data) = Some (?raw0, data)"
    using room min by (simp add: tcp_set_checksum_def write_u16_Some)
  have set1: "tcp_set_checksum c (?raw0, data) = Some (take 16 raw @ enc16 c @ drop 18 raw, data)" for c
    using room min by (simp add: tcp_set_checksum_def write_u16_Some min_def)
  have len0: "length ?raw0 = length raw" using room min by simp
  have lens: "length ?pseudo = 12" "length (take hl ?raw0) = hl"
    using room by (simp_all only: length_take len0 min_absorb2) (simp add: tcp_pseudo_header_def)
  define L0 :: u32 where "L0 = 6 + drop_bit 16 ?s + (?s AND 0xFFFF) + drop_bit 16 ?d
    + (?d AND 0xFFFF) + ucast ?tl"
  have L0: "L0 = of_nat (words_sum ?pseudo)"
    unfolding L0_def words_sum_pseudo of_nat_high_low tl [symmetric]
    by (simp add: add.assoc)
  obtain h1 l1 where s1: "tcp_sum_loop ?raw0 0 hl (0, L0) = Some (h1, l1)"
    "l1 + 256 * h1 = L0 + of_nat (words_sum (take hl ?raw0))"
  proof -
    have "2 * ((hl - 0 + 1) div 2) = hl" using even by simp
    then show thesis
      using tcp_sum_loop_words [of 0 hl ?raw0 0 L0] room len0 that
      by (simp only: drop_0 add_0 mult_zero_right add_0_right) blast
  qed
  obtain h2 l2 where s2: "tcp_sum_loop payload 0 (?n - 1) (h1, l1) = Some (h2, l2)"
    "l2 + 256 * h2 = l1 + 256 * h1 + of_nat (words_sum (take (2 * (?n div 2)) payload))"
    using tcp_sum_payload [of payload h1 l1] by blast
  define h3 where "h3 = (if odd ?n then h2 + ucast (payload ! (?n - 1)) else h2)"
  have last: "(if ?n mod 2 \<noteq> 0 then do { last \<leftarrow> index payload (?n - 1); Some (h2 + ucast last) }
      else Some h2) = Some h3"
    unfolding h3_def by (auto simp: index_def odd_iff_mod_2_eq_one)
  have S: "l2 + push_bit 8 h3 = of_nat ?S"
  proof -
    have split: "?S = words_sum ?pseudo + words_sum (take hl ?raw0) + words_sum payload"
      by (rule words_sum_three) (use even in \<open>simp_all only: lens\<close>, simp)
    have "l2 + push_bit 8 h3 = l2 + 256 * h2 + (if odd ?n then 256 * ucast (payload ! (?n - 1)) else 0)"
      unfolding h3_def push_bit_eq_mult by (simp add: algebra_simps)
    also have "\<dots> = of_nat ?S"
      unfolding split s2(2) s1(2) L0 words_sum_odd_tail [of payload] by simp
    finally show ?thesis .
  qed
  have "tcp_update_checksum ip payload (raw, data) = tcp_set_checksum ?c (?raw0, data)"
    unfolding tcp_update_checksum_def Let_def prod.case hl pl set0 bind.bind_lunit
      L0_def [symmetric] s1(1) s2(1) last S ..
  then have eq: "tcp_update_checksum ip payload (raw, data)
      = Some (take 16 raw @ enc16 ?c @ drop 18 raw, data)"
    by (simp only: set1)
  have "?S < 4294967296"
  proof -
    have "hl + ?n < 65536" using tot u16_less [of ?tl] by simp
    moreover have "length (?pseudo @ take hl ?raw0 @ payload) = 12 + hl + ?n"
      by (simp only: length_append lens add.assoc)
    ultimately show ?thesis by (intro words_sum_short) simp
  qed
  then have "unat (of_nat ?S :: u32) = ?S" by (rule unat_of_nat_u32)
  then have "checksum_ok (?S + unat ?c)" using checksum_completes [of "of_nat ?S"] by simp
  moreover have "words_sum (?pseudo @ take hl (take 16 raw @ enc16 ?c @ drop 18 raw) @ payload)
      = ?S + unat ?c"
    by (rule tcp_words_checked) (simp_all add: tcp_pseudo_header_def even room min)
  ultimately show ?thesis using eq by (intro exI [of _ ?c]) (simp only: simp_thms)
qed

text \<open>What the data offset nibble means, and that the fixed header alone decides the data.\<close>

lemma tcp_offset_word: "ucast (drop_bit 10 (be16 a b AND 0xF000)) = (push_bit 2 (drop_bit 4 a) :: u8)"
  unfolding flag_masks be16_def
  by (rule bit_word_eqI) (auto simp: bit_simps dest: bit_imp_le_length)

lemma tcp_parse_header_length:
  assumes "tcp_header_parse raw = Some d"
  shows "unat (th_header_length d) = 4 * (unat (raw ! 12) div 16)"
proof -
  have "16 \<le> length raw" using assms by (rule tcp_header_parse_Some_length)
  then have "th_header_length d = push_bit 2 (drop_bit 4 (raw ! 12))"
    using assms unfolding tcp_offset_word [symmetric, of _ "raw ! 13"] by (auto simp: tcp_header_parse_eq)
  then show ?thesis
    using u8_less [of "raw ! 12"]
    by (simp add: push_bit_eq_mult unat_word_ariths unat_drop_bit_eq drop_bit_eq_div
        less_mult_imp_div_less)
qed

lemma tcp_header_parse_append: "16 \<le> length xs \<Longrightarrow> tcp_header_parse (xs @ ys) = tcp_header_parse xs"
  by (auto simp: tcp_header_parse_eq nth_append)

end
