(* ===== verification/Udp_Header.thy ===== *)
theory Udp_Header
  imports Prelude
begin

text \<open>\<open>relay/udp_header.rs\<close>: the UDP header and its setters. The relay sends no UDP checksum.\<close>

definition udp_header_length :: u8 where
  "udp_header_length = 8"

record udp_header_data =
  uh_source_port :: u16
  uh_destination_port :: u16

definition udp_header_parse :: "bytes \<Rightarrow> udp_header_data option" where
  "udp_header_parse raw = do {
     source_port \<leftarrow> read_u16 raw 0;
     destination_port \<leftarrow> read_u16 raw 2;
     Some \<lparr>uh_source_port = source_port, uh_destination_port = destination_port\<rparr>
   }"

type_synonym udp_header_mut = "udp_header_data header_view"

definition udp_set_source_port :: "u16 \<Rightarrow> udp_header_mut \<Rightarrow> udp_header_mut option" where
  "udp_set_source_port v = (\<lambda>(raw, data). do {
     raw' \<leftarrow> write_u16 0 v raw;
     Some (raw', data\<lparr>uh_source_port := v\<rparr>) })"

definition udp_set_destination_port :: "u16 \<Rightarrow> udp_header_mut \<Rightarrow> udp_header_mut option" where
  "udp_set_destination_port v = (\<lambda>(raw, data). do {
     raw' \<leftarrow> write_u16 2 v raw;
     Some (raw', data\<lparr>uh_destination_port := v\<rparr>) })"

definition udp_swap_source_and_destination :: "udp_header_mut \<Rightarrow> udp_header_mut option" where
  "udp_swap_source_and_destination = (\<lambda>(raw, data). do {
     raw' \<leftarrow> swap_each [0..<2] 2 raw;
     Some (raw', data\<lparr>uh_source_port := uh_destination_port data,
                      uh_destination_port := uh_source_port data\<rparr>) })"

text \<open>The addition is on \<open>u16\<close> and wraps in a release build.\<close>

definition udp_set_payload_length :: "u16 \<Rightarrow> udp_header_mut \<Rightarrow> udp_header_mut option" where
  "udp_set_payload_length payload_length = (\<lambda>(raw, data). do {
     raw' \<leftarrow> write_u16 4 (ucast udp_header_length + payload_length) raw;
     Some (raw', data) })"

definition udp_set_checksum :: "u16 \<Rightarrow> udp_header_mut \<Rightarrow> udp_header_mut option" where
  "udp_set_checksum v = (\<lambda>(raw, data). do {
     raw' \<leftarrow> write_u16 6 v raw;
     Some (raw', data) })"

definition udp_update_checksum :: "udp_header_mut \<Rightarrow> udp_header_mut option" where
  "udp_update_checksum = udp_set_checksum 0"

section \<open>The setters keep the data in step with the bytes\<close>

lemmas udp_setter_defs = udp_set_source_port_def udp_set_destination_port_def
  udp_swap_source_and_destination_def udp_set_payload_length_def udp_set_checksum_def

lemma udp_header_parse_eq:
  "4 \<le> length raw \<Longrightarrow> udp_header_parse raw = Some \<lparr>uh_source_port = be16 (raw ! 0) (raw ! 1),
     uh_destination_port = be16 (raw ! 2) (raw ! 3)\<rparr>"
  by (simp add: udp_header_parse_def slicing numeral_3_eq_3)

lemma udp_header_parse_total: "8 \<le> length raw \<Longrightarrow> \<exists>d. udp_header_parse raw = Some d"
  using udp_header_parse_eq [of raw] by simp

definition udp_setters :: "(udp_header_mut \<Rightarrow> udp_header_mut option) set" where
  "udp_setters = range udp_set_source_port \<union> range udp_set_destination_port
     \<union> range udp_set_payload_length \<union> range udp_set_checksum \<union> {udp_swap_source_and_destination}"

lemma udp_setter_total:
  "f \<in> udp_setters \<Longrightarrow> 8 \<le> length raw \<Longrightarrow> \<exists>v. f (raw, d) = Some v"
  using four_cells [of raw]
  by (auto simp: udp_setters_def udp_setter_defs slicing swap_each_ports)

lemma udp_setter_length:
  "f \<in> udp_setters \<Longrightarrow> f (raw, d) = Some (raw', d') \<Longrightarrow> length raw' = length raw"
  by (auto simp: udp_setters_def udp_setter_defs bind_eq_Some_conv lengths)

lemma udp_header_parse_short: "length raw < 4 \<Longrightarrow> udp_header_parse raw = None"
  by (auto simp: udp_header_parse_def read_u16_def bind_eq_None_conv)

lemma udp_header_parse_Some_length: "udp_header_parse raw = Some d \<Longrightarrow> 4 \<le> length raw"
  by (rule ccontr) (simp add: udp_header_parse_short)

lemma udp_setter_coherent:
  assumes "f \<in> udp_setters" and p: "udp_header_parse raw = Some d" and "f (raw, d) = Some (raw', d')"
  shows "udp_header_parse raw' = Some d'"
proof -
  have l: "4 \<le> length raw" "4 \<le> length raw'"
    using udp_header_parse_Some_length [OF p] udp_setter_length [OF assms(1,3)] by simp_all
  then obtain a b c e rest where raw: "raw = a # b # c # e # rest" using four_cells by blast
  show ?thesis
    using assms l unfolding raw
    by (auto simp: udp_setters_def udp_setter_defs bind_eq_Some_conv udp_header_parse_eq
        write_u16_def splice_eq_Some swap_each_ports enc16_def nth_append min_def numeral_3_eq_3)
qed

interpretation udp_view: header_view udp_header_parse 8 udp_setters
  by unfold_locales (fact udp_header_parse_total udp_setter_total udp_setter_length
      udp_setter_coherent)+

lemma udp_header_parse_append: "4 \<le> length xs \<Longrightarrow> udp_header_parse (xs @ ys) = udp_header_parse xs"
  by (auto simp: udp_header_parse_eq nth_append)

end
