(* ===== verification/Transport_Header.thy ===== *)
theory Transport_Header
  imports Tcp_Header Udp_Header
begin

text \<open>
  \<open>relay/transport_header.rs\<close>: the sum of the TCP and UDP headers, each operation a match on the
  constructor.  A \<open>TransportHeader\<close> or \<open>TransportHeaderMut\<close> is the pair of its slice and its data.
\<close>

datatype transport_header_data = TcpTransport tcp_header_data | UdpTransport udp_header_data

type_synonym transport_header_mut = "transport_header_data header_view"

fun transport_header_parse :: "protocol \<Rightarrow> bytes \<Rightarrow> transport_header_data option option" where
  "transport_header_parse Udp raw = do { d \<leftarrow> udp_header_parse raw; Some (Some (UdpTransport d)) }"
| "transport_header_parse Tcp raw = do { d \<leftarrow> tcp_header_parse raw; Some (Some (TcpTransport d)) }"
| "transport_header_parse Other raw = Some None"

fun transport_source_port :: "transport_header_data \<Rightarrow> u16" where
  "transport_source_port (TcpTransport d) = th_source_port d"
| "transport_source_port (UdpTransport d) = uh_source_port d"

fun transport_destination_port :: "transport_header_data \<Rightarrow> u16" where
  "transport_destination_port (TcpTransport d) = th_destination_port d"
| "transport_destination_port (UdpTransport d) = uh_destination_port d"

fun transport_header_length :: "transport_header_data \<Rightarrow> u8" where
  "transport_header_length (TcpTransport d) = th_header_length d"
| "transport_header_length (UdpTransport d) = udp_header_length"

fun transport_swap_source_and_destination :: "transport_header_mut \<Rightarrow> transport_header_mut option" where
  "transport_swap_source_and_destination (raw, TcpTransport d) = do {
     (raw', d') \<leftarrow> tcp_swap_source_and_destination (raw, d);
     Some (raw', TcpTransport d') }"
| "transport_swap_source_and_destination (raw, UdpTransport d) = do {
     (raw', d') \<leftarrow> udp_swap_source_and_destination (raw, d);
     Some (raw', UdpTransport d') }"

text \<open>TCP does not store its payload length.\<close>

fun transport_set_payload_length :: "u16 \<Rightarrow> transport_header_mut \<Rightarrow> transport_header_mut option" where
  "transport_set_payload_length n (raw, UdpTransport d) = do {
     (raw', d') \<leftarrow> udp_set_payload_length n (raw, d);
     Some (raw', UdpTransport d') }"
| "transport_set_payload_length n (raw, TcpTransport d) = Some (raw, TcpTransport d)"

fun transport_update_checksum ::
    "ipv4_header_data \<Rightarrow> bytes \<Rightarrow> transport_header_mut \<Rightarrow> transport_header_mut option" where
  "transport_update_checksum ipv4_header_data payload (raw, TcpTransport d) = do {
     (raw', d') \<leftarrow> tcp_update_checksum ipv4_header_data payload (raw, d);
     Some (raw', TcpTransport d') }"
| "transport_update_checksum ipv4_header_data payload (raw, UdpTransport d) = do {
     (raw', d') \<leftarrow> udp_update_checksum (raw, d);
     Some (raw', UdpTransport d') }"

section \<open>The views the packets bind\<close>

text \<open>
  Restricted to one constructor the operations are again a header view: the laws of the TCP and the
  UDP header carry over.
\<close>

definition tcp_transport_parse :: "bytes \<Rightarrow> transport_header_data option" where
  "tcp_transport_parse raw = Option.bind (transport_header_parse Tcp raw) id"

definition udp_transport_parse :: "bytes \<Rightarrow> transport_header_data option" where
  "udp_transport_parse raw = Option.bind (transport_header_parse Udp raw) id"

definition transport_setters :: "(transport_header_mut \<Rightarrow> transport_header_mut option) set" where
  "transport_setters = range transport_set_payload_length \<union> {transport_swap_source_and_destination}"

lemma tcp_transport_parse_iff:
  "tcp_transport_parse raw = Some t \<longleftrightarrow> (\<exists>d. t = TcpTransport d \<and> tcp_header_parse raw = Some d)"
  by (auto simp: tcp_transport_parse_def bind_eq_Some_conv)

lemma udp_transport_parse_iff:
  "udp_transport_parse raw = Some t \<longleftrightarrow> (\<exists>d. t = UdpTransport d \<and> udp_header_parse raw = Some d)"
  by (auto simp: udp_transport_parse_def bind_eq_Some_conv)

lemma transport_setter_total:
  assumes f: "f \<in> transport_setters" and l: "20 \<le> length raw"
  shows "\<exists>v. f (raw, t) = Some v"
proof -
  have "tcp_swap_source_and_destination \<in> tcp_setters" "udp_swap_source_and_destination \<in> udp_setters"
    "\<And>n. udp_set_payload_length n \<in> udp_setters"
    by (auto simp: tcp_setters_def udp_setters_def)
  then show ?thesis
    using f l tcp_view.setter_total [of _ raw] udp_view.setter_total [of _ raw]
    by (cases t) (fastforce simp: transport_setters_def bind_eq_Some_conv)+
qed

lemma transport_setter_length:
  "f \<in> transport_setters \<Longrightarrow> f (raw, t) = Some (raw', t') \<Longrightarrow> length raw' = length raw"
  by (cases t) (auto simp: transport_setters_def bind_eq_Some_conv tcp_setter_defs udp_setter_defs
      lengths)

lemma transport_setter_tcp_coherent:
  "f \<in> transport_setters \<Longrightarrow> tcp_header_parse raw = Some d \<Longrightarrow>
    f (raw, TcpTransport d) = Some (raw', t') \<Longrightarrow>
    \<exists>d'. t' = TcpTransport d' \<and> tcp_header_parse raw' = Some d'"
  using tcp_view.setter_coherent [of tcp_swap_source_and_destination raw d raw']
  by (auto simp: transport_setters_def bind_eq_Some_conv tcp_setters_def)

lemma transport_setter_udp_coherent:
  "f \<in> transport_setters \<Longrightarrow> udp_header_parse raw = Some d \<Longrightarrow>
    f (raw, UdpTransport d) = Some (raw', t') \<Longrightarrow>
    \<exists>d'. t' = UdpTransport d' \<and> udp_header_parse raw' = Some d'"
  using udp_view.setter_coherent [of udp_swap_source_and_destination raw d raw']
    udp_view.setter_coherent [of "udp_set_payload_length n" raw d raw' for n]
  by (fastforce simp: transport_setters_def bind_eq_Some_conv udp_setters_def)

interpretation tcp_transport: header_view tcp_transport_parse 20 transport_setters
proof
  show "20 \<le> length raw \<Longrightarrow> \<exists>d. tcp_transport_parse raw = Some d" for raw
    using tcp_view.parse_total [of raw] by (auto simp: tcp_transport_parse_iff)
  show "f \<in> transport_setters \<Longrightarrow> 20 \<le> length raw \<Longrightarrow> \<exists>v. f (raw, t) = Some v" for f raw t
    by (rule transport_setter_total)
qed (auto simp: tcp_transport_parse_iff intro: transport_setter_length
    dest: transport_setter_tcp_coherent)

interpretation udp_transport: header_view udp_transport_parse 20 transport_setters
proof
  show "20 \<le> length raw \<Longrightarrow> \<exists>d. udp_transport_parse raw = Some d" for raw
    using udp_view.parse_total [of raw] by (auto simp: udp_transport_parse_iff)
  show "f \<in> transport_setters \<Longrightarrow> 20 \<le> length raw \<Longrightarrow> \<exists>v. f (raw, t) = Some v" for f raw t
    by (rule transport_setter_total)
qed (auto simp: udp_transport_parse_iff intro: transport_setter_length
    dest: transport_setter_udp_coherent)

end
