(* ===== verification/Ipv4_Packet.thy ===== *)
theory Ipv4_Packet
  imports Transport_Header
begin

text \<open>
  \<open>relay/ipv4_packet.rs\<close>: a slice with the IPv4 and transport headers parsed from it, its
  division into header, transport header and payload, and the checksum pass over the parts.
\<close>

definition MAX_PACKET_LENGTH :: nat where
  "MAX_PACKET_LENGTH = 2 ^ 16"

record ipv4_packet =
  ip_raw :: bytes
  ip_header_data :: ipv4_header_data
  ip_transport_data :: "transport_header_data option"

definition ipv4_packet_parse :: "bytes \<Rightarrow> ipv4_packet option" where
  "ipv4_packet_parse raw = do {
     ipv4_header_data \<leftarrow> ipv4_header_parse raw;
     payload \<leftarrow> slice (unat (ih_header_length ipv4_header_data)) (length raw) raw;
     transport_header_data \<leftarrow> transport_header_parse (ih_protocol ipv4_header_data) payload;
     raw' \<leftarrow> slice 0 (unat (ih_total_length ipv4_header_data)) raw;
     Some \<lparr>ip_raw = raw', ip_header_data = ipv4_header_data,
           ip_transport_data = transport_header_data\<rparr> }"

definition ipv4_packet_new :: "bytes \<Rightarrow> ipv4_header_data \<Rightarrow> transport_header_data \<Rightarrow> ipv4_packet" where
  "ipv4_packet_new raw ipv4_header_data transport_header_data =
     \<lparr>ip_raw = raw, ip_header_data = ipv4_header_data, ip_transport_data = Some transport_header_data\<rparr>"

text \<open>\<open>split\<close> and \<open>split_mut\<close>: the IPv4 header, and the transport header with the payload.\<close>

definition ipv4_packet_split ::
    "ipv4_packet \<Rightarrow> (ipv4_header_mut \<times> (transport_header_mut \<times> bytes) option) option" where
  "ipv4_packet_split p = do {
     let transport_index = unat (ih_header_length (ip_header_data p));
     ipv4_header_slice \<leftarrow> slice 0 transport_index (ip_raw p);
     let ipv4_header = (ipv4_header_slice, ip_header_data p);
     (case ip_transport_data p of
        Some transport_header_data \<Rightarrow> do {
          let payload_index = unat (transport_header_length transport_header_data);
          transport_slice \<leftarrow> slice transport_index (length (ip_raw p)) (ip_raw p);
          transport_header_slice \<leftarrow> slice 0 payload_index transport_slice;
          payload_slice \<leftarrow> slice payload_index (length transport_slice) transport_slice;
          Some (ipv4_header, Some ((transport_header_slice, transport_header_data), payload_slice)) }
      | None \<Rightarrow> Some (ipv4_header, None)) }"

text \<open>\<open>Ipv4Packet::headers\<close>.\<close>

definition ipv4_packet_headers :: "ipv4_packet \<Rightarrow> (ipv4_header_mut \<times> transport_header_mut option) option" where
  "ipv4_packet_headers p = do {
     let transport_index = unat (ih_header_length (ip_header_data p));
     ipv4_header_slice \<leftarrow> slice 0 transport_index (ip_raw p);
     let ipv4_header = (ipv4_header_slice, ip_header_data p);
     (case ip_transport_data p of
        Some transport_header_data \<Rightarrow> do {
          let payload_index = unat (transport_header_length transport_header_data);
          transport_slice \<leftarrow> slice transport_index (length (ip_raw p)) (ip_raw p);
          transport_header_slice \<leftarrow> slice 0 payload_index transport_slice;
          Some (ipv4_header, Some (transport_header_slice, transport_header_data)) }
      | None \<Rightarrow> Some (ipv4_header, None)) }"

definition ipv4_packet_transport_header :: "ipv4_packet \<Rightarrow> transport_header_mut option option" where
  "ipv4_packet_transport_header p = (case ip_transport_data p of
     Some t \<Rightarrow> do {
       let start = unat (ih_header_length (ip_header_data p));
       let stop = start + unat (transport_header_length t);
       slice \<leftarrow> slice start stop (ip_raw p);
       Some (Some (slice, t)) }
   | None \<Rightarrow> Some None)"

definition ipv4_packet_is_valid :: "ipv4_packet \<Rightarrow> bool" where
  "ipv4_packet_is_valid p \<longleftrightarrow> ip_transport_data p \<noteq> None"

definition ipv4_packet_length :: "ipv4_packet \<Rightarrow> u16" where
  "ipv4_packet_length p = ih_total_length (ip_header_data p)"

definition ipv4_packet_payload :: "ipv4_packet \<Rightarrow> bytes option option" where
  "ipv4_packet_payload p = (case ip_transport_data p of
     Some t \<Rightarrow> do {
       payload \<leftarrow> slice (unat (ih_header_length (ip_header_data p)) + unat (transport_header_length t))
         (length (ip_raw p)) (ip_raw p);
       Some (Some payload) }
   | None \<Rightarrow> Some None)"

text \<open>
  The mutable parts of \<open>split_mut\<close> are disjoint slices of \<open>raw\<close>, so writing them back is putting
  them together again.
\<close>

definition ipv4_packet_compute_checksums :: "ipv4_packet \<Rightarrow> ipv4_packet option" where
  "ipv4_packet_compute_checksums p = do {
     (ipv4_header, transport) \<leftarrow> ipv4_packet_split p;
     (ipv4_raw, ipv4_data) \<leftarrow> ipv4_update_checksum ipv4_header;
     (case transport of
        Some (transport_header, payload) \<Rightarrow> do {
          (transport_raw, transport_data) \<leftarrow>
            transport_update_checksum ipv4_data payload transport_header;
          Some (p\<lparr>ip_raw := ipv4_raw @ transport_raw @ payload, ip_header_data := ipv4_data,
            ip_transport_data := Some transport_data\<rparr>) }
      | None \<Rightarrow>
          Some (p\<lparr>ip_raw := ipv4_raw @ drop (length ipv4_raw) (ip_raw p), ip_header_data := ipv4_data\<rparr>)) }"

section \<open>Well-formed packets\<close>

text \<open>
  The slice is as long as the header says and holds both headers, whose lengths are even and at
  least the fixed ones.  Parsing a validated slice gives such a packet, and the packetizer builds
  such packets.
\<close>

definition ipv4_packet_ok :: "ipv4_packet \<Rightarrow> bool" where
  "ipv4_packet_ok p \<longleftrightarrow>
     ipv4_header_parse (ip_raw p) = Some (ip_header_data p) \<and>
     length (ip_raw p) = unat (ih_total_length (ip_header_data p)) \<and>
     20 \<le> unat (ih_header_length (ip_header_data p)) \<and>
     transport_header_parse (ih_protocol (ip_header_data p))
       (drop (unat (ih_header_length (ip_header_data p))) (ip_raw p)) = Some (ip_transport_data p) \<and>
     (case ip_transport_data p of
        None \<Rightarrow> unat (ih_header_length (ip_header_data p)) \<le> length (ip_raw p)
      | Some t \<Rightarrow>
          unat (ih_header_length (ip_header_data p)) + unat (transport_header_length t)
            \<le> length (ip_raw p) \<and>
          (case t of TcpTransport d \<Rightarrow> 20 \<le> unat (th_header_length d) | UdpTransport d \<Rightarrow> True))"

lemma ipv4_packet_okD:
  assumes "ipv4_packet_ok p"
  shows "ipv4_header_parse (ip_raw p) = Some (ip_header_data p)"
    and "length (ip_raw p) = unat (ih_total_length (ip_header_data p))"
    and "20 \<le> unat (ih_header_length (ip_header_data p))"
    and "even (unat (ih_header_length (ip_header_data p)))"
    and "unat (ih_header_length (ip_header_data p)) \<le> length (ip_raw p)"
proof -
  show p: "ipv4_header_parse (ip_raw p) = Some (ip_header_data p)"
    using assms by (simp add: ipv4_packet_ok_def)
  show "even (unat (ih_header_length (ip_header_data p)))"
    unfolding ipv4_parse_header_length [OF p] by simp
qed (use assms in \<open>auto simp: ipv4_packet_ok_def split: option.splits\<close>)

lemma ipv4_packet_ok_transport:
  assumes "ipv4_packet_ok p" and "ip_transport_data p = Some t"
    and hl: "hl = unat (ih_header_length (ip_header_data p))"
  shows "hl + unat (transport_header_length t) \<le> length (ip_raw p)"
    and "transport_header_parse (ih_protocol (ip_header_data p)) (drop hl (ip_raw p)) = Some (Some t)"
    and "even (unat (transport_header_length t))"
    and "8 \<le> unat (transport_header_length t)"
    and "t = TcpTransport d \<Longrightarrow> 20 \<le> unat (th_header_length d)"
proof -
  show parse: "transport_header_parse (ih_protocol (ip_header_data p)) (drop hl (ip_raw p)) = Some (Some t)"
    and "t = TcpTransport d \<Longrightarrow> 20 \<le> unat (th_header_length d)"
    and "hl + unat (transport_header_length t) \<le> length (ip_raw p)"
    using assms by (auto simp: ipv4_packet_ok_def split: option.splits)
  show "8 \<le> unat (transport_header_length t)"
    using assms by (cases t) (auto simp: ipv4_packet_ok_def udp_header_length_def)
  show "even (unat (transport_header_length t))"
    using parse tcp_parse_header_length [of "drop hl (ip_raw p)"]
    by (cases "ih_protocol (ip_header_data p)")
      (auto simp: bind_eq_Some_conv udp_header_length_def)
qed

text \<open>The parts of a well-formed packet, which together are the packet.\<close>

lemma ipv4_packet_split_ok:
  assumes ok: "ipv4_packet_ok p" and hl: "hl = unat (ih_header_length (ip_header_data p))"
    and t: "ip_transport_data p = Some t" and n: "n = unat (transport_header_length t)"
  shows "ipv4_packet_split p = Some ((take hl (ip_raw p), ip_header_data p),
    Some ((take n (drop hl (ip_raw p)), t), drop (hl + n) (ip_raw p)))"
  using ipv4_packet_ok_transport(1) [OF ok t hl]
  by (simp add: ipv4_packet_split_def hl [symmetric] n [symmetric] t slice_Some Let_def
      add.commute)

lemma ipv4_packet_headers_ok:
  assumes ok: "ipv4_packet_ok p" and hl: "hl = unat (ih_header_length (ip_header_data p))"
    and t: "ip_transport_data p = Some t" and n: "n = unat (transport_header_length t)"
  shows "ipv4_packet_headers p = Some ((take hl (ip_raw p), ip_header_data p),
    Some (take n (drop hl (ip_raw p)), t))"
  using ipv4_packet_ok_transport(1) [OF ok t hl]
  by (simp add: ipv4_packet_headers_def hl [symmetric] n [symmetric] t slice_Some Let_def add.commute)

lemma ipv4_packet_payload_ok:
  assumes ok: "ipv4_packet_ok p" and t: "ip_transport_data p = Some t"
  shows "ipv4_packet_payload p = Some (Some (drop (unat (ih_header_length (ip_header_data p))
    + unat (transport_header_length t)) (ip_raw p)))"
  using ipv4_packet_ok_transport(1) [OF ok t refl] by (simp add: ipv4_packet_payload_def t slice_Some)

section \<open>Both checksums are valid after the pass\<close>

text \<open>What a receiver checks: the IPv4 header, and the TCP segment under its pseudo header.\<close>

definition ipv4_checksum_valid :: "ipv4_packet \<Rightarrow> bool" where
  "ipv4_checksum_valid p \<longleftrightarrow>
     checksum_ok (words_sum (take (unat (ih_header_length (ip_header_data p))) (ip_raw p)))"

definition transport_checksum_valid :: "ipv4_packet \<Rightarrow> bool" where
  "transport_checksum_valid p = (let seg = drop (unat (ih_header_length (ip_header_data p))) (ip_raw p) in
     case ip_transport_data p of
       None \<Rightarrow> True
     | Some (TcpTransport d) \<Rightarrow> checksum_ok (words_sum (tcp_pseudo_header (ih_source (ip_header_data p))
         (ih_destination (ip_header_data p)) (of_nat (length seg)) @ seg))
     | Some (UdpTransport d) \<Rightarrow> read_u16 seg 6 = Some 0)"

text \<open>The offset of the checksum in the transport header.\<close>

fun checksum_field :: "transport_header_data \<Rightarrow> nat" where
  "checksum_field (TcpTransport d) = 16"
| "checksum_field (UdpTransport d) = 6"

lemma transport_update_checksum_ok:
  assumes ok: "ipv4_packet_ok p" and t: "ip_transport_data p = Some t"
    and hl: "hl = unat (ih_header_length (ip_header_data p))"
    and n: "n = unat (transport_header_length t)"
    and seg: "seg = drop hl (ip_raw p)"
  shows "\<exists>raw'. transport_update_checksum (ip_header_data p) (drop n seg) (take n seg, t) = Some (raw', t)
    \<and> length raw' = n
    \<and> transport_header_parse (ih_protocol (ip_header_data p)) (raw' @ drop n seg) = Some (Some t)
    \<and> (case t of TcpTransport d \<Rightarrow> checksum_ok (words_sum (tcp_pseudo_header (ih_source (ip_header_data p))
         (ih_destination (ip_header_data p)) (of_nat (length seg)) @ raw' @ drop n seg))
       | UdpTransport d \<Rightarrow> read_u16 (raw' @ drop n seg) 6 = Some 0)
    \<and> (\<forall>i. i \<noteq> checksum_field t \<and> i \<noteq> checksum_field t + 1 \<longrightarrow> raw' ! i = take n seg ! i)"
proof -
  note T = ipv4_packet_ok_transport [OF ok t hl]
  have len: "n \<le> length seg" "length (ip_raw p) = hl + length seg"
    using T(1) ipv4_packet_okD(5) [OF ok] by (simp_all add: seg n hl)
  show ?thesis
  proof (cases t)
    case (TcpTransport d)
    then have pr: "ih_protocol (ip_header_data p) = Tcp" and d: "tcp_header_parse seg = Some d"
      using T(2) by (cases "ih_protocol (ip_header_data p)"; auto simp: bind_eq_Some_conv seg)+
    have n20: "20 \<le> n" "even n" "unat (th_header_length d) = n"
      using T(3,5) TcpTransport by (simp_all add: n)
    let ?upd = "\<lambda>c. take 16 (take n seg) @ enc16 c @ drop 18 (take n seg)"
    obtain c where c: "tcp_update_checksum (ip_header_data p) (drop n seg) (take n seg, d) = Some (?upd c, d)"
      "checksum_ok (words_sum (tcp_pseudo_header (ih_source (ip_header_data p))
         (ih_destination (ip_header_data p)) (of_nat (n + length (drop n seg)))
         @ take n (?upd c) @ drop n seg))"
      using tcp_update_checksum_ok [OF n20(3,2,1), of "take n seg" "ip_header_data p" "drop n seg"]
        len ipv4_packet_okD(2) [OF ok] by (auto simp: hl)
    have l: "length (?upd c) = n" using n20 len by simp
    have same: "i \<noteq> 16 \<Longrightarrow> i \<noteq> 17 \<Longrightarrow> ?upd c ! i = take n seg ! i" for i
      using nth_patch [of 16 "take n seg" i c] n20 len by simp
    have s: "tcp_set_checksum c (take n seg, d) = Some (?upd c, d)"
      using n20 len by (simp add: tcp_set_checksum_def write_u16_Some)
    have q: "tcp_header_parse (take n seg) = Some d"
      using d tcp_header_parse_append [of "take n seg" "drop n seg"] n20 len by simp
    have "tcp_header_parse (?upd c) = Some d"
      using tcp_setter_coherent [of "tcp_set_checksum c", OF _ q s] by (simp add: tcp_setters_def)
    then show ?thesis
      using c l n20 len TcpTransport pr same
      by (intro exI [of _ "?upd c"]) (simp add: tcp_header_parse_append del: append_assoc)
  next
    case (UdpTransport d)
    then have pr: "ih_protocol (ip_header_data p) = Udp" and d: "udp_header_parse seg = Some d"
      using T(2) by (cases "ih_protocol (ip_header_data p)"; auto simp: bind_eq_Some_conv seg)+
    have n8: "n = 8" using UdpTransport by (simp add: n udp_header_length_def)
    let ?raw = "take 6 (take n seg) @ enc16 0 @ drop 8 (take n seg)"
    have s: "udp_set_checksum 0 (take n seg, d) = Some (?raw, d)"
      using n8 len by (simp add: udp_set_checksum_def write_u16_Some)
    have q: "udp_header_parse (take n seg) = Some d"
      using d udp_header_parse_append [of "take n seg" "drop n seg"] n8 len by simp
    have "udp_header_parse ?raw = Some d"
      using udp_setter_coherent [of "udp_set_checksum 0", OF _ q s] by (simp add: udp_setters_def)
    moreover have "read_u16 (?raw @ drop n seg) 6 = Some 0"
      using len n8 by (simp add: read_u16_def nth_append enc16_def be16_def)
    moreover have "i \<noteq> 6 \<Longrightarrow> i \<noteq> 7 \<Longrightarrow> ?raw ! i = take n seg ! i" for i
      using nth_patch [of 6 "take n seg" i 0] n8 len by simp
    ultimately show ?thesis
      using s n8 len UdpTransport pr
      by (intro exI [of _ ?raw]) (simp add: udp_update_checksum_def udp_header_parse_append del: append_assoc)
  qed
qed

lemma ipv4_header_parse_take:
  "20 \<le> n \<Longrightarrow> n \<le> length raw \<Longrightarrow> ipv4_header_parse (take n raw) = ipv4_header_parse raw"
  using ipv4_header_parse_append [of "take n raw" "drop n raw"] by simp

lemma ipv4_update_checksum_parse:
  assumes "ipv4_header_parse raw = Some d" and "20 \<le> unat (ih_header_length d)"
    and "unat (ih_header_length d) \<le> length raw"
  shows "\<exists>raw'. ipv4_update_checksum (raw, d) = Some (raw', d) \<and> length raw' = length raw
    \<and> ipv4_header_parse raw' = Some d
    \<and> checksum_ok (words_sum (take (unat (ih_header_length d)) raw'))
    \<and> (\<forall>i. i \<noteq> 10 \<and> i \<noteq> 11 \<longrightarrow> raw' ! i = raw ! i)"
proof -
  have ev: "even (unat (ih_header_length d))" using ipv4_parse_header_length [OF assms(1)] by simp
  obtain c where c: "ipv4_update_checksum (raw, d) = Some (take 10 raw @ enc16 c @ drop 12 raw, d)"
    "checksum_ok (words_sum (take (unat (ih_header_length d)) (take 10 raw @ enc16 c @ drop 12 raw)))"
    using ipv4_update_checksum_ok [OF refl ev assms(2,3)] by blast
  have s: "ipv4_set_checksum c (raw, d) = Some (take 10 raw @ enc16 c @ drop 12 raw, d)"
    using assms by (simp add: ipv4_set_checksum_def write_u16_Some)
  have mem: "ipv4_set_checksum c \<in> ipv4_setters" by (simp add: ipv4_setters_def)
  show ?thesis
    using c ipv4_view.setter_coherent [OF mem assms(1) s] ipv4_view.setter_length [OF mem s]
      nth_patch [of 10 raw _ c] assms by (intro exI [of _ "take 10 raw @ enc16 c @ drop 12 raw"]) auto
qed

lemma patched_nth:
  assumes len: "hl + n \<le> length raw" and ir: "length ir = hl" and tr: "length tr = n"
    and same_ir: "\<forall>i. i \<noteq> a \<and> i \<noteq> b \<longrightarrow> ir ! i = take hl raw ! i"
    and same_tr: "\<forall>i. i \<noteq> k \<and> i \<noteq> k + 1 \<longrightarrow> tr ! i = take n (drop hl raw) ! i"
    and i: "i \<noteq> a" "i \<noteq> b" "i \<noteq> hl + k" "i \<noteq> hl + k + 1"
  shows "(ir @ tr @ drop n (drop hl raw)) ! i = raw ! i"
proof -
  consider "i < hl" | j where "i = hl + j" "j < n" | j where "i = hl + n + j"
    by (metis add.assoc le_Suc_ex not_less)
  then show ?thesis
  proof cases
    case 1
    then show ?thesis using same_ir i ir by (simp add: nth_append)
  next
    case 2
    then have "tr ! j = take n (drop hl raw) ! j" using same_tr i by auto
    then show ?thesis using 2 len ir tr by (simp add: nth_append)
  next
    case 3
    then show ?thesis using len ir tr by (simp add: nth_append add.commute)
  qed
qed

text \<open>The cells of a packet that hold its checksums.\<close>

definition checksum_cell :: "ipv4_packet \<Rightarrow> nat \<Rightarrow> bool" where
  "checksum_cell p i \<longleftrightarrow> i = 10 \<or> i = 11 \<or> (case ip_transport_data p of None \<Rightarrow> False
     | Some t \<Rightarrow> (let k = unat (ih_header_length (ip_header_data p)) + checksum_field t in
         i = k \<or> i = k + 1))"

lemma ipv4_packet_compute_checksums_ok:
  assumes ok: "ipv4_packet_ok p"
  shows "\<exists>p'. ipv4_packet_compute_checksums p = Some p' \<and> ipv4_packet_ok p'
    \<and> length (ip_raw p') = length (ip_raw p)
    \<and> ip_header_data p' = ip_header_data p \<and> ip_transport_data p' = ip_transport_data p
    \<and> ipv4_packet_payload p' = ipv4_packet_payload p
    \<and> ipv4_checksum_valid p' \<and> transport_checksum_valid p'
    \<and> (\<forall>i. checksum_cell p i \<or> ip_raw p' ! i = ip_raw p ! i)"
proof -
  let ?d = "ip_header_data p"
  define hl where hl: "hl = unat (ih_header_length ?d)"
  note P = ipv4_packet_okD [OF ok]
  have h: "20 \<le> hl" "hl \<le> length (ip_raw p)" using P by (simp_all add: hl)
  obtain ir where ir: "ipv4_update_checksum (take hl (ip_raw p), ?d) = Some (ir, ?d)"
    "length ir = hl" "ipv4_header_parse ir = Some ?d" "checksum_ok (words_sum (take hl ir))"
    "\<forall>i. i \<noteq> 10 \<and> i \<noteq> 11 \<longrightarrow> ir ! i = take hl (ip_raw p) ! i"
    using ipv4_update_checksum_parse [of "take hl (ip_raw p)" ?d] h P(1)
    by (auto simp: ipv4_header_parse_take hl)
  have parse: "ipv4_header_parse (ir @ xs) = Some ?d" for xs
    using ir h by (simp add: ipv4_header_parse_append)
  show ?thesis
  proof (cases "ip_transport_data p")
    case None
    then show ?thesis
      using ir h ok parse
      by (auto simp: ipv4_packet_compute_checksums_def ipv4_packet_split_def slice_Some hl [symmetric]
          ipv4_packet_ok_def ipv4_packet_payload_def ipv4_checksum_valid_def
          transport_checksum_valid_def checksum_cell_def nth_append Let_def)
  next
    case (Some t)
    define n where n: "n = unat (transport_header_length t)"
    let ?seg = "drop hl (ip_raw p)"
    have len: "hl + n \<le> length (ip_raw p)"
      using ipv4_packet_ok_transport(1) [OF ok Some hl] by (simp add: n)
    obtain tr where tr: "transport_update_checksum ?d (drop n ?seg) (take n ?seg, t) = Some (tr, t)"
      "length tr = n"
      "transport_header_parse (ih_protocol ?d) (tr @ drop n ?seg) = Some (Some t)"
      "case t of TcpTransport d \<Rightarrow> checksum_ok (words_sum (tcp_pseudo_header (ih_source ?d)
         (ih_destination ?d) (of_nat (length ?seg)) @ tr @ drop n ?seg))
       | UdpTransport d \<Rightarrow> read_u16 (tr @ drop n ?seg) 6 = Some 0"
      "\<forall>i. i \<noteq> checksum_field t \<and> i \<noteq> checksum_field t + 1 \<longrightarrow> tr ! i = take n ?seg ! i"
      using transport_update_checksum_ok [OF ok Some hl n refl] by blast
    let ?p = "p\<lparr>ip_raw := ir @ tr @ drop n ?seg, ip_header_data := ?d, ip_transport_data := Some t\<rparr>"
    have eq: "ipv4_packet_compute_checksums p = Some ?p"
      using ir(1) tr(1)
      by (simp add: ipv4_packet_compute_checksums_def ipv4_packet_split_ok [OF ok hl Some n] add.commute)
    have L: "length (ir @ tr @ drop n ?seg) = length (ip_raw p)" using ir tr len by simp
    have "ipv4_packet_ok ?p"
      using ok Some L parse ir(2) tr(3) len by (auto simp: ipv4_packet_ok_def hl [symmetric] n)
    moreover have "ipv4_packet_payload ?p = ipv4_packet_payload p"
      using len ir(2) tr(2) Some
      by (simp add: ipv4_packet_payload_def slice_def hl [symmetric] n [symmetric] add.commute)
    moreover have "ipv4_checksum_valid ?p"
      using ir by (simp add: ipv4_checksum_valid_def hl [symmetric])
    moreover have "transport_checksum_valid ?p"
      using tr(2,4) ir(2) len
      by (simp add: transport_checksum_valid_def hl [symmetric] Let_def
          split: transport_header_data.splits)
    moreover have "checksum_cell p i \<or> ip_raw ?p ! i = ip_raw p ! i" for i
      using patched_nth [OF len ir(2) tr(2) ir(5) tr(5), of i] Some
      by (auto simp: checksum_cell_def hl [symmetric] Let_def)
    ultimately show ?thesis using eq L Some by auto
  qed
qed

end
