(* ===== verification/Ipv6_Packet.thy ===== *)
theory Ipv6_Packet
  imports Transport_Header
begin

text \<open>
  \<open>relay/ipv6_header.rs\<close>, \<open>relay/ipv6_packet.rs\<close> and the error types of \<open>relay/ip_packet.rs\<close>:
  the fixed IPv6 header, and the validation of an IPv6 packet with its transport header.
\<close>

definition IPV6_HEADER_LENGTH :: nat where
  "IPV6_HEADER_LENGTH = 40"

datatype ipv6_header_error = TruncatedHeader | InvalidVersion | TruncatedPayload

text \<open>The addresses are 16-byte arrays.\<close>

record ipv6_header_data =
  i6_payload_length :: u16
  i6_next_header :: u8
  i6_source :: bytes
  i6_destination :: bytes

definition ipv6_header_parse :: "bytes \<Rightarrow> (ipv6_header_error, ipv6_header_data) fallible" where
  "ipv6_header_parse raw =
     (if length raw < IPV6_HEADER_LENGTH then err TruncatedHeader
      else do {
        b0 \<leftarrow> index raw 0;
        if drop_bit 4 b0 \<noteq> 6 then err InvalidVersion
        else do {
          payload_length \<leftarrow> read_u16 raw 4;
          if length raw < IPV6_HEADER_LENGTH + unat payload_length then err TruncatedPayload
          else do {
            source \<leftarrow> slice 8 24 raw;
            destination \<leftarrow> slice 24 40 raw;
            next_header \<leftarrow> index raw 6;
            ok \<lparr>i6_payload_length = payload_length, i6_next_header = next_header,
                i6_source = source, i6_destination = destination\<rparr> } } })"

definition ipv6_header_parse_header_only ::
    "bytes \<Rightarrow> (ipv6_header_error, ipv6_header_data) fallible" where
  "ipv6_header_parse_header_only raw =
     (if length raw < IPV6_HEADER_LENGTH then err TruncatedHeader
      else do {
        b0 \<leftarrow> index raw 0;
        if drop_bit 4 b0 \<noteq> 6 then err InvalidVersion
        else do {
          source \<leftarrow> slice 8 24 raw;
          destination \<leftarrow> slice 24 40 raw;
          payload_length \<leftarrow> read_u16 raw 4;
          next_header \<leftarrow> index raw 6;
          ok \<lparr>i6_payload_length = payload_length, i6_next_header = next_header,
              i6_source = source, i6_destination = destination\<rparr> } })"

definition ipv6_total_length :: "ipv6_header_data \<Rightarrow> nat" where
  "ipv6_total_length d = IPV6_HEADER_LENGTH + unat (i6_payload_length d)"

datatype unsupported_packet = Ipv4Fragment | Ipv6ExtensionHeader u8 | Ipv6FragmentHeader
  | Ipv6NextHeader u8

datatype packet_parse_error = Malformed string | Unsupported unsupported_packet

fun packet_parse_error_of :: "ipv6_header_error \<Rightarrow> packet_parse_error" where
  "packet_parse_error_of TruncatedHeader = Malformed ''truncated IPv6 packet''"
| "packet_parse_error_of TruncatedPayload = Malformed ''truncated IPv6 packet''"
| "packet_parse_error_of InvalidVersion = Malformed ''invalid IPv6 version''"

text \<open>\<open>map_err\<close>.\<close>

definition map_err :: "('e \<Rightarrow> 'f) \<Rightarrow> ('e, 'a) fallible \<Rightarrow> ('f, 'a) fallible" where
  "map_err f = map_option (map_sum f id)"

record ipv6_packet =
  i6p_raw :: bytes
  i6p_header_data :: ipv6_header_data
  i6p_transport_data :: transport_header_data

text \<open>The \<open>match next_header\<close> that opens \<open>Ipv6Packet::parse\<close>.\<close>

definition ipv6_protocol :: "u8 \<Rightarrow> packet_parse_error + protocol" where
  "ipv6_protocol next_header =
     (if next_header = 6 then Inr Tcp
      else if next_header = 17 then Inr Udp
      else if next_header = 44 then Inl (Unsupported Ipv6FragmentHeader)
      else if next_header \<in> {0, 43, 50, 51, 60, 135}
        then Inl (Unsupported (Ipv6ExtensionHeader next_header))
      else Inl (Unsupported (Ipv6NextHeader next_header)))"

text \<open>
  The checks of the transport header that \<open>Ipv6Packet::parse\<close> and \<open>validate_ipv4\<close> write out with
  the same text: \<open>payload\<close> is the slice, \<open>payload_length\<close> its length.
\<close>

definition validate_transport :: "protocol \<Rightarrow> bytes \<Rightarrow> (packet_parse_error, unit) fallible" where
  "validate_transport protocol payload = (let payload_length = length payload in
     if protocol = Tcp then
       (if payload_length < 20 then err (Malformed ''truncated TCP header'')
        else do {
          b12 \<leftarrow> index payload 12;
          let tcp_header_length = unat (drop_bit 4 b12) * 4;
          if tcp_header_length < 20 \<or> tcp_header_length > payload_length
            then err (Malformed ''invalid TCP header length'')
            else ok () })
     else if protocol = Udp then
       (if payload_length < 8 then err (Malformed ''truncated UDP header'')
        else do {
          b4 \<leftarrow> index payload 4;
          b5 \<leftarrow> index payload 5;
          if unat (be16 b4 b5) \<noteq> payload_length then err (Malformed ''invalid UDP length'')
          else ok () })
     else ok ())"

definition ipv6_packet_parse :: "bytes \<Rightarrow> (packet_parse_error, ipv6_packet) fallible" where
  "ipv6_packet_parse raw =
     question (map_err packet_parse_error_of (ipv6_header_parse raw)) (\<lambda>ipv6_header_data.
     let total_length = ipv6_total_length ipv6_header_data in
     question (Some (ipv6_protocol (i6_next_header ipv6_header_data))) (\<lambda>protocol. do {
       payload \<leftarrow> slice IPV6_HEADER_LENGTH total_length raw;
       question (validate_transport protocol payload) (\<lambda>_. do {
         transport \<leftarrow> transport_header_parse protocol payload;
         case transport of
           None \<Rightarrow> err (Malformed ''unsupported transport header'')
         | Some header \<Rightarrow> do {
             raw' \<leftarrow> slice 0 total_length raw;
             ok \<lparr>i6p_raw = raw', i6p_header_data = ipv6_header_data,
                 i6p_transport_data = header\<rparr> } }) }))"

definition ipv6_packet_transport_header :: "ipv6_packet \<Rightarrow> transport_header_mut option" where
  "ipv6_packet_transport_header p = do {
     let stop = IPV6_HEADER_LENGTH + unat (transport_header_length (i6p_transport_data p));
     slice \<leftarrow> slice IPV6_HEADER_LENGTH stop (i6p_raw p);
     Some (slice, i6p_transport_data p) }"

definition ipv6_packet_payload :: "ipv6_packet \<Rightarrow> bytes option" where
  "ipv6_packet_payload p = do {
     let start = IPV6_HEADER_LENGTH + unat (transport_header_length (i6p_transport_data p));
     slice start (length (i6p_raw p)) (i6p_raw p) }"

section \<open>Validation\<close>

lemma ipv6_header_parse_total: "ipv6_header_parse raw \<noteq> None"
  by (auto simp: ipv6_header_parse_def IPV6_HEADER_LENGTH_def index_def slicing)

lemma ipv6_header_parse_ok:
  "ipv6_header_parse raw = ok d \<Longrightarrow> 40 + unat (i6_payload_length d) \<le> length raw
     \<and> drop_bit 4 (raw ! 0) = 6 \<and> i6_payload_length d = be16 (raw ! 4) (raw ! 5)
     \<and> i6_next_header d = raw ! 6
     \<and> i6_source d = take 16 (drop 8 raw) \<and> i6_destination d = take 16 (drop 24 raw)"
  by (auto simp: ipv6_header_parse_def IPV6_HEADER_LENGTH_def slicing bind_eq_Some_conv
      split: if_splits)

text \<open>A validated transport slice parses without a panic into a header that fits it.\<close>

lemma nibble_length: "unat (drop_bit 4 (b :: u8)) * 4 = 4 * (unat b div 16)"
  by (simp add: unat_drop_bit_eq drop_bit_eq_div [of _ "unat b"])

lemma validate_transport_total: "validate_transport protocol payload \<noteq> None"
  by (auto simp: validate_transport_def Let_def index_def slicing)

lemma validate_transport_ok:
  assumes "validate_transport protocol payload = ok ()"
  shows "\<exists>t. transport_header_parse protocol payload = Some t \<and>
    (case t of None \<Rightarrow> protocol = Other
     | Some t' \<Rightarrow> unat (transport_header_length t') \<le> length payload
        \<and> (case t' of TcpTransport d \<Rightarrow> protocol = Tcp \<and> 20 \<le> unat (th_header_length d)
           | UdpTransport d \<Rightarrow> protocol = Udp \<and> read_u16 payload 4 = Some (of_nat (length payload))))"
proof (cases protocol)
  case Tcp
  then have v: "20 \<le> length payload" "20 \<le> 4 * (unat (payload ! 12) div 16)"
    "4 * (unat (payload ! 12) div 16) \<le> length payload"
    using assms by (auto simp: validate_transport_def Let_def bind_eq_Some_conv nibble_length
        split: if_splits)
  then obtain d where "tcp_header_parse payload = Some d" using tcp_view.parse_total by blast
  then show ?thesis using v Tcp tcp_parse_header_length by simp
next
  case Udp
  then have v: "8 \<le> length payload" "unat (be16 (payload ! 4) (payload ! 5)) = length payload"
    using assms by (auto simp: validate_transport_def Let_def bind_eq_Some_conv split: if_splits)
  have "be16 (payload ! 4) (payload ! 5) = of_nat (length payload)"
    unfolding v(2) [symmetric] by simp
  then have "read_u16 payload 4 = Some (of_nat (length payload))"
    using v(1) by (simp add: read_u16_def)
  moreover obtain d where "udp_header_parse payload = Some d"
    using udp_view.parse_total v by blast
  ultimately show ?thesis using v Udp by (simp add: udp_header_length_def)
qed simp

text \<open>What \<open>Ipv6Packet::parse\<close> guarantees of a packet it returns.\<close>

definition ipv6_packet_ok :: "ipv6_packet \<Rightarrow> bool" where
  "ipv6_packet_ok p \<longleftrightarrow>
     ipv6_header_parse (i6p_raw p) = ok (i6p_header_data p)
     \<and> length (i6p_raw p) = ipv6_total_length (i6p_header_data p)
     \<and> 40 + unat (transport_header_length (i6p_transport_data p)) \<le> length (i6p_raw p)
     \<and> (case i6p_transport_data p of
          TcpTransport d \<Rightarrow> i6_next_header (i6p_header_data p) = 6
            \<and> tcp_header_parse (drop 40 (i6p_raw p)) = Some d \<and> 20 \<le> unat (th_header_length d)
        | UdpTransport d \<Rightarrow> i6_next_header (i6p_header_data p) = 17
            \<and> udp_header_parse (drop 40 (i6p_raw p)) = Some d
            \<and> read_u16 (drop 40 (i6p_raw p)) 4 = Some (i6_payload_length (i6p_header_data p)))"

lemma ipv6_header_parse_take:
  assumes "ipv6_header_parse raw = ok d"
  shows "ipv6_header_parse (take (ipv6_total_length d) raw) = ok d"
proof -
  have "40 + unat (i6_payload_length d) \<le> length raw" by (rule ipv6_header_parse_ok [OF assms, THEN conjunct1])
  then show ?thesis
    using assms
    by (auto simp: ipv6_header_parse_def IPV6_HEADER_LENGTH_def slicing ipv6_total_length_def
        bind_eq_Some_conv index_def drop_take min_def split: if_splits)
qed

lemma ipv6_protocol_ok:
  "ipv6_protocol n = Inr q \<longleftrightarrow> n = 6 \<and> q = Tcp \<or> n = 17 \<and> q = Udp"
  by (auto simp: ipv6_protocol_def)

lemma map_err_iff: "map_err f x = None \<longleftrightarrow> x = None" "map_err f x = ok y \<longleftrightarrow> x = ok y"
  by (cases x; auto simp: map_err_def map_sum_def split: sum.splits)+

lemma ipv6_total_length_le: "ipv6_header_parse raw = ok d \<Longrightarrow> ipv6_total_length d \<le> length raw"
  using ipv6_header_parse_ok [of raw d, THEN conjunct1]
  by (simp add: ipv6_total_length_def IPV6_HEADER_LENGTH_def)

text \<open>Parsing never panics, and what it accepts is well formed.\<close>

lemma ipv6_packet_parse_total: "ipv6_packet_parse raw \<noteq> None"
  by (auto simp: ipv6_packet_parse_def question_eq_None map_err_iff Let_def bind_eq_None_conv
      slice_def IPV6_HEADER_LENGTH_def ipv6_header_parse_total validate_transport_total
      split: option.splits
      dest!: ipv6_total_length_le validate_transport_ok)
    (simp_all add: ipv6_total_length_def IPV6_HEADER_LENGTH_def)

lemma ipv6_packet_parse_ok:
  assumes "ipv6_packet_parse raw = ok p"
  shows "ipv6_packet_ok p \<and> i6p_raw p = take (ipv6_total_length (i6p_header_data p)) raw"
proof -
  obtain d q t where d: "ipv6_header_parse raw = ok d" and q: "ipv6_protocol (i6_next_header d) = Inr q"
    and v: "validate_transport q (take (ipv6_total_length d - 40) (drop 40 raw)) = ok ()"
    and t: "transport_header_parse q (take (ipv6_total_length d - 40) (drop 40 raw)) = Some (Some t)"
    and p: "p = \<lparr>i6p_raw = take (ipv6_total_length d) raw, i6p_header_data = d, i6p_transport_data = t\<rparr>"
    using assms
    by (auto simp: ipv6_packet_parse_def question_eq_ok map_err_iff Let_def bind_eq_Some_conv
        slice_eq_Some IPV6_HEADER_LENGTH_def split: option.splits)
  have len: "ipv6_total_length d \<le> length raw" by (rule ipv6_total_length_le [OF d])
  let ?seg = "take (ipv6_total_length d - 40) (drop 40 raw)"
  have seg: "drop 40 (i6p_raw p) = ?seg" "length ?seg = unat (i6_payload_length d)"
    using len by (simp_all add: p drop_take ipv6_total_length_def IPV6_HEADER_LENGTH_def)
  have "40 + unat (transport_header_length t) \<le> length (i6p_raw p)"
    using validate_transport_ok [OF v] t seg len
    by (simp add: p ipv6_total_length_def IPV6_HEADER_LENGTH_def)
  moreover have "case t of TcpTransport e \<Rightarrow> i6_next_header d = 6 \<and> tcp_header_parse ?seg = Some e
        \<and> 20 \<le> unat (th_header_length e)
      | UdpTransport e \<Rightarrow> i6_next_header d = 17 \<and> udp_header_parse ?seg = Some e
        \<and> read_u16 ?seg 4 = Some (i6_payload_length d)"
    using validate_transport_ok [OF v] t seg(2) q
    by (cases t; cases q) (auto simp: ipv6_protocol_ok bind_eq_Some_conv)
  ultimately show ?thesis
    using ipv6_header_parse_take [OF d] len
    unfolding ipv6_packet_ok_def seg(1) by (simp add: p split: transport_header_data.splits)
qed

end
