(* ===== verification/Byte_Queue.thy ===== *)
theory Byte_Queue
  imports Prelude
begin

text \<open>
  The interface the relay's byte stores offer to their clients: bytes are appended at one end and
  leave at the other in order, within a fixed amount of room.  \<open>StreamBuffer\<close> (between a client
  or a TCP socket and the relay) and \<open>ByteBuffer\<close> (the frame under reassembly) are its two
  providers; the facts every user of such a store relies on are proved here once.  A pop is told
  where the bytes go (an argument of type \<open>'w\<close>: a writer, or a number of bytes); \<open>honest\<close> are the
  destinations that keep their contract, \<open>willing\<close> those that take at least one byte of several.
\<close>

datatype 'w queue_op = Push bytes | Pop 'w

fun pushed :: "'w queue_op list \<Rightarrow> bytes" where
  "pushed [] = []"
| "pushed (Push bs # ops) = bs @ pushed ops"
| "pushed (Pop n # ops) = pushed ops"

locale byte_queue =
  fixes inv :: "'s \<Rightarrow> bool"
    and contents :: "'s \<Rightarrow> bytes"
    and room :: "'s \<Rightarrow> nat"
    and push :: "bytes \<Rightarrow> 's \<Rightarrow> 's option"
    and pop :: "'w \<Rightarrow> 's \<Rightarrow> (bytes \<times> 's) option"
    and honest :: "'w \<Rightarrow> bool"
    and willing :: "'w \<Rightarrow> bool"
  assumes push_accepts: "inv s \<Longrightarrow> length bs \<le> room s \<Longrightarrow> \<exists>s'. push bs s = Some s'"
    and push_contents: "inv s \<Longrightarrow> push bs s = Some s' \<Longrightarrow>
      inv s' \<and> contents s' = contents s @ bs \<and> room s = room s' + length bs"
    and pop_returns: "inv s \<Longrightarrow> honest n \<Longrightarrow> \<exists>out s'. pop n s = Some (out, s')"
    and pop_contents: "inv s \<Longrightarrow> honest n \<Longrightarrow> pop n s = Some (out, s') \<Longrightarrow>
      inv s' \<and> contents s = out @ contents s' \<and> room s' = room s + length out"
    and pop_progress: "inv s \<Longrightarrow> honest n \<Longrightarrow> willing n \<Longrightarrow> pop n s = Some (out, s') \<Longrightarrow> contents s \<noteq> [] \<Longrightarrow>
      out \<noteq> []"
begin

text \<open>Running operations: the bytes that left so far, and the store. A push beyond the room panics.\<close>

fun honest_ops :: "'w queue_op list \<Rightarrow> bool" where
  "honest_ops [] \<longleftrightarrow> True"
| "honest_ops (Push bs # ops) \<longleftrightarrow> honest_ops ops"
| "honest_ops (Pop w # ops) \<longleftrightarrow> honest w \<and> honest_ops ops"

fun run :: "'w queue_op list \<Rightarrow> 's \<Rightarrow> (bytes \<times> 's) option" where
  "run [] s = Some ([], s)"
| "run (Push bs # ops) s = do { s' \<leftarrow> push bs s; run ops s' }"
| "run (Pop n # ops) s = do { (out, s') \<leftarrow> pop n s; (outs, s'') \<leftarrow> run ops s'; Some (out @ outs, s'') }"

text \<open>What leaves, followed by what is still stored, is what was stored and what came in, in order.\<close>

lemma run_fifo:
  "inv s \<Longrightarrow> honest_ops ops \<Longrightarrow> run ops s = Some (out, s') \<Longrightarrow> inv s' \<and> contents s @ pushed ops = out @ contents s'"
proof (induction ops arbitrary: s out)
  case (Cons op ops)
  show ?case
  proof (cases op)
    case (Push bs)
    with Cons.prems obtain s1 where s1: "push bs s = Some s1" "run ops s1 = Some (out, s')"
      by (auto simp: bind_eq_Some_conv)
    with push_contents Cons.prems(1) have "inv s1" "contents s1 = contents s @ bs" by blast+
    with Cons.IH [of s1 out] Cons.prems(2) s1 Push show ?thesis by simp
  next
    case (Pop n)
    with Cons.prems obtain o1 s1 o2 where s1: "pop n s = Some (o1, s1)"
      "run ops s1 = Some (o2, s')" "out = o1 @ o2"
      by (auto simp: bind_eq_Some_conv)
    from Pop Cons.prems(2) have h: "honest n" "honest_ops ops" by simp_all
    with s1 pop_contents Cons.prems(1) have "inv s1" "contents s = o1 @ contents s1" by blast+
    with Cons.IH [of s1 o2] h s1 Pop show ?thesis by simp
  qed
qed simp

lemma run_room:
  "inv s \<Longrightarrow> honest_ops ops \<Longrightarrow> run ops s = Some (out, s') \<Longrightarrow>
    room s' + length (contents s') = room s + length (contents s)"
proof (induction ops arbitrary: s out)
  case (Cons op ops)
  show ?case
  proof (cases op)
    case (Push bs)
    with Cons.prems obtain s1 where s1: "push bs s = Some s1" "run ops s1 = Some (out, s')"
      by (auto simp: bind_eq_Some_conv)
    with push_contents [OF Cons.prems(1) s1(1)] Cons.IH [of s1 out] Cons.prems(2) Push show ?thesis by simp
  next
    case (Pop n)
    with Cons.prems obtain o1 s1 o2 where s1: "pop n s = Some (o1, s1)"
      "run ops s1 = Some (o2, s')"
      by (auto simp: bind_eq_Some_conv)
    from Pop Cons.prems(2) have h: "honest n" "honest_ops ops" by simp_all
    with s1 pop_contents [OF Cons.prems(1) h(1) s1(1)] Cons.IH [of s1 o2] Pop show ?thesis by simp
  qed
qed simp

text \<open>A run panics only when more bytes come in than there is room for at first.\<close>

lemma run_panics: "inv s \<Longrightarrow> honest_ops ops \<Longrightarrow> run ops s = None \<Longrightarrow> room s < length (pushed ops)"
proof (induction ops arbitrary: s)
  case (Cons op ops)
  show ?case
  proof (cases op)
    case (Push bs)
    show ?thesis
    proof (cases "push bs s")
      case None
      then show ?thesis using push_accepts [OF Cons.prems(1), of bs] Push by fastforce
    next
      case (Some s1)
      then show ?thesis using push_contents [OF Cons.prems(1) Some] Cons.IH [of s1] Cons.prems Push by simp
    qed
  next
    case (Pop n)
    then have h: "honest n" "honest_ops ops" using Cons.prems(2) by simp_all
    obtain out s1 where p: "pop n s = Some (out, s1)" using pop_returns Cons.prems(1) h(1) by blast
    then have "run ops s1 = None" using Cons.prems(3) Pop by (cases "run ops s1") auto
    then show ?thesis using pop_contents [OF Cons.prems(1) h(1) p] Cons.IH [of s1] h(2) Pop by simp
  qed
qed simp

text \<open>Popping towards a willing destination empties the store after at most as many pops as stored bytes.\<close>

lemma pops_drain:
  "inv s \<Longrightarrow> honest n \<Longrightarrow> willing n \<Longrightarrow> length (contents s) \<le> k \<Longrightarrow>
    \<exists>s'. run (replicate k (Pop n)) s = Some (contents s, s') \<and> inv s' \<and> contents s' = []"
proof (induction k arbitrary: s)
  case (Suc k)
  obtain out s1 where p: "pop n s = Some (out, s1)" using pop_returns Suc.prems(1,2) by blast
  note c = pop_contents [OF Suc.prems(1,2) p]
  have "length (contents s1) \<le> k"
  proof (cases "contents s = []")
    case False
    then have "out \<noteq> []" using pop_progress [OF Suc.prems(1-3) p] by blast
    then have "0 < length out" by simp
    then show ?thesis using c Suc.prems(4) by (simp del: length_greater_0_conv)
  qed (use c in simp)
  then obtain s2 where "run (replicate k (Pop n)) s1 = Some (contents s1, s2)" "inv s2"
    "contents s2 = []"
    using Suc.IH c Suc.prems(2,3) by blast
  then show ?case using p c by simp
qed simp

end

end
