(* ===== verification/Byte_Buffer.thy ===== *)
theory Byte_Buffer
  imports Byte_Queue
begin

text \<open>
  \<open>relay/byte_buffer.rs\<close>: the linear buffer under the packet reassembly.  Bytes are read from a
  stream at \<open>head\<close> and consumed from the front, what remains being moved to offset 0.
\<close>

record byte_buffer =
  bb_buf :: bytes
  bb_head :: nat

text \<open>
  A \<open>io::Read\<close> is a function from the length of the target slice to its result: an error, or the
  bytes it stored at the front of the slice.  The contract of the trait is \<open>reader_ok\<close>.
\<close>

type_synonym reader = "nat \<Rightarrow> bytes io_result"

definition reader_ok :: "reader \<Rightarrow> bool" where
  "reader_ok r \<longleftrightarrow> (\<forall>n bs. r n = Inr bs \<longrightarrow> length bs \<le> n)"

definition bb_new :: "nat \<Rightarrow> byte_buffer" where
  "bb_new len = \<lparr>bb_buf = replicate len 0, bb_head = 0\<rparr>"

definition bb_read_from :: "reader \<Rightarrow> byte_buffer \<Rightarrow> (bool io_result \<times> byte_buffer) option" where
  "bb_read_from source b = do {
     target_slice \<leftarrow> slice (bb_head b) (length (bb_buf b)) (bb_buf b);
     case source (length target_slice) of
       Inl e \<Rightarrow> Some (Inl e, b)
     | Inr bs \<Rightarrow> do {
         buf \<leftarrow> splice (bb_head b) bs (bb_buf b);
         Some (Inr (length bs > 0), b\<lparr>bb_buf := buf, bb_head := bb_head b + length bs\<rparr>)
       }
   }"

definition bb_peek :: "byte_buffer \<Rightarrow> bytes" where
  "bb_peek b = take (bb_head b) (bb_buf b)"

text \<open>The \<open>ptr::copy\<close> is a \<open>memmove\<close> of \<open>[length..old_head]\<close> to the front.\<close>

definition bb_consume :: "nat \<Rightarrow> byte_buffer \<Rightarrow> byte_buffer option" where
  "bb_consume len b = do {
     assert_that (bb_head b \<ge> len);
     let head = bb_head b - len;
     if head > 0 then do {
       moved \<leftarrow> slice len (len + head) (bb_buf b);
       buf \<leftarrow> splice 0 moved (bb_buf b);
       Some (b\<lparr>bb_buf := buf, bb_head := head\<rparr>)
     } else Some (b\<lparr>bb_head := head\<rparr>)
   }"

section \<open>Invariant and behaviour\<close>

definition bb_inv :: "byte_buffer \<Rightarrow> bool" where
  "bb_inv b \<longleftrightarrow> bb_head b \<le> length (bb_buf b)"

definition bb_room :: "byte_buffer \<Rightarrow> nat" where
  "bb_room b = length (bb_buf b) - bb_head b"

lemma bb_new_inv [simp]: "bb_inv (bb_new n)" "bb_peek (bb_new n) = []" "bb_room (bb_new n) = n"
  by (simp_all add: bb_inv_def bb_new_def bb_peek_def bb_room_def)

lemma length_bb_peek [simp]: "bb_inv b \<Longrightarrow> length (bb_peek b) = bb_head b"
  by (simp add: bb_inv_def bb_peek_def)

text \<open>A read hands the source exactly the free space, and appends what it delivers.\<close>

lemma bb_read_from_ok:
  assumes "bb_inv b" and "source (bb_room b) = Inr bs" and "length bs \<le> bb_room b"
  shows "\<exists>b'. bb_read_from source b = Some (Inr (bs \<noteq> []), b') \<and> bb_inv b'
    \<and> bb_peek b' = bb_peek b @ bs \<and> bb_room b = bb_room b' + length bs
    \<and> length (bb_buf b') = length (bb_buf b)"
  using assms
  by (auto simp: bb_read_from_def bb_inv_def bb_room_def bb_peek_def slice_def splice_def
      min_def length_greater_0_conv)

lemma bb_read_from_error:
  assumes "bb_inv b" and "source (bb_room b) = Inl e"
  shows "bb_read_from source b = Some (Inl e, b)"
  using assms by (simp add: bb_read_from_def bb_inv_def bb_room_def slice_def)

lemma bb_consume_ok:
  assumes "bb_inv b" and "n \<le> bb_head b"
  shows "\<exists>b'. bb_consume n b = Some b' \<and> bb_inv b' \<and> bb_peek b' = drop n (bb_peek b)
    \<and> bb_room b' = bb_room b + n \<and> length (bb_buf b') = length (bb_buf b)"
  using assms
  by (auto simp: bb_consume_def bb_inv_def bb_room_def bb_peek_def slice_def splice_def Let_def
      min_def drop_take)

lemma bb_consume_panics: "bb_head b < n \<Longrightarrow> bb_consume n b = None"
  by (simp add: bb_consume_def)

section \<open>As a byte queue\<close>

text \<open>A push is a read from a source that delivers exactly the given bytes.\<close>

definition bb_push :: "bytes \<Rightarrow> byte_buffer \<Rightarrow> byte_buffer option" where
  "bb_push bs b = (if length bs \<le> bb_room b
     then map_option snd (bb_read_from (\<lambda>_. Inr bs) b) else None)"

definition bb_pop :: "nat \<Rightarrow> byte_buffer \<Rightarrow> (bytes \<times> byte_buffer) option" where
  "bb_pop n b = (let k = min n (bb_head b) in
     map_option (\<lambda>b'. (take k (bb_peek b), b')) (bb_consume k b))"

interpretation bbq: byte_queue bb_inv bb_peek bb_room bb_push bb_pop "\<lambda>_. True" "\<lambda>n. 0 < n"
proof
  fix s :: byte_buffer and bs :: bytes
  assume "bb_inv s" "length bs \<le> bb_room s"
  then show "\<exists>s'. bb_push bs s = Some s'"
    using bb_read_from_ok [of s "\<lambda>_. Inr bs" bs] by (auto simp: bb_push_def)
next
  fix s s' :: byte_buffer and bs :: bytes
  assume "bb_inv s" "bb_push bs s = Some s'"
  then show "bb_inv s' \<and> bb_peek s' = bb_peek s @ bs \<and> bb_room s = bb_room s' + length bs"
    using bb_read_from_ok [of s "\<lambda>_. Inr bs" bs] by (auto simp: bb_push_def split: if_splits)
next
  fix s :: byte_buffer and n
  assume "bb_inv s"
  then show "\<exists>out s'. bb_pop n s = Some (out, s')"
    using bb_consume_ok [of s "min n (bb_head s)"] by (auto simp: bb_pop_def)
next
  fix s s' :: byte_buffer and n out
  assume "bb_inv s" "bb_pop n s = Some (out, s')"
  then show "bb_inv s' \<and> bb_peek s = out @ bb_peek s' 
      \<and> bb_room s' = bb_room s + length out"
    using bb_consume_ok [of s "min n (bb_head s)"] by (auto simp: bb_pop_def Let_def)
next
  fix s s' :: byte_buffer and n out
  assume "bb_inv s" "0 < n" "bb_pop n s = Some (out, s')" "bb_peek s \<noteq> []"
  then show "out \<noteq> []"
    using bb_consume_ok [of s "min n (bb_head s)"]
    by (auto simp: bb_pop_def Let_def bb_peek_def bb_inv_def)
qed

end
