(* ===== verification/Ip_Packet.thy ===== *)
theory Ip_Packet
  imports Ipv4_Packet Ipv6_Packet Byte_Buffer
begin

text \<open>
  \<open>relay/ip_packet.rs\<close> and \<open>relay/ip_packet_buffer.rs\<close>: the length of the packet at the front of
  a byte stream, the validation of IPv4 packets, the parse of either version, and the buffer that
  cuts the stream of a tunnel client into packets.
\<close>

definition MAX_IP_PACKET_LENGTH :: nat where
  "MAX_IP_PACKET_LENGTH = IPV6_HEADER_LENGTH + 65535"

datatype ip_packet = Ipv4 ipv4_packet | Ipv6 ipv6_packet

definition validate_ipv4 :: "bytes \<Rightarrow> (packet_parse_error, unit) fallible" where
  "validate_ipv4 raw =
     (if length raw < 4 then err (Malformed ''truncated IPv4 packet'')
      else do {
        b0 \<leftarrow> index raw 0;
        b2 \<leftarrow> index raw 2;
        b3 \<leftarrow> index raw 3;
        let header_length = unat (b0 AND 15) * 4;
        let total_length = unat (be16 b2 b3);
        if length raw < total_length \<or> header_length < 20 \<or> total_length < header_length
        then err (Malformed ''invalid IPv4 packet length'')
        else do {
          b6 \<leftarrow> index raw 6;
          b7 \<leftarrow> index raw 7;
          let more_fragments = b6 AND 0x20 \<noteq> 0;
          let fragment_offset = b6 AND 0x1f \<noteq> 0 \<or> b7 \<noteq> 0;
          if more_fragments \<or> fragment_offset then err (Unsupported Ipv4Fragment)
          else do {
            payload \<leftarrow> slice header_length total_length raw;
            b9 \<leftarrow> index raw 9;
            validate_transport (protocol_of b9) payload } } })"

definition ip_packet_parse :: "bytes \<Rightarrow> (packet_parse_error, ip_packet) fallible" where
  "ip_packet_parse raw = (case raw of
     [] \<Rightarrow> err (Malformed ''truncated IP packet'')
   | value # _ \<Rightarrow>
       if drop_bit 4 value = 4 then
         question (validate_ipv4 raw) (\<lambda>_. do {
           packet \<leftarrow> ipv4_packet_parse raw;
           ok (Ipv4 packet) })
       else if drop_bit 4 value = 6 then
         question (ipv6_packet_parse raw) (\<lambda>packet. ok (Ipv6 packet))
       else err (Malformed ''unsupported IP version''))"

fun ip_packet_raw :: "ip_packet \<Rightarrow> bytes" where
  "ip_packet_raw (Ipv4 packet) = ip_raw packet"
| "ip_packet_raw (Ipv6 packet) = i6p_raw packet"

definition ip_packet_length :: "ip_packet \<Rightarrow> nat" where
  "ip_packet_length p = length (ip_packet_raw p)"

definition front_packet_length :: "bytes \<Rightarrow> (packet_parse_error, nat option) fallible" where
  "front_packet_length raw =
     (if raw = [] then ok None
      else do {
        b0 \<leftarrow> index raw 0;
        if drop_bit 4 b0 = 4 then
          (if length raw < 4 then ok None
           else do {
             b2 \<leftarrow> index raw 2;
             b3 \<leftarrow> index raw 3;
             let header_length = unat (b0 AND 15) * 4;
             let total_length = unat (be16 b2 b3);
             if header_length < 20 \<or> total_length < header_length
             then err (Malformed ''invalid IPv4 packet length'')
             else if length raw < total_length then ok None else ok (Some total_length) })
        else if drop_bit 4 b0 = 6 then
          (if length raw < 6 then ok None
           else do {
             b4 \<leftarrow> index raw 4;
             b5 \<leftarrow> index raw 5;
             let payload_length = unat (be16 b4 b5);
             let total_length = 40 + payload_length;
             if length raw < total_length then ok None else ok (Some total_length) })
        else err (Malformed ''unsupported IP version'') })"

type_synonym ip_packet_buffer = byte_buffer

definition ipb_new :: ip_packet_buffer where
  "ipb_new = bb_new MAX_IP_PACKET_LENGTH"

definition ipb_packet :: "ip_packet_buffer \<Rightarrow> (packet_parse_error, ip_packet option) fallible" where
  "ipb_packet b = question (front_packet_length (bb_peek b)) (\<lambda>r. case r of
     None \<Rightarrow> ok None
   | Some len \<Rightarrow> do {
       raw \<leftarrow> slice 0 len (bb_peek b);
       question (ip_packet_parse raw) (\<lambda>p. ok (Some p)) })"

definition ipb_next :: "ip_packet_buffer \<Rightarrow> ((packet_parse_error + bool) \<times> ip_packet_buffer) option" where
  "ipb_next b = (case front_packet_length (bb_peek b) of
     None \<Rightarrow> None
   | Some (Inl e) \<Rightarrow> Some (Inl e, b)
   | Some (Inr None) \<Rightarrow> Some (Inr False, b)
   | Some (Inr (Some len)) \<Rightarrow> do { b' \<leftarrow> bb_consume len b; Some (Inr True, b') })"

section \<open>Validation and parsing\<close>

lemma low_nibble_length: "unat ((b :: u8) AND 15) * 4 = 4 * (unat b mod 16)"
proof -
  have "(15 :: u8) = mask 4" by (simp add: mask_eq_exp_minus_1)
  then have "b AND 15 = take_bit 4 b" by (simp add: take_bit_eq_mask)
  then show ?thesis by (simp add: unsigned_take_bit_eq take_bit_eq_mod [of _ "unat b"])
qed

text \<open>Every guard comes before the access it protects, so no input makes the validation panic.\<close>

lemma validate_ipv4_total: "validate_ipv4 raw \<noteq> None"
  using validate_transport_total
  by (auto simp: validate_ipv4_def Let_def index_def slice_def)

lemma validate_ipv4_ok:
  assumes "validate_ipv4 raw = ok ()"
  shows "20 \<le> 4 * (unat (raw ! 0) mod 16)"
    and "4 * (unat (raw ! 0) mod 16) \<le> unat (be16 (raw ! 2) (raw ! 3))"
    and "unat (be16 (raw ! 2) (raw ! 3)) \<le> length raw"
    and "raw ! 6 AND 0x3f = 0" and "raw ! 7 = 0"
    and "validate_transport (protocol_of (raw ! 9))
      (take (unat (be16 (raw ! 2) (raw ! 3)) - 4 * (unat (raw ! 0) mod 16))
        (drop (4 * (unat (raw ! 0) mod 16)) raw)) = ok ()"
proof -
  have split: "(0x3f :: u8) = 0x20 OR 0x1f" by simp
  show "raw ! 6 AND 0x3f = 0"
    using assms unfolding split bit.conj_disj_distrib
    by (auto simp: validate_ipv4_def Let_def bind_eq_Some_conv split: if_splits)
qed (use assms in \<open>auto simp: validate_ipv4_def Let_def bind_eq_Some_conv low_nibble_length
      slice_eq_Some split: if_splits\<close>)

lemma transport_header_parse_append:
  assumes "validate_transport q xs = ok ()"
  shows "transport_header_parse q (xs @ ys) = transport_header_parse q xs"
  using assms
  by (cases q) (auto simp: validate_transport_def Let_def tcp_header_parse_append
      udp_header_parse_append split: if_splits)

lemma ipv4_packet_parse_validated:
  assumes v: "validate_ipv4 raw = ok ()"
  shows "\<exists>p. ipv4_packet_parse raw = Some p \<and> ipv4_packet_ok p
    \<and> ip_raw p = take (unat (ih_total_length (ip_header_data p))) raw
    \<and> ih_total_length (ip_header_data p) = be16 (raw ! 2) (raw ! 3)"
proof -
  note V = validate_ipv4_ok [OF v]
  have "20 \<le> length raw" using V(1-3) by linarith
  then obtain d where d: "ipv4_header_parse raw = Some d" using ipv4_view.parse_total by blast
  define hl total where hl: "hl = unat (ih_header_length d)" and total: "total = unat (ih_total_length d)"
  have hl': "hl = 4 * (unat (raw ! 0) mod 16)" unfolding hl by (rule ipv4_parse_header_length [OF d])
  have total': "total = unat (be16 (raw ! 2) (raw ! 3))" "ih_protocol d = protocol_of (raw ! 9)"
    using d \<open>20 \<le> length raw\<close> by (auto simp: total ipv4_header_parse_eq)
  have b: "20 \<le> hl" "hl \<le> total" "total \<le> length raw"
    using V(1-3) by (simp_all add: hl' total')
  let ?seg = "take (total - hl) (drop hl raw)"
  have seg: "validate_transport (ih_protocol d) ?seg = ok ()"
    using V(6) by (simp add: hl' total')
  obtain t where t: "transport_header_parse (ih_protocol d) ?seg = Some t"
    "case t of None \<Rightarrow> ih_protocol d = Other
     | Some t' \<Rightarrow> unat (transport_header_length t') \<le> length ?seg
        \<and> (case t' of TcpTransport e \<Rightarrow> ih_protocol d = Tcp \<and> 20 \<le> unat (th_header_length e)
           | UdpTransport e \<Rightarrow> ih_protocol d = Udp \<and> read_u16 ?seg 4 = Some (of_nat (length ?seg)))"
    using validate_transport_ok [OF seg] by blast
  have "drop hl raw = ?seg @ drop (total - hl) (drop hl raw)" by (simp only: append_take_drop_id)
  then have t': "transport_header_parse (ih_protocol d) (drop hl raw) = Some t"
    using transport_header_parse_append [OF seg] t(1) by metis
  have seg': "drop hl (take total raw) = ?seg" by (rule drop_take)
  let ?p = "\<lparr>ip_raw = take total raw, ip_header_data = d, ip_transport_data = t\<rparr>"
  have "ipv4_packet_parse raw = Some ?p"
    using d t' b by (simp add: ipv4_packet_parse_def hl [symmetric] total [symmetric] slice_Some)
  moreover have "ipv4_packet_ok ?p"
    using d t b unfolding ipv4_packet_ok_def
    by (auto simp: ipv4_header_parse_take hl [symmetric] total [symmetric] seg'
        split: option.splits transport_header_data.splits)
  moreover have "ih_total_length d = be16 (raw ! 2) (raw ! 3)"
    using total'(1) unfolding total by (rule word_unat_eq_iff [THEN iffD2])
  ultimately show ?thesis by (auto simp: total)
qed

text \<open>
  A packet the relay accepts, and sends: well formed, of version 4, not a fragment, with a
  UDP length that is the length of the segment.
\<close>

definition ipv4_accepted :: "ipv4_packet \<Rightarrow> bool" where
  "ipv4_accepted p \<longleftrightarrow> ipv4_packet_ok p
     \<and> drop_bit 4 (ip_raw p ! 0) = 4 \<and> ip_raw p ! 6 AND 0x3f = 0 \<and> ip_raw p ! 7 = 0
     \<and> (let seg = drop (unat (ih_header_length (ip_header_data p))) (ip_raw p) in
         \<forall>d. ip_transport_data p = Some (UdpTransport d) \<longrightarrow>
           read_u16 seg 4 = Some (of_nat (length seg)))"

lemma ipv4_packet_parse_accepted:
  assumes v: "validate_ipv4 raw = ok ()" and four: "drop_bit 4 (raw ! 0) = 4"
    and p: "ipv4_packet_parse raw = Some p"
  shows "ipv4_accepted p"
proof -
  note V = validate_ipv4_ok [OF v]
  have k: "ipv4_packet_ok p" "ip_raw p = take (unat (ih_total_length (ip_header_data p))) raw"
    "ih_total_length (ip_header_data p) = be16 (raw ! 2) (raw ! 3)"
    using ipv4_packet_parse_validated [OF v] p by auto
  have len: "20 \<le> length (ip_raw p)" using V(1-3) k by simp
  have cells: "i < 20 \<Longrightarrow> ip_raw p ! i = raw ! i" for i using k(2) len by simp
  let ?hl = "unat (ih_header_length (ip_header_data p))" and ?q = "ih_protocol (ip_header_data p)"
  have hl: "?hl = 4 * (unat (raw ! 0) mod 16)"
    using ipv4_parse_header_length [OF ipv4_packet_okD(1) [OF k(1)]] cells by simp
  have q: "?q = protocol_of (raw ! 9)"
    unfolding ipv4_parse_protocol [OF ipv4_packet_okD(1) [OF k(1)]] by (simp add: cells)
  have "validate_transport ?q (drop ?hl (ip_raw p)) = ok ()"
    using V(6) by (simp add: hl q k(2,3) drop_take)
  moreover have "transport_header_parse ?q (drop ?hl (ip_raw p)) = Some (ip_transport_data p)"
    using k(1) by (simp add: ipv4_packet_ok_def)
  ultimately have "ip_transport_data p = Some (UdpTransport d) \<Longrightarrow>
      read_u16 (drop ?hl (ip_raw p)) 4 = Some (of_nat (length (drop ?hl (ip_raw p))))" for d
    using validate_transport_ok by force
  then show ?thesis
    using k(1) V(4,5) four cells by (auto simp: ipv4_accepted_def Let_def)
qed

text \<open>Conversely, such a packet is what the parser returns for its bytes.\<close>

lemma validate_transport_complete:
  assumes "transport_header_parse q seg = Some t"
    and "case t of None \<Rightarrow> True
      | Some (TcpTransport d) \<Rightarrow> 20 \<le> unat (th_header_length d) \<and> unat (th_header_length d) \<le> length seg
      | Some (UdpTransport d) \<Rightarrow> 8 \<le> length seg \<and> length seg < 65536
          \<and> read_u16 seg 4 = Some (of_nat (length seg))"
  shows "validate_transport q seg = ok ()"
proof (cases q)
  case Tcp
  then obtain d where d: "tcp_header_parse seg = Some d" "t = Some (TcpTransport d)"
    using assms(1) by (auto simp: bind_eq_Some_conv)
  have b: "20 \<le> 4 * (unat (seg ! 12) div 16)" "4 * (unat (seg ! 12) div 16) \<le> length seg"
    using assms(2) d(2) tcp_parse_header_length [OF d(1)] by auto
  then have "20 \<le> length seg" by linarith
  then show ?thesis using b Tcp by (simp add: validate_transport_def Let_def nibble_length index_def)
next
  case Udp
  then obtain d where d: "t = Some (UdpTransport d)"
    using assms(1) by (auto simp: bind_eq_Some_conv)
  then have b: "8 \<le> length seg" "be16 (seg ! 4) (seg ! 5) = of_nat (length seg)" "length seg < 65536"
    using assms(2) by (auto simp: read_u16_def split: if_splits)
  then show ?thesis using Udp by (simp add: validate_transport_def index_def unat_of_nat_u16)
qed (simp add: validate_transport_def)

lemma ipv4_accepted_parses:
  assumes a: "ipv4_accepted p"
  shows "ip_packet_parse (ip_raw p) = ok (Ipv4 p)"
proof -
  have k: "ipv4_packet_ok p" and four: "drop_bit 4 (ip_raw p ! 0) = 4"
    and frag: "ip_raw p ! 6 AND 0x3f = 0" "ip_raw p ! 7 = 0"
    using a by (simp_all add: ipv4_accepted_def)
  note K = ipv4_packet_okD [OF k]
  let ?hl = "unat (ih_header_length (ip_header_data p))" and ?q = "ih_protocol (ip_header_data p)"
  let ?seg = "drop ?hl (ip_raw p)"
  have len: "20 \<le> length (ip_raw p)" "length (ip_raw p) < 65536"
    using K u16_less [of "ih_total_length (ip_header_data p)"] by linarith+
  have tp: "transport_header_parse ?q ?seg = Some (ip_transport_data p)"
    using k by (simp add: ipv4_packet_ok_def)
  have "validate_transport ?q ?seg = ok ()"
    by (rule validate_transport_complete [OF tp])
      (use k a len in \<open>auto simp: ipv4_packet_ok_def ipv4_accepted_def udp_header_length_def Let_def
        split: option.splits transport_header_data.splits\<close>)
  moreover have "ip_raw p ! 6 AND 0x20 = 0" "ip_raw p ! 6 AND 0x1f = 0"
  proof -
    have "ip_raw p ! 6 AND 0x20 = (ip_raw p ! 6 AND 0x3f) AND 0x20"
      "ip_raw p ! 6 AND 0x1f = (ip_raw p ! 6 AND 0x3f) AND 0x1f"
      by (simp_all add: and.assoc)
    then show "ip_raw p ! 6 AND 0x20 = 0" "ip_raw p ! 6 AND 0x1f = 0" by (simp_all only: frag and_zero_eq zero_and_eq)
  qed
  moreover have "unat (be16 (ip_raw p ! 2) (ip_raw p ! 3)) = length (ip_raw p)"
    using ipv4_parse_total_length [OF K(1)] K(2) by simp
  moreover have "unat (ip_raw p ! 0 AND 15) * 4 = ?hl"
    using ipv4_parse_header_length [OF K(1)] by (simp only: low_nibble_length)
  ultimately have "validate_ipv4 (ip_raw p) = ok ()"
    using len K(3,5) frag(2) ipv4_parse_protocol [OF K(1)]
    by (auto simp: validate_ipv4_def index_def slice_Some Let_def)
  moreover have "ipv4_packet_parse (ip_raw p) = Some p"
    using K tp by (simp add: ipv4_packet_parse_def slice_Some)
  ultimately show ?thesis
    using four len by (cases "ip_raw p") (simp_all add: ip_packet_parse_def)
qed

fun ip_packet_ok :: "ip_packet \<Rightarrow> bool" where
  "ip_packet_ok (Ipv4 p) = ipv4_accepted p"
| "ip_packet_ok (Ipv6 p) = ipv6_packet_ok p"

lemma ip_packet_parse_total: "ip_packet_parse raw \<noteq> None"
  using validate_ipv4_total [of raw] ipv6_packet_parse_total [of raw]
    ipv4_packet_parse_validated [of raw]
  by (auto simp: ip_packet_parse_def question_def split: list.splits sum.splits)

lemma ip_packet_parse_ok:
  assumes "ip_packet_parse raw = ok p"
  shows "ip_packet_ok p \<and> ip_packet_raw p = take (ip_packet_length p) raw"
proof -
  consider p4 where "p = Ipv4 p4" "validate_ipv4 raw = ok ()" "ipv4_packet_parse raw = Some p4"
      "drop_bit 4 (raw ! 0) = 4"
    | p6 where "p = Ipv6 p6" "ipv6_packet_parse raw = ok p6"
    using assms
    by (auto simp: ip_packet_parse_def question_eq_ok bind_eq_Some_conv split: list.splits if_splits)
  then show ?thesis
  proof cases
    case 1
    then show ?thesis
      using ipv4_packet_parse_validated [of raw] ipv4_packet_okD(2) [of p4]
        ipv4_packet_parse_accepted [of raw p4]
      by (auto simp: ip_packet_length_def)
  next
    case 2
    then show ?thesis
      using ipv6_packet_parse_ok [of raw p6] by (auto simp: ip_packet_length_def ipv6_packet_ok_def)
  qed
qed

section \<open>Framing\<close>

text \<open>
  The answer about the front of the stream does not change when more bytes arrive, and a full
  buffer always has an answer.  So the reassembly neither stalls nor depends on how the stream is cut.
\<close>

lemma front_packet_length_total: "front_packet_length raw \<noteq> None"
  by (auto simp: front_packet_length_def index_def Let_def)

lemma front_packet_length_eq:
  "front_packet_length raw =
     (if raw = [] then ok None
      else if drop_bit 4 (raw ! 0) = 4 then
        (if length raw < 4 then ok None
         else if unat (raw ! 0 AND 15) * 4 < 20
             \<or> unat (be16 (raw ! 2) (raw ! 3)) < unat (raw ! 0 AND 15) * 4
           then err (Malformed ''invalid IPv4 packet length'')
         else if length raw < unat (be16 (raw ! 2) (raw ! 3)) then ok None
         else ok (Some (unat (be16 (raw ! 2) (raw ! 3)))))
      else if drop_bit 4 (raw ! 0) = 6 then
        (if length raw < 6 then ok None
         else if length raw < 40 + unat (be16 (raw ! 4) (raw ! 5)) then ok None
         else ok (Some (40 + unat (be16 (raw ! 4) (raw ! 5)))))
      else err (Malformed ''unsupported IP version''))"
  by (simp add: front_packet_length_def index_def Let_def)

lemma front_packet_length_append:
  assumes "front_packet_length xs \<noteq> ok None"
  shows "front_packet_length (xs @ ys) = front_packet_length xs"
proof -
  have x: "xs \<noteq> []" using assms by (auto simp: front_packet_length_eq)
  have n: "i < length xs \<Longrightarrow> (xs @ ys) ! i = xs ! i" for i by (simp add: nth_append)
  consider "drop_bit 4 (xs ! 0) = 4" "4 \<le> length xs" | "drop_bit 4 (xs ! 0) = 6" "6 \<le> length xs"
    | "drop_bit 4 (xs ! 0) \<noteq> 4" "drop_bit 4 (xs ! 0) \<noteq> 6"
    using assms x by (cases "drop_bit 4 (xs ! 0) = 4"; cases "drop_bit 4 (xs ! 0) = 6")
      (force simp: front_packet_length_eq [of xs] not_less split: if_splits)+
  then show ?thesis
  proof cases
    case 1
    then show ?thesis
      using assms x unfolding front_packet_length_eq
      by (simp add: n del: nth_append nth_append_length) (simp split: if_splits)
  next
    case 2
    then show ?thesis
      using assms x unfolding front_packet_length_eq
      by (simp add: n del: nth_append nth_append_length) (simp split: if_splits)
  next
    case 3
    then show ?thesis using x by (simp add: front_packet_length_eq n)
  qed
qed

lemma front_packet_length_full:
  assumes "MAX_IP_PACKET_LENGTH \<le> length raw"
  shows "front_packet_length raw \<noteq> ok None"
proof -
  have len: "65575 \<le> length raw" using assms by (simp add: MAX_IP_PACKET_LENGTH_def IPV6_HEADER_LENGTH_def)
  have le: "\<not> length raw < unat (be16 a b)" "\<not> length raw < 40 + unat (be16 a b)" for a b
    using u16_less [of "be16 a b"] len by linarith+
  have g: "raw \<noteq> []" "\<not> length raw < 4" "\<not> length raw < 6" and
    i: "i < 6 \<Longrightarrow> index raw i = Some (raw ! i)" for i
    using len by (auto simp: index_def)
  show ?thesis by (simp add: front_packet_length_def g i le Let_def)
qed

lemma front_packet_length_Some:
  "front_packet_length raw = ok (Some n) \<Longrightarrow> 20 \<le> n \<and> n \<le> length raw"
  by (auto simp: front_packet_length_def bind_eq_Some_conv Let_def split: if_splits)

text \<open>The packet a buffer yields is exactly the frame at its front.\<close>

lemma ip_packet_parse_frame:
  assumes f: "front_packet_length raw = ok (Some n)" and p: "ip_packet_parse (take n raw) = ok p"
  shows "ip_packet_raw p = take n raw"
proof -
  let ?xs = "take n raw"
  have n: "20 \<le> n" "n \<le> length raw" using front_packet_length_Some [OF f] by simp_all
  have len: "ip_packet_length p = length ?xs"
  proof (cases p)
    case (Ipv4 p4)
    then have v: "drop_bit 4 (?xs ! 0) = 4" "ipv4_packet_parse ?xs = Some p4" "validate_ipv4 ?xs = ok ()"
      using p by (auto simp: ip_packet_parse_def question_eq_ok bind_eq_Some_conv
          split: list.splits if_splits)
    have "n = unat (be16 (?xs ! 2) (?xs ! 3))"
      using f v(1) n by (auto simp: front_packet_length_def bind_eq_Some_conv Let_def split: if_splits)
    then have "unat (ih_total_length (ip_header_data p4)) = n" "ipv4_packet_ok p4"
      using ipv4_packet_parse_validated [OF v(3)] v(2) by auto
    then show ?thesis using ipv4_packet_okD(2) [of p4] n by (simp add: Ipv4 ip_packet_length_def)
  next
    case (Ipv6 p6)
    then have v: "drop_bit 4 (?xs ! 0) = 6" "ipv6_packet_parse ?xs = ok p6"
      using p by (auto simp: ip_packet_parse_def question_eq_ok bind_eq_Some_conv
          split: list.splits if_splits)
    let ?d = "i6p_header_data p6"
    have o: "ipv6_packet_ok p6" "i6p_raw p6 = take (ipv6_total_length ?d) ?xs"
      using ipv6_packet_parse_ok [OF v(2)] by simp_all
    have "n = 40 + unat (be16 (?xs ! 4) (?xs ! 5))"
      using f v(1) n by (auto simp: front_packet_length_def bind_eq_Some_conv Let_def split: if_splits)
    moreover have "i6_payload_length ?d = be16 (i6p_raw p6 ! 4) (i6p_raw p6 ! 5)"
      "length (i6p_raw p6) = ipv6_total_length ?d"
      using o(1) ipv6_header_parse_ok [of "i6p_raw p6" ?d] by (simp_all add: ipv6_packet_ok_def)
    ultimately show ?thesis
      using n o(2) by (simp add: Ipv6 ip_packet_length_def ipv6_total_length_def IPV6_HEADER_LENGTH_def)
  qed
  then show ?thesis using ip_packet_parse_ok [OF p] n by simp
qed

text \<open>The frames of a stream, and the tail in which no complete packet is in sight.\<close>

function frames :: "bytes \<Rightarrow> bytes list \<times> bytes" where
  "frames raw = (case front_packet_length raw of
     Some (Inr (Some n)) \<Rightarrow> (let (fs, rest) = frames (drop n raw) in (take n raw # fs, rest))
   | _ \<Rightarrow> ([], raw))"
  by pat_completeness auto
termination
  by (relation "measure length") (auto dest!: front_packet_length_Some)

declare frames.simps [simp del]

lemma frames_step:
  "front_packet_length raw = ok (Some n) \<Longrightarrow>
    frames raw = (take n raw # fst (frames (drop n raw)), snd (frames (drop n raw)))"
  by (subst frames.simps) (simp add: case_prod_beta Let_def)

lemma frames_stop:
  "\<nexists>n. front_packet_length raw = ok (Some n) \<Longrightarrow> frames raw = ([], raw)"
  by (subst frames.simps) (auto split: option.splits sum.splits)

lemma frames_append:
  "fst (frames (xs @ ys)) = fst (frames xs) @ fst (frames (snd (frames xs) @ ys))
    \<and> snd (frames (xs @ ys)) = snd (frames (snd (frames xs) @ ys))"
proof (induction xs rule: frames.induct)
  case (1 xs)
  show ?case
  proof (cases "\<exists>n. front_packet_length xs = ok (Some n)")
    case True
    then obtain n where n: "front_packet_length xs = ok (Some n)" by blast
    then have "front_packet_length (xs @ ys) = ok (Some n)"
      using front_packet_length_append [of xs ys] by simp
    moreover have "n \<le> length xs" using front_packet_length_Some [OF n] by simp
    ultimately have "frames (xs @ ys) = (take n xs # fst (frames (drop n xs @ ys)),
        snd (frames (drop n xs @ ys)))"
      using frames_step [of "xs @ ys" n] by simp
    then show ?thesis using "1.IH" [OF n refl refl] frames_step [OF n] by simp
  next
    case False
    then show ?thesis by (simp add: frames_stop)
  qed
qed

lemma frames_concat: "concat (fst (frames raw)) @ snd (frames raw) = raw"
proof (induction raw rule: frames.induct)
  case (1 raw)
  show ?case
  proof (cases "\<exists>n. front_packet_length raw = ok (Some n)")
    case True
    then obtain n where n: "front_packet_length raw = ok (Some n)" by blast
    then show ?thesis using "1.IH" [OF n refl refl] by (simp add: frames_step)
  qed (simp add: frames_stop)
qed

section \<open>The packet buffer\<close>

text \<open>
  \<open>packet\<close> and \<open>next\<close> never panic, look at the first frame and drop exactly that frame; and a
  buffer from which no frame can be taken still has room, so that a read of length zero can only
  mean the end of the stream.
\<close>

lemma ipb_packet_ok:
  assumes inv: "bb_inv b"
  shows "ipb_packet b \<noteq> None"
    and "ipb_packet b = ok None \<Longrightarrow> front_packet_length (bb_peek b) = ok None"
    and "ipb_packet b = ok (Some p) \<Longrightarrow>
      ip_packet_ok p \<and> fst (frames (bb_peek b)) = ip_packet_raw p # fst (frames (drop (ip_packet_length p) (bb_peek b)))"
proof -
  show "ipb_packet b \<noteq> None"
    using front_packet_length_Some [of "bb_peek b"]
    by (auto simp: ipb_packet_def question_def slice_def front_packet_length_total
        ip_packet_parse_total split: option.splits sum.splits)
  show "ipb_packet b = ok None \<Longrightarrow> front_packet_length (bb_peek b) = ok None"
    by (auto simp: ipb_packet_def question_eq_ok bind_eq_Some_conv split: option.splits)
  assume "ipb_packet b = ok (Some p)"
  then obtain n where n: "front_packet_length (bb_peek b) = ok (Some n)"
    and p: "ip_packet_parse (take n (bb_peek b)) = ok p"
    by (auto simp: ipb_packet_def question_eq_ok bind_eq_Some_conv slice_eq_Some split: option.splits)
  have r: "ip_packet_raw p = take n (bb_peek b)" by (rule ip_packet_parse_frame [OF n p])
  then have "ip_packet_length p = n"
    using front_packet_length_Some [OF n] by (simp add: ip_packet_length_def)
  then show "ip_packet_ok p \<and> fst (frames (bb_peek b)) = ip_packet_raw p # fst (frames (drop (ip_packet_length p) (bb_peek b)))"
    using ip_packet_parse_ok [OF p] frames_step [OF n] r by simp
qed

lemma ipb_next_ok:
  assumes inv: "bb_inv b"
  shows "\<exists>r b'. ipb_next b = Some (r, b') \<and> bb_inv b' \<and> length (bb_buf b') = length (bb_buf b) \<and>
    (if r = Inr True
     then fst (frames (bb_peek b)) \<noteq> [] \<and> bb_peek b = hd (fst (frames (bb_peek b))) @ bb_peek b'
       \<and> frames (bb_peek b') = (tl (fst (frames (bb_peek b))), snd (frames (bb_peek b)))
     else b' = b \<and> fst (frames (bb_peek b)) = [])"
proof (cases "\<exists>n. front_packet_length (bb_peek b) = ok (Some n)")
  case True
  then obtain n where n: "front_packet_length (bb_peek b) = ok (Some n)" by blast
  then have "n \<le> bb_head b" using front_packet_length_Some [OF n] inv by simp
  then show ?thesis
    using bb_consume_ok [OF inv] n frames_step [OF n] by (fastforce simp: ipb_next_def)
next
  case False
  then show ?thesis
    using front_packet_length_total [of "bb_peek b"] inv frames_stop [OF False]
    by (auto simp: ipb_next_def split: option.splits sum.splits)
qed

lemma ipb_room:
  assumes "bb_inv b" and "length (bb_buf b) = MAX_IP_PACKET_LENGTH"
    and "front_packet_length (bb_peek b) = ok None"
  shows "0 < bb_room b"
proof (rule ccontr)
  assume "\<not> 0 < bb_room b"
  then have "MAX_IP_PACKET_LENGTH \<le> length (bb_peek b)"
    using assms by (simp add: bb_room_def bb_inv_def)
  then show False using front_packet_length_full assms(3) by blast
qed

end
