(* ===== verification/Selector.thy ===== *)
theory Selector
  imports Prelude
begin

text \<open>
  \<open>relay/selector.rs\<close>: the handlers behind a \<open>mio::Poll\<close>, and the deferred removal of tokens.

  \<open>Poll\<close> itself is outside: its registrations are logged in order, and a function from the log
  to a possible error decides the result of the operation that heads it.  A handler is the name of
  the object that the code's closure captures.  The slab's choice of a key is a parameter as well,
  of which the code relies on being unused (\<open>slab_ok\<close>).
\<close>

text \<open>\<open>mio::Ready\<close>, as far as the relay looks at it.\<close>

datatype ready = Ready (is_readable: bool) (is_writable: bool)

instantiation ready :: "{semilattice_sup, order_bot}"
begin

definition bot_ready :: ready where
  "bot = Ready False False"

definition sup_ready :: "ready \<Rightarrow> ready \<Rightarrow> ready" where
  "sup a b = Ready (is_readable a \<or> is_readable b) (is_writable a \<or> is_writable b)"

definition less_eq_ready :: "ready \<Rightarrow> ready \<Rightarrow> bool" where
  "a \<le> b \<longleftrightarrow> (is_readable a \<longrightarrow> is_readable b) \<and> (is_writable a \<longrightarrow> is_writable b)"

definition less_ready :: "ready \<Rightarrow> ready \<Rightarrow> bool" where
  "a < b \<longleftrightarrow> a \<le> b \<and> \<not> b \<le> (a :: ready)"

instance
  by standard (auto simp: bot_ready_def sup_ready_def less_eq_ready_def less_ready_def
      intro: ready.expand)

end

definition ready_readable :: ready where
  "ready_readable = Ready True False"

definition ready_writable :: ready where
  "ready_writable = Ready False True"

lemmas ready_defs = ready_readable_def ready_writable_def bot_ready_def sup_ready_def

datatype handler = ServerHandler | ClientHandler nat | ConnectionHandler nat

datatype poll_op = PollRegister nat nat ready | PollReregister nat nat ready | PollDeregister nat

type_synonym poll = "poll_op list \<Rightarrow> io_error option"

record selector =
  sel_handlers :: "nat \<rightharpoonup> handler"
  sel_tokens_to_remove :: "nat list"
  sel_log :: "poll_op list"

definition selector_create :: selector where
  "selector_create = \<lparr>sel_handlers = Map.empty, sel_tokens_to_remove = [], sel_log = []\<rparr>"

definition poll_do :: "poll \<Rightarrow> poll_op \<Rightarrow> selector \<Rightarrow> unit io_result \<times> selector" where
  "poll_do P op s = (let log = op # sel_log s in
     (case P log of None \<Rightarrow> Inr () | Some e \<Rightarrow> Inl e, s\<lparr>sel_log := log\<rparr>))"

text \<open>\<open>Slab::remove\<close> panics on a vacant key.\<close>

definition slab_remove :: "nat \<Rightarrow> selector \<Rightarrow> selector option" where
  "slab_remove k s = (if sel_handlers s k = None then None
     else Some (s\<lparr>sel_handlers := (sel_handlers s)(k := None)\<rparr>))"

definition selector_register :: "poll \<Rightarrow> ((nat \<rightharpoonup> handler) \<Rightarrow> nat) \<Rightarrow> nat \<Rightarrow> handler \<Rightarrow> ready
    \<Rightarrow> selector \<Rightarrow> (nat io_result \<times> selector) option" where
  "selector_register P vacant handle h interest s = do {
     let token = vacant (sel_handlers s);
     let s = s\<lparr>sel_handlers := (sel_handlers s)(token \<mapsto> h)\<rparr>;
     let (r, s) = poll_do P (PollRegister handle token interest) s;
     case r of
       Inl e \<Rightarrow> do { s \<leftarrow> slab_remove token s; Some (Inl e, s) }
     | Inr _ \<Rightarrow> Some (Inr token, s) }"

definition selector_reregister :: "poll \<Rightarrow> nat \<Rightarrow> nat \<Rightarrow> ready \<Rightarrow> selector \<Rightarrow> unit io_result \<times> selector" where
  "selector_reregister P handle token interest s = poll_do P (PollReregister handle token interest) s"

definition selector_deregister :: "poll \<Rightarrow> nat \<Rightarrow> nat \<Rightarrow> selector \<Rightarrow> unit io_result \<times> selector" where
  "selector_deregister P handle token s = (let (result, s) = poll_do P (PollDeregister handle) s in
     (result, s\<lparr>sel_tokens_to_remove := sel_tokens_to_remove s @ [token]\<rparr>))"

fun remove_tokens :: "nat list \<Rightarrow> selector \<Rightarrow> selector option" where
  "remove_tokens [] s = Some s"
| "remove_tokens (t # ts) s = do { s \<leftarrow> slab_remove t s; remove_tokens ts s }"

definition clean_removed_tokens :: "selector \<Rightarrow> selector option" where
  "clean_removed_tokens s = do {
     s \<leftarrow> remove_tokens (sel_tokens_to_remove s) s;
     Some (s\<lparr>sel_tokens_to_remove := []\<rparr>) }"

text \<open>
  \<open>run_handlers\<close>, where \<open>dispatch\<close> is what a handler does with the readiness of its event to the
  state around the selector.
\<close>

fun run_events :: "(handler \<Rightarrow> ready \<Rightarrow> 'w \<times> selector \<Rightarrow> ('w \<times> selector) option)
    \<Rightarrow> (nat \<times> ready) list \<Rightarrow> 'w \<times> selector \<Rightarrow> ('w \<times> selector) option" where
  "run_events dispatch [] w = Some w"
| "run_events dispatch ((token, ready) # events) w = do {
     h \<leftarrow> sel_handlers (snd w) token;
     w \<leftarrow> dispatch h ready w;
     run_events dispatch events w }"

definition run_handlers :: "(handler \<Rightarrow> ready \<Rightarrow> 'w \<times> selector \<Rightarrow> ('w \<times> selector) option)
    \<Rightarrow> (nat \<times> ready) list \<Rightarrow> 'w \<times> selector \<Rightarrow> ('w \<times> selector) option" where
  "run_handlers dispatch events w = do {
     (x, s) \<leftarrow> run_events dispatch events w;
     s \<leftarrow> clean_removed_tokens s;
     Some (x, s) }"

section \<open>Tokens\<close>

text \<open>
  Every token to remove has a handler, and none is listed twice: that is what keeps
  \<open>clean_removed_tokens\<close> from panicking.
\<close>

definition slab_ok :: "((nat \<rightharpoonup> handler) \<Rightarrow> nat) \<Rightarrow> bool" where
  "slab_ok vacant \<longleftrightarrow> (\<forall>h. finite (dom h) \<longrightarrow> h (vacant h) = None)"

definition sel_inv :: "selector \<Rightarrow> bool" where
  "sel_inv s \<longleftrightarrow> finite (dom (sel_handlers s)) \<and> distinct (sel_tokens_to_remove s)
     \<and> set (sel_tokens_to_remove s) \<subseteq> dom (sel_handlers s)"

text \<open>The tokens a live object may use: they have a handler that is not about to go.\<close>

definition live_token :: "selector \<Rightarrow> nat \<Rightarrow> bool" where
  "live_token s t \<longleftrightarrow> t \<in> dom (sel_handlers s) \<and> t \<notin> set (sel_tokens_to_remove s)"

lemma selector_create_inv: "sel_inv selector_create"
  by (simp add: sel_inv_def selector_create_def)

lemma selector_register_ok:
  assumes inv: "sel_inv s" and vac: "slab_ok vacant"
  shows "\<exists>r s'. selector_register P vacant fd h i s = Some (r, s') \<and> sel_inv s'
    \<and> (\<forall>t. live_token s t \<longrightarrow> live_token s' t)
    \<and> sel_tokens_to_remove s' = sel_tokens_to_remove s
    \<and> (case r of Inl e \<Rightarrow> sel_handlers s' = sel_handlers s
       | Inr t \<Rightarrow> sel_handlers s t = None \<and> live_token s' t
           \<and> sel_handlers s' = (sel_handlers s)(t \<mapsto> h))"
proof -
  let ?t = "vacant (sel_handlers s)"
  have t: "sel_handlers s ?t = None" using inv vac by (simp add: sel_inv_def slab_ok_def)
  then have nt: "?t \<notin> set (sel_tokens_to_remove s)" using inv by (auto simp: sel_inv_def)
  show ?thesis
    using inv t nt
    by (auto simp: selector_register_def poll_do_def slab_remove_def sel_inv_def live_token_def Let_def
        split: option.splits)
qed

lemma selector_reregister_keeps [simp]:
  "sel_handlers (snd (selector_reregister P h t i s)) = sel_handlers s"
  "sel_tokens_to_remove (snd (selector_reregister P h t i s)) = sel_tokens_to_remove s"
  by (simp_all add: selector_reregister_def poll_do_def Let_def)

lemma selector_deregister_keeps [simp]:
  "sel_handlers (snd (selector_deregister P h t s)) = sel_handlers s"
  "sel_tokens_to_remove (snd (selector_deregister P h t s)) = sel_tokens_to_remove s @ [t]"
  by (simp_all add: selector_deregister_def poll_do_def Let_def)

lemma sel_inv_reregister [simp]:
  "sel_inv (snd (selector_reregister P h t i s)) = sel_inv s"
  "live_token (snd (selector_reregister P h t i s)) = live_token s"
  by (simp_all add: sel_inv_def live_token_def fun_eq_iff)

lemma selector_deregister_ok:
  assumes "sel_inv s" and "live_token s t"
  shows "sel_inv (snd (selector_deregister P h t s))"
    and "live_token (snd (selector_deregister P h t s)) u \<longleftrightarrow> live_token s u \<and> u \<noteq> t"
  using assms by (auto simp: sel_inv_def live_token_def)

lemma remove_tokens_ok:
  "distinct ts \<Longrightarrow> set ts \<subseteq> dom (sel_handlers s) \<Longrightarrow>
    \<exists>s'. remove_tokens ts s = Some s' \<and> sel_handlers s' = sel_handlers s |` (- set ts)
      \<and> sel_tokens_to_remove s' = sel_tokens_to_remove s \<and> sel_log s' = sel_log s"
proof (induction ts arbitrary: s)
  case (Cons t ts)
  let ?s = "s\<lparr>sel_handlers := (sel_handlers s)(t := None)\<rparr>"
  have r: "slab_remove t s = Some ?s" using Cons.prems by (auto simp: slab_remove_def)
  obtain s' where s': "remove_tokens ts ?s = Some s'"
    "sel_handlers s' = sel_handlers ?s |` (- set ts)"
    "sel_tokens_to_remove s' = sel_tokens_to_remove ?s" "sel_log s' = sel_log ?s"
  proof -
    have d: "distinct ts" and sub: "set ts \<subseteq> dom (sel_handlers ?s)" using Cons.prems by auto
    from Cons.IH [OF d sub] show thesis by (elim exE conjE) (rule that)
  qed
  have "sel_handlers ?s |` (- set ts) = sel_handlers s |` (- set (t # ts))"
    by (auto simp: restrict_map_def fun_eq_iff)
  then show ?case using r s' by simp
qed (simp add: restrict_map_def)

lemma clean_removed_tokens_ok:
  assumes "sel_inv s"
  shows "\<exists>s'. clean_removed_tokens s = Some s' \<and> sel_inv s' \<and> (\<forall>t. live_token s' t \<longleftrightarrow> live_token s t)
    \<and> sel_tokens_to_remove s' = [] \<and> sel_log s' = sel_log s"
proof -
  obtain s' where s': "remove_tokens (sel_tokens_to_remove s) s = Some s'"
    "sel_handlers s' = sel_handlers s |` (- set (sel_tokens_to_remove s))"
    "sel_log s' = sel_log s"
    using remove_tokens_ok [of "sel_tokens_to_remove s" s] assms by (auto simp: sel_inv_def)
  have "dom (sel_handlers s') = dom (sel_handlers s) - set (sel_tokens_to_remove s)"
    using s'(2) by auto
  then show ?thesis
    using s' assms by (auto simp: clean_removed_tokens_def sel_inv_def live_token_def)
qed

text \<open>A token marked twice makes the clean-up panic.\<close>

lemma clean_removed_tokens_twice:
  "sel_tokens_to_remove s = ts @ [t, t] \<Longrightarrow> clean_removed_tokens s = None"
proof -
  have rm: "remove_tokens (us @ [t, t]) x = None" for us x
    by (induction us arbitrary: x) (auto simp: slab_remove_def bind_eq_None_conv)
  assume "sel_tokens_to_remove s = ts @ [t, t]"
  then show ?thesis by (simp add: clean_removed_tokens_def rm)
qed

end
