(* ===== verification/Stream_Buffer.thy ===== *)
theory Stream_Buffer
  imports Byte_Queue
begin

text \<open>
  \<open>relay/stream_buffer.rs\<close>: the circular byte buffer between a client or a TCP socket and the
  relay.  One slot stays free, so that \<open>head = tail\<close> means empty.
\<close>

record stream_buffer =
  sb_buf :: bytes
  sb_head :: nat
  sb_tail :: nat

text \<open>
  A \<open>io::Write\<close> is a function from its own state and the offered slice to the number of bytes it
  accepted, or an error, and its next state.  Where only its answers matter, it is a function of the
  slice alone (\<open>writer\<close>); the contract of the trait is then \<open>writer_ok\<close>.
\<close>

type_synonym writer = "bytes \<Rightarrow> nat io_result"

definition writer_ok :: "writer \<Rightarrow> bool" where
  "writer_ok w \<longleftrightarrow> (\<forall>bs n. w bs = Inr n \<longrightarrow> n \<le> length bs)"

definition sb_new :: "nat \<Rightarrow> stream_buffer" where
  "sb_new capacity = \<lparr>sb_buf = replicate (capacity + 1) 0, sb_head = 0, sb_tail = 0\<rparr>"

definition sb_is_empty :: "stream_buffer \<Rightarrow> bool" where
  "sb_is_empty s \<longleftrightarrow> sb_head s = sb_tail s"

definition sb_size :: "stream_buffer \<Rightarrow> nat" where
  "sb_size s = (if sb_head s < sb_tail s then sb_head s + length (sb_buf s) - sb_tail s
     else sb_head s - sb_tail s)"

definition sb_capacity :: "stream_buffer \<Rightarrow> nat" where
  "sb_capacity s = length (sb_buf s) - 1"

definition sb_remaining :: "stream_buffer \<Rightarrow> nat" where
  "sb_remaining s = sb_capacity s - sb_size s"

definition sb_optimize :: "stream_buffer \<Rightarrow> stream_buffer" where
  "sb_optimize s = (if sb_is_empty s then s\<lparr>sb_head := 0, sb_tail := 0\<rparr> else s)"

definition sb_write_into ::
    "('d \<Rightarrow> bytes \<Rightarrow> nat io_result \<times> 'd) \<Rightarrow> 'd \<Rightarrow> stream_buffer \<Rightarrow> (nat io_result \<times> 'd \<times> stream_buffer) option" where
  "sb_write_into write destination s =
     (if sb_head s = sb_tail s then Some (Inr 0, destination, s)
      else if sb_head s > sb_tail s then do {
        source_slice \<leftarrow> slice (sb_tail s) (sb_head s) (sb_buf s);
        case write destination source_slice of
          (Inl e, destination) \<Rightarrow> Some (Inl e, destination, s)
        | (Inr w, destination) \<Rightarrow> Some (Inr w, destination, sb_optimize (s\<lparr>sb_tail := sb_tail s + w\<rparr>))
      } else do {
        source_slice \<leftarrow> slice (sb_tail s) (length (sb_buf s)) (sb_buf s);
        case write destination source_slice of
          (Inl e, destination) \<Rightarrow> Some (Inl e, destination, s)
        | (Inr w, destination) \<Rightarrow> Some (Inr w, destination,
            sb_optimize (s\<lparr>sb_tail := (sb_tail s + w) mod length (sb_buf s)\<rparr>))
      })"

text \<open>The same call towards a destination of which only the answers matter.\<close>

definition sb_write_to :: "writer \<Rightarrow> stream_buffer \<Rightarrow> (nat io_result \<times> stream_buffer) option" where
  "sb_write_to destination s =
     map_option (\<lambda>(r, _, s). (r, s)) (sb_write_into (\<lambda>_ source_slice. (destination source_slice, ())) () s)"

definition sb_read_from :: "bytes \<Rightarrow> stream_buffer \<Rightarrow> stream_buffer option" where
  "sb_read_from source s = do {
     assert_that (length source \<le> sb_remaining s);
     let buf_len = length (sb_buf s);
     buf \<leftarrow> (if length source \<le> buf_len - sb_head s
       then splice (sb_head s) source (sb_buf s)
       else do {
         b \<leftarrow> splice (sb_head s) (take (buf_len - sb_head s) source) (sb_buf s);
         splice 0 (drop (buf_len - sb_head s) source) b
       });
     Some (s\<lparr>sb_buf := buf, sb_head := (sb_head s + length source) mod buf_len\<rparr>)
   }"

section \<open>The stored bytes\<close>

definition sb_inv :: "stream_buffer \<Rightarrow> bool" where
  "sb_inv s \<longleftrightarrow> sb_head s < length (sb_buf s) \<and> sb_tail s < length (sb_buf s)"

definition sb_contents :: "stream_buffer \<Rightarrow> bytes" where
  "sb_contents s =
     map (\<lambda>i. sb_buf s ! ((sb_tail s + i) mod length (sb_buf s))) [0..<sb_size s]"

lemma sb_new_inv [simp]: "sb_inv (sb_new c)" "sb_contents (sb_new c) = []"
  "sb_capacity (sb_new c) = c" "sb_remaining (sb_new c) = c" "sb_size (sb_new c) = 0"
  by (simp_all add: sb_inv_def sb_new_def sb_contents_def sb_size_def sb_capacity_def
      sb_remaining_def)

lemma sb_inv_pos: "sb_inv s \<Longrightarrow> 0 < length (sb_buf s)"
  by (auto simp: sb_inv_def)

lemma length_sb_contents [simp]: "length (sb_contents s) = sb_size s"
  by (simp add: sb_contents_def)

lemma sb_size_le_capacity: "sb_inv s \<Longrightarrow> sb_size s \<le> sb_capacity s"
  by (auto simp: sb_inv_def sb_size_def sb_capacity_def)

lemma sb_size_remaining: "sb_inv s \<Longrightarrow> sb_size s + sb_remaining s = sb_capacity s"
  using sb_size_le_capacity by (simp add: sb_remaining_def)

lemma sb_is_empty_iff: "sb_inv s \<Longrightarrow> sb_is_empty s \<longleftrightarrow> sb_contents s = []"
  by (auto simp: sb_is_empty_def sb_contents_def sb_size_def sb_inv_def)

lemma sb_optimize_same [simp]: "sb_buf (sb_optimize s) = sb_buf s"
  "sb_size (sb_optimize s) = sb_size s" "sb_contents (sb_optimize s) = sb_contents s"
  "sb_inv s \<Longrightarrow> sb_inv (sb_optimize s)" "sb_is_empty (sb_optimize s) = sb_is_empty s"
  by (auto simp: sb_optimize_def sb_is_empty_def sb_size_def sb_contents_def sb_inv_def)

lemma sb_capacity_cong: "length (sb_buf s) = length (sb_buf s') \<Longrightarrow> sb_capacity s = sb_capacity s'"
  by (simp add: sb_capacity_def)

section \<open>Writing out\<close>

text \<open>The contiguous slice a write is offered.\<close>

definition sb_offered :: "stream_buffer \<Rightarrow> bytes" where
  "sb_offered s = (if sb_tail s \<le> sb_head s then take (sb_head s - sb_tail s) (drop (sb_tail s) (sb_buf s))
     else drop (sb_tail s) (sb_buf s))"

lemma sb_offered_prefix:
  assumes "sb_inv s"
  shows "sb_offered s = take (length (sb_offered s)) (sb_contents s)"
    and "length (sb_offered s) = min (sb_size s) (length (sb_buf s) - sb_tail s)"
proof -
  show len: "length (sb_offered s) = min (sb_size s) (length (sb_buf s) - sb_tail s)"
    using assms by (auto simp: sb_offered_def sb_size_def sb_inv_def)
  show "sb_offered s = take (length (sb_offered s)) (sb_contents s)"
  proof (rule nth_equalityI)
    fix i assume i: "i < length (sb_offered s)"
    then have "sb_tail s + i < length (sb_buf s)" using len by linarith
    then show "sb_offered s ! i = take (length (sb_offered s)) (sb_contents s) ! i"
      using i len assms by (auto simp: sb_offered_def sb_contents_def sb_inv_def)
  qed (use len in simp)
qed

lemma sb_offered_Nil: "sb_inv s \<Longrightarrow> sb_offered s = [] \<longleftrightarrow> sb_contents s = []"
proof -
  assume inv: "sb_inv s"
  have "length (sb_offered s) = 0 \<longleftrightarrow> length (sb_contents s) = 0"
    using sb_offered_prefix(2) [OF inv] inv by (auto simp: sb_inv_def min_def)
  then show ?thesis by (simp only: length_0_conv)
qed

text \<open>Moving the tail forward drops bytes from the front.\<close>

lemma sb_advance:
  assumes inv: "sb_inv s" and w: "w \<le> sb_size s"
  defines "s' \<equiv> s\<lparr>sb_tail := (sb_tail s + w) mod length (sb_buf s)\<rparr>"
  shows "sb_inv s' \<and> sb_size s' = sb_size s - w \<and> sb_contents s' = drop w (sb_contents s)"
proof -
  let ?n = "length (sb_buf s)"
  have size: "sb_size s' = sb_size s - w"
  proof (cases "sb_tail s + w < ?n")
    case True
    then show ?thesis using inv w by (auto simp: s'_def sb_size_def sb_inv_def)
  next
    case False
    then have "(sb_tail s + w) mod ?n = sb_tail s + w - ?n"
      using inv w by (subst mod_if) (auto simp: sb_inv_def sb_size_def split: if_splits)
    then show ?thesis using inv w False by (auto simp: s'_def sb_size_def sb_inv_def split: if_splits)
  qed
  have "sb_contents s' = drop w (sb_contents s)"
  proof (rule nth_equalityI)
    fix i assume "i < length (sb_contents s')"
    then have "i < sb_size s - w" "i + w < sb_size s" using size by simp_all
    then show "sb_contents s' ! i = drop w (sb_contents s) ! i"
      using size by (simp add: sb_contents_def s'_def mod_simps ac_simps)
  qed (use size in simp)
  moreover have "sb_inv s'" using inv sb_inv_pos [OF inv] by (simp add: s'_def sb_inv_def)
  ultimately show ?thesis using size by simp
qed

lemma sb_write_to_empty: "sb_contents s = [] \<Longrightarrow> sb_inv s \<Longrightarrow> sb_write_to w s = Some (Inr 0, s)"
  using sb_is_empty_iff [of s] by (simp add: sb_write_to_def sb_write_into_def sb_is_empty_def)

lemma sb_write_to_offers:
  assumes "sb_inv s" and "sb_contents s \<noteq> []"
  shows "sb_write_to W s = (case W (sb_offered s) of
      Inl e \<Rightarrow> Some (Inl e, s)
    | Inr w \<Rightarrow> Some (Inr w, sb_optimize (s\<lparr>sb_tail :=
        if sb_tail s < sb_head s then sb_tail s + w else (sb_tail s + w) mod length (sb_buf s)\<rparr>)))"
proof -
  have "sb_head s \<noteq> sb_tail s"
    using assms sb_is_empty_iff [of s] by (simp add: sb_is_empty_def)
  then show ?thesis
    using assms(1)
    by (auto simp: sb_write_to_def sb_write_into_def sb_offered_def sb_inv_def slice_def split: sum.splits)
qed

lemma sb_write_to_error:
  assumes "sb_inv s" "sb_contents s \<noteq> []" "W (sb_offered s) = Inl e"
  shows "sb_write_to W s = Some (Inl e, s)"
  using assms by (simp add: sb_write_to_offers)

lemma sb_write_to_ok:
  assumes inv: "sb_inv s" and ne: "sb_contents s \<noteq> []" and W: "W (sb_offered s) = Inr w"
    and w: "w \<le> length (sb_offered s)"
  shows "\<exists>s'. sb_write_to W s = Some (Inr w, s') \<and> sb_inv s'
    \<and> sb_contents s' = drop w (sb_contents s) \<and> length (sb_buf s') = length (sb_buf s)"
proof -
  let ?t = "if sb_tail s < sb_head s then sb_tail s + w else (sb_tail s + w) mod length (sb_buf s)"
  have le: "w \<le> sb_size s" using w sb_offered_prefix(2) [OF inv] by simp
  have "?t = (sb_tail s + w) mod length (sb_buf s)"
    using le inv by (auto simp: sb_size_def sb_inv_def)
  then have "sb_write_to W s = Some (Inr w, sb_optimize (s\<lparr>sb_tail := (sb_tail s + w) mod length (sb_buf s)\<rparr>))"
    using sb_write_to_offers [OF inv ne, of W] W by simp
  then show ?thesis using sb_advance [OF inv le] by simp
qed

section \<open>Reading in\<close>

text \<open>The bytes written at \<open>head\<close> are read back through the wrap; no other slot changes.\<close>

definition sb_filled :: "bytes \<Rightarrow> stream_buffer \<Rightarrow> bytes" where
  "sb_filled source s = (let n = length (sb_buf s); h = sb_head s; k = length source in
     if k \<le> n - h then take h (sb_buf s) @ source @ drop (h + k) (sb_buf s)
     else drop (n - h) source @ take (h - (k - (n - h))) (drop (k - (n - h)) (sb_buf s))
       @ take (n - h) source)"

lemma length_sb_filled: "sb_inv s \<Longrightarrow> length source < length (sb_buf s) \<Longrightarrow>
    length (sb_filled source s) = length (sb_buf s)"
  by (auto simp: sb_filled_def sb_inv_def Let_def)

lemma sb_read_from_eq:
  assumes "sb_inv s" and "length source \<le> sb_remaining s"
  shows "sb_read_from source s = Some (s\<lparr>sb_buf := sb_filled source s,
    sb_head := (sb_head s + length source) mod length (sb_buf s)\<rparr>)"
proof -
  have "length source < length (sb_buf s)" "sb_head s < length (sb_buf s)"
    using assms by (auto simp: sb_remaining_def sb_capacity_def sb_inv_def)
  then show ?thesis
    using assms(2) by (auto simp: sb_read_from_def sb_filled_def splice_def Let_def drop_take)
qed

lemma nth_sb_filled:
  assumes inv: "sb_inv s" and len: "length source < length (sb_buf s)" and p: "p < length (sb_buf s)"
  shows "sb_filled source s ! p =
    (let d = (if sb_head s \<le> p then p - sb_head s else p + length (sb_buf s) - sb_head s)
     in if d < length source then source ! d else sb_buf s ! p)"
proof (cases "length source \<le> length (sb_buf s) - sb_head s")
  case True
  let ?h = "sb_head s" and ?k = "length source"
  have f: "sb_filled source s = take ?h (sb_buf s) @ source @ drop (?h + ?k) (sb_buf s)"
    using True by (simp add: sb_filled_def Let_def)
  have h: "?h < length (sb_buf s)" using inv by (simp add: sb_inv_def)
  consider "p < ?h" | "?h \<le> p" "p < ?h + ?k" | "?h + ?k \<le> p" by linarith
  then show ?thesis
  proof cases
    case 1
    then have "\<not> p + length (sb_buf s) - ?h < ?k" using True h by linarith
    then show ?thesis using 1 h unfolding f by (simp add: nth_append)
  next
    case 2
    then show ?thesis using h unfolding f by (simp add: nth_append less_diff_conv2)
  next
    case 3
    then show ?thesis using h p unfolding f by (simp add: nth_append)
  qed
next
  case False
  let ?n = "length (sb_buf s)" and ?h = "sb_head s" and ?k = "length source"
  let ?r = "?k - (?n - ?h)"
  have r: "?r < ?h" "?h < ?n" using False inv len by (auto simp: sb_inv_def)
  have f: "sb_filled source s = drop (?n - ?h) source @ take (?h - ?r) (drop ?r (sb_buf s))
      @ take (?n - ?h) source"
    using False by (simp add: sb_filled_def Let_def)
  consider "p < ?r" | "?r \<le> p" "p < ?h" | "?h \<le> p" by linarith
  then show ?thesis
  proof cases
    case 1
    then show ?thesis using r False p unfolding f by (auto simp: nth_append Let_def ac_simps)
  next
    case 2
    then show ?thesis using r False p unfolding f by (auto simp: nth_append Let_def)
  next
    case 3
    then show ?thesis using r False p unfolding f by (auto simp: nth_append Let_def)
  qed
qed

lemma sb_read_from_ok:
  assumes inv: "sb_inv s" and room: "length source \<le> sb_remaining s"
  shows "\<exists>s'. sb_read_from source s = Some s' \<and> sb_inv s'
    \<and> sb_contents s' = sb_contents s @ source \<and> length (sb_buf s') = length (sb_buf s)"
proof -
  let ?n = "length (sb_buf s)" and ?k = "length source"
  let ?s' = "s\<lparr>sb_buf := sb_filled source s, sb_head := (sb_head s + ?k) mod ?n\<rparr>"
  have lt: "sb_size s + ?k < ?n" using room inv sb_size_remaining [OF inv]
    by (auto simp: sb_capacity_def sb_inv_def)
  have buf: "length (sb_buf ?s') = ?n" using inv lt by (simp add: length_sb_filled)
  have h: "sb_head s = (sb_tail s + sb_size s) mod ?n"
    using inv by (auto simp: sb_size_def sb_inv_def)
  have size: "sb_size ?s' = sb_size s + ?k"
  proof (cases "sb_head s + ?k < ?n")
    case True
    then show ?thesis using buf inv lt by (auto simp: sb_size_def sb_inv_def split: if_splits)
  next
    case False
    then have "(sb_head s + ?k) mod ?n = sb_head s + ?k - ?n"
      using inv lt by (subst mod_if) (auto simp: sb_inv_def)
    then show ?thesis using buf inv lt False by (auto simp: sb_size_def sb_inv_def split: if_splits)
  qed
  have "sb_contents ?s' = sb_contents s @ source"
  proof (rule nth_equalityI)
    fix i assume "i < length (sb_contents ?s')"
    then have i: "i < sb_size s + ?k" using size by simp
    let ?p = "(sb_tail s + i) mod ?n"
    let ?d = "if sb_head s \<le> ?p then ?p - sb_head s else ?p + ?n - sb_head s"
    have p: "?p < ?n" using sb_inv_pos [OF inv] by simp
    have d: "?d = (if i < sb_size s then ?n - sb_size s + i else i - sb_size s)"
    proof (cases "sb_tail s + i < ?n")
      case True
      then show ?thesis using i lt inv by (auto simp: sb_size_def sb_inv_def split: if_splits)
    next
      case False
      then have "?p = sb_tail s + i - ?n"
        using inv i lt by (subst mod_if) (auto simp: sb_inv_def)
      then show ?thesis
        using i lt inv False by (auto simp: sb_size_def sb_inv_def split: if_splits)
    qed
    have "sb_contents ?s' ! i = sb_filled source s ! ?p"
      using i size buf by (simp add: sb_contents_def)
    also have "\<dots> = (if ?d < ?k then source ! ?d else sb_buf s ! ?p)"
      using nth_sb_filled [OF inv _ p, of source] lt by (simp add: Let_def)
    also have "\<dots> = (sb_contents s @ source) ! i"
      using i lt unfolding d by (auto simp: nth_append sb_contents_def)
    finally show "sb_contents ?s' ! i = (sb_contents s @ source) ! i" .
  qed (use size in simp)
  moreover have "sb_inv ?s'" using inv buf sb_inv_pos [OF inv] by (simp add: sb_inv_def)
  ultimately show ?thesis using sb_read_from_eq [OF inv room] buf by simp
qed

lemma sb_read_from_panics: "sb_remaining s < length source \<Longrightarrow> sb_read_from source s = None"
  by (simp add: sb_read_from_def)

section \<open>As a byte queue\<close>

text \<open>
  A recorder: it answers as \<open>W\<close> does, and keeps the bytes it accepted of each slice it is handed.
\<close>

definition recording :: "writer \<Rightarrow> bytes \<Rightarrow> bytes \<Rightarrow> nat io_result \<times> bytes" where
  "recording W taken bs = (case W bs of Inl e \<Rightarrow> (Inl e, taken) | Inr w \<Rightarrow> (Inr w, taken @ take w bs))"

lemma sb_write_into_recording:
  assumes "sb_head s \<noteq> sb_tail s"
  shows "sb_write_into (recording W) taken s = (case sb_write_to W s of None \<Rightarrow> None
     | Some (Inl e, s') \<Rightarrow> Some (Inl e, taken, s')
     | Some (Inr w, s') \<Rightarrow> Some (Inr w, taken @ take w (sb_offered s), s'))"
  using assms by (auto simp: sb_write_to_def sb_write_into_def recording_def sb_offered_def slice_def split: sum.splits)

lemma sb_recorded_ok:
  assumes inv: "sb_inv s" and W: "writer_ok W"
  shows "\<exists>r out s'. sb_write_into (recording W) taken s = Some (r, taken @ out, s') \<and> sb_inv s'
    \<and> sb_contents s = out @ sb_contents s' \<and> length (sb_buf s') = length (sb_buf s)
    \<and> (\<forall>e. r = Inl e \<longrightarrow> out = [] \<and> s' = s) \<and> (\<forall>w. r = Inr w \<longrightarrow> length out = w)"
proof (cases "sb_contents s = []")
  case True
  then have "sb_head s = sb_tail s" using sb_is_empty_iff [OF inv] by (simp add: sb_is_empty_def)
  then show ?thesis using inv by (simp add: sb_write_into_def)
next
  case False
  then have ne: "sb_head s \<noteq> sb_tail s" using sb_is_empty_iff [OF inv] by (simp add: sb_is_empty_def)
  show ?thesis
  proof (cases "W (sb_offered s)")
    case (Inl e)
    then show ?thesis
      using inv sb_write_to_error [of s W, OF inv False Inl] by (simp add: sb_write_into_recording [OF ne])
  next
    case (Inr w)
    then have w: "w \<le> length (sb_offered s)" using W by (auto simp: writer_ok_def)
    obtain s' where s': "sb_write_to W s = Some (Inr w, s')" "sb_inv s'"
      "sb_contents s' = drop w (sb_contents s)" "length (sb_buf s') = length (sb_buf s)"
      using sb_write_to_ok [of s W w, OF inv False Inr w] by blast
    have "take w (sb_offered s) = take w (sb_contents s)"
      using w by (subst sb_offered_prefix(1) [OF inv]) (simp add: min_def)
    then have "sb_contents s = take w (sb_offered s) @ sb_contents s'"
      using s'(3) by (metis append_take_drop_id)
    then show ?thesis using s' w by (simp add: sb_write_into_recording [OF ne])
  qed
qed

lemma sb_remaining_eq: "sb_inv s \<Longrightarrow> sb_remaining s = length (sb_buf s) - 1 - length (sb_contents s)"
  by (simp add: sb_remaining_def sb_capacity_def)

text \<open>A pop is a \<open>write_to\<close> towards a recorder; a willing one takes a byte when it is offered any.\<close>

definition sb_drain :: "writer \<Rightarrow> stream_buffer \<Rightarrow> (bytes \<times> stream_buffer) option" where
  "sb_drain W s = map_option snd (sb_write_into (recording W) [] s)"

definition willing :: "writer \<Rightarrow> bool" where
  "willing W \<longleftrightarrow> (\<forall>bs. bs \<noteq> [] \<longrightarrow> (\<exists>w. W bs = Inr w \<and> 0 < w))"

lemma sb_drain_ok:
  assumes "sb_inv s" and "writer_ok W"
  shows "\<exists>out s'. sb_drain W s = Some (out, s') \<and> sb_inv s' \<and> sb_contents s = out @ sb_contents s'
    \<and> length (sb_buf s') = length (sb_buf s)"
  using sb_recorded_ok [OF assms, of "[]"] by (auto simp: sb_drain_def)

interpretation sbq: byte_queue sb_inv sb_contents sb_remaining sb_read_from sb_drain writer_ok willing
proof
  fix s :: stream_buffer and bs :: bytes
  assume "sb_inv s" "length bs \<le> sb_remaining s"
  then show "\<exists>s'. sb_read_from bs s = Some s'" using sb_read_from_ok by blast
next
  fix s s' :: stream_buffer and bs :: bytes
  assume a: "sb_inv s" "sb_read_from bs s = Some s'"
  then have room: "length bs \<le> sb_remaining s" using sb_read_from_panics not_le by fastforce
  with a show "sb_inv s' \<and> sb_contents s' = sb_contents s @ bs
      \<and> sb_remaining s = sb_remaining s' + length bs"
    using sb_read_from_ok [OF a(1) room] by (auto simp: sb_remaining_eq simp del: length_sb_contents)
next
  fix s :: stream_buffer and W
  assume "sb_inv s" "writer_ok W"
  then show "\<exists>out s'. sb_drain W s = Some (out, s')" using sb_drain_ok [of s W] by blast
next
  fix s s' :: stream_buffer and W out
  assume a: "sb_inv s" "writer_ok W" "sb_drain W s = Some (out, s')"
  then have "length (sb_contents s) \<le> length (sb_buf s) - 1"
    using sb_size_le_capacity by (simp add: sb_capacity_def)
  with a show "sb_inv s' \<and> sb_contents s = out @ sb_contents s' \<and> sb_remaining s' = sb_remaining s + length out"
    using sb_drain_ok [OF a(1,2)] by (auto simp: sb_remaining_eq simp del: length_sb_contents)
next
  fix s s' :: stream_buffer and W out
  assume a: "sb_inv s" "writer_ok W" "willing W" "sb_drain W s = Some (out, s')" "sb_contents s \<noteq> []"
  have ne: "sb_offered s \<noteq> []" using a sb_offered_Nil by blast
  then obtain w where w: "W (sb_offered s) = Inr w" "0 < w" using a(3) by (auto simp: willing_def)
  have "w \<le> length (sb_offered s)" using w a(2) by (auto simp: writer_ok_def)
  then show "out \<noteq> []"
    using a(1,4,5) ne w sb_write_to_offers [OF a(1,5), of W] sb_is_empty_iff [OF a(1)]
      sb_write_into_recording [of s W "[]"]
    by (auto simp: sb_drain_def sb_is_empty_def)
qed

text \<open>
  Any sequence of pushes and of writes towards one recorder, whose answers are those of the given
  writers: the bytes it took, and the buffer.
\<close>

fun sb_run :: "writer queue_op list \<Rightarrow> bytes \<Rightarrow> stream_buffer \<Rightarrow> (bytes \<times> stream_buffer) option" where
  "sb_run [] taken s = Some (taken, s)"
| "sb_run (Push bs # ops) taken s = do { s \<leftarrow> sb_read_from bs s; sb_run ops taken s }"
| "sb_run (Pop W # ops) taken s = do {
     (r, taken, s) \<leftarrow> sb_write_into (recording W) taken s;
     sb_run ops taken s }"

lemma sb_write_into_recording_taken:
  "sb_write_into (recording W) taken s
    = map_option (\<lambda>(r, out, s'). (r, taken @ out, s')) (sb_write_into (recording W) [] s)"
  by (auto simp: sb_write_into_def recording_def slice_def split: sum.splits)

lemma sb_run_queue: "sb_run ops taken s = map_option (\<lambda>(out, s'). (taken @ out, s')) (sbq.run ops s)"
proof (induction ops taken s rule: sb_run.induct)
  case (2 bs ops taken s)
  then show ?case by (cases "sb_read_from bs s") auto
next
  case (3 W ops taken s)
  show ?case
  proof (cases "sb_write_into (recording W) [] s")
    case None
    then have "sb_drain W s = None" by (simp add: sb_drain_def)
    then show ?thesis using None by (simp add: sb_write_into_recording_taken [of W taken])
  next
    case (Some a)
    obtain r out s' where a: "a = (r, out, s')" by (cases a) auto
    have "sb_run ops (taken @ out) s' = map_option (\<lambda>(o2, s'). ((taken @ out) @ o2, s')) (sbq.run ops s')"
      using 3 Some a by (simp add: sb_write_into_recording_taken [of W taken])
    moreover have "sb_drain W s = Some (out, s')" using Some a by (simp add: sb_drain_def)
    ultimately show ?thesis using Some a
      by (cases "sbq.run ops s'") (auto simp: sb_write_into_recording_taken [of W taken])
  qed
qed simp

end
