(* ===== verification/Client_Channel.thy ===== *)
theory Client_Channel
  imports Selector Stream_Buffer
begin

text \<open>
  \<open>ClientChannel\<close> of \<open>relay/client.rs\<close>: the part of a client that a connection may use while the
  client is borrowed, and the \<open>Client\<close> methods of the same text.
\<close>

record client_channel =
  ch_network_to_client :: stream_buffer
  ch_stream :: nat
  ch_token :: nat
  ch_interests :: ready

text \<open>\<open>.expect("Cannot register on poll")\<close> panics when the registration fails.\<close>

definition reregister_expect :: "poll \<Rightarrow> nat \<Rightarrow> nat \<Rightarrow> ready \<Rightarrow> selector \<Rightarrow> selector option" where
  "reregister_expect P handle token interest s =
     (case selector_reregister P handle token interest s of
        (Inl e, s') \<Rightarrow> None
      | (Inr _, s') \<Rightarrow> Some s')"

definition channel_update_interests ::
    "poll \<Rightarrow> client_channel \<times> selector \<Rightarrow> (client_channel \<times> selector) option" where
  "channel_update_interests P = (\<lambda>(ch, s).
     let ready = (if sb_is_empty (ch_network_to_client ch) then ready_readable
       else sup ready_readable ready_writable) in
     if ch_interests ch \<noteq> ready then do {
       s \<leftarrow> reregister_expect P (ch_stream ch) (ch_token ch) ready s;
       Some (ch\<lparr>ch_interests := ready\<rparr>, s) }
     else Some (ch, s))"

definition send_raw_to_client ::
    "poll \<Rightarrow> bytes \<Rightarrow> client_channel \<times> selector \<Rightarrow> (unit io_result \<times> client_channel \<times> selector) option" where
  "send_raw_to_client P raw = (\<lambda>(ch, s).
     if length raw \<le> sb_remaining (ch_network_to_client ch) then do {
       buffer \<leftarrow> sb_read_from raw (ch_network_to_client ch);
       (ch, s) \<leftarrow> channel_update_interests P (ch\<lparr>ch_network_to_client := buffer\<rparr>, s);
       Some (Inr (), ch, s) }
     else Some (Inl WouldBlock, ch, s))"

section \<open>What a send does\<close>

text \<open>\<open>poll_works\<close>: the operating system accepts every registration, which \<open>expect\<close> relies on.\<close>

definition poll_works :: "poll \<Rightarrow> bool" where
  "poll_works P \<longleftrightarrow> (\<forall>log. P log = None)"

lemma reregister_expect_ok:
  "poll_works P \<Longrightarrow> reregister_expect P h t i s = Some (s\<lparr>sel_log := PollReregister h t i # sel_log s\<rparr>)"
  by (simp add: reregister_expect_def selector_reregister_def poll_do_def poll_works_def Let_def)

definition same_tokens :: "selector \<Rightarrow> selector \<Rightarrow> bool" where
  "same_tokens s s' \<longleftrightarrow> sel_handlers s' = sel_handlers s \<and> sel_tokens_to_remove s' = sel_tokens_to_remove s"

lemma same_tokens_refl [simp]: "same_tokens s s"
  by (simp add: same_tokens_def)

lemma same_tokens_trans [trans]: "same_tokens a b \<Longrightarrow> same_tokens b c \<Longrightarrow> same_tokens a c"
  by (simp add: same_tokens_def)

lemma same_tokens_inv:
  "same_tokens s s' \<Longrightarrow> sel_inv s' = sel_inv s" "same_tokens s s' \<Longrightarrow> live_token s' = live_token s"
  by (rule ext | simp add: same_tokens_def sel_inv_def live_token_def)+

definition ch_inv :: "client_channel \<Rightarrow> bool" where
  "ch_inv ch \<longleftrightarrow> sb_inv (ch_network_to_client ch)"

text \<open>The bytes still to go to the client.\<close>

abbreviation ch_contents :: "client_channel \<Rightarrow> bytes" where
  "ch_contents ch \<equiv> sb_contents (ch_network_to_client ch)"

definition ch_frame :: "client_channel \<Rightarrow> client_channel \<Rightarrow> bool" where
  "ch_frame ch ch' \<longleftrightarrow> ch_stream ch' = ch_stream ch \<and> ch_token ch' = ch_token ch
     \<and> length (sb_buf (ch_network_to_client ch')) = length (sb_buf (ch_network_to_client ch))"

lemma ch_frame_refl [simp]: "ch_frame ch ch"
  by (simp add: ch_frame_def)

lemma ch_frame_trans [trans]: "ch_frame a b \<Longrightarrow> ch_frame b c \<Longrightarrow> ch_frame a c"
  by (simp add: ch_frame_def)

lemma channel_update_interests_ok:
  assumes "poll_works P"
  shows "\<exists>ch' s'. channel_update_interests P (ch, s) = Some (ch', s')
    \<and> ch_network_to_client ch' = ch_network_to_client ch \<and> ch_frame ch ch' \<and> same_tokens s s'
    \<and> ch_interests ch' = (if sb_is_empty (ch_network_to_client ch) then ready_readable
        else sup ready_readable ready_writable)"
  using assms
  by (auto simp: channel_update_interests_def Let_def reregister_expect_ok ch_frame_def same_tokens_def)

text \<open>Either the whole packet is queued behind what is there, or nothing changes.\<close>

lemma send_raw_to_client_ok:
  assumes P: "poll_works P" and inv: "ch_inv ch"
  shows "\<exists>r ch' s'. send_raw_to_client P raw (ch, s) = Some (r, ch', s') \<and> ch_inv ch' \<and> ch_frame ch ch'
    \<and> same_tokens s s'
    \<and> (if length raw \<le> sb_remaining (ch_network_to_client ch)
       then r = Inr () \<and> ch_contents ch' = ch_contents ch @ raw
       else r = Inl WouldBlock \<and> ch' = ch \<and> s' = s)"
proof (cases "length raw \<le> sb_remaining (ch_network_to_client ch)")
  case True
  obtain b where b: "sb_read_from raw (ch_network_to_client ch) = Some b" "sb_inv b"
    "sb_contents b = ch_contents ch @ raw" "length (sb_buf b) = length (sb_buf (ch_network_to_client ch))"
    using sb_read_from_ok [OF _ True] inv by (auto simp: ch_inv_def)
  obtain ch' s' where u: "channel_update_interests P (ch\<lparr>ch_network_to_client := b\<rparr>, s) = Some (ch', s')"
    "ch_network_to_client ch' = b" "ch_frame (ch\<lparr>ch_network_to_client := b\<rparr>) ch'" "same_tokens s s'"
    using channel_update_interests_ok [OF P, of "ch\<lparr>ch_network_to_client := b\<rparr>" s] by auto
  show ?thesis using True b u by (simp add: send_raw_to_client_def ch_inv_def ch_frame_def)
next
  case False
  then show ?thesis using inv by (simp add: send_raw_to_client_def)
qed

end
