(* ===== verification/Connection.thy ===== *)
theory Connection
  imports Ip_Packet Client_Channel
begin

text \<open>
  \<open>relay/connection.rs\<close> with \<open>relay/net.rs\<close>, \<open>relay/binary.rs\<close> and the address constant of
  \<open>dns.rs\<close>: the identity of a flow, where its packets really go, and the contract every kind of
  connection offers to the router.
\<close>

type_synonym ipv4_addr = "u8 \<times> u8 \<times> u8 \<times> u8"

datatype socket_addr = SocketV4 ipv4_addr u16 | SocketV6 bytes u16

definition to_byte_array :: "u32 \<Rightarrow> bytes" where
  "to_byte_array v = enc32 v"

definition to_addr :: "u32 \<Rightarrow> ipv4_addr" where
  "to_addr ipv4 = (let raw = to_byte_array ipv4 in (raw ! 0, raw ! 1, raw ! 2, raw ! 3))"

definition to_socket_addr :: "u32 \<Rightarrow> u16 \<Rightarrow> socket_addr" where
  "to_socket_addr ipv4 port = SocketV4 (to_addr ipv4) port"

text \<open>\<open>u32::from(Ipv4Addr)\<close>.\<close>

fun addr_u32 :: "ipv4_addr \<Rightarrow> u32" where
  "addr_u32 (a, b, c, d) = be32 a b c d"

definition VIRTUAL_DNS :: u32 where
  "VIRTUAL_DNS = 0x0a000003"

definition LOCALHOST_FORWARD :: u32 where
  "LOCALHOST_FORWARD = 0x0A000202"

definition LOCALHOST :: u32 where
  "LOCALHOST = 0x7F000001"

text \<open>The identifier string is derived from the rest and left out.\<close>

record connection_id =
  cid_protocol :: protocol
  cid_source :: socket_addr
  cid_destination :: socket_addr

definition connection_id_from_headers ::
    "ipv4_header_data \<Rightarrow> transport_header_data \<Rightarrow> connection_id" where
  "connection_id_from_headers ipv4_header_data transport_header_data =
     \<lparr>cid_protocol = ih_protocol ipv4_header_data,
      cid_source = to_socket_addr (ih_source ipv4_header_data)
        (transport_source_port transport_header_data),
      cid_destination = to_socket_addr (ih_destination ipv4_header_data)
        (transport_destination_port transport_header_data)\<rparr>"

fun connection_id_from_packet :: "ip_packet \<Rightarrow> connection_id option" where
  "connection_id_from_packet (Ipv4 packet) =
     map_option (connection_id_from_headers (ip_header_data packet)) (ip_transport_data packet)"
| "connection_id_from_packet (Ipv6 packet) = (
     let header = i6p_header_data packet; transport = i6p_transport_data packet;
       source = SocketV6 (i6_source header) (transport_source_port transport);
       destination = SocketV6 (i6_destination header) (transport_destination_port transport) in
     if i6_next_header header = 6
       then Some \<lparr>cid_protocol = Tcp, cid_source = source, cid_destination = destination\<rparr>
     else if i6_next_header header = 17
       then Some \<lparr>cid_protocol = Udp, cid_source = source, cid_destination = destination\<rparr>
     else None)"

text \<open>\<open>upstream\<close> is the resolver configured at start; the code panics without one.\<close>

definition rewritten_destination ::
    "(ipv4_addr \<times> u16) option \<Rightarrow> connection_id \<Rightarrow> socket_addr option" where
  "rewritten_destination upstream cid = (case cid_destination cid of
     SocketV4 ip port \<Rightarrow>
       if addr_u32 ip = VIRTUAL_DNS \<and> port = 53
       then map_option (\<lambda>(ip, port). SocketV4 ip port) upstream
       else if addr_u32 ip = LOCALHOST_FORWARD then Some (to_socket_addr LOCALHOST port)
       else Some (SocketV4 ip port)
   | SocketV6 ip port \<Rightarrow> Some (SocketV6 ip port))"

section \<open>Time\<close>

text \<open>An \<open>Instant\<close> counts nanoseconds; \<open>elapsed().as_secs()\<close> drops the fraction.\<close>

definition elapsed_secs :: "nat \<Rightarrow> nat \<Rightarrow> nat" where
  "elapsed_secs now since = (now - since) div 1000000000"

section \<open>Facts about identities\<close>

lemma addr_u32_to_addr [simp]: "addr_u32 (to_addr v) = v"
  by (simp add: to_addr_def to_byte_array_def enc32_def Let_def numeral_2_eq_2 numeral_3_eq_3)

lemma to_addr_inject [simp]: "to_addr v = to_addr w \<longleftrightarrow> v = w"
  by (metis addr_u32_to_addr)

text \<open>Two packets have one identity exactly when protocol, addresses and ports agree.\<close>

lemma connection_id_from_headers_eq:
  "connection_id_from_headers d t = connection_id_from_headers d' t' \<longleftrightarrow>
    ih_protocol d = ih_protocol d' \<and> ih_source d = ih_source d' \<and> ih_destination d = ih_destination d'
    \<and> transport_source_port t = transport_source_port t'
    \<and> transport_destination_port t = transport_destination_port t'"
  by (auto simp: connection_id_from_headers_def to_socket_addr_def)

text \<open>An accepted packet has an identity unless its IPv4 protocol is neither TCP nor UDP.\<close>

lemma connection_id_from_packet_accepted:
  assumes "ip_packet_ok p"
  shows "connection_id_from_packet p = None \<longleftrightarrow> (\<exists>p4. p = Ipv4 p4 \<and> ih_protocol (ip_header_data p4) = Other)"
proof (cases p)
  case (Ipv4 p4)
  then have "transport_header_parse (ih_protocol (ip_header_data p4))
      (drop (unat (ih_header_length (ip_header_data p4))) (ip_raw p4)) = Some (ip_transport_data p4)"
    using assms by (simp add: ipv4_accepted_def ipv4_packet_ok_def)
  then have "ip_transport_data p4 = None \<longleftrightarrow> ih_protocol (ip_header_data p4) = Other"
    by (cases "ih_protocol (ip_header_data p4)"; cases "ip_transport_data p4")
      (auto simp: bind_eq_Some_conv)
  then show ?thesis using Ipv4 by simp
next
  case (Ipv6 p6)
  then have "i6_next_header (i6p_header_data p6) \<in> {6, 17}"
    using assms by (auto simp: ipv6_packet_ok_def split: transport_header_data.splits)
  then show ?thesis using Ipv6 by (auto simp: Let_def)
qed

end
