(* ===== verification/Conn_Env.thy ===== *)
theory Conn_Env
  imports Connection
begin

text \<open>
  What every connection works with: the channel of its client and the selector, both borrowed for
  one call, and the two calls it makes on the rest of the client.  A handler that returns an
  \<open>io::Error\<close> keeps the changes it made before.
\<close>

text \<open>What a handler borrows, and the calls it makes on the rest of the client.\<close>

datatype client_request = RegisterPendingSource | RemoveFromRouter

record conn_env =
  en_channel :: client_channel
  en_selector :: selector
  en_requests :: "client_request list"

definition send_through :: "poll \<Rightarrow> bytes \<Rightarrow> conn_env \<Rightarrow> (unit io_result \<times> conn_env) option" where
  "send_through P raw e = do {
     (r, ch, s) \<leftarrow> send_raw_to_client P raw (en_channel e, en_selector e);
     Some (r, e\<lparr>en_channel := ch, en_selector := s\<rparr>) }"

definition request :: "client_request \<Rightarrow> conn_env \<Rightarrow> conn_env" where
  "request r e = e\<lparr>en_requests := en_requests e @ [r]\<rparr>"

text \<open>\<open>?\<close> inside a handler: a call that returns an error ends the handler with it.\<close>

definition then_process :: "(unit io_result \<times> 'x) option \<Rightarrow> ('x \<Rightarrow> (unit io_result \<times> 'x) option)
    \<Rightarrow> (unit io_result \<times> 'x) option" where
  "then_process m f = do { (r, x) \<leftarrow> m; case r of Inl failure \<Rightarrow> Some (Inl failure, x) | Inr _ \<Rightarrow> f x }"

lemma then_process_simps [simp]:
  "then_process (Some (Inr u, x)) f = f x" "then_process (Some (Inl e, x)) f = Some (Inl e, x)"
  "then_process None f = None"
  by (simp_all add: then_process_def)

text \<open>A packet was offered to the client: it is queued if there is room, else it is lost.\<close>

definition offered :: "conn_env \<Rightarrow> bytes \<Rightarrow> conn_env \<Rightarrow> bool" where
  "offered e raw e' \<longleftrightarrow> same_tokens (en_selector e) (en_selector e') \<and> ch_inv (en_channel e')
     \<and> ch_frame (en_channel e) (en_channel e') \<and> en_requests e' = en_requests e
     \<and> ch_contents (en_channel e') =
         (if length raw \<le> sb_remaining (ch_network_to_client (en_channel e))
          then ch_contents (en_channel e) @ raw else ch_contents (en_channel e))"

lemma send_through_ok:
  assumes "poll_works P" and "ch_inv (en_channel e)"
  shows "\<exists>e'. send_through P raw e = Some
      (if length raw \<le> sb_remaining (ch_network_to_client (en_channel e)) then Inr () else Inl WouldBlock, e')
    \<and> offered e raw e'
    \<and> (sb_remaining (ch_network_to_client (en_channel e)) < length raw \<longrightarrow> e' = e)"
proof -
  obtain r ch s where *: "send_raw_to_client P raw (en_channel e, en_selector e) = Some (r, ch, s)"
    "ch_inv ch" "ch_frame (en_channel e) ch" "same_tokens (en_selector e) s"
    "if length raw \<le> sb_remaining (ch_network_to_client (en_channel e))
       then r = Inr () \<and> ch_contents ch = ch_contents (en_channel e) @ raw
       else r = Inl WouldBlock \<and> ch = en_channel e \<and> s = en_selector e"
    using send_raw_to_client_ok [OF assms, of raw "en_selector e"] by blast
  show ?thesis using * by (auto simp: send_through_def offered_def split: if_splits)
qed

end
