(* ===== verification/Packetizer.thy ===== *)
theory Packetizer
  imports Ip_Packet
begin

text \<open>
  \<open>relay/packetizer.rs\<close> and the \<open>ReadAdapter\<close> of \<open>relay/datagram.rs\<close>: from a payload to an
  IPv4 packet for the client, by copying a reference header with its endpoints swapped in front
  of a buffer and reading the payload behind it.
\<close>

text \<open>A slice of a buffer edited in place through the view bound to it.\<close>

definition on_view ::
    "nat \<Rightarrow> nat \<Rightarrow> ('d header_view \<Rightarrow> 'd header_view option) \<Rightarrow> bytes \<times> 'd \<Rightarrow> (bytes \<times> 'd) option" where
  "on_view a b f = (\<lambda>(buf, d). do {
     s \<leftarrow> slice a b buf;
     (s', d') \<leftarrow> f (s, d);
     buf' \<leftarrow> splice a s' buf;
     Some (buf', d') })"

text \<open>\<open>buf[a..b].copy_from_slice(src)\<close>, which panics unless the lengths agree.\<close>

definition copy_from_slice :: "nat \<Rightarrow> nat \<Rightarrow> bytes \<Rightarrow> bytes \<Rightarrow> bytes option" where
  "copy_from_slice a b src buf = do {
     target \<leftarrow> slice a b buf;
     assert_that (length target = length src);
     splice a src buf }"

text \<open>\<open>ReadAdapter::recv\<close> over a \<open>Read\<close>.\<close>

definition read_adapter_recv :: "reader \<Rightarrow> nat option \<Rightarrow> reader" where
  "read_adapter_recv read max_chunk_size = (\<lambda>n. read (case max_chunk_size of
     Some m \<Rightarrow> min m n | None \<Rightarrow> n))"

record packetizer =
  pk_buffer :: bytes
  pk_transport_index :: nat
  pk_payload_index :: nat
  pk_ipv4_header_data :: ipv4_header_data
  pk_transport_header_data :: transport_header_data

definition packetizer_new :: "ipv4_header_mut \<Rightarrow> transport_header_mut \<Rightarrow> packetizer option" where
  "packetizer_new reference_ipv4_header reference_transport_header = do {
     let buffer = replicate MAX_PACKET_LENGTH 0;
     let transport_index = unat (ih_header_length (snd reference_ipv4_header));
     let payload_index = transport_index
       + unat (transport_header_length (snd reference_transport_header));
     buffer \<leftarrow> copy_from_slice 0 transport_index (fst reference_ipv4_header) buffer;
     (buffer, ipv4_header_data) \<leftarrow> on_view 0 transport_index ipv4_swap_source_and_destination
       (buffer, snd reference_ipv4_header);
     buffer \<leftarrow> copy_from_slice transport_index payload_index (fst reference_transport_header) buffer;
     (buffer, transport_header_data) \<leftarrow> on_view transport_index payload_index
       transport_swap_source_and_destination (buffer, snd reference_transport_header);
     Some \<lparr>pk_buffer = buffer, pk_transport_index = transport_index, pk_payload_index = payload_index,
       pk_ipv4_header_data = ipv4_header_data, pk_transport_header_data = transport_header_data\<rparr> }"

text \<open>\<open>ipv4_header_mut\<close> and \<open>transport_header_mut\<close>, with the edit made through them.\<close>

definition pk_ipv4_header_mut ::
    "(ipv4_header_mut \<Rightarrow> ipv4_header_mut option) \<Rightarrow> packetizer \<Rightarrow> packetizer option" where
  "pk_ipv4_header_mut f p = do {
     (buffer, data) \<leftarrow> on_view 0 (pk_transport_index p) f (pk_buffer p, pk_ipv4_header_data p);
     Some (p\<lparr>pk_buffer := buffer, pk_ipv4_header_data := data\<rparr>) }"

definition pk_transport_header_mut ::
    "(transport_header_mut \<Rightarrow> transport_header_mut option) \<Rightarrow> packetizer \<Rightarrow> packetizer option" where
  "pk_transport_header_mut f p = do {
     (buffer, data) \<leftarrow> on_view (pk_transport_index p) (pk_payload_index p) f
       (pk_buffer p, pk_transport_header_data p);
     Some (p\<lparr>pk_buffer := buffer, pk_transport_header_data := data\<rparr>) }"

text \<open>
  The addition is on \<open>u16\<close> and wraps.  The packet borrows the front of the buffer, so the checksums
  it computes are written there.
\<close>

definition packetizer_build :: "u16 \<Rightarrow> packetizer \<Rightarrow> (ipv4_packet \<times> packetizer) option" where
  "packetizer_build payload_length p = do {
     let total_length = of_nat (pk_payload_index p) + payload_length;
     p \<leftarrow> pk_ipv4_header_mut (ipv4_set_total_length total_length) p;
     p \<leftarrow> pk_transport_header_mut (transport_set_payload_length payload_length) p;
     raw \<leftarrow> slice 0 (unat total_length) (pk_buffer p);
     packet \<leftarrow> ipv4_packet_compute_checksums
       (ipv4_packet_new raw (pk_ipv4_header_data p) (pk_transport_header_data p));
     buffer \<leftarrow> splice 0 (ip_raw packet) (pk_buffer p);
     Some (packet, p\<lparr>pk_buffer := buffer\<rparr>) }"

definition packetize_empty_payload :: "packetizer \<Rightarrow> (ipv4_packet \<times> packetizer) option" where
  "packetize_empty_payload = packetizer_build 0"

text \<open>\<open>source.recv(&mut buffer[payload_index..])\<close>.\<close>

definition pk_recv :: "reader \<Rightarrow> packetizer \<Rightarrow> (nat io_result \<times> packetizer) option" where
  "pk_recv source p = do {
     target \<leftarrow> slice (pk_payload_index p) (length (pk_buffer p)) (pk_buffer p);
     case source (length target) of
       Inl e \<Rightarrow> Some (Inl e, p)
     | Inr bs \<Rightarrow> do {
         buffer \<leftarrow> splice (pk_payload_index p) bs (pk_buffer p);
         Some (Inr (length bs), p\<lparr>pk_buffer := buffer\<rparr>) } }"

definition packetize :: "reader \<Rightarrow> packetizer \<Rightarrow> (ipv4_packet io_result \<times> packetizer) option" where
  "packetize source p = do {
     (r, p) \<leftarrow> pk_recv source p;
     case r of
       Inl e \<Rightarrow> Some (Inl e, p)
     | Inr r \<Rightarrow> do {
         (ipv4_packet, p) \<leftarrow> packetizer_build (of_nat r) p;
         Some (Inr ipv4_packet, p) } }"

definition packetize_read ::
    "reader \<Rightarrow> nat option \<Rightarrow> packetizer \<Rightarrow> (ipv4_packet option io_result \<times> packetizer) option" where
  "packetize_read source max_chunk_size p = do {
     (r, p) \<leftarrow> pk_recv (read_adapter_recv source max_chunk_size) p;
     case r of
       Inl e \<Rightarrow> Some (Inl e, p)
     | Inr r \<Rightarrow>
         if r > 0 then do {
           (ipv4_packet, p) \<leftarrow> packetizer_build (of_nat r) p;
           Some (Inr (Some ipv4_packet), p) }
         else Some (Inr None, p) }"

text \<open>The packet of a given length that the buffer holds, as \<open>build\<close> left it.\<close>

definition packetizer_inflate :: "u16 \<Rightarrow> packetizer \<Rightarrow> ipv4_packet option" where
  "packetizer_inflate packet_length p = do {
     raw \<leftarrow> slice 0 (unat packet_length) (pk_buffer p);
     Some (ipv4_packet_new raw (pk_ipv4_header_data p) (pk_transport_header_data p)) }"

section \<open>Invariant\<close>

text \<open>
  The headers in the buffer are the data beside it; they describe a version 4 packet that is not a
  fragment.  Only \<open>build\<close> makes the total length meaningful.
\<close>

definition transport_matches :: "protocol \<Rightarrow> transport_header_data \<Rightarrow> bytes \<Rightarrow> bool" where
  "transport_matches q t raw \<longleftrightarrow> transport_header_parse q raw = Some (Some t) \<and>
     (case t of TcpTransport d \<Rightarrow> 20 \<le> unat (th_header_length d) | UdpTransport d \<Rightarrow> True)"

definition pk_inv :: "packetizer \<Rightarrow> bool" where
  "pk_inv p \<longleftrightarrow>
     length (pk_buffer p) = MAX_PACKET_LENGTH \<and>
     pk_transport_index p = unat (ih_header_length (pk_ipv4_header_data p)) \<and>
     pk_payload_index p = pk_transport_index p + unat (transport_header_length (pk_transport_header_data p)) \<and>
     20 \<le> pk_transport_index p \<and>
     ipv4_header_parse (take (pk_transport_index p) (pk_buffer p)) = Some (pk_ipv4_header_data p) \<and>
     transport_matches (ih_protocol (pk_ipv4_header_data p)) (pk_transport_header_data p)
       (take (unat (transport_header_length (pk_transport_header_data p)))
         (drop (pk_transport_index p) (pk_buffer p))) \<and>
     drop_bit 4 (pk_buffer p ! 0) = 4 \<and> pk_buffer p ! 6 AND 0x3f = 0 \<and> pk_buffer p ! 7 = 0"

lemma transport_matches_protocol:
  "transport_matches q (TcpTransport d) raw \<longleftrightarrow>
    q = Tcp \<and> tcp_header_parse raw = Some d \<and> 20 \<le> unat (th_header_length d)"
  "transport_matches q (UdpTransport e) raw \<longleftrightarrow> q = Udp \<and> udp_header_parse raw = Some e"
  by (cases q; auto simp: transport_matches_def bind_eq_Some_conv)+

lemma transport_matches_bounds:
  assumes "transport_matches q t raw"
  shows "8 \<le> unat (transport_header_length t)" "unat (transport_header_length t) \<le> 60"
    "even (unat (transport_header_length t))"
proof -
  have "t = TcpTransport d \<Longrightarrow> unat (th_header_length d) = 4 * (unat (raw ! 12) div 16)" for d
    using assms by (auto simp: transport_matches_protocol intro: tcp_parse_header_length)
  then show "unat (transport_header_length t) \<le> 60" "even (unat (transport_header_length t))"
    using u8_less [of "raw ! 12"] by (cases t; force simp: udp_header_length_def)+
  show "8 \<le> unat (transport_header_length t)"
    using assms by (cases t) (auto simp: transport_matches_def udp_header_length_def)
qed

lemma transport_matches_append:
  assumes "length raw = unat (transport_header_length t)"
  shows "transport_matches q t (raw @ ys) \<longleftrightarrow> transport_matches q t raw"
  using assms
  by (cases t) (auto simp: transport_matches_protocol tcp_header_parse_append
      udp_header_parse_append udp_header_length_def)

lemma on_view_eq:
  assumes "a \<le> b" and "b \<le> length buf" and "f (take (b - a) (drop a buf), d) = Some (s', d')"
    and "length s' = b - a"
  shows "on_view a b f (buf, d) = Some (take a buf @ s' @ drop b buf, d')"
  using assms by (simp add: on_view_def slice_Some splice_def)

lemma copy_from_slice_eq:
  assumes "a \<le> b" and "b \<le> length buf" and "length src = b - a"
  shows "copy_from_slice a b src buf = Some (take a buf @ src @ drop b buf)"
  using assms by (simp add: copy_from_slice_def slice_Some splice_def)

text \<open>The same for a buffer split at the slice.\<close>

lemma copy_seam:
  assumes "length A = a" and "length src = k" and "k \<le> length R"
  shows "copy_from_slice a (a + k) src (A @ R) = Some (A @ src @ drop k R)"
  using copy_from_slice_eq [of a "a + k" "A @ R" src] assms by simp

lemma on_view_seam:
  assumes "length A = a" and "length S = k" and "f (S, d) = Some (S', d')" and "length S' = k"
  shows "on_view a (a + k) f (A @ S @ R, d) = Some (A @ S' @ R, d')"
  using on_view_eq [of a "a + k" "A @ S @ R" f d S' d'] assms by simp

text \<open>The pieces of the buffer under the invariant.\<close>

abbreviation pk_segment :: "packetizer \<Rightarrow> bytes" where
  "pk_segment p \<equiv> take (unat (transport_header_length (pk_transport_header_data p)))
     (drop (pk_transport_index p) (pk_buffer p))"

lemma pk_invD:
  assumes "pk_inv p"
  shows "length (pk_buffer p) = 65536" "20 \<le> pk_transport_index p" "pk_transport_index p \<le> 60"
    "pk_transport_index p = unat (ih_header_length (pk_ipv4_header_data p))"
    "pk_payload_index p = pk_transport_index p + unat (transport_header_length (pk_transport_header_data p))"
    "28 \<le> pk_payload_index p" "pk_payload_index p \<le> 120"
    "ipv4_header_parse (take (pk_transport_index p) (pk_buffer p)) = Some (pk_ipv4_header_data p)"
    "transport_matches (ih_protocol (pk_ipv4_header_data p)) (pk_transport_header_data p) (pk_segment p)"
    "drop_bit 4 (pk_buffer p ! 0) = 4" "pk_buffer p ! 6 AND 0x3f = 0" "pk_buffer p ! 7 = 0"
proof -
  show "length (pk_buffer p) = 65536" and m: "transport_matches (ih_protocol (pk_ipv4_header_data p))
      (pk_transport_header_data p) (pk_segment p)"
    and p: "ipv4_header_parse (take (pk_transport_index p) (pk_buffer p)) = Some (pk_ipv4_header_data p)"
    and i: "pk_transport_index p = unat (ih_header_length (pk_ipv4_header_data p))"
    "pk_payload_index p = pk_transport_index p + unat (transport_header_length (pk_transport_header_data p))"
    "20 \<le> pk_transport_index p"
    using assms by (auto simp: pk_inv_def MAX_PACKET_LENGTH_def)
  show t60: "pk_transport_index p \<le> 60"
  proof -
    have "pk_transport_index p = 4 * (unat (take (pk_transport_index p) (pk_buffer p) ! 0) mod 16)"
      using ipv4_parse_header_length [OF p] i(1) by (rule trans [rotated])
    also have "\<dots> \<le> 4 * 15" by (rule mult_le_mono2) simp
    finally show ?thesis by simp
  qed
  show "28 \<le> pk_payload_index p" "pk_payload_index p \<le> 120"
    using transport_matches_bounds [OF m] i t60 by linarith+
qed (use assms in \<open>simp_all add: pk_inv_def\<close>)

lemma pk_ipv4_edit:
  assumes inv: "pk_inv p"
    and f: "f (take (pk_transport_index p) (pk_buffer p), pk_ipv4_header_data p) = Some (s', d')"
    and len: "length s' = pk_transport_index p"
    and parse: "ipv4_header_parse s' = Some d'"
    and same: "ih_header_length d' = ih_header_length (pk_ipv4_header_data p)"
      "ih_protocol d' = ih_protocol (pk_ipv4_header_data p)"
    and cells: "s' ! 0 = pk_buffer p ! 0" "s' ! 6 = pk_buffer p ! 6" "s' ! 7 = pk_buffer p ! 7"
  shows "\<exists>p'. pk_ipv4_header_mut f p = Some p' \<and> pk_inv p'
    \<and> p' = p\<lparr>pk_buffer := s' @ drop (pk_transport_index p) (pk_buffer p), pk_ipv4_header_data := d'\<rparr>"
proof -
  note P = pk_invD [OF inv]
  have "on_view 0 (pk_transport_index p) f (pk_buffer p, pk_ipv4_header_data p)
      = Some (s' @ drop (pk_transport_index p) (pk_buffer p), d')"
    using on_view_eq [of 0 "pk_transport_index p" "pk_buffer p" f "pk_ipv4_header_data p" s' d']
      f len P(1,3) by simp
  then have "pk_ipv4_header_mut f p = Some (p\<lparr>pk_buffer := s' @ drop (pk_transport_index p) (pk_buffer p),
      pk_ipv4_header_data := d'\<rparr>)"
    by (simp add: pk_ipv4_header_mut_def)
  moreover have "pk_inv (p\<lparr>pk_buffer := s' @ drop (pk_transport_index p) (pk_buffer p),
      pk_ipv4_header_data := d'\<rparr>)"
    using inv len parse same cells P(1-3)
    by (auto simp: pk_inv_def nth_append)
  ultimately show ?thesis by blast
qed

lemma pk_transport_edit:
  assumes inv: "pk_inv p"
    and f: "f (pk_segment p, pk_transport_header_data p) = Some (s', t')"
    and len: "length s' = length (pk_segment p)"
    and matches: "transport_matches (ih_protocol (pk_ipv4_header_data p)) t' s'"
    and same: "transport_header_length t' = transport_header_length (pk_transport_header_data p)"
  shows "\<exists>p'. pk_transport_header_mut f p = Some p' \<and> pk_inv p'
    \<and> p' = p\<lparr>pk_buffer := take (pk_transport_index p) (pk_buffer p) @ s'
          @ drop (pk_payload_index p) (pk_buffer p), pk_transport_header_data := t'\<rparr>"
proof -
  note P = pk_invD [OF inv]
  have n: "length s' = unat (transport_header_length (pk_transport_header_data p))"
    using len P(1,5,7) by simp
  have "on_view (pk_transport_index p) (pk_payload_index p) f (pk_buffer p, pk_transport_header_data p)
      = Some (take (pk_transport_index p) (pk_buffer p) @ s' @ drop (pk_payload_index p) (pk_buffer p), t')"
    using on_view_eq [of "pk_transport_index p" "pk_payload_index p" "pk_buffer p" f
        "pk_transport_header_data p" s' t'] f n P(1,5,7) by simp
  then have "pk_transport_header_mut f p = Some (p\<lparr>pk_buffer := take (pk_transport_index p) (pk_buffer p)
      @ s' @ drop (pk_payload_index p) (pk_buffer p), pk_transport_header_data := t'\<rparr>)"
    by (simp add: pk_transport_header_mut_def)
  moreover have "pk_inv (p\<lparr>pk_buffer := take (pk_transport_index p) (pk_buffer p)
      @ s' @ drop (pk_payload_index p) (pk_buffer p), pk_transport_header_data := t'\<rparr>)"
    using inv n matches same P(1,2,5,7)
    by (auto simp: pk_inv_def nth_append)
  ultimately show ?thesis by blast
qed

text \<open>Only the headers count: bytes behind them may change.\<close>

lemma pk_inv_prefix:
  assumes inv: "pk_inv p" and len: "length buf = 65536"
    and same: "take (pk_payload_index p) buf = take (pk_payload_index p) (pk_buffer p)"
  shows "pk_inv (p\<lparr>pk_buffer := buf\<rparr>)"
proof -
  note P = pk_invD [OF inv]
  have nth: "i < pk_payload_index p \<Longrightarrow> buf ! i = pk_buffer p ! i" for i
    by (metis nth_take same)
  have t: "take (pk_transport_index p) buf = take (pk_transport_index p) (pk_buffer p)"
    using arg_cong [OF same, of "take (pk_transport_index p)"] P(5) by simp
  have "take (unat (transport_header_length (pk_transport_header_data p))) (drop (pk_transport_index p) buf)
      = pk_segment p"
    using arg_cong [OF same, of "drop (pk_transport_index p)"] P(5) by (simp add: drop_take)
  then show ?thesis
    using inv len t nth P(5,6) by (auto simp: pk_inv_def MAX_PACKET_LENGTH_def)
qed

section \<open>Construction\<close>

text \<open>Only the endpoints of the reference headers change.\<close>

definition swapped_ipv4 :: "ipv4_header_data \<Rightarrow> ipv4_header_data" where
  "swapped_ipv4 d = d\<lparr>ih_source := ih_destination d, ih_destination := ih_source d\<rparr>"

fun swapped_transport :: "transport_header_data \<Rightarrow> transport_header_data" where
  "swapped_transport (TcpTransport d) = TcpTransport (d\<lparr>th_source_port := th_destination_port d,
     th_destination_port := th_source_port d\<rparr>)"
| "swapped_transport (UdpTransport d) = UdpTransport (d\<lparr>uh_source_port := uh_destination_port d,
     uh_destination_port := uh_source_port d\<rparr>)"

lemma swapped_transport_length [simp]:
  "transport_header_length (swapped_transport t) = transport_header_length t"
  by (cases t) simp_all

lemma ipv4_swap_ok:
  assumes "ipv4_header_parse raw = Some d"
  shows "\<exists>raw'. ipv4_swap_source_and_destination (raw, d) = Some (raw', swapped_ipv4 d)
    \<and> length raw' = length raw \<and> ipv4_header_parse raw' = Some (swapped_ipv4 d)
    \<and> (\<forall>i < 12. raw' ! i = raw ! i)"
proof -
  have len: "20 \<le> length raw" by (rule ipv4_header_parse_Some_length [OF assms])
  have m: "ipv4_swap_source_and_destination \<in> ipv4_setters" by (simp add: ipv4_setters_def)
  obtain raw' where s: "ipv4_swap_source_and_destination (raw, d) = Some (raw', swapped_ipv4 d)"
    and raw': "swap_each [12..<16] 4 raw = Some raw'"
    using ipv4_view.setter_total [OF m len, of d]
    by (auto simp: ipv4_swap_source_and_destination_def bind_eq_Some_conv swapped_ipv4_def)
  have "\<forall>i < 12. raw' ! i = raw ! i"
    using raw' swap_each_ipv4 [OF len] by (auto simp: upt_rec)
  then show ?thesis
    using s ipv4_view.setter_length [OF m s] ipv4_view.setter_coherent [OF m assms s] by blast
qed

lemma transport_swap_ok:
  assumes "transport_matches q t raw" and "length raw = unat (transport_header_length t)"
  shows "\<exists>raw'. transport_swap_source_and_destination (raw, t) = Some (raw', swapped_transport t)
    \<and> length raw' = length raw \<and> transport_matches q (swapped_transport t) raw'"
proof (cases t)
  case (TcpTransport d)
  then have d: "q = Tcp" "tcp_header_parse raw = Some d" "20 \<le> unat (th_header_length d)" "20 \<le> length raw"
    using assms by (simp_all add: transport_matches_protocol)
  have m: "tcp_swap_source_and_destination \<in> tcp_setters" by (simp add: tcp_setters_def)
  obtain raw' where s: "tcp_swap_source_and_destination (raw, d) = Some (raw',
      d\<lparr>th_source_port := th_destination_port d, th_destination_port := th_source_port d\<rparr>)"
    using tcp_view.setter_total [OF m d(4), of d]
    by (auto simp: tcp_swap_source_and_destination_def bind_eq_Some_conv)
  show ?thesis
    using s tcp_view.setter_length [OF m s] tcp_view.setter_coherent [OF m d(2) s] d TcpTransport
    by (simp add: transport_matches_protocol)
next
  case (UdpTransport d)
  then have d: "q = Udp" "udp_header_parse raw = Some d" "8 \<le> length raw"
    using assms by (simp_all add: transport_matches_protocol udp_header_length_def)
  have m: "udp_swap_source_and_destination \<in> udp_setters" by (simp add: udp_setters_def)
  obtain raw' where s: "udp_swap_source_and_destination (raw, d) = Some (raw',
      d\<lparr>uh_source_port := uh_destination_port d, uh_destination_port := uh_source_port d\<rparr>)"
    using udp_view.setter_total [OF m d(3), of d]
    by (auto simp: udp_swap_source_and_destination_def bind_eq_Some_conv)
  show ?thesis
    using s udp_view.setter_length [OF m s] udp_view.setter_coherent [OF m d(2) s] d UdpTransport
    by (simp add: transport_matches_protocol)
qed

text \<open>
  The reference headers are slices of an accepted packet; the transport one may have been edited
  since, as the TCP connection does to drop its options.
\<close>

lemma packetizer_new_ok:
  assumes ip: "ipv4_header_parse iraw = Some d" "length iraw = unat (ih_header_length d)"
      "20 \<le> length iraw"
    and tr: "transport_matches (ih_protocol d) t traw" "length traw = unat (transport_header_length t)"
    and cells: "drop_bit 4 (iraw ! 0) = 4" "iraw ! 6 AND 0x3f = 0" "iraw ! 7 = 0"
  shows "\<exists>p. packetizer_new (iraw, d) (traw, t) = Some p \<and> pk_inv p
    \<and> pk_ipv4_header_data p = swapped_ipv4 d \<and> pk_transport_header_data p = swapped_transport t"
proof -
  define ti where "ti = unat (ih_header_length d)"
  define n where "n = unat (transport_header_length t)"
  have b: "20 \<le> ti" "ti \<le> 60" "8 \<le> n" "n \<le> 60"
    using ip ipv4_parse_header_length [OF ip(1)] transport_matches_bounds [OF tr(1)]
    by (auto simp: ti_def n_def)
  obtain iraw' where i': "ipv4_swap_source_and_destination (iraw, d) = Some (iraw', swapped_ipv4 d)"
    "length iraw' = length iraw" "ipv4_header_parse iraw' = Some (swapped_ipv4 d)"
    "\<forall>i < 12. iraw' ! i = iraw ! i"
    using ipv4_swap_ok [OF ip(1)] by blast
  obtain traw' where t': "transport_swap_source_and_destination (traw, t) = Some (traw', swapped_transport t)"
    "length traw' = length traw" "transport_matches (ih_protocol d) (swapped_transport t) traw'"
    using transport_swap_ok [OF tr] by blast
  have l: "length iraw = ti" "length iraw' = ti" "length traw = n" "length traw' = n"
    using ip tr i' t' by (simp_all add: ti_def n_def)
  let ?z = "replicate 65536 (0 :: u8)"
  have c1: "copy_from_slice 0 ti iraw ?z = Some (iraw @ drop ti ?z)"
    using copy_from_slice_eq [of 0 ti ?z iraw] l b by simp
  have e1: "on_view 0 ti ipv4_swap_source_and_destination (iraw @ drop ti ?z, d)
      = Some (iraw' @ drop ti ?z, swapped_ipv4 d)"
    using on_view_eq [of 0 ti "iraw @ drop ti ?z" ipv4_swap_source_and_destination d iraw' "swapped_ipv4 d"]
      i' l b by simp
  have c2: "copy_from_slice ti (ti + n) traw (iraw' @ drop ti ?z) = Some (iraw' @ traw @ drop (ti + n) ?z)"
    using copy_from_slice_eq [of ti "ti + n" "iraw' @ drop ti ?z" traw] l b by (simp add: add.commute)
  have e2: "on_view ti (ti + n) transport_swap_source_and_destination (iraw' @ traw @ drop (ti + n) ?z, t)
      = Some (iraw' @ traw' @ drop (ti + n) ?z, swapped_transport t)"
    using on_view_eq [of ti "ti + n" "iraw' @ traw @ drop (ti + n) ?z"
        transport_swap_source_and_destination t traw' "swapped_transport t"] t' l b by simp
  let ?p = "\<lparr>pk_buffer = iraw' @ traw' @ drop (ti + n) ?z, pk_transport_index = ti,
    pk_payload_index = ti + n, pk_ipv4_header_data = swapped_ipv4 d,
    pk_transport_header_data = swapped_transport t\<rparr>"
  have "packetizer_new (iraw, d) (traw, t) = Some ?p"
    using c1 e1 c2 e2
    by (simp add: packetizer_new_def MAX_PACKET_LENGTH_def ti_def n_def Let_def)
  moreover have "pk_inv ?p"
    using i' t'(3) l b cells
    by (auto simp: pk_inv_def MAX_PACKET_LENGTH_def swapped_ipv4_def ti_def n_def nth_append)
  ultimately show ?thesis by auto
qed

section \<open>Building a packet\<close>

lemma ipv4_set_total_length_ok:
  assumes "ipv4_header_parse raw = Some d"
  shows "\<exists>raw'. ipv4_set_total_length v (raw, d) = Some (raw', d\<lparr>ih_total_length := v\<rparr>)
    \<and> length raw' = length raw \<and> ipv4_header_parse raw' = Some (d\<lparr>ih_total_length := v\<rparr>)
    \<and> (\<forall>i. i \<noteq> 2 \<and> i \<noteq> 3 \<longrightarrow> raw' ! i = raw ! i)"
proof -
  have len: "20 \<le> length raw" by (rule ipv4_header_parse_Some_length [OF assms])
  let ?raw = "take 2 raw @ enc16 v @ drop (2 + 2) raw"
  have m: "ipv4_set_total_length v \<in> ipv4_setters" by (simp add: ipv4_setters_def)
  have s: "ipv4_set_total_length v (raw, d) = Some (?raw, d\<lparr>ih_total_length := v\<rparr>)"
    using len by (simp add: ipv4_set_total_length_def write_u16_Some)
  have "i \<noteq> 2 \<Longrightarrow> i \<noteq> 3 \<Longrightarrow> ?raw ! i = raw ! i" for i
    using nth_patch [of 2 raw i v] len by simp
  then show ?thesis
    using s ipv4_view.setter_length [OF m s] ipv4_view.setter_coherent [OF m assms s] by blast
qed

lemma transport_set_payload_length_ok:
  assumes "transport_matches q t raw" and "length raw = unat (transport_header_length t)"
  shows "\<exists>raw'. transport_set_payload_length v (raw, t) = Some (raw', t)
    \<and> length raw' = length raw \<and> transport_matches q t raw'
    \<and> (\<forall>d. t = UdpTransport d \<longrightarrow> read_u16 raw' 4 = Some (8 + v))"
proof (cases t)
  case (UdpTransport d)
  then have d: "q = Udp" "udp_header_parse raw = Some d" "8 \<le> length raw"
    using assms by (simp_all add: transport_matches_protocol udp_header_length_def)
  have m: "udp_set_payload_length v \<in> udp_setters" by (simp add: udp_setters_def)
  obtain raw' where w: "write_u16 4 (8 + v) raw = Some raw'"
    using d by (simp add: write_u16_Some)
  then have s: "udp_set_payload_length v (raw, d) = Some (raw', d)"
    by (simp add: udp_set_payload_length_def udp_header_length_def)
  then show ?thesis
    using udp_view.setter_length [OF m s] udp_view.setter_coherent [OF m d(2) s]
      read_u16_write_u16_same [OF w] d UdpTransport
    by (simp add: transport_matches_protocol)
qed (use assms in simp)

text \<open>
  \<open>build\<close> on a payload that fits 16 bits returns an accepted packet with that payload and valid
  checksums, and leaves the packetizer ready for the next one.
\<close>

definition built :: "packetizer \<Rightarrow> nat \<Rightarrow> ipv4_packet \<Rightarrow> bool" where
  "built p n packet \<longleftrightarrow> ipv4_accepted packet
     \<and> length (ip_raw packet) = pk_payload_index p + n
     \<and> ip_header_data packet = (pk_ipv4_header_data p)\<lparr>ih_total_length := of_nat (pk_payload_index p + n)\<rparr>
     \<and> ip_transport_data packet = Some (pk_transport_header_data p)
     \<and> ipv4_packet_payload packet = Some (Some (take n (drop (pk_payload_index p) (pk_buffer p))))
     \<and> ipv4_checksum_valid packet \<and> transport_checksum_valid packet"

lemma pk_packet_ok:
  assumes inv: "pk_inv p" and T: "pk_payload_index p \<le> T" "T < 65536"
    and total: "ih_total_length (pk_ipv4_header_data p) = of_nat T"
  shows "ipv4_packet_ok (ipv4_packet_new (take T (pk_buffer p)) (pk_ipv4_header_data p)
    (pk_transport_header_data p))"
proof -
  note P = pk_invD [OF inv]
  let ?t = "pk_transport_header_data p" and ?ti = "pk_transport_index p"
  let ?n = "unat (transport_header_length ?t)"
  have len: "length (take T (pk_buffer p)) = T" using T P(1) by simp
  have "take T (pk_buffer p) = take ?ti (pk_buffer p) @ take (T - ?ti) (drop ?ti (pk_buffer p))"
    using T P(5) by (simp add: take_add [symmetric])
  then have ih: "ipv4_header_parse (take T (pk_buffer p)) = Some (pk_ipv4_header_data p)"
    using P(1,2,3,8) by (simp add: ipv4_header_parse_append)
  obtain k where "T = ?ti + ?n + k" using T(1) P(5) le_Suc_ex by metis
  then have "drop ?ti (take T (pk_buffer p)) = pk_segment p @ take k (drop (?ti + ?n) (pk_buffer p))"
    by (simp only: drop_take_split)
  moreover have "length (pk_segment p) = ?n" using P(1,5,7) by simp
  ultimately have "transport_matches (ih_protocol (pk_ipv4_header_data p)) ?t (drop ?ti (take T (pk_buffer p)))"
    using P(9) by (simp add: transport_matches_append)
  then show ?thesis
    using ih len P(2,4,5) T total
    by (auto simp: ipv4_packet_ok_def ipv4_packet_new_def transport_matches_def unat_of_nat_u16
        split: transport_header_data.splits)
qed

lemma pk_inv_of_packet:
  assumes inv: "pk_inv p" and k: "ipv4_accepted packet"
    and d: "ip_header_data packet = pk_ipv4_header_data p"
    and t: "ip_transport_data packet = Some (pk_transport_header_data p)"
    and len: "length (ip_raw packet) \<le> 65536"
  shows "pk_inv (p\<lparr>pk_buffer := ip_raw packet @ drop (length (ip_raw packet)) (pk_buffer p)\<rparr>)"
proof -
  note P = pk_invD [OF inv]
  have o: "ipv4_packet_ok packet" using k by (simp add: ipv4_accepted_def)
  let ?t = "pk_transport_header_data p" and ?ti = "pk_transport_index p"
  let ?n = "unat (transport_header_length ?t)"
  have b: "?ti + ?n \<le> length (ip_raw packet)"
    using ipv4_packet_ok_transport(1) [OF o t refl] P(4) d by simp
  have "ipv4_header_parse (take ?ti (ip_raw packet)) = Some (pk_ipv4_header_data p)"
    using ipv4_packet_okD(1) [OF o] P(2) b d by (simp add: ipv4_header_parse_take)
  moreover have "transport_matches (ih_protocol (pk_ipv4_header_data p)) ?t (drop ?ti (ip_raw packet))"
    using ipv4_packet_ok_transport(2,5) [OF o t refl] P(4) d
    by (auto simp: transport_matches_def split: transport_header_data.splits)
  then have "transport_matches (ih_protocol (pk_ipv4_header_data p)) ?t (take ?n (drop ?ti (ip_raw packet)))"
    using transport_matches_append [of "take ?n (drop ?ti (ip_raw packet))" ?t _
        "drop ?n (drop ?ti (ip_raw packet))", unfolded append_take_drop_id] b by simp
  ultimately show ?thesis
    using inv k b len P(1,2) by (auto simp: pk_inv_def ipv4_accepted_def nth_append)
qed

lemma read_u16_cong:
  "length xs = length ys \<Longrightarrow> xs ! i = ys ! i \<Longrightarrow> xs ! (i + 1) = ys ! (i + 1) \<Longrightarrow> read_u16 xs i = read_u16 ys i"
  by (simp add: read_u16_def)

lemma checksums_accepted:
  assumes o: "ipv4_packet_ok q" and t: "ip_transport_data q = Some t"
    and c: "drop_bit 4 (ip_raw q ! 0) = 4" "ip_raw q ! 6 AND 0x3f = 0" "ip_raw q ! 7 = 0"
    and u: "\<And>d. t = UdpTransport d \<Longrightarrow> read_u16 (drop (unat (ih_header_length (ip_header_data q))) (ip_raw q)) 4
      = Some (of_nat (length (ip_raw q) - unat (ih_header_length (ip_header_data q))))"
  shows "\<exists>q'. ipv4_packet_compute_checksums q = Some q' \<and> ipv4_accepted q'
    \<and> length (ip_raw q') = length (ip_raw q)
    \<and> ip_header_data q' = ip_header_data q \<and> ip_transport_data q' = ip_transport_data q
    \<and> ipv4_packet_payload q' = ipv4_packet_payload q
    \<and> ipv4_checksum_valid q' \<and> transport_checksum_valid q'"
proof -
  let ?hl = "unat (ih_header_length (ip_header_data q))"
  obtain q' where q': "ipv4_packet_compute_checksums q = Some q'" "ipv4_packet_ok q'"
    "length (ip_raw q') = length (ip_raw q)"
    "ip_header_data q' = ip_header_data q" "ip_transport_data q' = ip_transport_data q"
    "ipv4_packet_payload q' = ipv4_packet_payload q"
    "ipv4_checksum_valid q'" "transport_checksum_valid q'"
    "\<And>i. checksum_cell q i \<or> ip_raw q' ! i = ip_raw q ! i"
    using ipv4_packet_compute_checksums_ok [OF o] by blast
  have hl: "20 \<le> ?hl" "?hl \<le> length (ip_raw q)" using ipv4_packet_okD [OF o] by simp_all
  have same: "ip_raw q' ! i = ip_raw q ! i" if "i \<in> {0, 6, 7} \<or> t = UdpTransport d \<and> i \<in> {?hl + 4, ?hl + 5}" for i d
    using q'(9) [of i] that hl t by (cases t) (auto simp: checksum_cell_def Let_def)
  have "read_u16 (drop ?hl (ip_raw q')) 4 = read_u16 (drop ?hl (ip_raw q)) 4" if "t = UdpTransport d" for d
    using same [of _ d] that hl q'(3) by (intro read_u16_cong) simp_all
  then have "ipv4_accepted q'"
    using q' c u t same by (auto simp: ipv4_accepted_def Let_def)
  then show ?thesis using q' by blast
qed

text \<open>The two header updates that open \<open>build\<close>.\<close>

lemma pk_set_lengths_ok:
  assumes inv: "pk_inv p"
  shows "\<exists>p1 p2. pk_ipv4_header_mut (ipv4_set_total_length v) p = Some p1
    \<and> pk_transport_header_mut (transport_set_payload_length w) p1 = Some p2 \<and> pk_inv p2
    \<and> pk_ipv4_header_data p2 = (pk_ipv4_header_data p)\<lparr>ih_total_length := v\<rparr>
    \<and> pk_transport_header_data p2 = pk_transport_header_data p
    \<and> pk_transport_index p2 = pk_transport_index p \<and> pk_payload_index p2 = pk_payload_index p
    \<and> drop (pk_payload_index p) (pk_buffer p2) = drop (pk_payload_index p) (pk_buffer p)
    \<and> (\<forall>d. pk_transport_header_data p = UdpTransport d \<longrightarrow> read_u16 (pk_segment p2) 4 = Some (8 + w))"
proof -
  note P = pk_invD [OF inv]
  let ?ti = "pk_transport_index p" and ?pi = "pk_payload_index p" and ?t = "pk_transport_header_data p"
  let ?d = "(pk_ipv4_header_data p)\<lparr>ih_total_length := v\<rparr>"
  obtain iraw where i: "ipv4_set_total_length v (take ?ti (pk_buffer p), pk_ipv4_header_data p) = Some (iraw, ?d)"
    "length iraw = ?ti" "ipv4_header_parse iraw = Some ?d"
    "\<forall>i. i \<noteq> 2 \<and> i \<noteq> 3 \<longrightarrow> iraw ! i = take ?ti (pk_buffer p) ! i"
    using ipv4_set_total_length_ok [OF P(8), of v] P(1,3) by auto
  obtain p1 where p1: "pk_ipv4_header_mut (ipv4_set_total_length v) p = Some p1" "pk_inv p1"
    "p1 = p\<lparr>pk_buffer := iraw @ drop ?ti (pk_buffer p), pk_ipv4_header_data := ?d\<rparr>"
    using pk_ipv4_edit [of p "ipv4_set_total_length v" iraw ?d, OF inv i(1,2,3)] i(4) P(2) by auto
  have f1: "pk_transport_index p1 = ?ti" "pk_payload_index p1 = ?pi" "pk_transport_header_data p1 = ?t"
    "pk_ipv4_header_data p1 = ?d" "take ?ti (pk_buffer p1) = iraw"
    "take (unat (transport_header_length ?t)) (drop ?ti (pk_buffer p1)) = pk_segment p"
    "drop ?pi (pk_buffer p1) = drop ?pi (pk_buffer p)" "length (pk_buffer p1) = 65536"
    using i(2) P(1,3,5) by (simp_all add: p1(3) add.commute)
  have seglen: "length (pk_segment p) = unat (transport_header_length ?t)" using P(1,5,7) by simp
  obtain traw where t: "transport_set_payload_length w (pk_segment p, ?t) = Some (traw, ?t)"
    "length traw = length (pk_segment p)" "transport_matches (ih_protocol ?d) ?t traw"
    "\<forall>d. ?t = UdpTransport d \<longrightarrow> read_u16 traw 4 = Some (8 + w)"
    using transport_set_payload_length_ok [OF P(9) seglen, of w] by auto
  obtain p2 where p2: "pk_transport_header_mut (transport_set_payload_length w) p1 = Some p2"
    "pk_inv p2" "p2 = p1\<lparr>pk_buffer := iraw @ traw @ drop ?pi (pk_buffer p), pk_transport_header_data := ?t\<rparr>"
    using pk_transport_edit [OF p1(2), of "transport_set_payload_length w" traw ?t] t
    unfolding f1 by auto
  have f2: "pk_ipv4_header_data p2 = ?d" "pk_transport_header_data p2 = ?t"
    "pk_transport_index p2 = ?ti" "pk_payload_index p2 = ?pi"
    by (simp_all add: p2(3) f1)
  have "drop ?pi (pk_buffer p2) = drop ?pi (pk_buffer p)"
    using i(2) t(2) seglen P(1,5) by (simp add: p2(3))
  moreover have seg2: "pk_segment p2 = traw"
    using i(2) t(2) seglen P(1,5) by (simp add: p2(3) f1)
  moreover have "\<forall>d. ?t = UdpTransport d \<longrightarrow> read_u16 (pk_segment p2) 4 = Some (8 + w)"
    using t(4) unfolding seg2 .
  ultimately show ?thesis using p1(1) p2(1,2) f2 by blast
qed

lemma packetizer_build_ok:
  assumes inv: "pk_inv p" and fits: "pk_payload_index p + n < 65536"
  shows "\<exists>packet p'. packetizer_build (of_nat n) p = Some (packet, p') \<and> built p n packet \<and> pk_inv p'
    \<and> pk_payload_index p' = pk_payload_index p \<and> pk_transport_index p' = pk_transport_index p
    \<and> pk_transport_header_data p' = pk_transport_header_data p
    \<and> pk_ipv4_header_data p' = ip_header_data packet
    \<and> packetizer_inflate (ipv4_packet_length packet) p' = Some packet"
proof -
  note P = pk_invD [OF inv]
  let ?ti = "pk_transport_index p" and ?pi = "pk_payload_index p" and ?t = "pk_transport_header_data p"
  let ?T = "?pi + n"
  let ?d = "(pk_ipv4_header_data p)\<lparr>ih_total_length := of_nat ?T\<rparr>"
  have T: "unat (of_nat ?T :: u16) = ?T" using fits by (rule unat_of_nat_u16)
  obtain p1 p2 where p1: "pk_ipv4_header_mut (ipv4_set_total_length (of_nat ?T)) p = Some p1"
    and p2: "pk_transport_header_mut (transport_set_payload_length (of_nat n)) p1 = Some p2" "pk_inv p2"
    "pk_ipv4_header_data p2 = ?d" "pk_transport_header_data p2 = ?t"
    "pk_transport_index p2 = ?ti" "pk_payload_index p2 = ?pi"
    "drop ?pi (pk_buffer p2) = drop ?pi (pk_buffer p)"
    "\<forall>d. ?t = UdpTransport d \<longrightarrow> read_u16 (pk_segment p2) 4 = Some (8 + of_nat n)"
    using pk_set_lengths_ok [OF inv] by blast
  note P2 = pk_invD [OF p2(2), unfolded p2(3-6)]
  let ?q = "ipv4_packet_new (take ?T (pk_buffer p2)) ?d ?t"
  have o: "ipv4_packet_ok ?q"
    using pk_packet_ok [OF p2(2), of ?T] fits by (simp add: p2(3-6))
  have len: "length (ip_raw ?q) = ?T" using P2(1) fits by (simp add: ipv4_packet_new_def)
  have cells: "drop_bit 4 (ip_raw ?q ! 0) = 4" "ip_raw ?q ! 6 AND 0x3f = 0" "ip_raw ?q ! 7 = 0"
    using P2(6,10-12) by (simp_all add: ipv4_packet_new_def)
  have udp: "read_u16 (drop ?ti (ip_raw ?q)) 4 = Some (of_nat (?T - ?ti))" if u: "?t = UdpTransport d" for d
  proof -
    have n8: "?pi = ?ti + 8" using P(5) u by (simp add: udp_header_length_def)
    then have "drop ?ti (ip_raw ?q) = pk_segment p2 @ take n (drop (?ti + 8) (pk_buffer p2))"
      using u by (simp add: ipv4_packet_new_def p2 udp_header_length_def drop_take_split)
    moreover have "length (pk_segment p2) = 8" using u P2(1,5,7) by (simp add: p2 udp_header_length_def)
    ultimately have "read_u16 (drop ?ti (ip_raw ?q)) 4 = read_u16 (pk_segment p2) 4"
      by (simp add: read_u16_def nth_append)
    then show ?thesis using p2(8) u n8 by simp
  qed
  obtain q' where q': "ipv4_packet_compute_checksums ?q = Some q'" "ipv4_accepted q'"
    "length (ip_raw q') = ?T" "ip_header_data q' = ?d" "ip_transport_data q' = Some ?t"
    "ipv4_packet_payload q' = ipv4_packet_payload ?q" "ipv4_checksum_valid q'" "transport_checksum_valid q'"
    using checksums_accepted [OF o, of ?t] cells udp len P(4) by (auto simp: ipv4_packet_new_def)
  let ?p' = "p2\<lparr>pk_buffer := ip_raw q' @ drop ?T (pk_buffer p2)\<rparr>"
  have "packetizer_build (of_nat n) p = Some (q', ?p')"
    using p1 p2(1) q'(1,3) P2(1) fits
    by (simp add: packetizer_build_def T [simplified] p2(3,4) slice_Some splice_Some)
  moreover have "pk_inv ?p'"
    using pk_inv_of_packet [OF p2(2) q'(2)] q'(3-5) fits by (simp add: p2)
  moreover have "ipv4_packet_payload ?q = Some (Some (take n (drop ?pi (pk_buffer p))))"
    using ipv4_packet_payload_ok [OF o, of ?t] P(4,5) p2(7)
    by (simp add: ipv4_packet_new_def drop_take)
  moreover have "packetizer_inflate (ipv4_packet_length q') ?p' = Some q'"
    using q'(3-5) T P2(1) fits
    by (simp add: packetizer_inflate_def ipv4_packet_length_def slice_Some p2 ipv4_packet_new_def)
  ultimately show ?thesis
    using q' p2 by (intro exI [of _ q'] exI [of _ ?p']) (simp add: built_def)
qed

text \<open>
  The release-mode \<open>u16\<close> addition wraps when the payload fills the buffer to its 65536th byte: the
  total length becomes 0, the packet is an empty slice, and splitting it panics.
\<close>

lemma packetizer_build_overflow:
  assumes inv: "pk_inv p" and full: "pk_payload_index p + n = 65536"
  shows "packetizer_build (of_nat n) p = None"
proof -
  note P = pk_invD [OF inv]
  have "(of_nat (pk_payload_index p) + of_nat n :: u16) = of_nat (pk_payload_index p + n)" by simp
  also have "\<dots> = 0" unfolding full by simp
  finally have z: "(of_nat (pk_payload_index p) + of_nat n :: u16) = 0" .
  obtain p1 p2 where p1: "pk_ipv4_header_mut (ipv4_set_total_length 0) p = Some p1"
    and p2: "pk_transport_header_mut (transport_set_payload_length (of_nat n)) p1 = Some p2"
    and d: "pk_ipv4_header_data p2 = (pk_ipv4_header_data p)\<lparr>ih_total_length := 0\<rparr>"
    using pk_set_lengths_ok [OF inv] by blast
  have "ipv4_packet_compute_checksums (ipv4_packet_new [] (pk_ipv4_header_data p2) t) = None" for t
    using P(2,4) d
    by (simp add: ipv4_packet_compute_checksums_def ipv4_packet_split_def ipv4_packet_new_def slice_def)
  then show ?thesis
    using p1 p2 by (simp add: packetizer_build_def z slice_def)
qed

section \<open>As a packet builder\<close>

text \<open>
  What the connections rely on, whatever the IP version: a read of at most \<open>capacity\<close> bytes comes
  out as a packet with just this payload, an error of the source is passed on, and the builder
  stays usable.
\<close>

locale packet_builder =
  fixes inv :: "'s \<Rightarrow> bool" and room :: "'s \<Rightarrow> nat" and capacity :: "'s \<Rightarrow> nat"
    and build_from :: "reader \<Rightarrow> 's \<Rightarrow> ('p io_result \<times> 's) option"
    and payload :: "'p \<Rightarrow> bytes option"
    and accepted :: "'p \<Rightarrow> bool"
  assumes build_ok: "inv s \<Longrightarrow> src (room s) = Inr bs \<Longrightarrow> length bs \<le> capacity s \<Longrightarrow>
      \<exists>p s'. build_from src s = Some (Inr p, s') \<and> inv s' \<and> room s' = room s
        \<and> capacity s' = capacity s \<and> payload p = Some bs \<and> accepted p"
    and build_error: "inv s \<Longrightarrow> src (room s) = Inl e \<Longrightarrow> build_from src s = Some (Inl e, s)"
begin

fun build_all :: "bytes list \<Rightarrow> 's \<Rightarrow> ('p list \<times> 's) option" where
  "build_all [] s = Some ([], s)"
| "build_all (bs # bss) s = do {
     (r, s') \<leftarrow> build_from (\<lambda>_. Inr bs) s;
     case r of
       Inl e \<Rightarrow> None
     | Inr p \<Rightarrow> do { (ps, s'') \<leftarrow> build_all bss s'; Some (p # ps, s'') } }"

lemma build_all_payloads:
  "inv s \<Longrightarrow> \<forall>bs \<in> set bss. length bs \<le> capacity s \<Longrightarrow>
    \<exists>ps s'. build_all bss s = Some (ps, s') \<and> inv s' \<and> map payload ps = map Some bss
      \<and> (\<forall>p \<in> set ps. accepted p)"
proof (induction bss arbitrary: s)
  case (Cons bs bss)
  then obtain p s1 where p: "build_from (\<lambda>_. Inr bs) s = Some (Inr p, s1)" "inv s1"
    "capacity s1 = capacity s" "payload p = Some bs" "accepted p"
    using build_ok [of s "\<lambda>_. Inr bs" bs] by auto
  then show ?case using Cons.IH [of s1] Cons.prems by auto
qed simp

end

definition pk_room :: "packetizer \<Rightarrow> nat" where
  "pk_room p = length (pk_buffer p) - pk_payload_index p"

definition pk_capacity :: "packetizer \<Rightarrow> nat" where
  "pk_capacity p = 65535 - pk_payload_index p"

lemma pk_recv_ok:
  assumes inv: "pk_inv p" and src: "source (pk_room p) = Inr bs" and len: "length bs \<le> pk_room p"
  shows "\<exists>p'. pk_recv source p = Some (Inr (length bs), p') \<and> pk_inv p'
    \<and> p' = p\<lparr>pk_buffer := take (pk_payload_index p) (pk_buffer p) @ bs
        @ drop (pk_payload_index p + length bs) (pk_buffer p)\<rparr>"
proof -
  note P = pk_invD [OF inv]
  let ?buf = "take (pk_payload_index p) (pk_buffer p) @ bs @ drop (pk_payload_index p + length bs) (pk_buffer p)"
  have r: "pk_room p = 65536 - pk_payload_index p" using P(1) by (simp add: pk_room_def)
  have "pk_recv source p = Some (Inr (length bs), p\<lparr>pk_buffer := ?buf\<rparr>)"
    using src len P(1,7) r by (simp add: pk_recv_def slice_Some splice_Some)
  moreover have "length ?buf = 65536" using len P(1,7) r by simp
  moreover have "take (pk_payload_index p) ?buf = take (pk_payload_index p) (pk_buffer p)"
    using P(1,7) by simp
  then have "pk_inv (p\<lparr>pk_buffer := ?buf\<rparr>)"
    using pk_inv_prefix [OF inv, of ?buf] calculation(2) by simp
  ultimately show ?thesis by blast
qed

lemma pk_recv_error:
  "pk_inv p \<Longrightarrow> source (pk_room p) = Inl e \<Longrightarrow> pk_recv source p = Some (Inl e, p)"
  using pk_invD(1,7) [of p] by (simp add: pk_recv_def slice_Some pk_room_def)

text \<open>A read of \<open>bs\<close> followed by \<open>build\<close>, which is what every \<open>packetize\<close> function does.\<close>

lemma pk_recv_build:
  assumes inv: "pk_inv p" and src: "source (pk_room p) = Inr bs" and len: "length bs \<le> pk_capacity p"
  shows "\<exists>p1 packet p'. pk_recv source p = Some (Inr (length bs), p1)
    \<and> packetizer_build (of_nat (length bs)) p1 = Some (packet, p')
    \<and> pk_inv p' \<and> ipv4_accepted packet \<and> ipv4_checksum_valid packet \<and> transport_checksum_valid packet
    \<and> ipv4_packet_payload packet = Some (Some bs)
    \<and> ip_header_data packet = (pk_ipv4_header_data p)\<lparr>ih_total_length := of_nat (pk_payload_index p + length bs)\<rparr>
    \<and> ip_transport_data packet = Some (pk_transport_header_data p)
    \<and> length (ip_raw packet) = pk_payload_index p + length bs
    \<and> pk_payload_index p' = pk_payload_index p \<and> pk_transport_index p' = pk_transport_index p
    \<and> pk_transport_header_data p' = pk_transport_header_data p
    \<and> pk_ipv4_header_data p' = ip_header_data packet
    \<and> packetizer_inflate (ipv4_packet_length packet) p' = Some packet"
proof -
  note P = pk_invD [OF inv]
  have le: "length bs \<le> pk_room p" "pk_payload_index p + length bs < 65536"
    using len P(1,7) by (simp_all add: pk_room_def pk_capacity_def)
  obtain p1 where p1: "pk_recv source p = Some (Inr (length bs), p1)" "pk_inv p1"
    "p1 = p\<lparr>pk_buffer := take (pk_payload_index p) (pk_buffer p) @ bs
        @ drop (pk_payload_index p + length bs) (pk_buffer p)\<rparr>"
    using pk_recv_ok [of p source bs, OF inv src le(1)] by blast
  have f: "pk_payload_index p1 = pk_payload_index p" "pk_transport_index p1 = pk_transport_index p"
    "pk_ipv4_header_data p1 = pk_ipv4_header_data p"
    "pk_transport_header_data p1 = pk_transport_header_data p"
    "take (length bs) (drop (pk_payload_index p) (pk_buffer p1)) = bs"
    using P(1,7) by (simp_all add: p1(3))
  have "pk_payload_index p1 + length bs < 65536" using le(2) f(1) by simp
  from packetizer_build_ok [OF p1(2) this] show ?thesis
    using p1(1) unfolding built_def f by blast
qed

definition ipv4_payload_bytes :: "ipv4_packet \<Rightarrow> bytes option" where
  "ipv4_payload_bytes p = Option.bind (ipv4_packet_payload p) id"

definition ipv4_sendable :: "ipv4_packet \<Rightarrow> bool" where
  "ipv4_sendable p \<longleftrightarrow> ipv4_accepted p \<and> ipv4_checksum_valid p \<and> transport_checksum_valid p"

interpretation ipv4_builder: packet_builder pk_inv pk_room pk_capacity packetize ipv4_payload_bytes
  ipv4_sendable
proof
  fix s :: packetizer and src :: reader and bs
  assume a: "pk_inv s" "src (pk_room s) = Inr bs" "length bs \<le> pk_capacity s"
  then obtain p1 packet p' where "pk_recv src s = Some (Inr (length bs), p1)"
    "packetizer_build (of_nat (length bs)) p1 = Some (packet, p')" "pk_inv p'"
    "ipv4_sendable packet" "ipv4_packet_payload packet = Some (Some bs)"
    "pk_payload_index p' = pk_payload_index s"
    using pk_recv_build [of s src bs] by (auto simp: ipv4_sendable_def)
  then show "\<exists>p s'. packetize src s = Some (Inr p, s') \<and> pk_inv s' \<and> pk_room s' = pk_room s
      \<and> pk_capacity s' = pk_capacity s \<and> ipv4_payload_bytes p = Some bs \<and> ipv4_sendable p"
    using pk_invD(1) [OF a(1)] pk_invD(1) [of p']
    by (auto simp: packetize_def pk_room_def pk_capacity_def ipv4_payload_bytes_def)
next
  fix s :: packetizer and src :: reader and e
  assume "pk_inv s" "src (pk_room s) = Inl e"
  then show "packetize src s = Some (Inl e, s)" by (simp add: packetize_def pk_recv_error)
qed

lemma packetize_read_ok:
  assumes inv: "pk_inv p" and src: "read_adapter_recv source m (pk_room p) = Inr bs"
    and len: "length bs \<le> pk_capacity p" and ne: "bs \<noteq> []"
  shows "\<exists>packet p'. packetize_read source m p = Some (Inr (Some packet), p') \<and> pk_inv p'
    \<and> ipv4_sendable packet \<and> ipv4_payload_bytes packet = Some bs
    \<and> ip_header_data packet = (pk_ipv4_header_data p)\<lparr>ih_total_length := of_nat (pk_payload_index p + length bs)\<rparr>
    \<and> ip_transport_data packet = Some (pk_transport_header_data p)
    \<and> length (ip_raw packet) = pk_payload_index p + length bs
    \<and> pk_payload_index p' = pk_payload_index p \<and> pk_transport_index p' = pk_transport_index p
    \<and> pk_transport_header_data p' = pk_transport_header_data p
    \<and> pk_ipv4_header_data p' = ip_header_data packet
    \<and> packetizer_inflate (ipv4_packet_length packet) p' = Some packet"
  using pk_recv_build [of p "read_adapter_recv source m" bs, OF inv src len] ne
  by (auto simp: packetize_read_def ipv4_sendable_def ipv4_payload_bytes_def)

lemma packetize_read_eof:
  assumes inv: "pk_inv p" and src: "read_adapter_recv source m (pk_room p) = Inr []"
  shows "packetize_read source m p = Some (Inr None, p)"
proof -
  obtain p' where "pk_recv (read_adapter_recv source m) p = Some (Inr (length []), p')"
    "p' = p\<lparr>pk_buffer := take (pk_payload_index p) (pk_buffer p) @ []
        @ drop (pk_payload_index p + length []) (pk_buffer p)\<rparr>"
    using pk_recv_ok [of p "read_adapter_recv source m" "[]", OF inv src] by auto
  then show ?thesis by (simp add: packetize_read_def)
qed

lemma packetize_read_error:
  "pk_inv p \<Longrightarrow> read_adapter_recv source m (pk_room p) = Inl e \<Longrightarrow>
    packetize_read source m p = Some (Inl e, p)"
  by (simp add: packetize_read_def pk_recv_error)

text \<open>An empty payload, for the control segments of the TCP connection.\<close>

lemma packetize_empty_payload_ok:
  assumes inv: "pk_inv p"
  shows "\<exists>packet p'. packetize_empty_payload p = Some (packet, p') \<and> built p 0 packet \<and> pk_inv p'
    \<and> pk_payload_index p' = pk_payload_index p \<and> pk_transport_index p' = pk_transport_index p
    \<and> pk_transport_header_data p' = pk_transport_header_data p
    \<and> pk_ipv4_header_data p' = ip_header_data packet"
  using packetizer_build_ok [OF inv, of 0] pk_invD(7) [OF inv]
  by (auto simp: packetize_empty_payload_def)

end
