(* ===== verification/Tcp_Connection.thy ===== *)
theory Tcp_Connection
  imports Conn_Env Packetizer
begin

text \<open>
  \<open>relay/tcp_connection.rs\<close>: one TCP flow between the client, to which it plays the remote end,
  and a socket of the host.

  A handler takes the connection with what it borrows: the channel of the client and the selector.
  Two calls reach further into the client (\<open>register_pending_packet_source\<close> and
  \<open>Router::remove\<close>); they are queued as requests, which the client's model carries out when the
  handler returns.  The socket is the result its operations return for this event; \<open>now\<close> is the
  clock and \<open>random\<close> the initial sequence number.
\<close>

definition MTU :: u16 where
  "MTU = 0x4000"

definition MAX_PAYLOAD_LENGTH :: u16 where
  "MAX_PAYLOAD_LENGTH = MTU - 20 - 20"

definition TCP_IDLE_TIMEOUT_SECONDS :: nat where
  "TCP_IDLE_TIMEOUT_SECONDS = 10 * 60"

definition CONNECT_TIMEOUT_SECONDS :: nat where
  "CONNECT_TIMEOUT_SECONDS = 10"

datatype tcp_state = Init | SynSent | SynReceived | Established | CloseWait | LastAck | Closing
  | FinWait1 | FinWait2

definition is_connected :: "tcp_state \<Rightarrow> bool" where
  "is_connected s \<longleftrightarrow> s \<noteq> Init \<and> s \<noteq> SynSent \<and> s \<noteq> SynReceived"

definition state_is_closed :: "tcp_state \<Rightarrow> bool" where
  "state_is_closed s \<longleftrightarrow> s = FinWait1 \<or> s = FinWait2 \<or> s = Closing \<or> s = LastAck"

record tcb =
  tcb_state :: tcp_state
  tcb_syn_sequence_number :: u32
  tcb_sequence_number :: u32
  tcb_acknowledgement_number :: u32
  tcb_their_acknowledgement_number :: u32
  tcb_fin_sequence_number :: "u32 option"
  tcb_fin_received :: bool
  tcb_client_window :: u16

definition tcb_new :: tcb where
  "tcb_new = \<lparr>tcb_state = Init, tcb_syn_sequence_number = 0, tcb_sequence_number = 0,
     tcb_acknowledgement_number = 0, tcb_their_acknowledgement_number = 0,
     tcb_fin_sequence_number = None, tcb_fin_received = False, tcb_client_window = 0\<rparr>"

definition remaining_client_window :: "tcb \<Rightarrow> u16" where
  "remaining_client_window t = (let remaining = tcb_their_acknowledgement_number t
       + ucast (tcb_client_window t) - tcb_sequence_number t in
     if remaining \<le> ucast (tcb_client_window t) then ucast remaining else 0)"

record tcp_connection =
  tc_id :: connection_id
  tc_stream :: nat
  tc_interests :: ready
  tc_token :: nat
  tc_client_to_network :: stream_buffer
  tc_network_to_client :: packetizer
  tc_packet_for_client_length :: "u16 option"
  tc_closed :: bool
  tc_tcb :: tcb
  tc_idle_since :: nat
  tc_created_at :: nat

type_synonym tcp_ctx = "tcp_connection \<times> conn_env"

section \<open>Packets to the client\<close>

text \<open>\<open>tcp_header_of_transport_mut\<close>: panics on a UDP header.\<close>

definition on_tcp_header ::
    "(tcp_header_mut \<Rightarrow> tcp_header_mut option) \<Rightarrow> transport_header_mut \<Rightarrow> transport_header_mut option" where
  "on_tcp_header f = (\<lambda>(raw, t). case t of
     TcpTransport d \<Rightarrow> do { (raw', d') \<leftarrow> f (raw, d); Some (raw', TcpTransport d') }
   | UdpTransport d \<Rightarrow> None)"

definition update_headers :: "tcb \<Rightarrow> u16 \<Rightarrow> packetizer \<Rightarrow> packetizer option" where
  "update_headers t flags = pk_transport_header_mut (on_tcp_header (\<lambda>h. do {
     h \<leftarrow> tcp_set_sequence_number (tcb_sequence_number t) h;
     h \<leftarrow> tcp_set_acknowledgement_number (tcb_acknowledgement_number t) h;
     tcp_set_flags flags h }))"

definition create_empty_response_packet ::
    "tcb \<Rightarrow> u16 \<Rightarrow> packetizer \<Rightarrow> (ipv4_packet \<times> packetizer) option" where
  "create_empty_response_packet t flags p = do {
     p \<leftarrow> update_headers t flags p;
     packetize_empty_payload p }"

text \<open>An error of the send is only logged.\<close>

definition reply_empty_packet_to_client :: "poll \<Rightarrow> u16 \<Rightarrow> tcp_ctx \<Rightarrow> tcp_ctx option" where
  "reply_empty_packet_to_client P flags = (\<lambda>(c, e). do {
     (packet, p) \<leftarrow> create_empty_response_packet (tc_tcb c) flags (tc_network_to_client c);
     (_, e) \<leftarrow> send_through P (ip_raw packet) e;
     Some (c\<lparr>tc_network_to_client := p\<rparr>, e) })"

text \<open>The same through the borrowed client: its channel.\<close>

definition send_empty_packet_to_client :: "poll \<Rightarrow> u16 \<Rightarrow> tcp_ctx \<Rightarrow> tcp_ctx option" where
  "send_empty_packet_to_client P flags = reply_empty_packet_to_client P flags"

definition tcp_close :: "poll \<Rightarrow> tcp_ctx \<Rightarrow> tcp_ctx" where
  "tcp_close P = (\<lambda>(c, e). (c\<lparr>tc_closed := True\<rparr>,
     e\<lparr>en_selector := snd (selector_deregister P (tc_stream c) (tc_token c) (en_selector e))\<rparr>))"

definition tcb_update :: "(tcb \<Rightarrow> tcb) \<Rightarrow> tcp_ctx \<Rightarrow> tcp_ctx" where
  "tcb_update f = (\<lambda>(c, e). (c\<lparr>tc_tcb := f (tc_tcb c)\<rparr>, e))"

section \<open>Interests\<close>

definition may_read :: "tcp_connection \<Rightarrow> bool" where
  "may_read c =
     (if \<not> is_connected (tcb_state (tc_tcb c)) \<or> state_is_closed (tcb_state (tc_tcb c)) then False
      else if tc_packet_for_client_length c \<noteq> None then False
      else remaining_client_window (tc_tcb c) > 0)"

definition may_write :: "tcp_connection \<Rightarrow> bool" where
  "may_write c \<longleftrightarrow> \<not> sb_is_empty (tc_client_to_network c)"

definition tcp_wanted :: "tcp_connection \<Rightarrow> ready" where
  "tcp_wanted c = (if tcb_state (tc_tcb c) = SynSent then ready_writable
     else sup (if may_read c then ready_readable else bot)
       (if may_write c then ready_writable else bot))"

definition tcp_update_interests :: "poll \<Rightarrow> tcp_ctx \<Rightarrow> tcp_ctx option" where
  "tcp_update_interests P = (\<lambda>(c, e). do {
     assert_that (\<not> tc_closed c);
     let ready = tcp_wanted c;
     if tc_interests c \<noteq> ready then do {
       s \<leftarrow> reregister_expect P (tc_stream c) (tc_token c) ready (en_selector e);
       Some (c\<lparr>tc_interests := ready\<rparr>, e\<lparr>en_selector := s\<rparr>) }
     else Some (c, e) })"

section \<open>Packets from the client\<close>

definition handle_first_packet :: "poll \<Rightarrow> u32 \<Rightarrow> tcp_header_data \<Rightarrow> tcp_ctx \<Rightarrow> tcp_ctx option" where
  "handle_first_packet P random h x =
     (if is_syn h then
        Some (tcb_update (\<lambda>t. t\<lparr>
          tcb_acknowledgement_number := th_sequence_number h + 1,
          tcb_syn_sequence_number := th_sequence_number h,
          tcb_sequence_number := random,
          tcb_client_window := th_window h,
          tcb_state := SynSent\<rparr>) x)
      else do {
        let x = tcb_update (\<lambda>t. t\<lparr>tcb_sequence_number := th_acknowledgement_number h\<rparr>) x;
        x \<leftarrow> reply_empty_packet_to_client P FLAG_RST x;
        Some (tcp_close P x) })"

definition handle_duplicate_syn :: "poll \<Rightarrow> tcp_header_data \<Rightarrow> tcp_ctx \<Rightarrow> tcp_ctx option" where
  "handle_duplicate_syn P h x = (let t = tc_tcb (fst x) in
     if tcb_state t = SynSent then
       Some (tcb_update (\<lambda>t. t\<lparr>
         tcb_syn_sequence_number := th_sequence_number h,
         tcb_acknowledgement_number := th_sequence_number h + 1\<rparr>) x)
     else if th_sequence_number h \<noteq> tcb_syn_sequence_number t then do {
       x \<leftarrow> reply_empty_packet_to_client P FLAG_RST x;
       Some (tcp_close P x) }
     else Some x)"

definition do_handle_fin :: "poll \<Rightarrow> tcp_ctx \<Rightarrow> tcp_ctx option" where
  "do_handle_fin P x = (let
       x = tcb_update (\<lambda>t. t\<lparr>tcb_acknowledgement_number := tcb_acknowledgement_number t + 1\<rparr>) x;
       state = tcb_state (tc_tcb (fst x)) in
     if state = Established then do {
       x \<leftarrow> reply_empty_packet_to_client P (FLAG_FIN OR FLAG_ACK) x;
       Some (tcb_update (\<lambda>t. t\<lparr>
         tcb_fin_sequence_number := Some (tcb_sequence_number t),
         tcb_sequence_number := tcb_sequence_number t + 1,
         tcb_state := LastAck\<rparr>) x) }
     else if state = FinWait1 then do {
       x \<leftarrow> reply_empty_packet_to_client P FLAG_ACK x;
       Some (tcb_update (\<lambda>t. t\<lparr>tcb_state := Closing\<rparr>) x) }
     else if state = FinWait2 then do {
       x \<leftarrow> reply_empty_packet_to_client P FLAG_ACK x;
       Some (tcp_close P x) }
     else Some x)"

definition handle_fin :: "poll \<Rightarrow> tcp_ctx \<Rightarrow> tcp_ctx option" where
  "handle_fin P x = (let x = tcb_update (\<lambda>t. t\<lparr>tcb_fin_received := True\<rparr>) x in
     if sb_is_empty (tc_client_to_network (fst x)) then do_handle_fin P x else Some x)"

definition handle_fin_ack :: "poll \<Rightarrow> tcp_ctx \<Rightarrow> tcp_ctx" where
  "handle_fin_ack P x = (let state = tcb_state (tc_tcb (fst x)) in
     if state = LastAck \<or> state = Closing then tcp_close P x
     else if state = FinWait1 then tcb_update (\<lambda>t. t\<lparr>tcb_state := FinWait2\<rparr>) x
     else x)"

definition handle_ack :: "ipv4_packet \<Rightarrow> tcp_ctx \<Rightarrow> tcp_ctx option" where
  "handle_ack packet x =
     (if tcb_state (tc_tcb (fst x)) = SynReceived
      then Some (tcb_update (\<lambda>t. t\<lparr>tcb_state := Established\<rparr>) x)
      else do {
        p \<leftarrow> ipv4_packet_payload packet;
        payload \<leftarrow> p;
        let (c, e) = x;
        if payload = [] then Some x
        else if sb_remaining (tc_client_to_network c) < length payload then Some x
        else do {
          buffer \<leftarrow> sb_read_from payload (tc_client_to_network c);
          Some (c\<lparr>tc_client_to_network := buffer\<rparr>, e) } })"

text \<open>\<open>tcp_header_of_packet\<close>.\<close>

definition tcp_header_of_packet :: "ipv4_packet \<Rightarrow> tcp_header_data option" where
  "tcp_header_of_packet packet = do {
     h \<leftarrow> ipv4_packet_transport_header packet;
     (raw, t) \<leftarrow> h;
     case t of TcpTransport d \<Rightarrow> Some d | UdpTransport d \<Rightarrow> None }"

text \<open>The sum \<open>fin_sequence_number + 1\<close> is on \<open>u32\<close> and wraps in a release build.\<close>

definition handle_packet :: "poll \<Rightarrow> u32 \<Rightarrow> ipv4_packet \<Rightarrow> tcp_ctx \<Rightarrow> tcp_ctx option" where
  "handle_packet P random packet x = do {
     h \<leftarrow> tcp_header_of_packet packet;
     if tcb_state (tc_tcb (fst x)) = Init then handle_first_packet P random h x
     else if is_syn h then handle_duplicate_syn P h x
     else do {
       let expected_packet = tcb_acknowledgement_number (tc_tcb (fst x))
         + of_nat (sb_size (tc_client_to_network (fst x)));
       if th_sequence_number h \<noteq> expected_packet then Some x
       else do {
         let x = tcb_update (\<lambda>t. t\<lparr>
           tcb_client_window := th_window h,
           tcb_their_acknowledgement_number := th_acknowledgement_number h\<rparr>) x;
         if is_rst h then Some (tcp_close P x)
         else do {
           x \<leftarrow> (if is_ack h then handle_ack packet x else Some x);
           x \<leftarrow> (if is_fin h then handle_fin P x else Some x);
           Some (case tcb_fin_sequence_number (tc_tcb (fst x)) of
             None \<Rightarrow> x
           | Some fin_sequence_number \<Rightarrow>
               if th_acknowledgement_number h = fin_sequence_number + 1
               then handle_fin_ack P x else x) } } } }"

definition tcp_touch :: "nat \<Rightarrow> tcp_ctx \<Rightarrow> tcp_ctx" where
  "tcp_touch now = (\<lambda>(c, e). (c\<lparr>tc_idle_since := now\<rparr>, e))"

definition tcp_send_to_network :: "poll \<Rightarrow> nat \<Rightarrow> u32 \<Rightarrow> ip_packet \<Rightarrow> tcp_ctx \<Rightarrow> tcp_ctx option" where
  "tcp_send_to_network P now random packet x = (case packet of
     Ipv6 _ \<Rightarrow> Some x
   | Ipv4 ipv4_packet \<Rightarrow> do {
       x \<leftarrow> handle_packet P random ipv4_packet (tcp_touch now x);
       if \<not> tc_closed (fst x) then tcp_update_interests P x else Some x })"

section \<open>Events of the socket\<close>

text \<open>What the operations on the socket return during one event.\<close>

record tcp_io =
  io_read :: reader
  io_write :: writer
  io_take_error :: "io_error option io_result"

definition tcp_eof :: "poll \<Rightarrow> tcp_ctx \<Rightarrow> tcp_ctx option" where
  "tcp_eof P x = do {
     x \<leftarrow> send_empty_packet_to_client P (FLAG_FIN OR FLAG_ACK) x;
     Some (tcb_update (\<lambda>t. t\<lparr>
       tcb_fin_sequence_number := Some (tcb_sequence_number t),
       tcb_sequence_number := tcb_sequence_number t + 1,
       tcb_state := (if tcb_state t = CloseWait then LastAck else FinWait1)\<rparr>) x) }"

definition tcp_process_send :: "poll \<Rightarrow> writer \<Rightarrow> tcp_ctx \<Rightarrow> (unit io_result \<times> tcp_ctx) option" where
  "tcp_process_send P write = (\<lambda>(c, e). do {
     (r, buffer) \<leftarrow> sb_write_to write (tc_client_to_network c);
     let x = (c\<lparr>tc_client_to_network := buffer\<rparr>, e);
     case r of
       Inr w \<Rightarrow>
         if w \<noteq> 0 then do {
           let x = tcb_update (\<lambda>t. t\<lparr>tcb_acknowledgement_number :=
             tcb_acknowledgement_number t + of_nat w\<rparr>) x;
           x \<leftarrow> (if tcb_fin_received (tc_tcb (fst x)) \<and> sb_is_empty buffer
             then do_handle_fin P x
             else send_empty_packet_to_client P FLAG_ACK x);
           Some (Inr (), x) }
         else Some (Inr (), tcp_close P x)
     | Inl failure \<Rightarrow>
         if failure = WouldBlock then Some (Inl failure, x)
         else do {
           x \<leftarrow> send_empty_packet_to_client P FLAG_RST x;
           Some (Inr (), tcp_close P x) } })"

definition tcp_process_receive :: "poll \<Rightarrow> reader \<Rightarrow> tcp_ctx \<Rightarrow> (unit io_result \<times> tcp_ctx) option" where
  "tcp_process_receive P read = (\<lambda>(c, e). do {
     assert_that (tc_packet_for_client_length c = None);
     let remaining = remaining_client_window (tc_tcb c);
     assert_that (remaining > 0);
     let max_payload_length = Some (unat (min remaining MAX_PAYLOAD_LENGTH));
     p \<leftarrow> update_headers (tc_tcb c) (FLAG_ACK OR FLAG_PSH) (tc_network_to_client c);
     (r, p) \<leftarrow> packetize_read read max_payload_length p;
     let c = c\<lparr>tc_network_to_client := p\<rparr>;
     case r of
       Inr (Some ipv4_packet) \<Rightarrow> do {
         (sent, e) \<leftarrow> send_through P (ip_raw ipv4_packet) e;
         case sent of
           Inr _ \<Rightarrow> do {
             payload \<leftarrow> ipv4_packet_payload ipv4_packet;
             bytes \<leftarrow> payload;
             Some (Inr (), tcb_update (\<lambda>t. t\<lparr>tcb_sequence_number :=
               tcb_sequence_number t + of_nat (length bytes)\<rparr>) (c, e)) }
         | Inl _ \<Rightarrow> Some (Inr (),
             c\<lparr>tc_packet_for_client_length := Some (ipv4_packet_length ipv4_packet)\<rparr>,
             request RegisterPendingSource e) }
     | Inr None \<Rightarrow> do { x \<leftarrow> tcp_eof P (c, e); Some (Inr (), x) }
     | Inl failure \<Rightarrow>
         if failure = WouldBlock then Some (Inl failure, (c, e))
         else do {
           x \<leftarrow> send_empty_packet_to_client P FLAG_RST (c, e);
           Some (Inr (), tcp_close P x) } })"

definition tcp_process_connect :: "poll \<Rightarrow> io_error option io_result \<Rightarrow> tcp_ctx \<Rightarrow> tcp_ctx option" where
  "tcp_process_connect P take_error x = do {
     assert_that (tcb_state (tc_tcb (fst x)) = SynSent);
     case take_error of
       Inr (Some failure) \<Rightarrow> do {
         x \<leftarrow> send_empty_packet_to_client P FLAG_RST x;
         Some (tcp_close P x) }
     | _ \<Rightarrow> do {
         let x = tcb_update (\<lambda>t. t\<lparr>tcb_state := SynReceived\<rparr>) x;
         x \<leftarrow> send_empty_packet_to_client P (FLAG_SYN OR FLAG_ACK) x;
         Some (tcb_update (\<lambda>t. t\<lparr>tcb_sequence_number := tcb_sequence_number t + 1\<rparr>) x) } }"

definition tcp_remove_from_router :: "tcp_ctx \<Rightarrow> tcp_ctx" where
  "tcp_remove_from_router = (\<lambda>(c, e). (c, request RemoveFromRouter e))"

definition tcp_process_ready ::
    "poll \<Rightarrow> tcp_io \<Rightarrow> ready \<Rightarrow> tcp_ctx \<Rightarrow> (unit io_result \<times> tcp_ctx) option" where
  "tcp_process_ready P sock ready x =
     then_process
       (if is_writable ready then
          (if tcb_state (tc_tcb (fst x)) = SynSent
           then map_option (Pair (Inr ())) (tcp_process_connect P (io_take_error sock) x)
           else tcp_process_send P (io_write sock) x)
        else Some (Inr (), x))
       (\<lambda>x. then_process
         (if \<not> tc_closed (fst x) \<and> is_readable ready
          then tcp_process_receive P (io_read sock) x
          else Some (Inr (), x))
         (\<lambda>x. if \<not> tc_closed (fst x)
            then map_option (Pair (Inr ())) (tcp_update_interests P x)
            else Some (Inr (), x)))"

definition tcp_process ::
    "poll \<Rightarrow> nat \<Rightarrow> tcp_io \<Rightarrow> ready \<Rightarrow> tcp_ctx \<Rightarrow> (unit io_result \<times> tcp_ctx) option" where
  "tcp_process P now sock ready x =
     (if \<not> tc_closed (fst x) then
        then_process
          (let x = tcp_touch now x in
           if is_readable ready \<or> is_writable ready then tcp_process_ready P sock ready x
           else do {
             x \<leftarrow> (if tcb_state (tc_tcb (fst x)) = SynSent \<or> tcb_state (tc_tcb (fst x)) = SynReceived
               then send_empty_packet_to_client P FLAG_RST x else Some x);
             Some (Inr (), tcp_close P x) })
          (\<lambda>x. Some (Inr (), if tc_closed (fst x) then tcp_remove_from_router x else x))
      else Some (Inr (), x))"

definition tcp_on_ready :: "poll \<Rightarrow> nat \<Rightarrow> tcp_io \<Rightarrow> ready \<Rightarrow> tcp_ctx \<Rightarrow> tcp_ctx option" where
  "tcp_on_ready P now sock ready x = do {
     (r, x) \<leftarrow> tcp_process P now sock ready x;
     case r of
       Inr _ \<Rightarrow> Some x
     | Inl failure \<Rightarrow>
         if failure = WouldBlock then Some x
         else Some (tcp_remove_from_router (if \<not> tc_closed (fst x) then tcp_close P x else x)) }"

section \<open>Expiry, and the deferred packet\<close>

definition tcp_expire :: "poll \<Rightarrow> tcp_ctx \<Rightarrow> tcp_ctx option" where
  "tcp_expire P x = do {
     x \<leftarrow> (if \<not> tc_closed (fst x) \<and> (tcb_state (tc_tcb (fst x)) = SynSent
           \<or> tcb_state (tc_tcb (fst x)) = SynReceived)
       then reply_empty_packet_to_client P FLAG_RST x else Some x);
     Some (tcp_close P x) }"

definition tcp_is_expired :: "nat \<Rightarrow> tcp_connection \<Rightarrow> bool" where
  "tcp_is_expired now c =
     (if tcb_state (tc_tcb c) \<in> {Init, SynSent, SynReceived}
      then elapsed_secs now (tc_created_at c) > CONNECT_TIMEOUT_SECONDS
      else elapsed_secs now (tc_idle_since c) > TCP_IDLE_TIMEOUT_SECONDS)"

text \<open>\<open>PacketSource::get\<close> and \<open>PacketSource::next\<close>.\<close>

definition tcp_get :: "tcp_connection \<Rightarrow> ipv4_packet option option" where
  "tcp_get c = (case tc_packet_for_client_length c of
     Some len \<Rightarrow> do { p \<leftarrow> packetizer_inflate len (tc_network_to_client c); Some (Some p) }
   | None \<Rightarrow> Some None)"

definition tcp_next :: "poll \<Rightarrow> tcp_ctx \<Rightarrow> tcp_ctx option" where
  "tcp_next P x = do {
     len \<leftarrow> tc_packet_for_client_length (fst x);
     let (c, e) = tcb_update (\<lambda>t. t\<lparr>tcb_sequence_number := tcb_sequence_number t + ucast len\<rparr>) x;
     tcp_update_interests P (c\<lparr>tc_packet_for_client_length := None\<rparr>, e) }"

section \<open>Creation\<close>

text \<open>
  \<open>connect\<close> is \<open>TcpStream::connect\<close>; \<open>me\<close> names the new object in its handler.
\<close>

definition tcp_create :: "poll \<Rightarrow> ((nat \<rightharpoonup> handler) \<Rightarrow> nat) \<Rightarrow> (ipv4_addr \<times> u16) option
    \<Rightarrow> (socket_addr \<Rightarrow> nat io_result) \<Rightarrow> nat \<Rightarrow> nat \<Rightarrow> connection_id \<Rightarrow> ipv4_header_mut
    \<Rightarrow> transport_header_mut \<Rightarrow> selector \<Rightarrow> (tcp_connection io_result \<times> selector) option" where
  "tcp_create P vacant upstream connect me now cid ipv4_header transport_header s = do {
     destination \<leftarrow> rewritten_destination upstream cid;
     case connect destination of
       Inl e \<Rightarrow> Some (Inl e, s)
     | Inr stream \<Rightarrow> do {
         tcp_header_data \<leftarrow> (case snd transport_header of
           TcpTransport d \<Rightarrow> Some d | UdpTransport d \<Rightarrow> None);
         raw20 \<leftarrow> slice 0 20 (fst transport_header);
         (raw, data) \<leftarrow> tcp_shrink_options (raw20, tcp_header_data);
         assert_that (th_header_length data = 20);
         packetizer \<leftarrow> packetizer_new ipv4_header (raw, TcpTransport data);
         (r, s) \<leftarrow> selector_register P vacant stream (ConnectionHandler me) ready_writable s;
         case r of
           Inl e \<Rightarrow> Some (Inl e, s)
         | Inr token \<Rightarrow> Some (Inr \<lparr>tc_id = cid, tc_stream = stream, tc_interests = ready_writable,
             tc_token = token, tc_client_to_network = sb_new (4 * MAX_PACKET_LENGTH),
             tc_network_to_client = packetizer, tc_packet_for_client_length = None,
             tc_closed = False, tc_tcb = tcb_new, tc_idle_since = now, tc_created_at = now\<rparr>, s) } }"

end
