(* ===== verification/Tcp_Facts.thy ===== *)
theory Tcp_Facts
  imports Tcp_Connection
begin

text \<open>
  What the handlers of \<open>Tcp_Connection\<close> do: the invariant they keep, the packets they send, and
  the conditions under which none of their assertions fails.
\<close>

section \<open>The headers of an outgoing packet\<close>

lemma tcp_set_sequence_number_ok:
  assumes "tcp_header_parse raw = Some d" and "20 \<le> length raw"
  shows "\<exists>raw'. tcp_set_sequence_number v (raw, d) = Some (raw', d\<lparr>th_sequence_number := v\<rparr>)
    \<and> length raw' = length raw \<and> tcp_header_parse raw' = Some (d\<lparr>th_sequence_number := v\<rparr>)"
proof -
  have m: "tcp_set_sequence_number v \<in> tcp_setters" by (simp add: tcp_setters_def)
  obtain raw' where s: "tcp_set_sequence_number v (raw, d) = Some (raw', d\<lparr>th_sequence_number := v\<rparr>)"
    using assms by (auto simp: tcp_set_sequence_number_def write_u32_Some)
  then show ?thesis
    using tcp_view.setter_length [OF m s] tcp_view.setter_coherent [OF m assms(1) s] by blast
qed

lemma tcp_set_acknowledgement_number_ok:
  assumes "tcp_header_parse raw = Some d" and "20 \<le> length raw"
  shows "\<exists>raw'. tcp_set_acknowledgement_number v (raw, d) = Some (raw', d\<lparr>th_acknowledgement_number := v\<rparr>)
    \<and> length raw' = length raw \<and> tcp_header_parse raw' = Some (d\<lparr>th_acknowledgement_number := v\<rparr>)"
proof -
  have m: "tcp_set_acknowledgement_number v \<in> tcp_setters" by (simp add: tcp_setters_def)
  obtain raw' where s: "tcp_set_acknowledgement_number v (raw, d) = Some (raw', d\<lparr>th_acknowledgement_number := v\<rparr>)"
    using assms by (auto simp: tcp_set_acknowledgement_number_def write_u32_Some)
  then show ?thesis
    using tcp_view.setter_length [OF m s] tcp_view.setter_coherent [OF m assms(1) s] by blast
qed

lemma tcp_set_flags_ok:
  assumes "tcp_header_parse raw = Some d" and "20 \<le> length raw" and "f AND 0x1FF = f"
  shows "\<exists>raw'. tcp_set_flags f (raw, d) = Some (raw', d\<lparr>th_flags := f\<rparr>)
    \<and> length raw' = length raw \<and> tcp_header_parse raw' = Some (d\<lparr>th_flags := f\<rparr>)"
proof -
  have m: "tcp_set_flags f \<in> tcp_setters" using assms by (simp add: tcp_setters_def)
  obtain raw' where s: "tcp_set_flags f (raw, d) = Some (raw', d\<lparr>th_flags := f\<rparr>)"
    using assms by (auto simp: tcp_set_flags_def write_u16_Some read_u16_Some)
  then show ?thesis
    using tcp_view.setter_length [OF m s] tcp_view.setter_coherent [OF m assms(1) s] by blast
qed

definition stamped :: "tcb \<Rightarrow> u16 \<Rightarrow> tcp_header_data \<Rightarrow> tcp_header_data" where
  "stamped t flags d = d\<lparr>th_sequence_number := tcb_sequence_number t,
     th_acknowledgement_number := tcb_acknowledgement_number t, th_flags := flags\<rparr>"

text \<open>The packetizer of a TCP connection: a TCP header without options.\<close>

definition tcp_pk :: "packetizer \<Rightarrow> tcp_header_data \<Rightarrow> bool" where
  "tcp_pk p d \<longleftrightarrow> pk_inv p \<and> pk_transport_header_data p = TcpTransport d \<and> th_header_length d = 20"

lemma update_headers_ok:
  assumes p: "tcp_pk p d" and f: "flags AND 0x1FF = flags"
  shows "\<exists>p'. update_headers t flags p = Some p' \<and> tcp_pk p' (stamped t flags d)
    \<and> pk_ipv4_header_data p' = pk_ipv4_header_data p
    \<and> pk_transport_index p' = pk_transport_index p \<and> pk_payload_index p' = pk_payload_index p"
proof -
  have inv: "pk_inv p" and td: "pk_transport_header_data p = TcpTransport d" and hl: "th_header_length d = 20"
    using p by (simp_all add: tcp_pk_def)
  note P = pk_invD [OF inv]
  define S where "S = pk_segment p"
  have seg: "tcp_header_parse S = Some d" "length S = 20"
    and q: "ih_protocol (pk_ipv4_header_data p) = Tcp"
    using P(9) P(1,3) td hl by (simp_all add: transport_matches_protocol S_def)
  let ?d1 = "d\<lparr>th_sequence_number := tcb_sequence_number t\<rparr>"
  let ?d2 = "?d1\<lparr>th_acknowledgement_number := tcb_acknowledgement_number t\<rparr>"
  obtain r1 where r1: "tcp_set_sequence_number (tcb_sequence_number t) (S, d) = Some (r1, ?d1)"
    "length r1 = 20" "tcp_header_parse r1 = Some ?d1"
    using tcp_set_sequence_number_ok [OF seg(1), of "tcb_sequence_number t"] seg(2) by auto
  obtain r2 where r2: "tcp_set_acknowledgement_number (tcb_acknowledgement_number t) (r1, ?d1) = Some (r2, ?d2)"
    "length r2 = 20" "tcp_header_parse r2 = Some ?d2"
    using tcp_set_acknowledgement_number_ok [OF r1(3), of "tcb_acknowledgement_number t"] r1(2) by auto
  obtain r3 where r3: "tcp_set_flags flags (r2, ?d2) = Some (r3, stamped t flags d)"
    "length r3 = 20" "tcp_header_parse r3 = Some (stamped t flags d)"
    using tcp_set_flags_ok [OF r2(3) _ f] r2(2) by (auto simp: stamped_def)
  let ?f = "on_tcp_header (\<lambda>h. do {
     h \<leftarrow> tcp_set_sequence_number (tcb_sequence_number t) h;
     h \<leftarrow> tcp_set_acknowledgement_number (tcb_acknowledgement_number t) h;
     tcp_set_flags flags h })"
  have F: "?f (S, pk_transport_header_data p) = Some (r3, TcpTransport (stamped t flags d))"
    using r1(1) r2(1) r3(1) by (simp add: on_tcp_header_def td)
  have m: "transport_matches (ih_protocol (pk_ipv4_header_data p)) (TcpTransport (stamped t flags d)) r3"
    using r3 q hl by (simp add: transport_matches_protocol stamped_def)
  have "length r3 = length S" using r3(2) seg(2) by simp
  from pk_transport_edit [of p ?f, folded S_def, OF inv F this m] td obtain p' where
    "pk_transport_header_mut ?f p = Some p'" "pk_inv p'"
    "p' = p\<lparr>pk_buffer := take (pk_transport_index p) (pk_buffer p) @ r3
      @ drop (pk_payload_index p) (pk_buffer p), pk_transport_header_data := TcpTransport (stamped t flags d)\<rparr>"
    by (auto simp: stamped_def)
  then show ?thesis using hl by (simp add: update_headers_def tcp_pk_def stamped_def)
qed

lemma flag_values:
  "FLAG_FIN AND 0x1FF = FLAG_FIN" "FLAG_SYN AND 0x1FF = FLAG_SYN" "FLAG_RST AND 0x1FF = FLAG_RST"
  "FLAG_ACK AND 0x1FF = FLAG_ACK" "(FLAG_FIN OR FLAG_ACK) AND 0x1FF = FLAG_FIN OR FLAG_ACK"
  "(FLAG_SYN OR FLAG_ACK) AND 0x1FF = FLAG_SYN OR FLAG_ACK"
  "(FLAG_ACK OR FLAG_PSH) AND 0x1FF = FLAG_ACK OR FLAG_PSH"
  by (simp_all add: FLAG_FIN_def FLAG_SYN_def FLAG_RST_def FLAG_ACK_def FLAG_PSH_def)

section \<open>The invariant\<close>

text \<open>The endpoints that the outgoing headers carry: source, destination, and their ports.\<close>

definition pk_endpoints :: "packetizer \<Rightarrow> u32 \<times> u32 \<times> u16 \<times> u16" where
  "pk_endpoints p = (ih_source (pk_ipv4_header_data p), ih_destination (pk_ipv4_header_data p),
     transport_source_port (pk_transport_header_data p),
     transport_destination_port (pk_transport_header_data p))"

definition packet_endpoints :: "ipv4_packet \<Rightarrow> (u32 \<times> u32 \<times> u16 \<times> u16) option" where
  "packet_endpoints q = map_option (\<lambda>t. (ih_source (ip_header_data q), ih_destination (ip_header_data q),
     transport_source_port t, transport_destination_port t)) (ip_transport_data q)"

definition tc_inv :: "tcp_connection \<Rightarrow> bool" where
  "tc_inv c \<longleftrightarrow> (\<exists>d. tcp_pk (tc_network_to_client c) d) \<and> sb_inv (tc_client_to_network c)
     \<and> length (sb_buf (tc_client_to_network c)) = 4 * MAX_PACKET_LENGTH + 1"

definition ctx_inv :: "tcp_ctx \<Rightarrow> bool" where
  "ctx_inv x \<longleftrightarrow> tc_inv (fst x) \<and> ch_inv (en_channel (snd x)) \<and> sel_inv (en_selector (snd x))
     \<and> (\<not> tc_closed (fst x) \<longrightarrow> live_token (en_selector (snd x)) (tc_token (fst x)))"

text \<open>A control segment: no payload, valid checksums, the numbers of the control block.\<close>

definition control_segment :: "tcp_connection \<Rightarrow> u16 \<Rightarrow> ipv4_packet \<Rightarrow> bool" where
  "control_segment c flags q \<longleftrightarrow> ipv4_sendable q \<and> ipv4_payload_bytes q = Some []
     \<and> packet_endpoints q = Some (pk_endpoints (tc_network_to_client c))
     \<and> (\<exists>d. ip_transport_data q = Some (TcpTransport d)
         \<and> th_sequence_number d = tcb_sequence_number (tc_tcb c)
         \<and> th_acknowledgement_number d = tcb_acknowledgement_number (tc_tcb c)
         \<and> th_flags d = flags)"

lemma create_empty_response_packet_ok:
  assumes p: "tcp_pk p d" and f: "flags AND 0x1FF = flags"
  shows "\<exists>q p'. create_empty_response_packet t flags p = Some (q, p') \<and> tcp_pk p' (stamped t flags d)
    \<and> pk_endpoints p' = pk_endpoints p \<and> ipv4_sendable q \<and> ipv4_payload_bytes q = Some []
    \<and> packet_endpoints q = Some (pk_endpoints p)
    \<and> ip_transport_data q = Some (TcpTransport (stamped t flags d))
    \<and> length (ip_raw q) = pk_payload_index p \<and> pk_payload_index p' = pk_payload_index p
    \<and> ih_total_length (pk_ipv4_header_data p') = of_nat (pk_payload_index p)"
proof -
  obtain p1 where p1: "update_headers t flags p = Some p1" "tcp_pk p1 (stamped t flags d)"
    "pk_ipv4_header_data p1 = pk_ipv4_header_data p" "pk_transport_index p1 = pk_transport_index p"
    "pk_payload_index p1 = pk_payload_index p"
    using update_headers_ok [OF p f] by blast
  then have inv: "pk_inv p1" and td: "pk_transport_header_data p1 = TcpTransport (stamped t flags d)"
    by (simp_all add: tcp_pk_def)
  obtain q p' where q: "packetize_empty_payload p1 = Some (q, p')" "built p1 0 q" "pk_inv p'"
    "pk_payload_index p' = pk_payload_index p1"
    "pk_transport_header_data p' = pk_transport_header_data p1" "pk_ipv4_header_data p' = ip_header_data q"
    using packetize_empty_payload_ok [OF inv] by blast
  have e: "pk_endpoints p1 = pk_endpoints p"
    using p1(3) td p by (simp add: pk_endpoints_def tcp_pk_def stamped_def)
  have Q: "ipv4_sendable q" "ipv4_payload_bytes q = Some []" "length (ip_raw q) = pk_payload_index p1"
    "ip_header_data q = (pk_ipv4_header_data p1)\<lparr>ih_total_length := of_nat (pk_payload_index p1)\<rparr>"
    "ip_transport_data q = Some (pk_transport_header_data p1)"
    using q(2) by (simp_all add: built_def ipv4_sendable_def ipv4_payload_bytes_def)
  then have "packet_endpoints q = Some (pk_endpoints p1)" "pk_endpoints p' = pk_endpoints p1"
    using q(5,6) by (simp_all add: packet_endpoints_def pk_endpoints_def)
  then show ?thesis
    using p1 q Q td e p
    by (intro exI [of _ q] exI [of _ p']) (simp add: create_empty_response_packet_def tcp_pk_def stamped_def)
qed

lemma reply_empty_packet_ok:
  assumes P: "poll_works P" and inv: "ctx_inv (c, e)" and f: "flags AND 0x1FF = flags"
  shows "\<exists>p' q e'. reply_empty_packet_to_client P flags (c, e) = Some (c\<lparr>tc_network_to_client := p'\<rparr>, e')
    \<and> ctx_inv (c\<lparr>tc_network_to_client := p'\<rparr>, e') \<and> pk_endpoints p' = pk_endpoints (tc_network_to_client c)
    \<and> control_segment c flags q \<and> offered e (ip_raw q) e'"
proof -
  obtain d where d: "tcp_pk (tc_network_to_client c) d" using inv by (auto simp: ctx_inv_def tc_inv_def)
  obtain q p' where q: "create_empty_response_packet (tc_tcb c) flags (tc_network_to_client c) = Some (q, p')"
    "tcp_pk p' (stamped (tc_tcb c) flags d)" "pk_endpoints p' = pk_endpoints (tc_network_to_client c)"
    "ipv4_sendable q" "ipv4_payload_bytes q = Some []"
    "packet_endpoints q = Some (pk_endpoints (tc_network_to_client c))"
    "ip_transport_data q = Some (TcpTransport (stamped (tc_tcb c) flags d))"
    using create_empty_response_packet_ok [OF d f] by blast
  have ch: "ch_inv (en_channel e)" using inv by (simp add: ctx_inv_def)
  obtain r e' where e': "send_through P (ip_raw q) e = Some (r, e')" "offered e (ip_raw q) e'"
    using send_through_ok [OF P ch] by blast
  have "control_segment c flags q" using q by (simp add: control_segment_def stamped_def)
  moreover have "ctx_inv (c\<lparr>tc_network_to_client := p'\<rparr>, e')"
    using inv q(2) e'(2) same_tokens_inv by (auto simp: ctx_inv_def tc_inv_def offered_def)
  ultimately show ?thesis
    using q(1,3) e' by (intro exI [of _ p'] exI [of _ q] exI [of _ e']) (simp add: reply_empty_packet_to_client_def)
qed

section \<open>Steps of the state machine\<close>

text \<open>The transitions the code makes. Nothing leads to \<open>CloseWait\<close>.\<close>

inductive tcp_edge :: "tcp_state \<Rightarrow> tcp_state \<Rightarrow> bool" where
  open_sent: "tcp_edge Init SynSent"
| connected: "tcp_edge SynSent SynReceived"
| acked: "tcp_edge SynReceived Established"
| client_closes: "tcp_edge Established LastAck"
| network_closes: "tcp_edge Established FinWait1"
| both_close: "tcp_edge FinWait1 Closing"
| fin_acked: "tcp_edge FinWait1 FinWait2"
| late_close: "tcp_edge CloseWait LastAck"

inductive_simps tcp_edge_iff: "tcp_edge a b"

inductive_cases tcp_edge_toE: "tcp_edge a CloseWait"

lemma tcp_edges_no_CloseWait: "tcp_edge\<^sup>*\<^sup>* a b \<Longrightarrow> a \<noteq> CloseWait \<Longrightarrow> b \<noteq> CloseWait"
  by (induction rule: rtranclp_induct) (auto elim: tcp_edge_toE)

abbreviation state_of :: "tcp_ctx \<Rightarrow> tcp_state" where
  "state_of x \<equiv> tcb_state (tc_tcb (fst x))"

text \<open>What no handler changes.\<close>

definition tcp_frame :: "tcp_ctx \<Rightarrow> tcp_ctx \<Rightarrow> bool" where
  "tcp_frame x y \<longleftrightarrow> tc_id (fst y) = tc_id (fst x) \<and> tc_stream (fst y) = tc_stream (fst x)
     \<and> tc_token (fst y) = tc_token (fst x) \<and> tc_created_at (fst y) = tc_created_at (fst x)
     \<and> pk_endpoints (tc_network_to_client (fst y)) = pk_endpoints (tc_network_to_client (fst x))
     \<and> ch_frame (en_channel (snd x)) (en_channel (snd y))
     \<and> (\<forall>t. live_token (en_selector (snd x)) t \<and> t \<noteq> tc_token (fst x) \<longrightarrow> live_token (en_selector (snd y)) t)
     \<and> (\<exists>rs. en_requests (snd y) = en_requests (snd x) @ rs)"

lemma tcp_frame_refl [simp]: "tcp_frame x x"
  by (simp add: tcp_frame_def)

lemma tcp_frame_trans [trans]: "tcp_frame x y \<Longrightarrow> tcp_frame y z \<Longrightarrow> tcp_frame x z"
  by (auto simp: tcp_frame_def intro: ch_frame_trans)

text \<open>One handler from \<open>x\<close> to \<open>y\<close>.\<close>

definition step_ok :: "tcp_ctx \<Rightarrow> tcp_ctx \<Rightarrow> bool" where
  "step_ok x y \<longleftrightarrow> ctx_inv y \<and> tcp_frame x y \<and> tcp_edge\<^sup>*\<^sup>* (state_of x) (state_of y)"

lemma step_ok_refl: "ctx_inv x \<Longrightarrow> step_ok x x"
  by (simp add: step_ok_def)

lemma step_ok_trans [trans]: "step_ok x y \<Longrightarrow> step_ok y z \<Longrightarrow> step_ok x z"
  by (auto simp: step_ok_def intro: tcp_frame_trans rtranclp_trans)

lemma step_ok_inv: "step_ok x y \<Longrightarrow> ctx_inv y"
  by (simp add: step_ok_def)

text \<open>An update of the control block alone.\<close>

lemma tcb_update_simps [simp]:
  "fst (tcb_update f x) = (fst x)\<lparr>tc_tcb := f (tc_tcb (fst x))\<rparr>" "snd (tcb_update f x) = snd x"
  by (simp_all add: tcb_update_def case_prod_beta)

lemma tc_inv_tcb [simp]: "tc_inv (c\<lparr>tc_tcb := t\<rparr>) = tc_inv c"
  by (simp add: tc_inv_def)

lemma step_ok_tcb:
  "ctx_inv x \<Longrightarrow> tcp_edge\<^sup>*\<^sup>* (state_of x) (tcb_state (f (tc_tcb (fst x)))) \<Longrightarrow> step_ok x (tcb_update f x)"
  by (simp add: step_ok_def ctx_inv_def tcp_frame_def)

lemma tcp_close_simps [simp]:
  "fst (tcp_close P x) = (fst x)\<lparr>tc_closed := True\<rparr>"
  "en_channel (snd (tcp_close P x)) = en_channel (snd x)"
  "en_requests (snd (tcp_close P x)) = en_requests (snd x)"
  by (simp_all add: tcp_close_def case_prod_beta)

lemma step_ok_close:
  assumes "ctx_inv x" and "\<not> tc_closed (fst x)"
  shows "step_ok x (tcp_close P x)"
  using assms selector_deregister_ok [of "en_selector (snd x)" "tc_token (fst x)" P "tc_stream (fst x)"]
  by (auto simp: step_ok_def ctx_inv_def tcp_frame_def tcp_close_def tc_inv_def case_prod_beta)

lemma step_ok_reply:
  assumes P: "poll_works P" and inv: "ctx_inv x" and f: "flags AND 0x1FF = flags"
  shows "\<exists>y q. reply_empty_packet_to_client P flags x = Some y \<and> step_ok x y
    \<and> tc_tcb (fst y) = tc_tcb (fst x) \<and> tc_closed (fst y) = tc_closed (fst x)
    \<and> tc_client_to_network (fst y) = tc_client_to_network (fst x)
    \<and> tc_packet_for_client_length (fst y) = tc_packet_for_client_length (fst x)
    \<and> tc_interests (fst y) = tc_interests (fst x) \<and> en_requests (snd y) = en_requests (snd x)
    \<and> control_segment (fst x) flags q \<and> offered (snd x) (ip_raw q) (snd y)"
proof -
  obtain c e where x: "x = (c, e)" by (cases x)
  obtain p' q e' where r: "reply_empty_packet_to_client P flags (c, e) = Some (c\<lparr>tc_network_to_client := p'\<rparr>, e')"
    "ctx_inv (c\<lparr>tc_network_to_client := p'\<rparr>, e')" "pk_endpoints p' = pk_endpoints (tc_network_to_client c)"
    "control_segment c flags q" "offered e (ip_raw q) e'"
    using reply_empty_packet_ok [OF P inv [unfolded x] f] by blast
  then show ?thesis
    using same_tokens_inv(2) [of "en_selector e" "en_selector e'"]
    by (intro exI [of _ "(c\<lparr>tc_network_to_client := p'\<rparr>, e')"] exI [of _ q])
      (auto simp: x step_ok_def tcp_frame_def offered_def)
qed

section \<open>Each handler of a packet\<close>

text \<open>What handlers of packets leave alone.\<close>

definition quiet :: "tcp_ctx \<Rightarrow> tcp_ctx \<Rightarrow> bool" where
  "quiet x y \<longleftrightarrow> tc_interests (fst y) = tc_interests (fst x)
     \<and> tc_packet_for_client_length (fst y) = tc_packet_for_client_length (fst x)
     \<and> en_requests (snd y) = en_requests (snd x)"

lemma quiet_refl [simp]: "quiet x x"
  by (simp add: quiet_def)

lemma quiet_trans [trans]: "quiet x y \<Longrightarrow> quiet y z \<Longrightarrow> quiet x z"
  by (simp add: quiet_def)

lemma quiet_tcb [simp]: "quiet x (tcb_update f x)"
  by (simp add: quiet_def)

lemma quiet_close [simp]: "quiet x (tcp_close P x)"
  by (simp add: quiet_def)

lemmas edge_intros = r_into_rtranclp [of tcp_edge] tcp_edge.intros

lemma reply_then:
  assumes P: "poll_works P" and inv: "ctx_inv x" and f: "flags AND 0x1FF = flags"
  obtains y where "reply_empty_packet_to_client P flags x = Some y" "step_ok x y" "quiet x y"
    "tc_tcb (fst y) = tc_tcb (fst x)" "tc_closed (fst y) = tc_closed (fst x)"
    "tc_client_to_network (fst y) = tc_client_to_network (fst x)"
  using step_ok_reply [OF assms] by (auto simp: quiet_def)

lemma do_handle_fin_ok:
  assumes P: "poll_works P" and inv: "ctx_inv x" and op: "\<not> tc_closed (fst x)"
  shows "\<exists>y. do_handle_fin P x = Some y \<and> step_ok x y \<and> quiet x y
    \<and> tc_client_to_network (fst y) = tc_client_to_network (fst x)
    \<and> (tc_closed (fst y) \<longleftrightarrow> state_of x = FinWait2)
    \<and> state_of y = (case state_of x of Established \<Rightarrow> LastAck | FinWait1 \<Rightarrow> Closing | s \<Rightarrow> s)
    \<and> tcb_fin_received (tc_tcb (fst y)) = tcb_fin_received (tc_tcb (fst x))"
proof -
  let ?x = "tcb_update (\<lambda>t. t\<lparr>tcb_acknowledgement_number := tcb_acknowledgement_number t + 1\<rparr>) x"
  have s: "step_ok x ?x" "ctx_inv ?x" "state_of ?x = state_of x" "\<not> tc_closed (fst ?x)"
    using inv op by (simp_all add: step_ok_tcb step_ok_inv [OF step_ok_tcb])
  consider "state_of x = Established" | "state_of x = FinWait1" | "state_of x = FinWait2"
    | "state_of x \<notin> {Established, FinWait1, FinWait2}" by blast
  then show ?thesis
  proof cases
    case 1
    obtain y where y: "reply_empty_packet_to_client P (FLAG_FIN OR FLAG_ACK) ?x = Some y" "step_ok ?x y"
      "quiet ?x y" "tc_tcb (fst y) = tc_tcb (fst ?x)" "tc_closed (fst y) = tc_closed (fst ?x)"
      "tc_client_to_network (fst y) = tc_client_to_network (fst ?x)"
      using reply_then [OF P s(2) flag_values(5)] by blast
    let ?z = "tcb_update (\<lambda>t. t\<lparr>tcb_fin_sequence_number := Some (tcb_sequence_number t),
      tcb_sequence_number := tcb_sequence_number t + 1, tcb_state := LastAck\<rparr>) y"
    have "step_ok y ?z"
      by (rule step_ok_tcb [OF step_ok_inv [OF y(2)]]) (use y(4) 1 in \<open>auto intro: edge_intros\<close>)
    then have "step_ok x ?z" using s(1) y(2) step_ok_trans by blast
    moreover have "quiet x ?z" using y(3) by (simp add: quiet_def)
    ultimately show ?thesis using 1 y op
      by (intro exI [of _ ?z]) (simp add: do_handle_fin_def Let_def)
  next
    case 2
    obtain y where y: "reply_empty_packet_to_client P FLAG_ACK ?x = Some y" "step_ok ?x y"
      "quiet ?x y" "tc_tcb (fst y) = tc_tcb (fst ?x)" "tc_closed (fst y) = tc_closed (fst ?x)"
      "tc_client_to_network (fst y) = tc_client_to_network (fst ?x)"
      using reply_then [OF P s(2) flag_values(4)] by blast
    let ?z = "tcb_update (\<lambda>t. t\<lparr>tcb_state := Closing\<rparr>) y"
    have "step_ok y ?z"
      by (rule step_ok_tcb [OF step_ok_inv [OF y(2)]]) (use y(4) 2 in \<open>auto intro: edge_intros\<close>)
    then have "step_ok x ?z" using s(1) y(2) step_ok_trans by blast
    moreover have "quiet x ?z" using y(3) by (simp add: quiet_def)
    ultimately show ?thesis using 2 y op
      by (intro exI [of _ ?z]) (simp add: do_handle_fin_def Let_def)
  next
    case 3
    obtain y where y: "reply_empty_packet_to_client P FLAG_ACK ?x = Some y" "step_ok ?x y"
      "quiet ?x y" "tc_tcb (fst y) = tc_tcb (fst ?x)" "tc_closed (fst y) = tc_closed (fst ?x)"
      "tc_client_to_network (fst y) = tc_client_to_network (fst ?x)"
      using reply_then [OF P s(2) flag_values(4)] by blast
    have "\<not> tc_closed (fst y)" using y(5) s(4) by simp
    then have "step_ok y (tcp_close P y)" by (rule step_ok_close [OF step_ok_inv [OF y(2)]])
    then have "step_ok x (tcp_close P y)" using s(1) y(2) step_ok_trans by blast
    moreover have "quiet x (tcp_close P y)" using y(3) by (simp add: quiet_def)
    ultimately show ?thesis using 3 y op
      by (intro exI [of _ "tcp_close P y"]) (simp add: do_handle_fin_def Let_def)
  next
    case 4
    then show ?thesis using s op
      by (intro exI [of _ ?x]) (auto simp: do_handle_fin_def Let_def split: tcp_state.splits)
  qed
qed

lemma handle_fin_ok:
  assumes P: "poll_works P" and inv: "ctx_inv x" and op: "\<not> tc_closed (fst x)"
  shows "\<exists>y. handle_fin P x = Some y \<and> step_ok x y \<and> quiet x y
    \<and> tc_client_to_network (fst y) = tc_client_to_network (fst x)
    \<and> tcb_fin_received (tc_tcb (fst y))
    \<and> (tc_closed (fst y) \<longrightarrow> state_of y = FinWait2)"
proof -
  let ?x = "tcb_update (\<lambda>t. t\<lparr>tcb_fin_received := True\<rparr>) x"
  have s: "step_ok x ?x" "ctx_inv ?x" "\<not> tc_closed (fst ?x)"
    using inv op by (simp_all add: step_ok_tcb step_ok_inv [OF step_ok_tcb])
  show ?thesis
  proof (cases "sb_is_empty (tc_client_to_network (fst x))")
    case True
    obtain y where y: "do_handle_fin P ?x = Some y" "step_ok ?x y" "quiet ?x y"
      "tc_client_to_network (fst y) = tc_client_to_network (fst ?x)"
      "tc_closed (fst y) \<longleftrightarrow> state_of ?x = FinWait2"
      "state_of y = (case state_of ?x of Established \<Rightarrow> LastAck | FinWait1 \<Rightarrow> Closing | s \<Rightarrow> s)"
      "tcb_fin_received (tc_tcb (fst y)) = tcb_fin_received (tc_tcb (fst ?x))"
      using do_handle_fin_ok [OF P s(2,3)] by blast
    then show ?thesis using True s(1)
      by (intro exI [of _ y]) (auto simp: handle_fin_def Let_def quiet_def intro: step_ok_trans)
  next
    case False
    then show ?thesis using s op by (intro exI [of _ ?x]) (simp add: handle_fin_def Let_def)
  qed
qed

lemma handle_fin_ack_ok:
  assumes inv: "ctx_inv x" and op: "tc_closed (fst x) \<longrightarrow> state_of x = FinWait2"
  shows "step_ok x (handle_fin_ack P x) \<and> quiet x (handle_fin_ack P x)
    \<and> tc_client_to_network (fst (handle_fin_ack P x)) = tc_client_to_network (fst x)"
proof -
  have "tcp_edge\<^sup>*\<^sup>* FinWait1 FinWait2" by (auto intro: edge_intros)
  then show ?thesis
    using assms by (auto simp: handle_fin_ack_def Let_def step_ok_refl intro: step_ok_close step_ok_tcb)
qed

text \<open>A packet of the flow, as the router hands it over.\<close>

definition tcp_packet :: "ipv4_packet \<Rightarrow> tcp_header_data \<Rightarrow> bool" where
  "tcp_packet q h \<longleftrightarrow> ipv4_accepted q \<and> ip_transport_data q = Some (TcpTransport h)"

lemma tcp_packet_ok:
  assumes "tcp_packet q h"
  shows "tcp_header_of_packet q = Some h" and "\<exists>bs. ipv4_packet_payload q = Some (Some bs)"
proof -
  have o: "ipv4_packet_ok q" and t: "ip_transport_data q = Some (TcpTransport h)"
    using assms by (simp_all add: tcp_packet_def ipv4_accepted_def)
  show "tcp_header_of_packet q = Some h"
    using ipv4_packet_ok_transport(1) [OF o t refl] t
    by (simp add: tcp_header_of_packet_def ipv4_packet_transport_header_def slice_Some)
  show "\<exists>bs. ipv4_packet_payload q = Some (Some bs)" using ipv4_packet_payload_ok [OF o t] by blast
qed

lemma handle_ack_ok:
  assumes inv: "ctx_inv x" and bs: "ipv4_packet_payload q = Some (Some bs)"
  shows "\<exists>y. handle_ack q x = Some y \<and> step_ok x y \<and> quiet x y \<and> tc_closed (fst y) = tc_closed (fst x)
    \<and> sb_contents (tc_client_to_network (fst y)) = sb_contents (tc_client_to_network (fst x))
        @ (if state_of x = SynReceived \<or> sb_remaining (tc_client_to_network (fst x)) < length bs
           then [] else bs)
    \<and> tc_tcb (fst y) = (if state_of x = SynReceived then (tc_tcb (fst x))\<lparr>tcb_state := Established\<rparr>
        else tc_tcb (fst x))"
proof (cases "state_of x = SynReceived")
  case True
  have "step_ok x (tcb_update (\<lambda>t. t\<lparr>tcb_state := Established\<rparr>) x)"
    by (rule step_ok_tcb [OF inv]) (use True in \<open>auto intro: edge_intros\<close>)
  then show ?thesis using True by (simp add: handle_ack_def)
next
  case False
  obtain c e where x: "x = (c, e)" by (cases x)
  have sb: "sb_inv (tc_client_to_network c)" using inv by (simp add: x ctx_inv_def tc_inv_def)
  show ?thesis
  proof (cases "bs = [] \<or> sb_remaining (tc_client_to_network c) < length bs")
    case True
    then show ?thesis using False bs inv by (auto simp: x handle_ack_def step_ok_refl)
  next
    case nf: False
    then obtain b where b: "sb_read_from bs (tc_client_to_network c) = Some b" "sb_inv b"
      "sb_contents b = sb_contents (tc_client_to_network c) @ bs"
      "length (sb_buf b) = length (sb_buf (tc_client_to_network c))"
      using sb_read_from_ok [OF sb, of bs] by auto
    have "step_ok x (c\<lparr>tc_client_to_network := b\<rparr>, e)"
      using inv b by (simp add: x step_ok_def ctx_inv_def tc_inv_def tcp_frame_def)
    then show ?thesis using False nf bs b by (simp add: x handle_ack_def quiet_def)
  qed
qed

lemma reply_close_ok:
  assumes P: "poll_works P" and inv: "ctx_inv x" and op: "\<not> tc_closed (fst x)"
    and f: "flags AND 0x1FF = flags"
  shows "\<exists>y. reply_empty_packet_to_client P flags x = Some y \<and> step_ok x (tcp_close P y)
    \<and> quiet x (tcp_close P y) \<and> state_of y = state_of x
    \<and> tc_client_to_network (fst y) = tc_client_to_network (fst x)"
proof -
  obtain y where y: "reply_empty_packet_to_client P flags x = Some y" "step_ok x y" "quiet x y"
    "tc_tcb (fst y) = tc_tcb (fst x)" "tc_closed (fst y) = tc_closed (fst x)"
    "tc_client_to_network (fst y) = tc_client_to_network (fst x)"
    using reply_then [OF P inv f] by blast
  moreover have "step_ok y (tcp_close P y)"
    by (rule step_ok_close [OF step_ok_inv [OF y(2)]]) (use y(5) op in simp)
  ultimately show ?thesis by (auto intro: step_ok_trans quiet_trans)
qed

lemma handle_first_packet_ok:
  assumes P: "poll_works P" and inv: "ctx_inv x" and op: "\<not> tc_closed (fst x)" and init: "state_of x = Init"
  shows "\<exists>y. handle_first_packet P random h x = Some y \<and> step_ok x y \<and> quiet x y"
proof (cases "is_syn h")
  case True
  have "tcp_edge\<^sup>*\<^sup>* Init SynSent" by (auto intro: edge_intros)
  then show ?thesis
    using True inv init by (simp add: handle_first_packet_def step_ok_tcb)
next
  case False
  let ?x = "tcb_update (\<lambda>t. t\<lparr>tcb_sequence_number := th_acknowledgement_number h\<rparr>) x"
  have s: "step_ok x ?x" "ctx_inv ?x" "\<not> tc_closed (fst ?x)"
    using inv op by (simp_all add: step_ok_tcb step_ok_inv [OF step_ok_tcb])
  obtain y where y: "reply_empty_packet_to_client P FLAG_RST ?x = Some y" "step_ok ?x (tcp_close P y)"
    "quiet ?x (tcp_close P y)"
    using reply_close_ok [OF P s(2,3) flag_values(3)] by blast
  have "step_ok x (tcp_close P y)" using s(1) y(2) by (rule step_ok_trans)
  then show ?thesis using False y by (auto simp: handle_first_packet_def quiet_def)
qed

lemma handle_duplicate_syn_ok:
  assumes P: "poll_works P" and inv: "ctx_inv x" and op: "\<not> tc_closed (fst x)"
  shows "\<exists>y. handle_duplicate_syn P h x = Some y \<and> step_ok x y \<and> quiet x y"
proof -
  obtain y where "reply_empty_packet_to_client P FLAG_RST x = Some y" "step_ok x (tcp_close P y)"
    "quiet x (tcp_close P y)"
    using reply_close_ok [OF P inv op flag_values(3)] by blast
  then show ?thesis
    using inv by (simp add: handle_duplicate_syn_def Let_def step_ok_refl step_ok_tcb del: split_paired_Ex)
qed

lemma handle_packet_ok:
  assumes P: "poll_works P" and inv: "ctx_inv x" and op: "\<not> tc_closed (fst x)"
    and q: "tcp_packet q h"
  shows "\<exists>y. handle_packet P random q x = Some y \<and> step_ok x y \<and> quiet x y"
proof -
  note H = tcp_packet_ok(1) [OF q]
  obtain bs where bs: "ipv4_packet_payload q = Some (Some bs)" using tcp_packet_ok(2) [OF q] by blast
  let ?n = "of_nat (sb_size (tc_client_to_network (fst x))) :: u32"
  let ?x = "tcb_update (\<lambda>t. t\<lparr>tcb_client_window := th_window h,
    tcb_their_acknowledgement_number := th_acknowledgement_number h\<rparr>) x"
  have s: "step_ok x ?x" "ctx_inv ?x" "\<not> tc_closed (fst ?x)"
    using inv op by (simp_all add: step_ok_tcb step_ok_inv [OF step_ok_tcb])
  consider "state_of x = Init" | "state_of x \<noteq> Init" "is_syn h"
    | "state_of x \<noteq> Init" "\<not> is_syn h" "th_sequence_number h \<noteq> tcb_acknowledgement_number (tc_tcb (fst x)) + ?n"
    | "state_of x \<noteq> Init" "\<not> is_syn h" "th_sequence_number h = tcb_acknowledgement_number (tc_tcb (fst x)) + ?n" "is_rst h"
    | "state_of x \<noteq> Init" "\<not> is_syn h" "th_sequence_number h = tcb_acknowledgement_number (tc_tcb (fst x)) + ?n" "\<not> is_rst h"
    by blast
  then show ?thesis
  proof cases
    case 1
    then show ?thesis using handle_first_packet_ok [OF P inv op 1] H by (simp add: handle_packet_def)
  next
    case 2
    then show ?thesis using handle_duplicate_syn_ok [OF P inv op] H by (simp add: handle_packet_def)
  next
    case 3
    then show ?thesis using inv H by (simp add: handle_packet_def step_ok_refl)
  next
    case 4
    have "step_ok x (tcp_close P ?x)" using s(1) step_ok_close [OF s(2,3)] by (rule step_ok_trans)
    moreover have "quiet x (tcp_close P ?x)" by (simp add: quiet_def)
    ultimately show ?thesis using 4 H by (simp add: handle_packet_def)
  next
    case 5
    obtain y where y: "(if is_ack h then handle_ack q ?x else Some ?x) = Some y" "step_ok ?x y" "quiet ?x y"
      "\<not> tc_closed (fst y)"
      using handle_ack_ok [OF s(2) bs] s by (cases "is_ack h") (auto simp: step_ok_refl)
    obtain z where z: "(if is_fin h then handle_fin P y else Some y) = Some z" "step_ok y z" "quiet y z"
      "tc_closed (fst z) \<longrightarrow> state_of z = FinWait2"
      using handle_fin_ok [OF P step_ok_inv [OF y(2)] y(4)] y(4)
      by (cases "is_fin h") (auto simp: step_ok_refl [OF step_ok_inv [OF y(2)]])
    let ?w = "case tcb_fin_sequence_number (tc_tcb (fst z)) of None \<Rightarrow> z
      | Some n \<Rightarrow> if th_acknowledgement_number h = n + 1 then handle_fin_ack P z else z"
    have w: "step_ok z ?w" "quiet z ?w"
      using handle_fin_ack_ok [OF step_ok_inv [OF z(2)] z(4), of P] step_ok_inv [OF z(2)]
      by (auto simp: step_ok_refl split: option.splits)
    have "handle_packet P random q x = Some ?w"
      using 5 H y(1) z(1) by (simp add: handle_packet_def)
    moreover have "step_ok x ?w" using s(1) y(2) z(2) w(1) by (blast intro: step_ok_trans)
    moreover have "quiet x ?w" using y(3) z(3) w(2) by (simp add: quiet_def)
    ultimately show ?thesis by blast
  qed
qed

section \<open>Interests\<close>

text \<open>Reads are asked for only when a read is allowed.\<close>

definition interest_ok :: "tcp_connection \<Rightarrow> bool" where
  "interest_ok c \<longleftrightarrow> (is_readable (tc_interests c) \<longrightarrow> may_read c)"

lemma may_read_cong:
  "tc_tcb c = tc_tcb c' \<Longrightarrow> tc_packet_for_client_length c = tc_packet_for_client_length c' \<Longrightarrow> may_read c = may_read c'"
  by (simp add: may_read_def)

lemma may_read_simps [simp]:
  "may_read (c\<lparr>tc_interests := i\<rparr>) = may_read c"
  "may_read (c\<lparr>tc_network_to_client := p\<rparr>) = may_read c"
  "may_read (c\<lparr>tc_client_to_network := b\<rparr>) = may_read c"
  "may_read (c\<lparr>tc_idle_since := n\<rparr>) = may_read c"
  "may_read (c\<lparr>tc_closed := b'\<rparr>) = may_read c"
  by (simp_all add: may_read_def)

lemma tcp_wanted_readable: "is_readable (tcp_wanted c) \<Longrightarrow> may_read c"
  by (auto simp: tcp_wanted_def ready_defs split: if_splits)

lemma tcp_update_interests_ok:
  assumes P: "poll_works P" and inv: "ctx_inv x" and op: "\<not> tc_closed (fst x)"
  shows "\<exists>y. tcp_update_interests P x = Some y \<and> step_ok x y \<and> interest_ok (fst y)
    \<and> tc_interests (fst y) = tcp_wanted (fst x) \<and> tc_tcb (fst y) = tc_tcb (fst x) \<and> \<not> tc_closed (fst y)
    \<and> tc_packet_for_client_length (fst y) = tc_packet_for_client_length (fst x)
    \<and> tc_client_to_network (fst y) = tc_client_to_network (fst x)
    \<and> en_requests (snd y) = en_requests (snd x) \<and> en_channel (snd y) = en_channel (snd x)"
proof -
  obtain c e where x: "x = (c, e)" by (cases x)
  let ?op = "PollReregister (tc_stream c) (tc_token c) (tcp_wanted c)"
  let ?s = "(en_selector e)\<lparr>sel_log := ?op # sel_log (en_selector e)\<rparr>"
  have same: "same_tokens (en_selector e) ?s" by (simp add: same_tokens_def)
  let ?y = "(c\<lparr>tc_interests := tcp_wanted c\<rparr>, e\<lparr>en_selector := ?s\<rparr>)"
  have "step_ok x ?y"
    using inv same_tokens_inv [OF same] by (simp add: x step_ok_def ctx_inv_def tcp_frame_def tc_inv_def)
  moreover have "interest_ok (fst ?y)"
    using tcp_wanted_readable [of c] by (simp add: interest_ok_def)
  ultimately show ?thesis
    using op P inv tcp_wanted_readable [of c]
    by (auto simp: x tcp_update_interests_def Let_def reregister_expect_ok step_ok_refl interest_ok_def)
qed

lemma tcp_send_to_network_ok:
  assumes P: "poll_works P" and inv: "ctx_inv x" and op: "\<not> tc_closed (fst x)" and q: "tcp_packet q h"
  shows "\<exists>y. tcp_send_to_network P now random (Ipv4 q) x = Some y \<and> step_ok x y
    \<and> en_requests (snd y) = en_requests (snd x)
    \<and> (\<not> tc_closed (fst y) \<longrightarrow> interest_ok (fst y) \<and> tc_interests (fst y) = tcp_wanted (fst y))"
proof -
  let ?x = "tcp_touch now x"
  have s: "step_ok x ?x" "ctx_inv ?x" "\<not> tc_closed (fst ?x)" "en_requests (snd ?x) = en_requests (snd x)"
    using inv op by (simp_all add: tcp_touch_def case_prod_beta step_ok_def ctx_inv_def tcp_frame_def tc_inv_def)
  obtain y where y: "handle_packet P random q ?x = Some y" "step_ok ?x y" "quiet ?x y"
    using handle_packet_ok [OF P s(2,3) q] by blast
  have xy: "step_ok x y" "en_requests (snd y) = en_requests (snd x)"
    using s(1,4) y(2,3) by (auto simp: quiet_def intro: step_ok_trans)
  show ?thesis
  proof (cases "tc_closed (fst y)")
    case True
    then show ?thesis using y(1) xy by (simp add: tcp_send_to_network_def)
  next
    case False
    obtain z where z: "tcp_update_interests P y = Some z" "step_ok y z" "interest_ok (fst z)"
      "tc_interests (fst z) = tcp_wanted (fst y)" "tc_tcb (fst z) = tc_tcb (fst y)"
      "tc_packet_for_client_length (fst z) = tc_packet_for_client_length (fst y)"
      "tc_client_to_network (fst z) = tc_client_to_network (fst y)"
      "en_requests (snd z) = en_requests (snd y)"
      using tcp_update_interests_ok [OF P step_ok_inv [OF y(2)] False] by blast
    have "tcp_wanted (fst z) = tcp_wanted (fst y)"
      using z by (simp add: tcp_wanted_def may_read_def may_write_def)
    then show ?thesis
      using y(1) xy z False by (auto simp: tcp_send_to_network_def intro: step_ok_trans)
  qed
qed

section \<open>Events\<close>

lemma step_ok_buffer:
  assumes "ctx_inv (c, e)" and "sb_inv b" and "length (sb_buf b) = length (sb_buf (tc_client_to_network c))"
  shows "step_ok (c, e) (c\<lparr>tc_client_to_network := b\<rparr>, e)"
  using assms by (simp add: step_ok_def ctx_inv_def tc_inv_def tcp_frame_def)

lemma sb_write_to_cases:
  assumes inv: "sb_inv s" and W: "writer_ok W"
  shows "\<exists>r b. sb_write_to W s = Some (r, b) \<and> sb_inv b \<and> length (sb_buf b) = length (sb_buf s)
    \<and> (case r of Inl e \<Rightarrow> b = s | Inr w \<Rightarrow> w \<le> length (sb_contents s) \<and> sb_contents b = drop w (sb_contents s))"
proof (cases "sb_contents s = []")
  case True
  then show ?thesis using sb_write_to_empty [OF True inv] inv by simp
next
  case False
  show ?thesis
  proof (cases "W (sb_offered s)")
    case (Inl e)
    then show ?thesis using sb_write_to_error [of s W, OF inv False Inl] inv by simp
  next
    case (Inr w)
    then have w: "w \<le> length (sb_offered s)" using W by (simp add: writer_ok_def)
    then have "w \<le> length (sb_contents s)"
      using sb_offered_prefix(2) [OF inv] by simp
    then show ?thesis using sb_write_to_ok [of s W w, OF inv False Inr w] by auto
  qed
qed

text \<open>
  A write moves the front of the buffer to the socket and acknowledges it, so the sequence number
  expected next stays the same until a pending FIN is counted.
\<close>

lemma tcp_process_send_ok:
  assumes P: "poll_works P" and inv: "ctx_inv x" and op: "\<not> tc_closed (fst x)" and W: "writer_ok W"
  shows "\<exists>r y. tcp_process_send P W x = Some (r, y) \<and> step_ok x y \<and> quiet x y
    \<and> (case r of Inl f \<Rightarrow> f = WouldBlock \<and> y = x | Inr _ \<Rightarrow> True)
    \<and> (\<not> tcb_fin_received (tc_tcb (fst x)) \<longrightarrow> may_read (fst y) = may_read (fst x))"
proof -
  obtain c e where x: "x = (c, e)" by (cases x)
  have sb: "sb_inv (tc_client_to_network c)" using inv by (simp add: x ctx_inv_def tc_inv_def)
  obtain r b where w: "sb_write_to W (tc_client_to_network c) = Some (r, b)" "sb_inv b"
    "length (sb_buf b) = length (sb_buf (tc_client_to_network c))"
    "case r of Inl e \<Rightarrow> b = tc_client_to_network c | Inr w \<Rightarrow> w \<le> length (sb_contents (tc_client_to_network c))
       \<and> sb_contents b = drop w (sb_contents (tc_client_to_network c))"
    using sb_write_to_cases [OF sb W] by blast
  let ?x = "(c\<lparr>tc_client_to_network := b\<rparr>, e)"
  have s: "step_ok x ?x" "ctx_inv ?x" "\<not> tc_closed (fst ?x)" "quiet x ?x" "may_read (fst ?x) = may_read (fst x)"
    using step_ok_buffer [OF inv [unfolded x] w(2,3)] op by (simp_all add: x step_ok_inv quiet_def)
  have mr: "tc_tcb (fst y) = tc_tcb (fst z) \<Longrightarrow> quiet z y \<Longrightarrow> may_read (fst y) = may_read (fst z)" for y z
    by (rule may_read_cong) (simp_all add: quiet_def)
  consider f where "r = Inl f" "f = WouldBlock" | f where "r = Inl f" "f \<noteq> WouldBlock" | "r = Inr 0"
    | n where "r = Inr n" "n \<noteq> 0"
    by (cases r) auto
  then show ?thesis
  proof cases
    case 1
    then have "?x = x" using w(4) by (simp add: x)
    then show ?thesis using 1 w(1) inv by (simp add: x tcp_process_send_def step_ok_refl)
  next
    case 2
    obtain y where y: "reply_empty_packet_to_client P FLAG_RST ?x = Some y" "step_ok ?x (tcp_close P y)"
      "quiet ?x (tcp_close P y)" "state_of y = state_of ?x"
      using reply_close_ok [OF P s(2,3) flag_values(3)] by blast
    obtain y' where y': "reply_empty_packet_to_client P FLAG_RST ?x = Some y'" "quiet ?x y'"
      "tc_tcb (fst y') = tc_tcb (fst ?x)"
      using reply_then [OF P s(2) flag_values(3)] by blast
    have "may_read (fst (tcp_close P y)) = may_read (fst x)"
      using mr [OF y'(3,2)] s(5) y(1) y'(1) by (simp add: tcp_close_def case_prod_beta)
    moreover have "step_ok x (tcp_close P y)" using s(1) y(2) by (rule step_ok_trans)
    moreover have "quiet x (tcp_close P y)" using s(4) y(3) by (rule quiet_trans)
    ultimately show ?thesis
      using 2 w(1) y(1) by (simp add: x tcp_process_send_def send_empty_packet_to_client_def)
  next
    case 3
    have "step_ok x (tcp_close P ?x)" using s(1) step_ok_close [OF s(2,3)] by (rule step_ok_trans)
    moreover have "quiet x (tcp_close P ?x)" using s(4) by (simp add: quiet_def)
    moreover have "may_read (fst (tcp_close P ?x)) = may_read (fst x)" by (simp add: x tcp_close_def)
    ultimately show ?thesis using 3 w(1) by (simp add: x tcp_process_send_def)
  next
    case 4
    let ?z = "tcb_update (\<lambda>t. t\<lparr>tcb_acknowledgement_number := tcb_acknowledgement_number t + of_nat n\<rparr>) ?x"
    have z: "step_ok ?x ?z" "ctx_inv ?z" "\<not> tc_closed (fst ?z)" "quiet ?x ?z" "may_read (fst ?z) = may_read (fst x)"
      using s op by (simp_all add: step_ok_tcb step_ok_inv [OF step_ok_tcb])
        (simp add: x may_read_def remaining_client_window_def Let_def)
    have xz: "step_ok x ?z" "quiet x ?z" using s(1,4) z(1,4) by (blast intro: step_ok_trans quiet_trans)+
    show ?thesis
    proof (cases "tcb_fin_received (tc_tcb (fst ?z)) \<and> sb_is_empty b")
      case True
      obtain y where y: "do_handle_fin P ?z = Some y" "step_ok ?z y" "quiet ?z y"
        using do_handle_fin_ok [OF P z(2,3)] by blast
      have "step_ok x y" "quiet x y" using xz y by (blast intro: step_ok_trans quiet_trans)+
      then show ?thesis using 4 True w(1) y(1) by (simp add: x tcp_process_send_def Let_def)
    next
      case False
      obtain y where y: "reply_empty_packet_to_client P FLAG_ACK ?z = Some y" "step_ok ?z y" "quiet ?z y"
        "tc_tcb (fst y) = tc_tcb (fst ?z)"
        using reply_then [OF P z(2) flag_values(4)] by blast
      have "step_ok x y" "quiet x y" using xz y by (blast intro: step_ok_trans quiet_trans)+
      moreover have "may_read (fst y) = may_read (fst x)" using mr [OF y(4,3)] z(5) by simp
      ultimately show ?thesis using 4 False w(1) y(1)
        by (intro exI [of _ "Inr ()"] exI [of _ y])
          (auto simp: x tcp_process_send_def Let_def send_empty_packet_to_client_def)
    qed
  qed
qed

end
