(* ===== verification/Ipv6_Packetizer.thy ===== *)
theory Ipv6_Packetizer
  imports Packetizer
begin

text \<open>
  \<open>relay/ipv6_packetizer.rs\<close>: the IPv6 counterpart of the packetizer, with its own checksum over
  the pseudo header of RFC 8200.
\<close>

definition UDP_CHECKSUM_OFFSET :: nat where
  "UDP_CHECKSUM_OFFSET = 6"

definition TCP_CHECKSUM_OFFSET :: nat where
  "TCP_CHECKSUM_OFFSET = 16"

record ipv6_packetizer =
  p6_buffer :: bytes
  p6_payload_index :: nat
  p6_header_data :: ipv6_header_data
  p6_transport_header_data :: transport_header_data
  p6_protocol :: protocol

text \<open>\<open>expect\<close> on a \<open>Result\<close>.\<close>

definition expect :: "('e, 'a) fallible \<Rightarrow> 'a option" where
  "expect m = (case m of Some (Inr x) \<Rightarrow> Some x | _ \<Rightarrow> None)"

definition ipv6_packetizer_new ::
    "bytes \<times> ipv6_header_data \<Rightarrow> transport_header_mut \<Rightarrow> ipv6_packetizer option" where
  "ipv6_packetizer_new reference_ipv6_header reference_transport_header = do {
     let buffer = replicate MAX_PACKET_LENGTH 0;
     let transport_header_length = unat (transport_header_length (snd reference_transport_header));
     let payload_index = IPV6_HEADER_LENGTH + transport_header_length;
     let protocol = (if i6_next_header (snd reference_ipv6_header) = 6 then Tcp else Udp);
     buffer \<leftarrow> copy_from_slice 0 IPV6_HEADER_LENGTH (fst reference_ipv6_header) buffer;
     buffer \<leftarrow> copy_from_slice 8 24 (i6_destination (snd reference_ipv6_header)) buffer;
     buffer \<leftarrow> copy_from_slice 24 40 (i6_source (snd reference_ipv6_header)) buffer;
     buffer \<leftarrow> copy_from_slice IPV6_HEADER_LENGTH payload_index (fst reference_transport_header) buffer;
     (buffer, transport_header_data) \<leftarrow> on_view IPV6_HEADER_LENGTH payload_index
       transport_swap_source_and_destination (buffer, snd reference_transport_header);
     header \<leftarrow> slice 0 IPV6_HEADER_LENGTH buffer;
     ipv6_header_data \<leftarrow> expect (ipv6_header_parse_header_only header);
     Some \<lparr>p6_buffer = buffer, p6_payload_index = payload_index, p6_header_data = ipv6_header_data,
       p6_transport_header_data = transport_header_data, p6_protocol = protocol\<rparr> }"

text \<open>\<open>while sum >> 16 != 0 { sum = (sum & 0xffff) + (sum >> 16); }\<close>.\<close>

function fold_high :: "u32 \<Rightarrow> u32" where
  "fold_high s = (if drop_bit 16 s \<noteq> 0 then fold_high ((s AND 0xFFFF) + drop_bit 16 s) else s)"
  by pat_completeness auto
termination
proof (relation "measure unat")
  fix s :: u32
  assume "drop_bit 16 s \<noteq> 0"
  then have "unat s div 65536 \<noteq> 0" by (simp add: unat_shr_16 [symmetric] unat_eq_zero)
  then have "65536 \<le> unat s" by (simp add: div_eq_0_iff)
  then show "((s AND 0xFFFF) + drop_bit 16 s, s) \<in> measure unat"
    by (simp add: unat_fold_step fold_step_less)
qed simp

declare fold_high.simps [simp del]

text \<open>\<open>chunks_exact(2)\<close> with its remainder.\<close>

fun sum_chunks :: "bytes \<Rightarrow> u32 \<Rightarrow> u32" where
  "sum_chunks (a # b # rest) acc = sum_chunks rest (acc + ucast (be16 a b))"
| "sum_chunks [b] acc = acc + push_bit 8 (ucast b)"
| "sum_chunks [] acc = acc"

definition ipv6_update_checksum :: "nat \<Rightarrow> ipv6_packetizer \<Rightarrow> ipv6_packetizer option" where
  "ipv6_update_checksum total_length p = do {
     let checksum_offset = (if p6_protocol p = Tcp then TCP_CHECKSUM_OFFSET else UDP_CHECKSUM_OFFSET);
     let checksum_index = IPV6_HEADER_LENGTH + checksum_offset;
     buffer \<leftarrow> write_u16 checksum_index 0 (p6_buffer p);
     let transport_length = total_length - IPV6_HEADER_LENGTH;
     let next_header = i6_next_header (p6_header_data p);
     sum \<leftarrow> sum_words buffer [4..<20] 0;
     let sum = sum + drop_bit 16 (of_nat transport_length);
     let sum = sum + (of_nat transport_length AND 0xFFFF);
     let sum = sum + ucast next_header;
     transport \<leftarrow> slice IPV6_HEADER_LENGTH total_length buffer;
     let sum = fold_high (sum_chunks transport sum);
     let value = NOT (ucast sum);
     let checksum = (if value = 0 \<and> p6_protocol p = Udp then 0xFFFF else value);
     buffer \<leftarrow> write_u16 checksum_index checksum buffer;
     Some (p\<lparr>p6_buffer := buffer\<rparr>) }"

definition ipv6_build :: "u16 \<Rightarrow> ipv6_packetizer \<Rightarrow> (ipv6_packet \<times> ipv6_packetizer) option" where
  "ipv6_build payload_length p = do {
     let transport_length = of_nat (p6_payload_index p - IPV6_HEADER_LENGTH) + payload_length;
     let total_length = IPV6_HEADER_LENGTH + unat transport_length;
     buffer \<leftarrow> write_u16 4 transport_length (p6_buffer p);
     (buffer, transport_header_data) \<leftarrow> on_view IPV6_HEADER_LENGTH (p6_payload_index p)
       (transport_set_payload_length payload_length) (buffer, p6_transport_header_data p);
     p \<leftarrow> ipv6_update_checksum total_length
       (p\<lparr>p6_buffer := buffer, p6_transport_header_data := transport_header_data\<rparr>);
     raw \<leftarrow> slice 0 total_length (p6_buffer p);
     packet \<leftarrow> expect (ipv6_packet_parse raw);
     Some (packet, p) }"

definition ipv6_packetize_empty_payload :: "ipv6_packetizer \<Rightarrow> (ipv6_packet \<times> ipv6_packetizer) option" where
  "ipv6_packetize_empty_payload = ipv6_build 0"

definition p6_recv :: "reader \<Rightarrow> ipv6_packetizer \<Rightarrow> (nat io_result \<times> ipv6_packetizer) option" where
  "p6_recv source p = do {
     target \<leftarrow> slice (p6_payload_index p) (length (p6_buffer p)) (p6_buffer p);
     case source (length target) of
       Inl e \<Rightarrow> Some (Inl e, p)
     | Inr bs \<Rightarrow> do {
         buffer \<leftarrow> splice (p6_payload_index p) bs (p6_buffer p);
         Some (Inr (length bs), p\<lparr>p6_buffer := buffer\<rparr>) } }"

definition ipv6_packetize ::
    "reader \<Rightarrow> ipv6_packetizer \<Rightarrow> (ipv6_packet io_result \<times> ipv6_packetizer) option" where
  "ipv6_packetize source p = do {
     (r, p) \<leftarrow> p6_recv source p;
     case r of
       Inl e \<Rightarrow> Some (Inl e, p)
     | Inr r \<Rightarrow> do {
         (packet, p) \<leftarrow> ipv6_build (of_nat r) p;
         Some (Inr packet, p) } }"

definition ipv6_packetize_read :: "reader \<Rightarrow> nat option \<Rightarrow> ipv6_packetizer
    \<Rightarrow> (ipv6_packet option io_result \<times> ipv6_packetizer) option" where
  "ipv6_packetize_read source max_chunk_size p = do {
     (r, p) \<leftarrow> p6_recv (read_adapter_recv source max_chunk_size) p;
     case r of
       Inl e \<Rightarrow> Some (Inl e, p)
     | Inr r \<Rightarrow>
         if r > 0 then do {
           (packet, p) \<leftarrow> ipv6_build (of_nat r) p;
           Some (Inr (Some packet), p) }
         else Some (Inr None, p) }"

section \<open>The checksum is the RFC 8200 one\<close>

definition ipv6_pseudo_header :: "bytes \<Rightarrow> nat \<Rightarrow> u8 \<Rightarrow> bytes" where
  "ipv6_pseudo_header addresses len next_header =
     addresses @ enc32 (of_nat len) @ [0, 0, 0, next_header]"

lemma fold_high_eq: "fold_high s = fold_carry s"
proof (induction s rule: fold_high.induct)
  case (1 s)
  have "drop_bit 16 s \<noteq> 0 \<longleftrightarrow> 65536 \<le> unat s"
    unfolding unat_eq_zero [symmetric] unat_shr_16 by (auto simp: div_eq_0_iff)
  then show ?case
    using 1 high_part_iff [of s] by (subst fold_high.simps, subst fold_carry.simps) simp
qed

lemma sum_chunks_words: "sum_chunks xs acc = acc + of_nat (words_sum xs)"
proof (induction xs acc rule: sum_chunks.induct)
  case (1 a b rest acc)
  have "(ucast (be16 a b) :: u32) = of_nat (256 * unat a + unat b)"
    by (simp add: word_unat_eq_iff unat_be16 [symmetric] unat_of_nat_u32
        u16_less [THEN less_trans] del: of_nat_add of_nat_mult)
  then show ?case using 1 by simp
qed (simp_all add: push_bit_eq_mult mult.commute)

lemma not_ucast_eq: "NOT (ucast s) = not_u16 s"
  unfolding not_u16_def by (rule bit_word_eqI) (auto simp: bit_simps)

lemma words_sum_three_parts:
  assumes "even (length xs)" and "even k" and "k + 2 \<le> length ys"
  shows "words_sum (xs @ take k ys @ enc16 v @ drop (k + 2) ys)
    = words_sum (xs @ take k ys @ enc16 0 @ drop (k + 2) ys) + unat v"
  using assms by (simp add: words_sum_append)

lemma words_sum_pseudo6:
  assumes "even (length addrs)"
  shows "words_sum (ipv6_pseudo_header addrs len nh) = words_sum addrs
    + unat (of_nat len :: u32) div 65536 + unat (of_nat len :: u32) mod 65536 + unat nh"
  using assms by (simp add: ipv6_pseudo_header_def words_sum_append words_sum_enc32)

text \<open>The checksum the code stores: the folded complement, all ones for a computed UDP zero.\<close>

definition final_checksum :: "protocol \<Rightarrow> u32 \<Rightarrow> u16" where
  "final_checksum q s = (if not_u16 (fold_carry s) = 0 \<and> q = Udp then 0xFFFF
     else not_u16 (fold_carry s))"

lemma final_checksum_ok:
  "checksum_ok (unat s + unat (final_checksum q s))" "final_checksum Udp s \<noteq> 0"
proof -
  have "not_u16 (fold_carry s) = 0 \<Longrightarrow> checksum_ok (unat s + 65535)"
    using checksum_completes [of s] by (simp add: checksum_ok_def)
  then show "checksum_ok (unat s + unat (final_checksum q s))"
    using checksum_completes [of s] by (simp add: final_checksum_def)
  show "final_checksum Udp s \<noteq> 0" by (simp add: final_checksum_def)
qed

lemma ipv6_update_checksum_ok:
  assumes buf: "p6_buffer p = H @ X @ R" and H: "length H = 40" and X: "len = 40 + length X"
    and small: "length X < 65536"
    and k: "k = (if p6_protocol p = Tcp then 16 else 6)" and room: "k + 2 \<le> length X"
  shows "\<exists>c. ipv6_update_checksum len p
      = Some (p\<lparr>p6_buffer := H @ (take k X @ enc16 c @ drop (k + 2) X) @ R\<rparr>)
    \<and> checksum_ok (words_sum (ipv6_pseudo_header (take 32 (drop 8 H)) (length X) (i6_next_header (p6_header_data p))
        @ take k X @ enc16 c @ drop (k + 2) X))
    \<and> (p6_protocol p = Udp \<longrightarrow> c \<noteq> 0)"
proof -
  let ?addrs = "take 32 (drop 8 H)" and ?nh = "i6_next_header (p6_header_data p)"
  let ?X0 = "take k X @ enc16 0 @ drop (k + 2) X"
  let ?S = "words_sum (ipv6_pseudo_header ?addrs (length X) ?nh @ ?X0)"
  have even: "even k" using k by simp
  have a32: "length ?addrs = 32" using H by simp
  have w: "write_u16 (40 + k) v (H @ Y @ R) = Some (H @ (take k Y @ enc16 v @ drop (k + 2) Y) @ R)"
    if "length Y = length X" for v Y
    using that H room by (simp add: write_u16_Some)
  have l0: "length ?X0 = length X" using room by simp
  have sw: "sum_words (H @ ?X0 @ R) [4..<20] 0 = Some (of_nat (words_sum ?addrs))"
    using sum_words_range [of 20 "H @ ?X0 @ R" 4 0] H by simp
  have ps: "words_sum (ipv6_pseudo_header ?addrs (length X) ?nh) = words_sum ?addrs
    + length X div 65536 + length X mod 65536 + unat ?nh"
    using words_sum_pseudo6 [of ?addrs] a32 small by (simp add: unat_of_nat_u32)
  have split: "?S = words_sum (ipv6_pseudo_header ?addrs (length X) ?nh) + words_sum ?X0"
    by (rule words_sum_append) (use a32 in \<open>simp add: ipv6_pseudo_header_def\<close>)
  have hl: "drop_bit 16 (of_nat (length X) :: u32) = of_nat (length X div 65536)"
    "(of_nat (length X) :: u32) AND 0xFFFF = of_nat (length X mod 65536)"
    using small by (simp_all add: of_nat_high_low unat_of_nat_u32)
  have S: "sum_chunks ?X0 (of_nat (words_sum ?addrs) + drop_bit 16 (of_nat (length X))
      + (of_nat (length X) AND 0xFFFF) + ucast ?nh) = of_nat ?S"
    unfolding sum_chunks_words split ps hl by simp
  let ?c = "final_checksum (p6_protocol p) (of_nat ?S)"
  have "?S < 4294967296"
    by (rule words_sum_short) (use small l0 a32 in \<open>simp add: ipv6_pseudo_header_def\<close>)
  then have u: "unat (of_nat ?S :: u32) = ?S" by (rule unat_of_nat_u32)
  have w2: "take k ?X0 = take k X" "drop (k + 2) ?X0 = drop (k + 2) X" using room by simp_all
  have "ipv6_update_checksum len p
      = Some (p\<lparr>p6_buffer := H @ (take k X @ enc16 ?c @ drop (k + 2) X) @ R\<rparr>)"
  proof -
    have idx: "IPV6_HEADER_LENGTH + (if p6_protocol p = Tcp then TCP_CHECKSUM_OFFSET else UDP_CHECKSUM_OFFSET)
        = 40 + k"
      by (simp add: IPV6_HEADER_LENGTH_def TCP_CHECKSUM_OFFSET_def UDP_CHECKSUM_OFFSET_def k)
    have sl: "slice IPV6_HEADER_LENGTH len (H @ ?X0 @ R) = Some ?X0"
      using H X l0 by (simp add: slice_def IPV6_HEADER_LENGTH_def)
    have tl: "len - IPV6_HEADER_LENGTH = length X" using X by (simp add: IPV6_HEADER_LENGTH_def)
    show ?thesis
      unfolding ipv6_update_checksum_def Let_def idx buf w [OF refl] bind.bind_lunit sw sl tl S
        fold_high_eq not_ucast_eq final_checksum_def [symmetric] w [OF l0] w2 ..
  qed
  moreover have "words_sum (ipv6_pseudo_header ?addrs (length X) ?nh @ take k X @ enc16 ?c @ drop (k + 2) X)
      = ?S + unat ?c"
    by (rule words_sum_three_parts) (use even room a32 in \<open>simp_all add: ipv6_pseudo_header_def\<close>)
  then have "checksum_ok (words_sum (ipv6_pseudo_header ?addrs (length X) ?nh
      @ take k X @ enc16 ?c @ drop (k + 2) X))"
    using final_checksum_ok(1) [of "of_nat ?S" "p6_protocol p"] u by simp
  moreover have "p6_protocol p = Udp \<longrightarrow> ?c \<noteq> 0" using final_checksum_ok(2) by simp
  ultimately show ?thesis by blast
qed

section \<open>Building a packet\<close>

lemma ipv6_header_parse_exact:
  assumes "length raw = 40 + unat (be16 (raw ! 4) (raw ! 5))" and "drop_bit 4 (raw ! 0) = 6"
  shows "ipv6_header_parse raw = ok \<lparr>i6_payload_length = be16 (raw ! 4) (raw ! 5),
    i6_next_header = raw ! 6, i6_source = take 16 (drop 8 raw), i6_destination = take 16 (drop 24 raw)\<rparr>"
  using assms by (auto simp: ipv6_header_parse_def IPV6_HEADER_LENGTH_def index_def slicing)

lemma ipv6_packet_parse_exact:
  assumes len: "length raw = 40 + unat (be16 (raw ! 4) (raw ! 5))" and six: "drop_bit 4 (raw ! 0) = 6"
    and q: "ipv6_protocol (raw ! 6) = Inr q"
    and v: "validate_transport q (drop 40 raw) = ok ()"
    and t: "transport_header_parse q (drop 40 raw) = Some (Some t)"
  shows "ipv6_packet_parse raw = ok \<lparr>i6p_raw = raw, i6p_header_data =
    \<lparr>i6_payload_length = be16 (raw ! 4) (raw ! 5), i6_next_header = raw ! 6,
     i6_source = take 16 (drop 8 raw), i6_destination = take 16 (drop 24 raw)\<rparr>, i6p_transport_data = t\<rparr>"
  using v t q
  by (simp add: ipv6_packet_parse_def ipv6_header_parse_exact [OF len six] map_err_def
      ipv6_total_length_def IPV6_HEADER_LENGTH_def Let_def slice_def len [symmetric])

text \<open>
  The buffer is a header, a transport header and free space.  The cached header data is not
  updated by \<open>build\<close>; only its next header is used.
\<close>

definition p6_inv :: "ipv6_packetizer \<Rightarrow> bool" where
  "p6_inv p \<longleftrightarrow> length (p6_buffer p) = MAX_PACKET_LENGTH
     \<and> p6_payload_index p = 40 + unat (transport_header_length (p6_transport_header_data p))
     \<and> drop_bit 4 (p6_buffer p ! 0) = 6
     \<and> i6_next_header (p6_header_data p) = p6_buffer p ! 6
     \<and> ipv6_protocol (p6_buffer p ! 6) = Inr (p6_protocol p)
     \<and> transport_matches (p6_protocol p) (p6_transport_header_data p)
         (take (unat (transport_header_length (p6_transport_header_data p))) (drop 40 (p6_buffer p)))"

text \<open>What the built packet is: accepted, with the payload, the buffer's addresses and a valid checksum.\<close>

definition ipv6_checksum_valid :: "ipv6_packet \<Rightarrow> bool" where
  "ipv6_checksum_valid p \<longleftrightarrow> checksum_ok (words_sum (ipv6_pseudo_header (take 32 (drop 8 (i6p_raw p)))
     (length (i6p_raw p) - 40) (i6_next_header (i6p_header_data p)) @ drop 40 (i6p_raw p)))
     \<and> (\<forall>d. i6p_transport_data p = UdpTransport d \<longrightarrow> read_u16 (i6p_raw p) 46 \<noteq> Some 0)"

lemma p6_invE:
  assumes "p6_inv p"
  obtains H S R where "p6_buffer p = H @ S @ R" "length H = 40"
    "length S = unat (transport_header_length (p6_transport_header_data p))"
    "length R = 65536 - p6_payload_index p"
    "p6_payload_index p = 40 + length S" "8 \<le> length S" "length S \<le> 60"
    "drop_bit 4 (H ! 0) = 6" "i6_next_header (p6_header_data p) = H ! 6"
    "ipv6_protocol (H ! 6) = Inr (p6_protocol p)"
    "transport_matches (p6_protocol p) (p6_transport_header_data p) S"
proof -
  let ?n = "unat (transport_header_length (p6_transport_header_data p))"
  let ?H = "take 40 (p6_buffer p)" and ?S = "take ?n (drop 40 (p6_buffer p))"
    and ?R = "drop (40 + ?n) (p6_buffer p)"
  have I: "length (p6_buffer p) = 65536" "p6_payload_index p = 40 + ?n"
    "drop_bit 4 (p6_buffer p ! 0) = 6" "i6_next_header (p6_header_data p) = p6_buffer p ! 6"
    "ipv6_protocol (p6_buffer p ! 6) = Inr (p6_protocol p)"
    "transport_matches (p6_protocol p) (p6_transport_header_data p) ?S"
    using assms by (auto simp: p6_inv_def MAX_PACKET_LENGTH_def)
  note b = transport_matches_bounds [OF I(6)]
  have l: "length ?S = ?n" using I(1) b by simp
  have "?H @ ?S @ ?R = p6_buffer p" by (metis append_take_drop_id drop_drop add.commute)
  from that [OF this [symmetric]] I b l show thesis by simp
qed

lemma p6_invI:
  assumes "p6_buffer p = H @ S @ R" "length H = 40"
    "length S = unat (transport_header_length (p6_transport_header_data p))"
    "length (p6_buffer p) = 65536" "p6_payload_index p = 40 + length S"
    "drop_bit 4 (H ! 0) = 6" "i6_next_header (p6_header_data p) = H ! 6"
    "ipv6_protocol (H ! 6) = Inr (p6_protocol p)"
    "transport_matches (p6_protocol p) (p6_transport_header_data p) S"
  shows "p6_inv p"
  using assms by (auto simp: p6_inv_def MAX_PACKET_LENGTH_def nth_append)

text \<open>A checksum written into a matching transport header leaves the data alone.\<close>

lemma transport_matches_checksum:
  assumes m: "transport_matches q t S" and len: "length S = unat (transport_header_length t)"
    and k: "k = (if q = Tcp then 16 else 6)"
  shows "transport_matches q t (take k S @ enc16 c @ drop (k + 2) S)"
proof (cases t)
  case (TcpTransport d)
  then have d: "q = Tcp" "tcp_header_parse S = Some d" "20 \<le> unat (th_header_length d)" "20 \<le> length S"
    using m len by (simp_all add: transport_matches_protocol)
  have s: "tcp_set_checksum c (S, d) = Some (take 16 S @ enc16 c @ drop 18 S, d)"
    using d by (simp add: tcp_set_checksum_def write_u16_Some)
  have mem: "tcp_set_checksum c \<in> tcp_setters" by (simp add: tcp_setters_def)
  show ?thesis
    using tcp_view.setter_coherent [OF mem d(2) s] d TcpTransport k
    by (simp add: transport_matches_protocol)
next
  case (UdpTransport d)
  then have d: "q = Udp" "udp_header_parse S = Some d" "8 \<le> length S"
    using m len by (simp_all add: transport_matches_protocol udp_header_length_def)
  have s: "udp_set_checksum c (S, d) = Some (take 6 S @ enc16 c @ drop 8 S, d)"
    using d by (simp add: udp_set_checksum_def write_u16_Some)
  have mem: "udp_set_checksum c \<in> udp_setters" by (simp add: udp_setters_def)
  show ?thesis
    using udp_view.setter_coherent [OF mem d(2) s] d UdpTransport k
    by (simp add: transport_matches_protocol)
qed

definition built6 :: "ipv6_packetizer \<Rightarrow> nat \<Rightarrow> ipv6_packet \<Rightarrow> bool" where
  "built6 p n packet \<longleftrightarrow> ip_packet_parse (i6p_raw packet) = ok (Ipv6 packet)
     \<and> length (i6p_raw packet) = p6_payload_index p + n
     \<and> i6_source (i6p_header_data packet) = take 16 (drop 8 (p6_buffer p))
     \<and> i6_destination (i6p_header_data packet) = take 16 (drop 24 (p6_buffer p))
     \<and> i6p_transport_data packet = p6_transport_header_data p
     \<and> ipv6_packet_payload packet = Some (take n (drop (p6_payload_index p) (p6_buffer p)))
     \<and> ipv6_checksum_valid packet"

text \<open>
  The bytes in front of the payload: the headers of the buffer, with the length, the UDP length and
  the checksum of this packet in their cells and every other cell as it was.
\<close>

fun sealed6 :: "transport_header_data \<Rightarrow> bytes \<Rightarrow> nat \<Rightarrow> u16 \<Rightarrow> bytes" where
  "sealed6 (TcpTransport d) S n c = take 16 S @ enc16 c @ drop 18 S"
| "sealed6 (UdpTransport d) S n c = take 4 S @ enc16 (8 + of_nat n) @ enc16 c"

definition headers6 :: "ipv6_packetizer \<Rightarrow> nat \<Rightarrow> u16 \<Rightarrow> bytes" where
  "headers6 p n c = (let S = take (p6_payload_index p - 40) (drop 40 (p6_buffer p)) in
     take 4 (p6_buffer p) @ enc16 (of_nat (length S + n)) @ take 34 (drop 6 (p6_buffer p))
     @ sealed6 (p6_transport_header_data p) S n c)"

lemma sealed6_ok:
  assumes s: "transport_set_payload_length (of_nat n) (S, t) = Some (S1, t)" and m: "transport_matches q t S"
    and l: "length S = unat (transport_header_length t)" and k: "k = (if q = Tcp then 16 else 6)"
  shows "take k S1 @ enc16 c @ drop (k + 2) S1 = sealed6 t S n c"
proof (cases t)
  case (TcpTransport d)
  then show ?thesis using s m k by (simp add: transport_matches_protocol)
next
  case (UdpTransport d)
  then have "length S = 8" "q = Udp" using l m by (simp_all add: transport_matches_protocol udp_header_length_def)
  then show ?thesis
    using s k UdpTransport
    by (auto simp: udp_set_payload_length_def udp_header_length_def write_u16_Some)
qed

text \<open>The ports of a reference header trade places; its other cells are copied.\<close>

lemma transport_swap_cells:
  assumes "transport_swap_source_and_destination (S, t) = Some (S', t')" and "4 \<le> length S"
  shows "S' = take 2 (drop 2 S) @ take 2 S @ drop 4 S"
proof -
  obtain a b c d r where S: "S = a # b # c # d # r" using four_cells [OF assms(2)] by blast
  show ?thesis
    using assms(1) by (cases t) (auto simp: S tcp_swap_source_and_destination_def udp_swap_source_and_destination_def
      swap_each_ports)
qed

text \<open>The bytes that \<open>build\<close> leaves in front are what the parser wants.\<close>

lemma ipv6_parse_built:
  assumes H: "length H = 40" "drop_bit 4 (H ! 0) = 6" "ipv6_protocol (H ! 6) = Inr q"
      "be16 (H ! 4) (H ! 5) = of_nat (length S + length Y)"
    and L: "length S + length Y < 65536" and S: "length S = unat (transport_header_length t)"
    and m: "transport_matches q t S"
    and u: "\<And>d. t = UdpTransport d \<Longrightarrow> read_u16 S 4 = Some (of_nat (8 + length Y))"
  shows "ipv6_packet_parse (H @ S @ Y) = ok \<lparr>i6p_raw = H @ S @ Y, i6p_header_data =
    \<lparr>i6_payload_length = of_nat (length S + length Y), i6_next_header = H ! 6,
     i6_source = take 16 (drop 8 H), i6_destination = take 16 (drop 24 H)\<rparr>, i6p_transport_data = t\<rparr>"
proof -
  have nth: "i < 40 \<Longrightarrow> (H @ S @ Y) ! i = H ! i" for i using H(1) by (simp add: nth_append)
  have L': "unat (of_nat (length S + length Y) :: u16) = length S + length Y"
    using L by (rule unat_of_nat_u16)
  have M: "transport_matches q t (S @ Y)" using m by (simp add: transport_matches_append [OF S])
  have n8: "8 \<le> length S" using transport_matches_bounds(1) [OF m] S by simp
  have v: "validate_transport q (S @ Y) = ok ()"
  proof (rule validate_transport_complete)
    show "transport_header_parse q (S @ Y) = Some (Some t)" using M by (simp add: transport_matches_def)
    show "case Some t of None \<Rightarrow> True
      | Some (TcpTransport d) \<Rightarrow> 20 \<le> unat (th_header_length d) \<and> unat (th_header_length d) \<le> length (S @ Y)
      | Some (UdpTransport d) \<Rightarrow> 8 \<le> length (S @ Y) \<and> length (S @ Y) < 65536
          \<and> read_u16 (S @ Y) 4 = Some (of_nat (length (S @ Y)))"
    proof (cases t)
      case (TcpTransport d)
      then show ?thesis using m S by (simp add: transport_matches_protocol)
    next
      case (UdpTransport d)
      then have "read_u16 S 4 = Some (of_nat (8 + length Y))" "length S = 8"
        using u S by (simp_all add: udp_header_length_def)
      then show ?thesis using UdpTransport L by (simp add: read_u16_def nth_append)
    qed
  qed
  have "length (H @ S @ Y) = 40 + unat (be16 ((H @ S @ Y) ! 4) ((H @ S @ Y) ! 5))"
    using H(1,4) L' by (simp add: nth)
  from ipv6_packet_parse_exact [OF this, of q t] show ?thesis
    using v M H by (simp add: nth transport_matches_def)
qed

lemma ipv6_build_ok:
  assumes inv: "p6_inv p" and fits: "p6_payload_index p + n \<le> 65536"
  shows "\<exists>packet p'. ipv6_build (of_nat n) p = Some (packet, p') \<and> built6 p n packet \<and> p6_inv p'
    \<and> p6_payload_index p' = p6_payload_index p \<and> p6_transport_header_data p' = p6_transport_header_data p
    \<and> take 16 (drop 8 (p6_buffer p')) = take 16 (drop 8 (p6_buffer p))
    \<and> take 16 (drop 24 (p6_buffer p')) = take 16 (drop 24 (p6_buffer p))
    \<and> (\<exists>c. i6p_raw packet = headers6 p n c @ take n (drop (p6_payload_index p) (p6_buffer p)))"
proof -
  from inv obtain H S R where P: "p6_buffer p = H @ S @ R" "length H = 40"
    "length S = unat (transport_header_length (p6_transport_header_data p))"
    "length R = 65536 - p6_payload_index p" "p6_payload_index p = 40 + length S"
    "8 \<le> length S" "length S \<le> 60" "drop_bit 4 (H ! 0) = 6"
    "i6_next_header (p6_header_data p) = H ! 6" "ipv6_protocol (H ! 6) = Inr (p6_protocol p)"
    "transport_matches (p6_protocol p) (p6_transport_header_data p) S"
    by (rule p6_invE)
  let ?t = "p6_transport_header_data p" and ?q = "p6_protocol p" and ?Y = "take n R"
  define L where "L = length S + n"
  define H1 where "H1 = take 4 H @ enc16 (of_nat L) @ drop (4 + 2) H"
  have n: "n \<le> length R" "L < 65536" using fits P(4,5,7) by (simp_all add: L_def)
  have uL: "unat (of_nat L :: u16) = L" using n(2) by (rule unat_of_nat_u16)
  have tl: "of_nat (p6_payload_index p - IPV6_HEADER_LENGTH) + of_nat n = (of_nat L :: u16)"
    using P(5) by (simp add: L_def IPV6_HEADER_LENGTH_def)
  have w4: "write_u16 4 (of_nat L) (p6_buffer p) = Some (H1 @ S @ R)"
    using P(1,2) by (simp add: write_u16_Some H1_def)
  have h1: "length H1 = 40" "H1 ! 0 = H ! 0" "H1 ! 6 = H ! 6" "be16 (H1 ! 4) (H1 ! 5) = of_nat L"
    "drop 8 H1 = drop 8 H" "drop 24 H1 = drop 24 H"
    using P(2) nth_patch [of 4 H _ "of_nat L"] by (simp_all add: H1_def nth_append enc16_def)
  obtain S1 where s1: "transport_set_payload_length (of_nat n) (S, ?t) = Some (S1, ?t)"
    "length S1 = length S" "transport_matches ?q ?t S1"
    "\<forall>d. ?t = UdpTransport d \<longrightarrow> read_u16 S1 4 = Some (8 + of_nat n)"
    using transport_set_payload_length_ok [OF P(11,3), of "of_nat n"] by blast
  have ov: "on_view IPV6_HEADER_LENGTH (p6_payload_index p) (transport_set_payload_length (of_nat n))
      (H1 @ S @ R, ?t) = Some (H1 @ S1 @ R, ?t)"
    using on_view_eq [of 40 "40 + length S" "H1 @ S @ R" "transport_set_payload_length (of_nat n)" ?t S1 ?t]
      s1(1,2) h1(1) P(5) by (simp add: IPV6_HEADER_LENGTH_def)
  define k :: nat where "k = (if ?q = Tcp then 16 else 6)"
  have k: "k + 2 \<le> length S1"
    using P(3,6,11) s1(2) by (cases ?t) (auto simp: k_def transport_matches_protocol)
  let ?p1 = "p\<lparr>p6_buffer := H1 @ S1 @ R, p6_transport_header_data := ?t\<rparr>"
  obtain c where c: "ipv6_update_checksum (40 + L) ?p1 = Some (?p1\<lparr>p6_buffer :=
      H1 @ (take k (S1 @ ?Y) @ enc16 c @ drop (k + 2) (S1 @ ?Y)) @ drop n R\<rparr>)"
    "checksum_ok (words_sum (ipv6_pseudo_header (take 32 (drop 8 H1)) (length (S1 @ ?Y)) (H ! 6)
       @ take k (S1 @ ?Y) @ enc16 c @ drop (k + 2) (S1 @ ?Y)))"
    "?q = Udp \<longrightarrow> c \<noteq> 0"
    using ipv6_update_checksum_ok [of ?p1 H1 "S1 @ ?Y" "drop n R" "40 + L" k] h1(1) n k s1(2) P(9)
    by (auto simp: k_def L_def)
  define S2 where "S2 = take k S1 @ enc16 c @ drop (k + 2) S1"
  have s2: "take k (S1 @ ?Y) @ enc16 c @ drop (k + 2) (S1 @ ?Y) = S2 @ ?Y" "length S2 = length S"
    using k s1(2) by (simp_all add: S2_def)
  have m2: "transport_matches ?q ?t S2"
    using transport_matches_checksum [OF s1(3)] s1(2) P(3) by (simp add: S2_def k_def)
  have u2: "read_u16 S2 4 = Some (of_nat (8 + length ?Y))" if "?t = UdpTransport d" for d
  proof -
    have "k = 6" using m2 that by (simp add: transport_matches_protocol k_def)
    then have "read_u16 S2 4 = read_u16 S1 4"
      using nth_patch [of 6 S1 _ c] k s2(2) s1(2) by (intro read_u16_cong) (simp_all add: S2_def)
    then show ?thesis using s1(4) that n by simp
  qed
  let ?pkt = "\<lparr>i6p_raw = H1 @ S2 @ ?Y, i6p_header_data = \<lparr>i6_payload_length = of_nat (length S2 + length ?Y),
     i6_next_header = H1 ! 6, i6_source = take 16 (drop 8 H1), i6_destination = take 16 (drop 24 H1)\<rparr>,
     i6p_transport_data = ?t\<rparr>"
  have parse: "ipv6_packet_parse (H1 @ S2 @ ?Y) = ok ?pkt"
    by (rule ipv6_parse_built) (use h1 P(2,3,4,5,8,9,10) n s2 m2 u2 in \<open>simp_all add: L_def\<close>)
  let ?p' = "?p1\<lparr>p6_buffer := H1 @ S2 @ R\<rparr>"
  have Y: "?Y @ drop n R = R" by (rule append_take_drop_id)
  have c1: "ipv6_update_checksum (40 + L) ?p1 = Some ?p'"
    using c(1) unfolding s2(1) append_assoc Y .
  have eq: "ipv6_build (of_nat n) p = Some (?pkt, ?p')"
  proof -
    have "IPV6_HEADER_LENGTH + L = 40 + L" by (simp add: IPV6_HEADER_LENGTH_def)
    moreover have "slice 0 (40 + L) (H1 @ S2 @ R) = Some (H1 @ S2 @ ?Y)"
      using h1(1) s2(2) n by (simp add: slice_def L_def)
    ultimately show ?thesis
      using parse
      unfolding ipv6_build_def Let_def tl uL w4 ov bind.bind_lunit prod.case
      by (simp only: c1 bind.bind_lunit) (simp add: expect_def)
  qed
  have inv': "p6_inv ?p'"
    by (rule p6_invI [of _ H1 S2 R]) (use h1(1-3) s2(2) m2 P(3-10) in simp_all)
  have "built6 p n ?pkt"
    unfolding built6_def
  proof (intro conjI)
    obtain x xs where "H1 = x # xs" using h1(1) by (cases H1) simp_all
    then show "ip_packet_parse (i6p_raw ?pkt) = ok (Ipv6 ?pkt)"
      using parse h1(2) P(8) by (simp add: ip_packet_parse_def)
    show "ipv6_packet_payload ?pkt = Some (take n (drop (p6_payload_index p) (p6_buffer p)))"
      using h1(1) s2(2) P(1-5) n(1)
      by (simp add: ipv6_packet_payload_def IPV6_HEADER_LENGTH_def slice_def min_absorb2)
    have "read_u16 (H1 @ S2 @ ?Y) 46 = Some c" if u: "?t = UdpTransport d" for d
    proof -
      have "k = 6" using m2 u by (simp add: transport_matches_protocol k_def)
      then have "S2 ! 6 = ucast (drop_bit 8 c)" "S2 ! 7 = ucast c"
        using k by (simp_all add: S2_def nth_append enc16_def)
      then show ?thesis using h1(1) s2(2) P(6) by (simp add: read_u16_def nth_append)
    qed
    moreover have "?t = UdpTransport d \<Longrightarrow> ?q = Udp" for d
      using P(11) by (simp add: transport_matches_protocol)
    moreover have "length (S1 @ ?Y) = length (H1 @ S2 @ ?Y) - 40" using h1(1) s1(2) s2(2) by simp
    ultimately show "ipv6_checksum_valid ?pkt"
      using c(2,3) h1 P(2) unfolding s2(1) by (auto simp: ipv6_checksum_valid_def)
  qed (use h1 s2(2) n(1) P(1-5) in \<open>simp_all add: L_def\<close>)
  moreover have "take 16 (drop 8 (p6_buffer ?p')) = take 16 (drop 8 (p6_buffer p))"
    "take 16 (drop 24 (p6_buffer ?p')) = take 16 (drop 24 (p6_buffer p))" using h1 P(1,2) by simp_all
  moreover have "\<exists>c. i6p_raw ?pkt = headers6 p n c @ take n (drop (p6_payload_index p) (p6_buffer p))"
  proof (rule exI [of _ c])
    have "S2 = sealed6 ?t S n c"
      unfolding S2_def by (rule sealed6_ok [OF s1(1) P(11,3)]) (simp add: k_def)
    then show "i6p_raw ?pkt = headers6 p n c @ take n (drop (p6_payload_index p) (p6_buffer p))"
      using P(2,5) by (simp add: headers6_def Let_def H1_def L_def P(1))
  qed
  moreover have "p6_payload_index ?p' = p6_payload_index p" "p6_transport_header_data ?p' = ?t" by simp_all
  ultimately show ?thesis using eq inv' by blast
qed

section \<open>Construction\<close>

lemma ipv6_packetizer_new_ok:
  assumes ok: "ipv6_packet_ok ref"
    and th: "ipv6_packet_transport_header ref = Some th"
  shows "\<exists>p. ipv6_packetizer_new (take 40 (i6p_raw ref), i6p_header_data ref) th = Some p \<and> p6_inv p
    \<and> take 16 (drop 8 (p6_buffer p)) = i6_destination (i6p_header_data ref)
    \<and> take 16 (drop 24 (p6_buffer p)) = i6_source (i6p_header_data ref)
    \<and> p6_transport_header_data p = swapped_transport (i6p_transport_data ref)
    \<and> (let S = take (unat (transport_header_length (i6p_transport_data ref))) (drop 40 (i6p_raw ref)) in
        \<exists>R. p6_buffer p = take 8 (i6p_raw ref) @ i6_destination (i6p_header_data ref) @ i6_source (i6p_header_data ref)
          @ take 2 (drop 2 S) @ take 2 S @ drop 4 S @ R)"
proof -
  let ?raw = "i6p_raw ref" and ?d = "i6p_header_data ref" and ?t = "i6p_transport_data ref"
  let ?n = "unat (transport_header_length ?t)"
  let ?q = "if i6_next_header ?d = 6 then Tcp else Udp"
  let ?S = "take ?n (drop 40 ?raw)"
  have h: "ipv6_header_parse ?raw = ok ?d" and len: "40 + ?n \<le> length ?raw"
    using ok by (simp_all add: ipv6_packet_ok_def)
  note D = ipv6_header_parse_ok [OF h]
  have S: "length ?S = ?n" using len by simp
  have th': "th = (?S, ?t)"
    using th len by (auto simp: ipv6_packet_transport_header_def IPV6_HEADER_LENGTH_def slice_def)
  have raw40: "drop 40 ?raw = ?S @ drop ?n (drop 40 ?raw)" by (simp only: append_take_drop_id)
  have "transport_matches ?q ?t (drop 40 ?raw)"
    using ok by (cases ?t) (simp_all add: ipv6_packet_ok_def transport_matches_protocol)
  then have m: "transport_matches ?q ?t ?S"
    using transport_matches_append [OF S] raw40 by metis
  obtain S' where s: "transport_swap_source_and_destination (?S, ?t) = Some (S', swapped_transport ?t)"
    "length S' = ?n" "transport_matches ?q (swapped_transport ?t) S'"
    using transport_swap_ok [OF m S] S by auto
  note b = transport_matches_bounds [OF m]
  define z where "z = replicate MAX_PACKET_LENGTH (0 :: u8)"
  have z: "length z = 65536" by (simp add: z_def MAX_PACKET_LENGTH_def)
  let ?H = "take 40 ?raw"
  let ?H1 = "take 8 ?H @ i6_destination ?d @ i6_source ?d"
  have ls: "length (i6_destination ?d) = 16" "length (i6_source ?d) = 16" "length ?H = 40"
    using D len by auto
  have c1: "copy_from_slice 0 40 ?H z = Some (?H @ drop 40 z)"
    using copy_seam [of "[]" 0 ?H 40 z] ls z by simp
  have c2: "copy_from_slice 8 24 (i6_destination ?d) (?H @ drop 40 z)
      = Some ((take 8 ?H @ i6_destination ?d) @ drop 24 ?H @ drop 40 z)"
  proof -
    have H: "?H @ drop 40 z = take 8 ?H @ (drop 8 ?H @ drop 40 z)"
      by (metis append_assoc append_take_drop_id)
    have "copy_from_slice 8 (8 + 16) (i6_destination ?d) (take 8 ?H @ (drop 8 ?H @ drop 40 z))
        = Some (take 8 ?H @ i6_destination ?d @ drop 16 (drop 8 ?H @ drop 40 z))"
      by (rule copy_seam) (use ls in simp_all)
    moreover have "drop 16 (drop 8 ?H @ drop 40 z) = drop 24 ?H @ drop 40 z" using ls by simp
    ultimately show ?thesis unfolding H by simp
  qed
  have c3: "copy_from_slice 24 40 (i6_source ?d) ((take 8 ?H @ i6_destination ?d) @ drop 24 ?H @ drop 40 z)
      = Some (?H1 @ drop 40 z)"
    using copy_seam [of "take 8 ?H @ i6_destination ?d" 24 "i6_source ?d" 16 "drop 24 ?H @ drop 40 z"] ls
    by simp
  have l1: "length ?H1 = 40" using ls by simp
  have c4: "copy_from_slice 40 (40 + ?n) ?S (?H1 @ drop 40 z) = Some (?H1 @ ?S @ drop ?n (drop 40 z))"
    by (rule copy_seam [OF l1 S]) (use z b in simp)
  have e: "on_view 40 (40 + ?n) transport_swap_source_and_destination (?H1 @ ?S @ drop ?n (drop 40 z), ?t)
      = Some (?H1 @ S' @ drop ?n (drop 40 z), swapped_transport ?t)"
    by (rule on_view_seam) (use l1 S s(1,2) in simp_all)
  let ?buf = "?H1 @ S' @ drop ?n (drop 40 z)"
  have d6: "drop_bit 4 (?raw ! 0) = 6" "i6_next_header ?d = ?raw ! 6" using D by simp_all
  have n1: "?H1 ! 0 = ?raw ! 0" "?H1 ! 6 = ?raw ! 6" using len by (simp_all add: nth_append)
  obtain hd where hd: "ipv6_header_parse_header_only ?H1 = ok hd" "i6_next_header hd = ?raw ! 6"
    using l1 d6(1) n1
    by (auto simp: ipv6_header_parse_header_only_def IPV6_HEADER_LENGTH_def index_def slicing)
  let ?p = "\<lparr>p6_buffer = ?buf, p6_payload_index = 40 + ?n, p6_header_data = hd,
    p6_transport_header_data = swapped_transport ?t, p6_protocol = ?q\<rparr>"
  have "ipv6_packetizer_new (?H, ?d) th = Some ?p"
  proof -
    have "slice 0 40 ?buf = Some ?H1" using l1 by (simp add: slice_def)
    then show ?thesis
      unfolding ipv6_packetizer_new_def Let_def th' fst_conv snd_conv IPV6_HEADER_LENGTH_def
        z_def [symmetric] c1 c2 c3 c4 e bind.bind_lunit prod.case
      by (simp only: bind.bind_lunit hd expect_def option.case sum.case)
  qed
  moreover have "p6_inv ?p"
  proof (rule p6_invI [of _ ?H1 S' "drop ?n (drop 40 z)"])
    show "length (p6_buffer ?p) = 65536" using l1 s(2) z b(2) by simp
    show "ipv6_protocol (?H1 ! 6) = Inr (p6_protocol ?p)"
      using ok d6(2) n1(2) by (cases ?t) (simp_all add: ipv6_packet_ok_def ipv6_protocol_def)
  qed (use l1 s n1 d6 hd in simp_all)
  moreover have "take 16 (drop 8 ?buf) = i6_destination ?d" "take 16 (drop 24 ?buf) = i6_source ?d"
    using ls len by simp_all
  moreover have S': "S' = take 2 (drop 2 ?S) @ take 2 ?S @ drop 4 ?S"
    by (rule transport_swap_cells [OF s(1)]) (use S b in simp)
  have "\<exists>R. p6_buffer ?p = take 8 ?raw @ i6_destination ?d @ i6_source ?d
      @ take 2 (drop 2 ?S) @ take 2 ?S @ drop 4 ?S @ R"
    unfolding S' [symmetric] using len by (intro exI [of _ "drop ?n (drop 40 z)"]) (simp add: S')
  ultimately show ?thesis unfolding Let_def by (intro exI [of _ ?p]) simp
qed

section \<open>As a packet builder\<close>

definition p6_room :: "ipv6_packetizer \<Rightarrow> nat" where
  "p6_room p = length (p6_buffer p) - p6_payload_index p"

definition ipv6_sendable :: "ipv6_packet \<Rightarrow> bool" where
  "ipv6_sendable p \<longleftrightarrow> ip_packet_parse (i6p_raw p) = ok (Ipv6 p) \<and> ipv6_checksum_valid p"

lemma p6_inv_bounds:
  "p6_inv p \<Longrightarrow> length (p6_buffer p) = 65536 \<and> 48 \<le> p6_payload_index p \<and> p6_payload_index p \<le> 100"
  using transport_matches_bounds [of "p6_protocol p" "p6_transport_header_data p"]
  by (auto simp: p6_inv_def MAX_PACKET_LENGTH_def)

lemma p6_recv_build:
  assumes inv: "p6_inv p" and src: "source (p6_room p) = Inr bs" and len: "length bs \<le> p6_room p"
  shows "\<exists>p1 packet p'. p6_recv source p = Some (Inr (length bs), p1)
    \<and> ipv6_build (of_nat (length bs)) p1 = Some (packet, p') \<and> p6_inv p'
    \<and> p6_payload_index p' = p6_payload_index p \<and> ipv6_sendable packet
    \<and> ipv6_packet_payload packet = Some bs
    \<and> i6_source (i6p_header_data packet) = take 16 (drop 8 (p6_buffer p))
    \<and> i6_destination (i6p_header_data packet) = take 16 (drop 24 (p6_buffer p))
    \<and> i6p_transport_data packet = p6_transport_header_data p
    \<and> length (i6p_raw packet) = p6_payload_index p + length bs
    \<and> p6_transport_header_data p' = p6_transport_header_data p
    \<and> take 16 (drop 8 (p6_buffer p')) = take 16 (drop 8 (p6_buffer p))
    \<and> take 16 (drop 24 (p6_buffer p')) = take 16 (drop 24 (p6_buffer p))
    \<and> (\<exists>c. i6p_raw packet = headers6 p (length bs) c @ bs)"
proof -
  note b = p6_inv_bounds [OF inv]
  from inv obtain H S R where P: "p6_buffer p = H @ S @ R" "length H = 40"
    "length S = unat (transport_header_length (p6_transport_header_data p))"
    "length R = 65536 - p6_payload_index p" "p6_payload_index p = 40 + length S"
    "8 \<le> length S" "length S \<le> 60" "drop_bit 4 (H ! 0) = 6"
    "i6_next_header (p6_header_data p) = H ! 6" "ipv6_protocol (H ! 6) = Inr (p6_protocol p)"
    "transport_matches (p6_protocol p) (p6_transport_header_data p) S"
    by (rule p6_invE)
  have r: "p6_room p = length R" using b P(4) by (simp add: p6_room_def)
  let ?p1 = "p\<lparr>p6_buffer := H @ S @ bs @ drop (length bs) R\<rparr>"
  have rec: "p6_recv source p = Some (Inr (length bs), ?p1)"
    using src len b P(1,2,5) r by (simp add: p6_recv_def slice_Some splice_Some p6_room_def)
  have inv1: "p6_inv ?p1"
    by (rule p6_invI [of _ H S "bs @ drop (length bs) R"]) (use P len r in simp_all)
  have fits: "p6_payload_index ?p1 + length bs \<le> 65536" using len r P(4,5,7) by simp
  obtain packet p' where k: "ipv6_build (of_nat (length bs)) ?p1 = Some (packet, p')"
    "built6 ?p1 (length bs) packet" "p6_inv p'" "p6_payload_index p' = p6_payload_index ?p1"
    "p6_transport_header_data p' = p6_transport_header_data ?p1"
    "take 16 (drop 8 (p6_buffer p')) = take 16 (drop 8 (p6_buffer ?p1))"
    "take 16 (drop 24 (p6_buffer p')) = take 16 (drop 24 (p6_buffer ?p1))"
    "\<exists>c. i6p_raw packet = headers6 ?p1 (length bs) c @ take (length bs) (drop (p6_payload_index ?p1) (p6_buffer ?p1))"
    using ipv6_build_ok [OF inv1 fits] by blast
  have "take (length bs) (drop (p6_payload_index p) (p6_buffer ?p1)) = bs"
    "take 16 (drop 8 (p6_buffer ?p1)) = take 16 (drop 8 (p6_buffer p))"
    "take 16 (drop 24 (p6_buffer ?p1)) = take 16 (drop 24 (p6_buffer p))"
    using P(1,2,5) by simp_all
  moreover have "headers6 ?p1 (length bs) c = headers6 p (length bs) c" for c
    using P(2,5) by (simp add: headers6_def P(1))
  ultimately show ?thesis using rec k unfolding built6_def ipv6_sendable_def by auto
qed

lemma p6_recv_error: "p6_inv p \<Longrightarrow> source (p6_room p) = Inl e \<Longrightarrow> p6_recv source p = Some (Inl e, p)"
  using p6_inv_bounds [of p] by (simp add: p6_recv_def slice_Some p6_room_def)

interpretation ipv6_builder: packet_builder p6_inv p6_room p6_room ipv6_packetize ipv6_packet_payload
  ipv6_sendable
proof
  fix s :: ipv6_packetizer and src :: reader and bs
  assume a: "p6_inv s" "src (p6_room s) = Inr bs" "length bs \<le> p6_room s"
  then obtain p1 packet p' where "p6_recv src s = Some (Inr (length bs), p1)"
    "ipv6_build (of_nat (length bs)) p1 = Some (packet, p')" "p6_inv p'" "ipv6_sendable packet"
    "ipv6_packet_payload packet = Some bs" "p6_payload_index p' = p6_payload_index s"
    using p6_recv_build [of s src bs] by auto
  then show "\<exists>p s'. ipv6_packetize src s = Some (Inr p, s') \<and> p6_inv s' \<and> p6_room s' = p6_room s
      \<and> p6_room s' = p6_room s \<and> ipv6_packet_payload p = Some bs \<and> ipv6_sendable p"
    using p6_inv_bounds [OF a(1)] p6_inv_bounds [of p']
    by (auto simp: ipv6_packetize_def p6_room_def)
next
  fix s :: ipv6_packetizer and src :: reader and e
  assume "p6_inv s" "src (p6_room s) = Inl e"
  then show "ipv6_packetize src s = Some (Inl e, s)" by (simp add: ipv6_packetize_def p6_recv_error)
qed

lemma ipv6_packetize_read_ok:
  assumes inv: "p6_inv p" and src: "read_adapter_recv source m (p6_room p) = Inr bs"
    and len: "length bs \<le> p6_room p" and ne: "bs \<noteq> []"
  shows "\<exists>packet p'. ipv6_packetize_read source m p = Some (Inr (Some packet), p') \<and> p6_inv p'
    \<and> ipv6_sendable packet \<and> ipv6_packet_payload packet = Some bs"
  using p6_recv_build [of p "read_adapter_recv source m" bs, OF inv src len] ne
  by (auto simp: ipv6_packetize_read_def)

end
