(* ===== verification/Datagram_Buffer.thy ===== *)
theory Datagram_Buffer
  imports Prelude
begin

text \<open>
  \<open>relay/datagram_buffer.rs\<close>: the circular buffer of a UDP flow.  A datagram is a block of a
  two-byte length and its bytes; blocks are never split, so a block may run past the circular
  length into an extra space, after which the position returns to 0.
\<close>

definition max_datagram_length :: nat where
  "max_datagram_length = 65536"

definition dg_header_length :: nat where
  "dg_header_length = 2"

definition max_block_length :: nat where
  "max_block_length = dg_header_length + max_datagram_length"

record datagram_buffer =
  dg_buf :: bytes
  dg_head :: nat
  dg_tail :: nat
  dg_circular_length :: nat

text \<open>A \<open>DatagramSender\<close>: from the datagram to the number of bytes sent, or an error.\<close>

type_synonym datagram_sender = "bytes \<Rightarrow> nat io_result"

definition dg_new :: "nat \<Rightarrow> datagram_buffer" where
  "dg_new capacity = \<lparr>dg_buf = replicate (capacity + max_block_length) 0, dg_head = 0, dg_tail = 0,
     dg_circular_length = capacity + 1\<rparr>"

definition dg_is_empty :: "datagram_buffer \<Rightarrow> bool" where
  "dg_is_empty b \<longleftrightarrow> dg_head b = dg_tail b"

definition dg_has_enough_space_for :: "nat \<Rightarrow> datagram_buffer \<Rightarrow> bool" where
  "dg_has_enough_space_for len b = (if dg_head b \<ge> dg_tail b then True
     else let remaining = dg_tail b - dg_head b - 1 in dg_header_length + len \<le> remaining)"

definition dg_read_length :: "datagram_buffer \<Rightarrow> (u16 \<times> datagram_buffer) option" where
  "dg_read_length b = do {
     let tail = dg_tail b + 2;
     v \<leftarrow> read_u16 (dg_buf b) (tail - 2);
     Some (v, b\<lparr>dg_tail := tail\<rparr>)
   }"

definition dg_write_length :: "u16 \<Rightarrow> datagram_buffer \<Rightarrow> datagram_buffer option" where
  "dg_write_length len b = do {
     buf \<leftarrow> write_u16 (dg_head b) len (dg_buf b);
     Some (b\<lparr>dg_buf := buf, dg_head := dg_head b + 2\<rparr>)
   }"

definition dg_write_to ::
    "datagram_sender \<Rightarrow> datagram_buffer \<Rightarrow> (unit io_result \<times> datagram_buffer) option" where
  "dg_write_to destination b = do {
     assert_that (\<not> dg_is_empty b);
     (len16, b) \<leftarrow> dg_read_length b;
     let len = unat len16;
     source_slice \<leftarrow> slice (dg_tail b) (dg_tail b + len) (dg_buf b);
     let b = b\<lparr>dg_tail := dg_tail b + len\<rparr>;
     let b = (if dg_tail b \<ge> dg_circular_length b then b\<lparr>dg_tail := 0\<rparr> else b);
     case destination source_slice of
       Inl e \<Rightarrow> Some (Inl e, b)
     | Inr w \<Rightarrow> Some (if w \<noteq> len then Inl OtherError else Inr (), b)
   }"

definition dg_read_from :: "bytes \<Rightarrow> datagram_buffer \<Rightarrow> (unit io_result \<times> datagram_buffer) option" where
  "dg_read_from source b = do {
     let len = length source;
     assert_that (len \<le> max_datagram_length);
     if \<not> dg_has_enough_space_for len b then Some (Inl OtherError, b)
     else do {
       b \<leftarrow> dg_write_length (of_nat len) b;
       buf \<leftarrow> splice (dg_head b) source (dg_buf b);
       let b = b\<lparr>dg_buf := buf, dg_head := dg_head b + len\<rparr>;
       let b = (if dg_head b \<ge> dg_circular_length b then b\<lparr>dg_head := 0\<rparr> else b);
       Some (Inr (), b)
     }
   }"

section \<open>The stored datagrams\<close>

text \<open>\<open>block_at buf t d\<close>: the block of datagram \<open>d\<close> starts at offset \<open>t\<close>.\<close>

definition block_at :: "bytes \<Rightarrow> nat \<Rightarrow> bytes \<Rightarrow> bool" where
  "block_at buf t d \<longleftrightarrow> length d < 65536 \<and>
     take (2 + length d) (drop t buf) = enc16 (of_nat (length d)) @ d"

fun tiled :: "bytes \<Rightarrow> nat \<Rightarrow> bytes list \<Rightarrow> nat \<Rightarrow> bool" where
  "tiled buf t [] h \<longleftrightarrow> t = h"
| "tiled buf t (d # ds) h \<longleftrightarrow> block_at buf t d \<and> tiled buf (t + 2 + length d) ds h"

text \<open>Blocks up to the one that crosses the circular length, then blocks from offset 0.\<close>

fun wrapped :: "bytes \<Rightarrow> nat \<Rightarrow> nat \<Rightarrow> bytes list \<Rightarrow> nat \<Rightarrow> bool" where
  "wrapped buf circ t [] h \<longleftrightarrow> False"
| "wrapped buf circ t (d # ds) h \<longleftrightarrow> block_at buf t d \<and>
     (if circ \<le> t + 2 + length d then tiled buf 0 ds h else wrapped buf circ (t + 2 + length d) ds h)"

definition dg_inv :: "datagram_buffer \<Rightarrow> bool" where
  "dg_inv b \<longleftrightarrow> dg_head b < dg_circular_length b \<and> dg_tail b < dg_circular_length b
     \<and> length (dg_buf b) = dg_circular_length b + 65537"

text \<open>\<open>dg_holds b ds\<close>: the buffer is well formed and stores the datagrams \<open>ds\<close>, oldest first.\<close>

definition dg_holds :: "datagram_buffer \<Rightarrow> bytes list \<Rightarrow> bool" where
  "dg_holds b ds \<longleftrightarrow> dg_inv b \<and>
     (if dg_tail b \<le> dg_head b then tiled (dg_buf b) (dg_tail b) ds (dg_head b)
      else wrapped (dg_buf b) (dg_circular_length b) (dg_tail b) ds (dg_head b))"

lemma dg_new_holds: "dg_holds (dg_new c) []"
  by (simp add: dg_holds_def dg_new_def dg_inv_def max_block_length_def dg_header_length_def
      max_datagram_length_def)

lemma tiled_le: "tiled buf t ds h \<Longrightarrow> t \<le> h"
  by (induction ds arbitrary: t) fastforce+

lemma dg_holds_empty: "dg_holds b ds \<Longrightarrow> dg_is_empty b \<longleftrightarrow> ds = []"
proof (cases ds)
  case (Cons d ds')
  then show "dg_holds b ds \<Longrightarrow> dg_is_empty b \<longleftrightarrow> ds = []"
    using tiled_le [of "dg_buf b" "dg_tail b + 2 + length d" ds' "dg_head b"]
    by (auto simp: dg_holds_def dg_is_empty_def)
qed (auto simp: dg_holds_def dg_is_empty_def split: if_splits)

text \<open>Blocks survive writes elsewhere, and a new block extends the run.\<close>

lemma block_at_nth:
  "block_at buf t d \<longleftrightarrow> length d < 65536 \<and> t + 2 + length d \<le> length buf \<and>
    (\<forall>i < 2 + length d. buf ! (t + i) = (enc16 (of_nat (length d)) @ d) ! i)"
proof -
  let ?n = "2 + length d" and ?e = "enc16 (of_nat (length d)) @ d"
  have "take ?n (drop t buf) = ?e \<longleftrightarrow> t + ?n \<le> length buf \<and> (\<forall>i < ?n. buf ! (t + i) = ?e ! i)"
  proof (cases "t + ?n \<le> length buf")
    case True
    then show ?thesis by (simp add: list_eq_iff_nth_eq del: add_2_eq_Suc)
  next
    case False
    then have "length (take ?n (drop t buf)) < ?n" by auto
    moreover have "length ?e = ?n" by simp
    ultimately show ?thesis using False by (metis less_irrefl)
  qed
  then show ?thesis by (auto simp: block_at_def)
qed

lemma block_at_frame:
  assumes "block_at buf t d" and "length buf' = length buf"
    and "\<And>i. t \<le> i \<Longrightarrow> i < t + 2 + length d \<Longrightarrow> buf' ! i = buf ! i"
  shows "block_at buf' t d"
  using assms by (auto simp: block_at_nth)

lemma tiled_frame:
  assumes "tiled buf t ds h" and "length buf' = length buf"
    and "\<And>i. t \<le> i \<Longrightarrow> i < h \<Longrightarrow> buf' ! i = buf ! i"
  shows "tiled buf' t ds h"
  using assms
proof (induction ds arbitrary: t)
  case (Cons d ds)
  have le: "t + 2 + length d \<le> h" using Cons.prems(1) tiled_le by auto
  have "block_at buf' t d"
    by (rule block_at_frame [of buf]) (use Cons.prems le in auto)
  moreover have "tiled buf' (t + 2 + length d) ds h"
    by (rule Cons.IH) (use Cons.prems in auto)
  ultimately show ?case by simp
qed simp

lemma wrapped_frame:
  assumes "wrapped buf circ t ds h" and "length buf' = length buf"
    and "\<And>i. i < h \<or> t \<le> i \<Longrightarrow> buf' ! i = buf ! i"
  shows "wrapped buf' circ t ds h"
  using assms
proof (induction ds arbitrary: t)
  case (Cons d ds)
  have "block_at buf' t d"
    by (rule block_at_frame [of buf]) (use Cons.prems in auto)
  moreover have "circ \<le> t + 2 + length d \<Longrightarrow> tiled buf' 0 ds h"
    by (rule tiled_frame [of buf]) (use Cons.prems in auto)
  moreover have "\<not> circ \<le> t + 2 + length d \<Longrightarrow> wrapped buf' circ (t + 2 + length d) ds h"
    by (rule Cons.IH) (use Cons.prems in auto)
  ultimately show ?case by simp
qed simp

lemma tiled_snoc:
  "tiled buf t ds h \<Longrightarrow> block_at buf h d \<Longrightarrow> tiled buf t (ds @ [d]) (h + 2 + length d)"
  by (induction ds arbitrary: t) auto

lemma wrapped_snoc:
  "wrapped buf circ t ds h \<Longrightarrow> block_at buf h d \<Longrightarrow> wrapped buf circ t (ds @ [d]) (h + 2 + length d)"
  using tiled_snoc [of buf 0 _ h d] by (induction ds arbitrary: t) auto

lemma tiled_wrap:
  "tiled buf t ds h \<Longrightarrow> block_at buf h d \<Longrightarrow> h < circ \<Longrightarrow> circ \<le> h + 2 + length d \<Longrightarrow>
    wrapped buf circ t (ds @ [d]) 0"
proof (induction ds arbitrary: t)
  case (Cons e ds)
  then have "t + 2 + length e \<le> h" using tiled_le by auto
  with Cons show ?case by auto
qed auto

lemma block_at_slice:
  assumes "block_at buf t d"
  shows "read_u16 buf t = Some (of_nat (length d))"
    and "slice (t + 2) (t + 2 + length d) buf = Some d"
proof -
  note b = assms [unfolded block_at_nth]
  have "be16 (buf ! t) (buf ! (t + 1)) = of_nat (length d)"
    using b [THEN conjunct2, THEN conjunct2, rule_format, of 0]
      b [THEN conjunct2, THEN conjunct2, rule_format, of 1]
    by (simp add: enc16_def)
  then show "read_u16 buf t = Some (of_nat (length d))" using b by (simp add: read_u16_def)
  have "take (length d) (drop (t + 2) buf) = drop 2 (take (2 + length d) (drop t buf))"
    by (simp add: drop_take add.commute)
  also have "\<dots> = d" using assms by (simp add: block_at_def)
  finally show "slice (t + 2) (t + 2 + length d) buf = Some d" using b by (simp add: slice_def)
qed

section \<open>Storing a datagram\<close>

text \<open>The buffer and head after a block is written.\<close>

lemma dg_read_from_eq:
  assumes "dg_inv b" and "dg_has_enough_space_for (length d) b" and "length d \<le> 65535"
  shows "\<exists>buf. dg_read_from d b = Some (Inr (), b\<lparr>dg_buf := buf, dg_head :=
        (if dg_head b + 2 + length d \<ge> dg_circular_length b then 0 else dg_head b + 2 + length d)\<rparr>)
    \<and> length buf = length (dg_buf b) \<and> block_at buf (dg_head b) d
    \<and> (\<forall>i. i < dg_head b \<or> dg_head b + 2 + length d \<le> i \<longrightarrow> buf ! i = dg_buf b ! i)"
proof -
  let ?h = "dg_head b" and ?e = "enc16 (of_nat (length d))"
  let ?buf = "take ?h (dg_buf b) @ (?e @ d) @ drop (?h + 2 + length d) (dg_buf b)"
  have room: "?h + 2 + length d \<le> length (dg_buf b)" using assms by (simp add: dg_inv_def)
  then have "write_u16 ?h (of_nat (length d)) (dg_buf b)
      = Some (take ?h (dg_buf b) @ ?e @ drop (?h + 2) (dg_buf b))"
    by (simp add: write_u16_Some)
  moreover have "splice (?h + 2) d (take ?h (dg_buf b) @ ?e @ drop (?h + 2) (dg_buf b)) = Some ?buf"
    using room by (simp add: splice_def add.commute)
  moreover have "\<And>b'. dg_circular_length (dg_head_update b' b) = dg_circular_length b" by simp
  ultimately have eq: "dg_read_from d b = Some (Inr (), b\<lparr>dg_buf := ?buf, dg_head :=
        (if ?h + 2 + length d \<ge> dg_circular_length b then 0 else ?h + 2 + length d)\<rparr>)"
    using assms(2,3)
    by (auto simp: dg_read_from_def dg_write_length_def Let_def max_datagram_length_def)
  have sp: "splice ?h (?e @ d) (dg_buf b) = Some ?buf" using room by (simp add: splice_def add.assoc)
  have "block_at ?buf ?h d"
    using room assms(3) by (simp add: block_at_def min_def)
  then show ?thesis
    using eq length_splice [OF sp] nth_splice_other [OF sp] by (intro exI [of _ ?buf]) (auto simp: add.assoc)
qed

lemma dg_read_from_ok:
  assumes holds: "dg_holds b ds" and len: "length d \<le> 65535"
    and space: "dg_has_enough_space_for (length d) b"
    and safe: "0 < dg_tail b \<or> dg_head b + 2 + length d < dg_circular_length b"
  shows "\<exists>b'. dg_read_from d b = Some (Inr (), b') \<and> dg_holds b' (ds @ [d])"
proof -
  let ?h = "dg_head b" and ?t = "dg_tail b" and ?c = "dg_circular_length b"
  let ?h' = "?h + 2 + length d"
  have inv: "dg_inv b" using holds by (simp add: dg_holds_def)
  obtain buf where
    eq: "dg_read_from d b = Some (Inr (), b\<lparr>dg_buf := buf, dg_head := (if ?h' \<ge> ?c then 0 else ?h')\<rparr>)"
    and lb: "length buf = length (dg_buf b)" and bl: "block_at buf ?h d"
    and fr: "\<And>i. i < ?h \<or> ?h' \<le> i \<Longrightarrow> buf ! i = dg_buf b ! i"
    using dg_read_from_eq [OF inv space len] by blast
  let ?b' = "b\<lparr>dg_buf := buf, dg_head := (if ?h' \<ge> ?c then 0 else ?h')\<rparr>"
  have inv': "dg_inv ?b'" using inv lb by (auto simp: dg_inv_def)
  show ?thesis
  proof (cases "?t \<le> ?h")
    case True
    then have "tiled (dg_buf b) ?t ds ?h" using holds by (simp add: dg_holds_def)
    then have t: "tiled buf ?t ds ?h" by (rule tiled_frame) (use lb fr in auto)
    show ?thesis
    proof (cases "?h' \<ge> ?c")
      case wrap: True
      have "wrapped buf ?c ?t (ds @ [d]) 0"
        using tiled_wrap [OF t bl _ wrap] inv by (simp add: dg_inv_def)
      then have "dg_holds ?b' (ds @ [d])" using wrap safe inv' by (simp add: dg_holds_def)
      then show ?thesis using eq by blast
    next
      case False
      then have "dg_holds ?b' (ds @ [d])"
        using True inv' tiled_snoc [OF t bl] by (simp add: dg_holds_def)
      then show ?thesis using eq by blast
    qed
  next
    case False
    then have lt: "?h' < ?t" using space
      by (auto simp: dg_has_enough_space_for_def dg_header_length_def Let_def)
    have "wrapped (dg_buf b) ?c ?t ds ?h" using holds False by (simp add: dg_holds_def)
    then have "wrapped buf ?c ?t ds ?h" by (rule wrapped_frame) (use lb fr lt in auto)
    then have "wrapped buf ?c ?t (ds @ [d]) ?h'" using bl by (rule wrapped_snoc)
    then have "dg_holds ?b' (ds @ [d])" using lt inv inv' by (simp add: dg_holds_def dg_inv_def)
    then show ?thesis using eq by blast
  qed
qed

text \<open>
  With the tail at 0, a block that reaches the circular length brings \<open>head\<close> back onto \<open>tail\<close>:
  the call succeeds, and the buffer is empty although nothing was sent.
\<close>

lemma dg_read_from_forgets:
  assumes holds: "dg_holds b ds" and len: "length d \<le> 65535"
    and lost: "dg_tail b = 0" "dg_circular_length b \<le> dg_head b + 2 + length d"
  shows "\<exists>b'. dg_read_from d b = Some (Inr (), b') \<and> dg_is_empty b' \<and> dg_holds b' []"
proof -
  have inv: "dg_inv b" using holds by (simp add: dg_holds_def)
  moreover have "dg_has_enough_space_for (length d) b"
    using lost by (simp add: dg_has_enough_space_for_def)
  ultimately show ?thesis
    using dg_read_from_eq [OF inv _ len] lost by (fastforce simp: dg_holds_def dg_inv_def dg_is_empty_def)
qed

lemma dg_read_from_full:
  assumes "length d \<le> 65536" and "\<not> dg_has_enough_space_for (length d) b"
  shows "dg_read_from d b = Some (Inl OtherError, b)"
  using assms by (simp add: dg_read_from_def max_datagram_length_def)

section \<open>Sending a datagram\<close>

text \<open>What \<open>write_to\<close> reports for a datagram handed to the sender \<open>S\<close>.\<close>

definition send_outcome :: "datagram_sender \<Rightarrow> bytes \<Rightarrow> unit io_result" where
  "send_outcome S d = (case S d of Inl e \<Rightarrow> Inl e
     | Inr w \<Rightarrow> if w \<noteq> length d then Inl OtherError else Inr ())"

lemma dg_write_to_ok:
  assumes holds: "dg_holds b (d # ds)"
  shows "\<exists>b'. dg_write_to S b = Some (send_outcome S d, b') \<and> dg_holds b' ds"
proof -
  let ?t = "dg_tail b" and ?c = "dg_circular_length b"
  let ?t' = "?t + 2 + length d"
  have inv: "dg_inv b" using holds by (simp add: dg_holds_def)
  have bl: "block_at (dg_buf b) ?t d" using holds by (auto simp: dg_holds_def split: if_splits)
  have ne: "\<not> dg_is_empty b" using dg_holds_empty [OF holds] by simp
  let ?b' = "b\<lparr>dg_tail := (if ?t' \<ge> ?c then 0 else ?t')\<rparr>"
  have "length d < 65536" using bl by (simp add: block_at_def)
  then have "unat (of_nat (length d) :: u16) = length d" by (rule unat_of_nat_u16)
  then have eq: "dg_write_to S b = Some (send_outcome S d, ?b')"
    using ne block_at_slice [OF bl]
    by (auto simp: send_outcome_def dg_write_to_def dg_read_length_def Let_def split: sum.splits)
  have "dg_holds ?b' ds"
  proof (cases "?t \<le> dg_head b")
    case True
    then have t: "tiled (dg_buf b) ?t' ds (dg_head b)" using holds by (simp add: dg_holds_def)
    then have "?t' \<le> dg_head b" by (rule tiled_le)
    then show ?thesis using t inv by (auto simp: dg_holds_def dg_inv_def)
  next
    case False
    then have "if ?c \<le> ?t' then tiled (dg_buf b) 0 ds (dg_head b)
        else wrapped (dg_buf b) ?c ?t' ds (dg_head b)"
      using holds by (simp add: dg_holds_def split: if_splits)
    then show ?thesis using False inv by (auto simp: dg_holds_def dg_inv_def)
  qed
  then show ?thesis using eq by blast
qed

lemma dg_write_to_empty: "dg_holds b [] \<Longrightarrow> dg_write_to S b = None"
  using dg_holds_empty [of b "[]"] by (simp add: dg_write_to_def)

text \<open>
  The assertion admits a datagram of 65536 bytes, whose length does not fit the two-byte header:
  it is stored as an empty datagram.
\<close>

lemma dg_read_from_truncates:
  assumes "length d = 65536" and "65538 \<le> c"
  shows "\<exists>b. dg_read_from d (dg_new c) = Some (Inr (), b)
    \<and> (\<forall>S. \<exists>b'. dg_write_to S b = Some (send_outcome S [], b'))"
proof -
  let ?buf = "enc16 0 @ d @ replicate c 0"
  let ?b = "\<lparr>dg_buf = ?buf, dg_head = 65538, dg_tail = 0, dg_circular_length = c + 1\<rparr>"
  have z: "enc16 65536 = enc16 0" by (simp add: enc16_def)
  have "dg_read_from d (dg_new c) = Some (Inr (), ?b)"
    using assms z
    by (simp add: dg_read_from_def dg_new_def max_block_length_def dg_header_length_def
        max_datagram_length_def dg_has_enough_space_for_def dg_write_length_def write_u16_def
        splice_def Let_def)
  moreover have "read_u16 ?buf 0 = Some 0" by (simp add: read_u16_def enc16_def be16_def)
  then have "dg_write_to S ?b = Some (send_outcome S [], ?b\<lparr>dg_tail := 2\<rparr>)" for S
    using assms by (auto simp: send_outcome_def dg_write_to_def dg_is_empty_def dg_read_length_def slice_def Let_def
        split: sum.splits)
  ultimately show ?thesis by blast
qed

section \<open>As a datagram queue\<close>

text \<open>
  What a UDP flow relies on: datagrams that are accepted leave one by one, whole, in order, each
  exactly once, whatever the socket answers; one is refused only when the blocks would take more
  room than there is.
\<close>

datatype datagram_op = Enqueue bytes | Dequeue datagram_sender

text \<open>The room the blocks of datagrams take.\<close>

definition blocks_length :: "bytes list \<Rightarrow> nat" where
  "blocks_length ds = (\<Sum>d\<leftarrow>ds. dg_header_length + length d)"

text \<open>
  The abstract queue: \<open>fifo c ops rs q\<close> checks the results \<open>rs\<close> of the operations against a list of
  datagrams \<open>q\<close> and the capacity \<open>c\<close>, and returns the datagrams left.
\<close>

fun fifo :: "nat \<Rightarrow> datagram_op list \<Rightarrow> unit io_result list \<Rightarrow> bytes list \<Rightarrow> bytes list option" where
  "fifo c [] [] q = Some q"
| "fifo c (Enqueue d # ops) (r # rs) q =
     (if r = Inr () then fifo c ops rs (q @ [d])
      else if r = Inl OtherError \<and> c < blocks_length (q @ [d]) then fifo c ops rs q else None)"
| "fifo c (Dequeue S # ops) (r # rs) (d # q) = (if r = send_outcome S d then fifo c ops rs q else None)"
| "fifo _ _ _ _ = None"

locale datagram_queue =
  fixes holds :: "'s \<Rightarrow> bytes list \<Rightarrow> bool"
    and capacity :: "'s \<Rightarrow> nat"
    and idle :: "'s \<Rightarrow> bool"
    and safe :: "bytes \<Rightarrow> 's \<Rightarrow> bool"
    and enq :: "bytes \<Rightarrow> 's \<Rightarrow> (unit io_result \<times> 's) option"
    and deq :: "datagram_sender \<Rightarrow> 's \<Rightarrow> (unit io_result \<times> 's) option"
  assumes enq_holds: "holds s ds \<Longrightarrow> safe d s \<Longrightarrow> \<exists>r s'. enq d s = Some (r, s') \<and> capacity s' = capacity s \<and>
      (if r = Inr () then holds s' (ds @ [d])
       else r = Inl OtherError \<and> s' = s \<and> capacity s < blocks_length (ds @ [d]))"
    and deq_holds: "holds s (d # ds) \<Longrightarrow>
      \<exists>s'. deq S s = Some (send_outcome S d, s') \<and> capacity s' = capacity s \<and> holds s' ds"
    and idle_holds: "holds s ds \<Longrightarrow> idle s \<longleftrightarrow> ds = []"
begin

fun run :: "datagram_op list \<Rightarrow> 's \<Rightarrow> (unit io_result list \<times> 's) option" where
  "run [] s = Some ([], s)"
| "run (Enqueue d # ops) s = do { (r, s) \<leftarrow> enq d s; (rs, s) \<leftarrow> run ops s; Some (r # rs, s) }"
| "run (Dequeue S # ops) s = do { (r, s) \<leftarrow> deq S s; (rs, s) \<leftarrow> run ops s; Some (r # rs, s) }"

text \<open>Every datagram is safe when it is offered, and none is asked from an empty store.\<close>

fun careful :: "datagram_op list \<Rightarrow> 's \<Rightarrow> bool" where
  "careful [] s \<longleftrightarrow> True"
| "careful (Enqueue d # ops) s \<longleftrightarrow> safe d s \<and> (case enq d s of Some (r, s') \<Rightarrow> careful ops s' | None \<Rightarrow> True)"
| "careful (Dequeue S # ops) s \<longleftrightarrow> \<not> idle s \<and> (case deq S s of Some (r, s') \<Rightarrow> careful ops s' | None \<Rightarrow> True)"

lemma run_fifo:
  "holds s ds \<Longrightarrow> careful ops s \<Longrightarrow> \<exists>rs s' q. run ops s = Some (rs, s') \<and> fifo (capacity s) ops rs ds = Some q
    \<and> holds s' q \<and> capacity s' = capacity s"
proof (induction ops arbitrary: s ds)
  case (Cons op ops)
  show ?case
  proof (cases op)
    case (Enqueue d)
    then obtain r s1 where e: "enq d s = Some (r, s1)" "capacity s1 = capacity s"
      "if r = Inr () then holds s1 (ds @ [d]) else r = Inl OtherError \<and> s1 = s \<and> capacity s < blocks_length (ds @ [d])"
      using enq_holds [OF Cons.prems(1), of d] Cons.prems(2) by fastforce
    show ?thesis
      using Cons.IH [of s1 "if r = Inr () then ds @ [d] else ds"] Cons.prems e Enqueue by (cases "r = Inr ()") fastforce+
  next
    case (Dequeue S)
    then obtain d q where ds: "ds = d # q" using idle_holds [OF Cons.prems(1)] Cons.prems(2) by (cases ds) auto
    then obtain s1 where "deq S s = Some (send_outcome S d, s1)" "capacity s1 = capacity s" "holds s1 q"
      using deq_holds Cons.prems(1) by blast
    then show ?thesis using Cons.IH [of s1 q] Cons.prems(2) ds Dequeue by fastforce
  qed
qed simp

end

text \<open>
  A datagram is safe unless it would bring the head back onto the tail, which
  \<open>dg_read_from_forgets\<close> describes.
\<close>

definition dg_safe :: "bytes \<Rightarrow> datagram_buffer \<Rightarrow> bool" where
  "dg_safe d b \<longleftrightarrow> length d \<le> 65535 \<and> (0 < dg_tail b \<or> dg_head b + 2 + length d < dg_circular_length b)"

lemma tiled_length: "tiled buf t ds h \<Longrightarrow> t + blocks_length ds = h"
  by (induction ds arbitrary: t) (fastforce simp: blocks_length_def dg_header_length_def)+

lemma wrapped_length: "wrapped buf circ t ds h \<Longrightarrow> circ + h \<le> t + blocks_length ds"
proof (induction ds arbitrary: t)
  case (Cons d ds)
  show ?case
  proof (cases "circ \<le> t + 2 + length d")
    case True
    then have "tiled buf 0 ds h" using Cons.prems by simp
    then show ?thesis using tiled_length [of buf 0 ds h] True by (simp add: blocks_length_def dg_header_length_def)
  next
    case False
    then show ?thesis using Cons by (fastforce simp: blocks_length_def dg_header_length_def)
  qed
qed simp

text \<open>A datagram is refused only when the blocks, its own included, exceed the capacity of the buffer.\<close>

lemma dg_refused:
  assumes "dg_holds b ds" and "\<not> dg_has_enough_space_for (length d) b"
  shows "dg_circular_length b \<le> blocks_length (ds @ [d])"
proof -
  have lt: "dg_head b < dg_tail b" "dg_tail b - dg_head b - 1 < 2 + length d"
    using assms(2) by (auto simp: dg_has_enough_space_for_def dg_header_length_def Let_def split: if_splits)
  then have "dg_circular_length b + dg_head b \<le> dg_tail b + blocks_length ds"
    using assms(1) wrapped_length by (auto simp: dg_holds_def)
  then show ?thesis using lt by (simp add: blocks_length_def dg_header_length_def)
qed

definition dg_capacity :: "datagram_buffer \<Rightarrow> nat" where
  "dg_capacity b = dg_circular_length b - 1"

lemma dg_read_from_circ:
  "dg_read_from d b = Some (r, b') \<Longrightarrow> dg_circular_length b' = dg_circular_length b"
  by (auto simp: dg_read_from_def dg_write_length_def Let_def bind_eq_Some_conv split: if_splits)

text \<open>Where the two positions are after a call, to follow a run on a concrete buffer.\<close>

lemma dg_read_from_moves:
  assumes "dg_holds b ds" and "dg_safe d b" and "dg_has_enough_space_for (length d) b"
  shows "\<exists>b'. dg_read_from d b = Some (Inr (), b') \<and> dg_holds b' (ds @ [d]) \<and> dg_tail b' = dg_tail b
    \<and> dg_circular_length b' = dg_circular_length b
    \<and> dg_head b' = (if dg_circular_length b \<le> dg_head b + 2 + length d then 0 else dg_head b + 2 + length d)"
proof -
  have "dg_inv b" "length d \<le> 65535" using assms by (auto simp: dg_holds_def dg_safe_def)
  then obtain buf where "dg_read_from d b = Some (Inr (), b\<lparr>dg_buf := buf, dg_head :=
      (if dg_circular_length b \<le> dg_head b + 2 + length d then 0 else dg_head b + 2 + length d)\<rparr>)"
    using dg_read_from_eq [of b d] assms(3) by blast
  moreover obtain b' where "dg_read_from d b = Some (Inr (), b')" "dg_holds b' (ds @ [d])"
    using dg_read_from_ok [OF assms(1) _ assms(3)] assms(2) by (auto simp: dg_safe_def)
  ultimately show ?thesis by (auto split: if_splits)
qed

lemma dg_write_to_moves:
  assumes "dg_holds b (d # ds)"
  shows "\<exists>b'. dg_write_to S b = Some (send_outcome S d, b') \<and> dg_holds b' ds \<and> dg_head b' = dg_head b
    \<and> dg_circular_length b' = dg_circular_length b
    \<and> dg_tail b' = (if dg_circular_length b \<le> dg_tail b + 2 + length d then 0 else dg_tail b + 2 + length d)"
proof -
  obtain b' where b': "dg_write_to S b = Some (send_outcome S d, b')" "dg_holds b' ds"
    using dg_write_to_ok [OF assms] by blast
  have bl: "block_at (dg_buf b) (dg_tail b) d" using assms by (auto simp: dg_holds_def split: if_splits)
  then have "length d < 65536" by (simp add: block_at_def)
  then have "unat (of_nat (length d) :: u16) = length d" by (rule unat_of_nat_u16)
  then have "dg_head b' = dg_head b \<and> dg_circular_length b' = dg_circular_length b
    \<and> dg_tail b' = (if dg_circular_length b \<le> dg_tail b + 2 + length d then 0 else dg_tail b + 2 + length d)"
    using b'(1) block_at_slice [OF bl] dg_holds_empty [OF assms]
    by (cases "S d") (auto simp: dg_write_to_def dg_read_length_def Let_def)
  then show ?thesis using b' by blast
qed

interpretation dgq: datagram_queue dg_holds dg_capacity dg_is_empty dg_safe dg_read_from dg_write_to
proof
  fix b :: datagram_buffer and ds :: "bytes list" and d :: bytes
  assume h: "dg_holds b ds" and safe: "dg_safe d b"
  show "\<exists>r b'. dg_read_from d b = Some (r, b') \<and> dg_capacity b' = dg_capacity b \<and>
    (if r = Inr () then dg_holds b' (ds @ [d])
     else r = Inl OtherError \<and> b' = b \<and> dg_capacity b < blocks_length (ds @ [d]))"
  proof (cases "dg_has_enough_space_for (length d) b")
    case True
    obtain b' where "dg_read_from d b = Some (Inr (), b')" "dg_holds b' (ds @ [d])"
      using dg_read_from_ok [OF h _ True] safe by (auto simp: dg_safe_def)
    then show ?thesis using dg_read_from_circ by (fastforce simp: dg_capacity_def)
  next
    case False
    have "0 < dg_circular_length b" using h by (auto simp: dg_holds_def dg_inv_def)
    then have "dg_capacity b < blocks_length (ds @ [d])" using dg_refused [OF h False] by (simp add: dg_capacity_def)
    then show ?thesis using dg_read_from_full [OF _ False] safe by (simp add: dg_safe_def)
  qed
next
  fix b :: datagram_buffer and d :: bytes and ds S
  assume "dg_holds b (d # ds)"
  then obtain b' where "dg_write_to S b = Some (send_outcome S d, b')" "dg_holds b' ds"
    "dg_circular_length b' = dg_circular_length b"
    using dg_write_to_moves [of b d ds S] by blast
  then show "\<exists>b'. dg_write_to S b = Some (send_outcome S d, b') \<and> dg_capacity b' = dg_capacity b \<and> dg_holds b' ds"
    by (simp add: dg_capacity_def)
next
  fix b :: datagram_buffer and ds
  assume "dg_holds b ds"
  then show "dg_is_empty b \<longleftrightarrow> ds = []" by (rule dg_holds_empty)
qed

end
