(* ===== verification/Samples.thy ===== *)
theory Samples
  imports Tcp_Facts Ipv6_Packetizer Datagram_Buffer
begin

text \<open>
  Concrete packets and states: a SYN from 10.0.0.2:49152 to 93.184.216.34:80, a UDP query of
  eight payload bytes to the virtual resolver, an IPv6 UDP packet, and a TCP connection on a
  registered token.  The properties are applied to them.
\<close>

definition sample_syn :: bytes where
  "sample_syn = [0x45, 0, 0, 40, 0, 0, 0, 0, 64, 6, 0, 0, 10, 0, 0, 2, 93, 184, 216, 34,
     0xC0, 0, 0, 80, 0, 0, 0, 100, 0, 0, 0, 0, 0x50, 0x02, 0xFF, 0xFF, 0, 0, 0, 0]"

definition sample_udp :: bytes where
  "sample_udp = [0x45, 0, 0, 36, 0, 0, 0, 0, 64, 17, 0, 0, 10, 0, 0, 2, 10, 0, 0, 53,
     0xC0, 1, 0, 53, 0, 16, 0, 0, 1, 2, 3, 4, 5, 6, 7, 8]"

definition sample_v6 :: bytes where
  "sample_v6 = [0x60, 0, 0, 0, 0, 12, 17, 64] @ replicate 15 0 @ [1] @ replicate 15 0 @ [2]
     @ [0xC0, 1, 0, 53, 0, 12, 0, 0, 1, 2, 3, 4]"

definition sample_packet :: ipv4_packet where
  "sample_packet = \<lparr>ip_raw = sample_syn,
     ip_header_data = \<lparr>ih_version = 4, ih_header_length = 20, ih_total_length = 40, ih_protocol = Tcp,
       ih_source = 0x0A000002, ih_destination = 0x5DB8D822\<rparr>,
     ip_transport_data = Some (TcpTransport \<lparr>th_source_port = 0xC000, th_destination_port = 80,
       th_sequence_number = 100, th_acknowledgement_number = 0, th_header_length = 20,
       th_flags = 2, th_window = 0xFFFF\<rparr>)\<rparr>"

lemma sample_packet_parse: "ip_packet_parse sample_syn = ok (Ipv4 sample_packet)"
  by code_simp

lemma sample_packet_accepted: "ipv4_accepted sample_packet"
  using ip_packet_parse_ok [OF sample_packet_parse] by simp

definition sample_tcp :: tcp_header_data where
  "sample_tcp = \<lparr>th_source_port = 0xC000, th_destination_port = 80, th_sequence_number = 100,
     th_acknowledgement_number = 0, th_header_length = 20, th_flags = 2, th_window = 0xFFFF\<rparr>"

lemma sample_tcp_packet: "tcp_packet sample_packet sample_tcp"
  using sample_packet_accepted by (simp add: tcp_packet_def sample_packet_def sample_tcp_def)

text \<open>The packetizer that answers the SYN.\<close>

definition sample_pk :: packetizer where
  "sample_pk = the (packetizer_new (take 20 sample_syn, ip_header_data sample_packet)
     (drop 20 sample_syn, TcpTransport sample_tcp))"

lemma sample_pk_new: "packetizer_new (take 20 sample_syn, ip_header_data sample_packet)
    (drop 20 sample_syn, TcpTransport sample_tcp) = Some sample_pk"
  and sample_pk_tcp: "tcp_pk sample_pk (sample_tcp\<lparr>th_source_port := 80, th_destination_port := 0xC000\<rparr>)"
  and sample_pk_ip: "pk_ipv4_header_data sample_pk = swapped_ipv4 (ip_header_data sample_packet)"
proof -
  have p: "ipv4_header_parse (take 20 sample_syn) = Some (ip_header_data sample_packet)" by code_simp
  have "tcp_header_parse (drop 20 sample_syn) = Some sample_tcp" by code_simp
  then have m: "transport_matches (ih_protocol (ip_header_data sample_packet)) (TcpTransport sample_tcp) (drop 20 sample_syn)"
    by (simp add: transport_matches_protocol sample_packet_def sample_tcp_def)
  have l: "length (take 20 sample_syn) = unat (ih_header_length (ip_header_data sample_packet))"
    "length (drop 20 sample_syn) = unat (transport_header_length (TcpTransport sample_tcp))"
    by code_simp+
  have c: "drop_bit 4 (take 20 sample_syn ! 0) = 4" "take 20 sample_syn ! 6 AND 0x3f = 0"
    "take 20 sample_syn ! 7 = 0" "20 \<le> length (take 20 sample_syn)"
    by code_simp+
  obtain q where "packetizer_new (take 20 sample_syn, ip_header_data sample_packet)
      (drop 20 sample_syn, TcpTransport sample_tcp) = Some q" "pk_inv q"
    "pk_transport_header_data q = swapped_transport (TcpTransport sample_tcp)"
    "pk_ipv4_header_data q = swapped_ipv4 (ip_header_data sample_packet)"
    using packetizer_new_ok [OF p l(1) c(4) m l(2) c(1-3)] by blast
  then show "packetizer_new (take 20 sample_syn, ip_header_data sample_packet)
      (drop 20 sample_syn, TcpTransport sample_tcp) = Some sample_pk"
    and "tcp_pk sample_pk (sample_tcp\<lparr>th_source_port := 80, th_destination_port := 0xC000\<rparr>)"
    and "pk_ipv4_header_data sample_pk = swapped_ipv4 (ip_header_data sample_packet)"
    by (simp_all add: sample_pk_def tcp_pk_def sample_tcp_def)
qed

lemma sample_pk_inv: "pk_inv sample_pk"
  using sample_pk_tcp by (simp add: tcp_pk_def)

lemma sample_pk_indices: "pk_payload_index sample_pk = 40" "pk_transport_index sample_pk = 20"
  using sample_pk_inv sample_pk_tcp sample_pk_ip
  by (simp_all add: pk_inv_def tcp_pk_def swapped_ipv4_def sample_packet_def sample_tcp_def)

definition sample_poll :: poll where
  "sample_poll = (\<lambda>_. None)"

lemma sample_poll_works: "poll_works sample_poll"
  by (simp add: poll_works_def sample_poll_def)

definition sample_connection :: tcp_connection where
  "sample_connection = \<lparr>tc_id = connection_id_from_headers (ip_header_data sample_packet) (TcpTransport sample_tcp),
     tc_stream = 7, tc_interests = ready_writable, tc_token = 3,
     tc_client_to_network = sb_new (4 * MAX_PACKET_LENGTH), tc_network_to_client = sample_pk,
     tc_packet_for_client_length = None, tc_closed = False, tc_tcb = tcb_new,
     tc_idle_since = 0, tc_created_at = 0\<rparr>"

definition sample_env :: conn_env where
  "sample_env = \<lparr>en_channel = \<lparr>ch_network_to_client = sb_new (16 * MAX_PACKET_LENGTH), ch_stream = 5,
       ch_token = 2, ch_interests = ready_readable\<rparr>,
     en_selector = selector_create\<lparr>sel_handlers := [3 \<mapsto> ConnectionHandler 0, 2 \<mapsto> ClientHandler 0]\<rparr>,
     en_requests = []\<rparr>"

lemma sample_ctx_inv: "ctx_inv (sample_connection, sample_env)"
proof -
  have "length (sb_buf (sb_new c)) = c + 1" for c by (simp add: sb_new_def)
  then show ?thesis
    using sample_pk_tcp
    by (auto simp: ctx_inv_def tc_inv_def sample_connection_def sample_env_def ch_inv_def sel_inv_def
        live_token_def selector_create_def)
qed

definition sample_v6_packet :: ipv6_packet where
  "sample_v6_packet = (case ip_packet_parse sample_v6 of Some (Inr (Ipv6 q)) \<Rightarrow> q
     | _ \<Rightarrow> \<lparr>i6p_raw = [], i6p_header_data = \<lparr>i6_payload_length = 0, i6_next_header = 0, i6_source = [],
         i6_destination = []\<rparr>, i6p_transport_data = TcpTransport sample_tcp\<rparr>)"

lemma sample_v6_parse: "ip_packet_parse sample_v6 = ok (Ipv6 sample_v6_packet)"
  by code_simp

lemma sample_v6_new:
  "\<exists>p. ipv6_packetizer_new (take 40 sample_v6, i6p_header_data sample_v6_packet)
      (drop 40 (take 48 sample_v6), i6p_transport_data sample_v6_packet) = Some p
    \<and> p6_inv p \<and> p6_payload_index p = 48"
proof -
  have raw: "i6p_raw sample_v6_packet = sample_v6" by code_simp
  have th: "ipv6_packet_transport_header sample_v6_packet
      = Some (drop 40 (take 48 sample_v6), i6p_transport_data sample_v6_packet)"
    by code_simp
  have ok: "ipv6_packet_ok sample_v6_packet" using ip_packet_parse_ok [OF sample_v6_parse] by simp
  obtain p where p: "ipv6_packetizer_new (take 40 sample_v6, i6p_header_data sample_v6_packet)
      (drop 40 (take 48 sample_v6), i6p_transport_data sample_v6_packet) = Some p" "p6_inv p"
    "p6_transport_header_data p = swapped_transport (i6p_transport_data sample_v6_packet)"
    using ipv6_packetizer_new_ok [OF ok th] raw by auto
  moreover have "unat (transport_header_length (swapped_transport (i6p_transport_data sample_v6_packet))) = 8"
    by code_simp
  ultimately show ?thesis by (auto simp: p6_inv_def)
qed

end
