(* ===== verification/Tcp_Events.thy ===== *)
theory Tcp_Events
  imports Tcp_Facts
begin

text \<open>
  The events of the socket of a TCP connection: connection, data in, data out, errors, expiry and
  the deferred packet.  An event is handled without a panic when the readiness it reports is one
  the connection may act on.
\<close>

section \<open>Reading\<close>

text \<open>A data segment: the numbers of the control block, \<open>ACK\<close> and \<open>PSH\<close>, and the bytes read.\<close>

definition data_segment :: "tcp_connection \<Rightarrow> bytes \<Rightarrow> ipv4_packet \<Rightarrow> bool" where
  "data_segment c bs q \<longleftrightarrow> ipv4_sendable q \<and> ipv4_payload_bytes q = Some bs
     \<and> packet_endpoints q = Some (pk_endpoints (tc_network_to_client c))
     \<and> length (ip_raw q) = pk_payload_index (tc_network_to_client c) + length bs
     \<and> (\<exists>d. ip_transport_data q = Some (TcpTransport d)
         \<and> th_sequence_number d = tcb_sequence_number (tc_tcb c)
         \<and> th_acknowledgement_number d = tcb_acknowledgement_number (tc_tcb c)
         \<and> th_flags d = FLAG_ACK OR FLAG_PSH)"

lemma tcp_pk_index: "tcp_pk p d \<Longrightarrow> pk_payload_index p \<le> 120"
  using pk_invD(7) [of p] by (simp add: tcp_pk_def)

lemma read_adapter_recv_cases:
  assumes "reader_ok R"
  obtains (err) e where "read_adapter_recv R (Some m) n = Inl e"
  | (eof) "read_adapter_recv R (Some m) n = Inr []"
  | (data) bs where "read_adapter_recv R (Some m) n = Inr bs" "bs \<noteq> []" "length bs \<le> m" "length bs \<le> n"
  using assms
  by (cases "read_adapter_recv R (Some m) n"; cases "projr (read_adapter_recv R (Some m) n)")
    (fastforce simp: read_adapter_recv_def reader_ok_def)+

text \<open>The read proper, after the headers were stamped.\<close>

lemma packetize_stamped:
  assumes inv: "tcp_pk (tc_network_to_client c) d" and R: "reader_ok R" and m: "m < 0x4000"
  shows "\<exists>p r p'. update_headers (tc_tcb c) (FLAG_ACK OR FLAG_PSH) (tc_network_to_client c) = Some p
    \<and> packetize_read R (Some m) p = Some (r, p') \<and> (\<exists>d'. tcp_pk p' d')
    \<and> pk_endpoints p' = pk_endpoints (tc_network_to_client c)
    \<and> (case r of Inr (Some q) \<Rightarrow> (\<exists>bs. bs \<noteq> [] \<and> length bs \<le> m \<and> data_segment c bs q
        \<and> packetizer_inflate (ipv4_packet_length q) p' = Some q) | _ \<Rightarrow> True)
    \<and> (case R m of Inl f \<Rightarrow> r = Inl f
        | Inr bs \<Rightarrow> if bs = [] then r = Inr None else \<exists>q. r = Inr (Some q) \<and> data_segment c bs q)"
proof -
  let ?n = "tc_network_to_client c"
  obtain p where p: "update_headers (tc_tcb c) (FLAG_ACK OR FLAG_PSH) ?n = Some p"
    "tcp_pk p (stamped (tc_tcb c) (FLAG_ACK OR FLAG_PSH) d)" "pk_ipv4_header_data p = pk_ipv4_header_data ?n"
    "pk_payload_index p = pk_payload_index ?n"
    using update_headers_ok [OF inv flag_values(7)] by blast
  then have pi: "pk_inv p" and td: "pk_transport_header_data p = TcpTransport (stamped (tc_tcb c) (FLAG_ACK OR FLAG_PSH) d)"
    by (simp_all add: tcp_pk_def)
  have e: "pk_endpoints p = pk_endpoints ?n"
    using p(3) td inv by (simp add: pk_endpoints_def tcp_pk_def stamped_def)
  have "min m (pk_room p) = m"
    using m tcp_pk_index [OF p(2)] pk_invD(1) [OF pi] by (simp add: pk_room_def)
  then have Rm: "read_adapter_recv R (Some m) (pk_room p) = R m" by (simp add: read_adapter_recv_def)
  from R show ?thesis
  proof (cases rule: read_adapter_recv_cases [where m = m and n = "pk_room p"])
    case (err f)
    then show ?thesis using p(1,2) e packetize_read_error [OF pi err] Rm by auto
  next
    case eof
    then show ?thesis using p(1,2) e packetize_read_eof [OF pi eof] Rm by auto
  next
    case (data bs)
    have cap: "length bs \<le> pk_capacity p"
      using data(3) m tcp_pk_index [OF p(2)] by (simp add: pk_capacity_def)
    obtain q p' where q: "packetize_read R (Some m) p = Some (Inr (Some q), p')" "pk_inv p'"
      "ipv4_sendable q" "ipv4_payload_bytes q = Some bs"
      "ip_header_data q = (pk_ipv4_header_data p)\<lparr>ih_total_length := of_nat (pk_payload_index p + length bs)\<rparr>"
      "ip_transport_data q = Some (pk_transport_header_data p)"
      "length (ip_raw q) = pk_payload_index p + length bs"
      "pk_transport_header_data p' = pk_transport_header_data p" "pk_ipv4_header_data p' = ip_header_data q"
      "packetizer_inflate (ipv4_packet_length q) p' = Some q"
      using packetize_read_ok [OF pi data(1) cap data(2)] by blast
    have "data_segment c bs q"
      using q(3-7) td p(4) e by (simp add: data_segment_def packet_endpoints_def pk_endpoints_def stamped_def)
    moreover have "tcp_pk p' (stamped (tc_tcb c) (FLAG_ACK OR FLAG_PSH) d)"
      using q(2,8) td p(2) by (simp add: tcp_pk_def)
    moreover have "pk_endpoints p' = pk_endpoints ?n"
      using q(5,8,9) e by (simp add: pk_endpoints_def)
    ultimately show ?thesis using p(1) q(1,10) data(1-3) Rm by auto
  qed
qed

text \<open>The state in which a read may end the stream.\<close>

lemma may_read_state: "may_read c \<Longrightarrow> tcb_state (tc_tcb c) \<in> {Established, CloseWait}"
  by (cases "tcb_state (tc_tcb c)") (simp_all add: may_read_def is_connected_def state_is_closed_def)

lemma may_readD:
  "may_read c \<Longrightarrow> tc_packet_for_client_length c = None \<and> 0 < remaining_client_window (tc_tcb c)"
  by (auto simp: may_read_def split: if_splits)

lemma tcp_eof_ok:
  assumes P: "poll_works P" and inv: "ctx_inv x" and s: "state_of x \<in> {Established, CloseWait}"
  shows "\<exists>y. tcp_eof P x = Some y \<and> step_ok x y \<and> quiet x y \<and> tc_closed (fst y) = tc_closed (fst x)
    \<and> state_of y = (if state_of x = CloseWait then LastAck else FinWait1)"
proof -
  obtain y where y: "reply_empty_packet_to_client P (FLAG_FIN OR FLAG_ACK) x = Some y" "step_ok x y"
    "quiet x y" "tc_tcb (fst y) = tc_tcb (fst x)" "tc_closed (fst y) = tc_closed (fst x)"
    using reply_then [OF P inv flag_values(5)] by blast
  let ?z = "tcb_update (\<lambda>t. t\<lparr>tcb_fin_sequence_number := Some (tcb_sequence_number t),
    tcb_sequence_number := tcb_sequence_number t + 1,
    tcb_state := (if tcb_state t = CloseWait then LastAck else FinWait1)\<rparr>) y"
  have "tcp_edge\<^sup>*\<^sup>* Established FinWait1" "tcp_edge\<^sup>*\<^sup>* CloseWait LastAck"
    by (rule r_into_rtranclp, rule tcp_edge.intros)+
  then have "step_ok y ?z"
    by (intro step_ok_tcb [OF step_ok_inv [OF y(2)]]) (use y(4) s in auto)
  then have "step_ok x ?z" using y(2) step_ok_trans by blast
  moreover have "quiet x ?z" using y(3) by (simp add: quiet_def)
  ultimately show ?thesis
    using y by (intro exI [of _ ?z]) (simp add: tcp_eof_def send_empty_packet_to_client_def)
qed

text \<open>
  How a read ends: the packet went to the client, or it is deferred and can be rebuilt whole, or
  the connection did something else and owes nothing.
\<close>

definition owes_packet :: "tcp_connection \<Rightarrow> ipv4_packet \<Rightarrow> bool" where
  "owes_packet c q \<longleftrightarrow> tcp_get c = Some (Some q) \<and> tc_packet_for_client_length c \<noteq> None"

lemma tcp_process_receive_ok:
  assumes P: "poll_works P" and inv: "ctx_inv x" and op: "\<not> tc_closed (fst x)" and R: "reader_ok R"
    and may: "may_read (fst x)"
  shows "\<exists>r y. tcp_process_receive P R x = Some (r, y) \<and> step_ok x y
    \<and> tc_interests (fst y) = tc_interests (fst x)
    \<and> (case r of Inl f \<Rightarrow> f = WouldBlock \<and> may_read (fst y) \<and> tc_closed (fst y) = tc_closed (fst x) | Inr _ \<Rightarrow> True)
    \<and> (en_requests (snd y) = en_requests (snd x) \<and> tc_packet_for_client_length (fst y) = None
      \<or> en_requests (snd y) = en_requests (snd x) @ [RegisterPendingSource]
        \<and> (\<exists>q bs. owes_packet (fst y) q \<and> data_segment (fst x) bs q) \<and> \<not> tc_closed (fst y))"
proof -
  obtain c e where x: "x = (c, e)" by (cases x)
  note M = may_readD [OF may] may_read_state [OF may]
  define m where "m = unat (min (remaining_client_window (tc_tcb c)) MAX_PAYLOAD_LENGTH)"
  have "unat MAX_PAYLOAD_LENGTH = 16344" by (simp add: MAX_PAYLOAD_LENGTH_def MTU_def)
  then have m: "m < 0x4000" by (simp add: m_def min_def word_le_nat_alt)
  obtain d where d: "tcp_pk (tc_network_to_client c) d" using inv by (auto simp: x ctx_inv_def tc_inv_def)
  obtain p r p' where p: "update_headers (tc_tcb c) (FLAG_ACK OR FLAG_PSH) (tc_network_to_client c) = Some p"
    "packetize_read R (Some m) p = Some (r, p')" "\<exists>d'. tcp_pk p' d'"
    "pk_endpoints p' = pk_endpoints (tc_network_to_client c)"
    "case r of Inr (Some q) \<Rightarrow> (\<exists>bs. bs \<noteq> [] \<and> length bs \<le> m \<and> data_segment c bs q
        \<and> packetizer_inflate (ipv4_packet_length q) p' = Some q) | _ \<Rightarrow> True"
    using packetize_stamped [OF d R m] by blast
  let ?c = "c\<lparr>tc_network_to_client := p'\<rparr>"
  have s: "step_ok x (?c, e)" "ctx_inv (?c, e)"
    using inv p(3,4) by (auto simp: x step_ok_def ctx_inv_def tc_inv_def tcp_frame_def)
  have mr: "may_read ?c" using may by (simp add: x)
  have pf: "tc_packet_for_client_length c = None" using M by (simp add: x)
  have run: "tcp_process_receive P R x = (case r of
      Inr (Some q) \<Rightarrow> do {
         (sent, e) \<leftarrow> send_through P (ip_raw q) e;
         case sent of
           Inr _ \<Rightarrow> do {
             payload \<leftarrow> ipv4_packet_payload q;
             bytes \<leftarrow> payload;
             Some (Inr (), tcb_update (\<lambda>t. t\<lparr>tcb_sequence_number :=
               tcb_sequence_number t + of_nat (length bytes)\<rparr>) (?c, e)) }
         | Inl _ \<Rightarrow> Some (Inr (), ?c\<lparr>tc_packet_for_client_length := Some (ipv4_packet_length q)\<rparr>,
             request RegisterPendingSource e) }
    | Inr None \<Rightarrow> do { x \<leftarrow> tcp_eof P (?c, e); Some (Inr (), x) }
    | Inl f \<Rightarrow> if f = WouldBlock then Some (Inl f, (?c, e))
        else do { x \<leftarrow> send_empty_packet_to_client P FLAG_RST (?c, e); Some (Inr (), tcp_close P x) })"
    using M p(1,2) by (simp add: x tcp_process_receive_def m_def Let_def)
  consider f where "r = Inl f" "f = WouldBlock" | f where "r = Inl f" "f \<noteq> WouldBlock"
    | "r = Inr None" | q where "r = Inr (Some q)"
    by (cases r) (auto simp: option.split split: option.splits)
  then show ?thesis
  proof cases
    case 1
    then show ?thesis using run s mr pf by (simp add: x)
  next
    case 2
    obtain y where y: "reply_empty_packet_to_client P FLAG_RST (?c, e) = Some y" "step_ok (?c, e) (tcp_close P y)"
      "quiet (?c, e) (tcp_close P y)"
      using reply_close_ok [OF P s(2) _ flag_values(3)] op by (auto simp: x)
    have "step_ok x (tcp_close P y)" using s(1) y(2) by (rule step_ok_trans)
    then show ?thesis
      using 2 run y pf by (intro exI [of _ "Inr ()"] exI [of _ "tcp_close P y"])
        (simp add: x send_empty_packet_to_client_def quiet_def)
  next
    case 3
    obtain y where y: "tcp_eof P (?c, e) = Some y" "step_ok (?c, e) y" "quiet (?c, e) y"
      using tcp_eof_ok [OF P s(2)] M by (auto simp: x)
    have "step_ok x y" using s(1) y(2) by (rule step_ok_trans)
    then show ?thesis
      using 3 run y pf by (intro exI [of _ "Inr ()"] exI [of _ y]) (simp add: x quiet_def)
  next
    case (4 q)
    obtain bs where bs: "data_segment c bs q" "packetizer_inflate (ipv4_packet_length q) p' = Some q"
      using p(5) 4 by auto
    have pay: "ipv4_packet_payload q = Some (Some bs)"
      using bs(1) by (cases "ipv4_packet_payload q") (simp_all add: data_segment_def ipv4_payload_bytes_def)
    have ch: "ch_inv (en_channel e)" using inv by (simp add: x ctx_inv_def)
    obtain e' where e': "send_through P (ip_raw q) e = Some
        (if length (ip_raw q) \<le> sb_remaining (ch_network_to_client (en_channel e)) then Inr () else Inl WouldBlock, e')"
      "offered e (ip_raw q) e'"
      using send_through_ok [OF P ch] by blast
    have s': "step_ok (?c, e) (?c\<lparr>tc_packet_for_client_length := l\<rparr>, e'\<lparr>en_requests := en_requests e @ rs\<rparr>)" for l rs
      using s(2) e'(2) same_tokens_inv by (auto simp: step_ok_def ctx_inv_def tc_inv_def tcp_frame_def offered_def)
    show ?thesis
    proof (cases "length (ip_raw q) \<le> sb_remaining (ch_network_to_client (en_channel e))")
      case True
      have eq: "e'\<lparr>en_requests := en_requests e @ []\<rparr> = e'" "?c\<lparr>tc_packet_for_client_length := None\<rparr> = ?c"
        using e'(2) pf by (simp_all add: offered_def)
      have se: "step_ok (?c, e) (?c, e')" using s' [of None "[]"] unfolding eq .
      let ?z = "tcb_update (\<lambda>t. t\<lparr>tcb_sequence_number := tcb_sequence_number t + of_nat (length bs)\<rparr>) (?c, e')"
      have "step_ok (?c, e') ?z" by (rule step_ok_tcb [OF step_ok_inv [OF se]]) simp
      then have "step_ok x ?z" using s(1) se by (blast intro: step_ok_trans)
      moreover have "en_requests (snd ?z) = en_requests e" using e'(2) by (simp add: offered_def)
      ultimately show ?thesis
        using run 4 e'(1) True pay pf by (intro exI [of _ "Inr ()"] exI [of _ ?z]) (simp add: x)
    next
      case False
      let ?z = "(?c\<lparr>tc_packet_for_client_length := Some (ipv4_packet_length q)\<rparr>, request RegisterPendingSource e')"
      have "step_ok (?c, e) ?z"
        using s' [of "Some (ipv4_packet_length q)" "[RegisterPendingSource]"] e'(2)
        by (simp add: request_def offered_def)
      then have "step_ok x ?z" using s(1) by (blast intro: step_ok_trans)
      moreover have "owes_packet (fst ?z) q" using bs(2) by (simp add: owes_packet_def tcp_get_def)
      moreover have "en_requests (snd ?z) = en_requests e @ [RegisterPendingSource]"
        using e'(2) by (simp add: request_def offered_def)
      ultimately show ?thesis
        using run 4 e'(1) False op bs(1) by (intro exI [of _ "Inr ()"] exI [of _ ?z]) (auto simp: x)
    qed
  qed
qed

text \<open>
  The same, by what the socket answers to the read of as many bytes as the window and the segment
  size allow: each answer has one outcome, and data goes to the client whole or is deferred whole.
\<close>

definition read_limit :: "tcp_connection \<Rightarrow> nat" where
  "read_limit c = unat (min (remaining_client_window (tc_tcb c)) MAX_PAYLOAD_LENGTH)"

abbreviation out_room :: "tcp_ctx \<Rightarrow> nat" where
  "out_room x \<equiv> sb_remaining (ch_network_to_client (en_channel (snd x)))"

abbreviation out_bytes :: "tcp_ctx \<Rightarrow> bytes" where
  "out_bytes x \<equiv> ch_contents (en_channel (snd x))"

definition delivered :: "tcp_ctx \<Rightarrow> ipv4_packet \<Rightarrow> tcp_ctx \<Rightarrow> bool" where
  "delivered x q y \<longleftrightarrow> out_bytes y = (if length (ip_raw q) \<le> out_room x then out_bytes x @ ip_raw q else out_bytes x)
     \<and> en_requests (snd y) = en_requests (snd x)"

definition data_outcome :: "tcp_ctx \<Rightarrow> bytes \<Rightarrow> tcp_ctx \<Rightarrow> bool" where
  "data_outcome x bs y \<longleftrightarrow> (\<exists>q. data_segment (fst x) bs q \<and> \<not> tc_closed (fst y) \<and>
     (if length (ip_raw q) \<le> out_room x
      then out_bytes y = out_bytes x @ ip_raw q \<and> en_requests (snd y) = en_requests (snd x)
        \<and> tc_packet_for_client_length (fst y) = None
        \<and> tcb_sequence_number (tc_tcb (fst y)) = tcb_sequence_number (tc_tcb (fst x)) + of_nat (length bs)
      else out_bytes y = out_bytes x \<and> en_requests (snd y) = en_requests (snd x) @ [RegisterPendingSource]
        \<and> owes_packet (fst y) q \<and> tc_tcb (fst y) = tc_tcb (fst x)))"

lemma tcp_receive_outcome:
  assumes P: "poll_works P" and inv: "ctx_inv x" and op: "\<not> tc_closed (fst x)" and R: "reader_ok R"
    and may: "may_read (fst x)"
  shows "\<exists>r y. tcp_process_receive P R x = Some (r, y) \<and> ctx_inv y \<and> (case R (read_limit (fst x)) of
      Inl f \<Rightarrow> if f = WouldBlock
        then r = Inl WouldBlock \<and> snd y = snd x \<and> tc_closed (fst y) = tc_closed (fst x) \<and> may_read (fst y)
        else r = Inr () \<and> tc_closed (fst y) \<and> (\<exists>q. control_segment (fst x) FLAG_RST q \<and> delivered x q y)
    | Inr bs \<Rightarrow> r = Inr () \<and> (if bs = []
        then state_of y = (if state_of x = CloseWait then LastAck else FinWait1) \<and> \<not> tc_closed (fst y)
          \<and> (\<exists>q. control_segment (fst x) (FLAG_FIN OR FLAG_ACK) q \<and> delivered x q y)
        else data_outcome x bs y))"
proof -
  obtain c e where x: "x = (c, e)" by (cases x)
  define m where "m = read_limit c"
  have "unat MAX_PAYLOAD_LENGTH = 16344" by (simp add: MAX_PAYLOAD_LENGTH_def MTU_def)
  then have m: "m < 0x4000" by (simp add: m_def read_limit_def min_def word_le_nat_alt)
  note M = may_readD [OF may]
  have pf: "tc_packet_for_client_length c = None" using M by (simp add: x)
  obtain r y where y: "tcp_process_receive P R x = Some (r, y)" "step_ok x y"
    "case r of Inl f \<Rightarrow> f = WouldBlock \<and> may_read (fst y) \<and> tc_closed (fst y) = tc_closed (fst x) | Inr _ \<Rightarrow> True"
    using tcp_process_receive_ok [OF P inv op R may] by blast
  obtain d where d: "tcp_pk (tc_network_to_client c) d" using inv by (auto simp: x ctx_inv_def tc_inv_def)
  obtain p u p' where p: "update_headers (tc_tcb c) (FLAG_ACK OR FLAG_PSH) (tc_network_to_client c) = Some p"
    "packetize_read R (Some m) p = Some (u, p')" "\<exists>d'. tcp_pk p' d'"
    "pk_endpoints p' = pk_endpoints (tc_network_to_client c)"
    "case u of Inr (Some q) \<Rightarrow> (\<exists>bs. bs \<noteq> [] \<and> length bs \<le> m \<and> data_segment c bs q
        \<and> packetizer_inflate (ipv4_packet_length q) p' = Some q) | _ \<Rightarrow> True"
    "case R m of Inl f \<Rightarrow> u = Inl f
        | Inr bs \<Rightarrow> if bs = [] then u = Inr None else \<exists>q. u = Inr (Some q) \<and> data_segment c bs q"
    using packetize_stamped [OF d R m] by blast
  let ?c = "c\<lparr>tc_network_to_client := p'\<rparr>"
  have i: "ctx_inv (?c, e)" using inv p(3,4) by (auto simp: x ctx_inv_def tc_inv_def)
  have cs: "control_segment ?c = control_segment c" using p(4) by (simp add: control_segment_def fun_eq_iff)
  have run: "tcp_process_receive P R x = (case u of
      Inr (Some q) \<Rightarrow> do {
         (sent, e) \<leftarrow> send_through P (ip_raw q) e;
         case sent of
           Inr _ \<Rightarrow> do {
             payload \<leftarrow> ipv4_packet_payload q;
             bytes \<leftarrow> payload;
             Some (Inr (), tcb_update (\<lambda>t. t\<lparr>tcb_sequence_number :=
               tcb_sequence_number t + of_nat (length bytes)\<rparr>) (?c, e)) }
         | Inl _ \<Rightarrow> Some (Inr (), ?c\<lparr>tc_packet_for_client_length := Some (ipv4_packet_length q)\<rparr>,
             request RegisterPendingSource e) }
    | Inr None \<Rightarrow> do { x \<leftarrow> tcp_eof P (?c, e); Some (Inr (), x) }
    | Inl f \<Rightarrow> if f = WouldBlock then Some (Inl f, (?c, e))
        else do { x \<leftarrow> send_empty_packet_to_client P FLAG_RST (?c, e); Some (Inr (), tcp_close P x) })"
    using M p(1,2) by (simp add: x tcp_process_receive_def m_def read_limit_def Let_def)
  have iy: "ctx_inv y" by (rule step_ok_inv [OF y(2)])
  have reply: "\<exists>z q. reply_empty_packet_to_client P flags (?c, e) = Some z \<and> control_segment c flags q \<and> delivered x q z
      \<and> tc_tcb (fst z) = tc_tcb c \<and> tc_closed (fst z) = tc_closed c" if "flags AND 0x1FF = flags" for flags
    using step_ok_reply [OF P i that] by (auto simp: cs x delivered_def offered_def)
  show ?thesis
  proof (cases "R m")
    case (Inl f)
    then have u: "u = Inl f" using p(6) by simp
    show ?thesis
    proof (cases "f = WouldBlock")
      case True
      then show ?thesis using y iy run u Inl by (auto simp: x m_def)
    next
      case False
      obtain z q where z: "reply_empty_packet_to_client P FLAG_RST (?c, e) = Some z" "control_segment c FLAG_RST q" "delivered x q z"
        using reply [OF flag_values(3)] by blast
      then have "r = Inr () \<and> y = tcp_close P z"
        using y(1) run u False by (simp add: send_empty_packet_to_client_def)
      then show ?thesis using y(1) iy z(2,3) Inl False
        by (intro exI [of _ r] exI [of _ y]) (auto simp: x m_def delivered_def tcp_close_def case_prod_beta)
    qed
  next
    case (Inr bs)
    show ?thesis
    proof (cases "bs = []")
      case True
      then have u: "u = Inr None" using p(6) Inr by simp
      obtain z q where z: "reply_empty_packet_to_client P (FLAG_FIN OR FLAG_ACK) (?c, e) = Some z"
        "control_segment c (FLAG_FIN OR FLAG_ACK) q" "delivered x q z" "tc_tcb (fst z) = tc_tcb c" "tc_closed (fst z) = tc_closed c"
        using reply [OF flag_values(5)] by blast
      let ?z = "tcb_update (\<lambda>t. t\<lparr>tcb_fin_sequence_number := Some (tcb_sequence_number t),
        tcb_sequence_number := tcb_sequence_number t + 1,
        tcb_state := (if tcb_state t = CloseWait then LastAck else FinWait1)\<rparr>) z"
      have "r = Inr () \<and> y = ?z"
        using y(1) run u z(1) by (simp add: tcp_eof_def send_empty_packet_to_client_def)
      then show ?thesis using y(1) iy z Inr True op
        by (intro exI [of _ r] exI [of _ y]) (auto simp: x m_def delivered_def tcb_update_def case_prod_beta)
    next
      case False
      then obtain q where u: "u = Inr (Some q)" "data_segment c bs q" using p(6) Inr by auto
      have fl: "packetizer_inflate (ipv4_packet_length q) p' = Some q" using p(5) u(1) by auto
      have pay: "ipv4_packet_payload q = Some (Some bs)"
        using u(2) by (cases "ipv4_packet_payload q") (simp_all add: data_segment_def ipv4_payload_bytes_def)
      have ch: "ch_inv (en_channel e)" using inv by (simp add: x ctx_inv_def)
      obtain e' where e': "send_through P (ip_raw q) e = Some
          (if length (ip_raw q) \<le> sb_remaining (ch_network_to_client (en_channel e)) then Inr () else Inl WouldBlock, e')"
        "offered e (ip_raw q) e'"
        using send_through_ok [OF P ch] by blast
      have "r = Inr () \<and> data_outcome x bs y"
      proof (cases "length (ip_raw q) \<le> sb_remaining (ch_network_to_client (en_channel e))")
        case True
        then have "r = Inr () \<and> y = tcb_update (\<lambda>t. t\<lparr>tcb_sequence_number :=
               tcb_sequence_number t + of_nat (length bs)\<rparr>) (?c, e')"
          using y(1) run u(1) e'(1) pay by simp
        then show ?thesis using u(2) e'(2) True op pf
          unfolding data_outcome_def by (intro conjI exI [of _ q]) (simp_all add: x offered_def tcb_update_def)
      next
        case False
        then have "r = Inr () \<and> y = (?c\<lparr>tc_packet_for_client_length := Some (ipv4_packet_length q)\<rparr>, request RegisterPendingSource e')"
          using y(1) run u(1) e'(1) by simp
        then show ?thesis using u(2) e'(2) False op fl
          unfolding data_outcome_def
          by (intro conjI exI [of _ q]) (simp_all add: x offered_def request_def owes_packet_def tcp_get_def)
      qed
      then show ?thesis using y(1) iy Inr False by (intro exI [of _ r] exI [of _ y]) (simp add: x m_def)
    qed
  qed
qed

section \<open>Connecting\<close>

lemma tcp_process_connect_ok:
  assumes P: "poll_works P" and inv: "ctx_inv x" and op: "\<not> tc_closed (fst x)" and s: "state_of x = SynSent"
  shows "\<exists>y. tcp_process_connect P outcome x = Some y \<and> step_ok x y \<and> quiet x y
    \<and> tc_closed (fst y) = (\<exists>f. outcome = Inr (Some f))
    \<and> (\<not> tc_closed (fst y) \<longrightarrow> state_of y = SynReceived)"
proof -
  consider (failed) f where "outcome = Inr (Some f)" | (connected) "\<nexists>f. outcome = Inr (Some f)" by blast
  then show ?thesis
  proof cases
    case failed
    obtain y where "reply_empty_packet_to_client P FLAG_RST x = Some y" "step_ok x (tcp_close P y)"
      "quiet x (tcp_close P y)"
      using reply_close_ok [OF P inv op flag_values(3)] by blast
    then show ?thesis
      using s failed by (intro exI [of _ "tcp_close P y"])
        (simp add: tcp_process_connect_def send_empty_packet_to_client_def)
  next
    case connected
    let ?x = "tcb_update (\<lambda>t. t\<lparr>tcb_state := SynReceived\<rparr>) x"
    have "tcp_edge\<^sup>*\<^sup>* SynSent SynReceived" by (rule r_into_rtranclp, rule tcp_edge.intros)
    then have x: "step_ok x ?x" by (intro step_ok_tcb [OF inv]) (simp add: s)
    obtain y where y: "reply_empty_packet_to_client P (FLAG_SYN OR FLAG_ACK) ?x = Some y" "step_ok ?x y"
      "quiet ?x y" "tc_tcb (fst y) = tc_tcb (fst ?x)" "tc_closed (fst y) = tc_closed (fst ?x)"
      using reply_then [OF P step_ok_inv [OF x] flag_values(6)] by blast
    let ?z = "tcb_update (\<lambda>t. t\<lparr>tcb_sequence_number := tcb_sequence_number t + 1\<rparr>) y"
    have "step_ok y ?z" by (rule step_ok_tcb [OF step_ok_inv [OF y(2)]]) simp
    then have "step_ok x ?z" using x y(2) by (blast intro: step_ok_trans)
    moreover have "quiet x ?z" using y(3) by (simp add: quiet_def)
    moreover have "tcp_process_connect P outcome x = Some ?z"
      using s connected y(1)
      by (auto simp: tcp_process_connect_def send_empty_packet_to_client_def Let_def split: sum.splits option.splits)
    ultimately show ?thesis using y(4,5) op connected by (intro exI [of _ ?z]) simp
  qed
qed

section \<open>A whole event\<close>

text \<open>
  The readiness that a connection may be told of: readable only when a read is allowed, and not
  together with writable while a FIN of the client waits for the buffer to drain, since that write
  may end the connection's right to read before the read.
\<close>

definition event_ok :: "tcp_connection \<Rightarrow> ready \<Rightarrow> bool" where
  "event_ok c ready \<longleftrightarrow> (is_readable ready \<longrightarrow> may_read c)
     \<and> (is_readable ready \<and> is_writable ready \<longrightarrow> \<not> tcb_fin_received (tc_tcb c))"

text \<open>What an event leaves: the invariant, and interests the next event may rely on if this one could.\<close>

definition event_done :: "tcp_ctx \<Rightarrow> tcp_ctx \<Rightarrow> bool" where
  "event_done x y \<longleftrightarrow> step_ok x y \<and> (interest_ok (fst x) \<and> \<not> tc_closed (fst y) \<longrightarrow> interest_ok (fst y))"

text \<open>The second half of \<open>process\<close>: the read, then the interests.\<close>

definition tcp_read_phase :: "poll \<Rightarrow> reader \<Rightarrow> ready \<Rightarrow> tcp_ctx \<Rightarrow> (unit io_result \<times> tcp_ctx) option" where
  "tcp_read_phase P R ready x = then_process
     (if \<not> tc_closed (fst x) \<and> is_readable ready then tcp_process_receive P R x else Some (Inr (), x))
     (\<lambda>x. if \<not> tc_closed (fst x) then map_option (Pair (Inr ())) (tcp_update_interests P x) else Some (Inr (), x))"

lemma tcp_update_done:
  assumes P: "poll_works P" and s: "step_ok x y"
  shows "\<exists>z. (if \<not> tc_closed (fst y) then map_option (Pair (Inr ())) (tcp_update_interests P y)
      else Some (Inr (), y)) = Some (Inr (), z) \<and> event_done x z
    \<and> en_requests (snd z) = en_requests (snd y) \<and> tc_closed (fst z) = tc_closed (fst y)"
proof (cases "tc_closed (fst y)")
  case True
  then show ?thesis using s by (simp add: event_done_def)
next
  case False
  obtain z where "tcp_update_interests P y = Some z" "step_ok y z" "interest_ok (fst z)" "\<not> tc_closed (fst z)"
    "en_requests (snd z) = en_requests (snd y)"
    using tcp_update_interests_ok [OF P step_ok_inv [OF s] False] by blast
  then show ?thesis using False s by (auto simp: event_done_def intro: step_ok_trans)
qed

lemma tcp_read_phase_ok:
  assumes P: "poll_works P" and R: "reader_ok R" and s: "step_ok x y"
    and may: "\<not> tc_closed (fst y) \<Longrightarrow> is_readable ready \<Longrightarrow> may_read (fst y)"
  shows "\<exists>r z. tcp_read_phase P R ready y = Some (r, z) \<and> event_done x z
    \<and> (case r of Inl f \<Rightarrow> f = WouldBlock \<and> \<not> tc_closed (fst z) | Inr _ \<Rightarrow> True)"
proof (cases "\<not> tc_closed (fst y) \<and> is_readable ready")
  case False
  then show ?thesis using tcp_update_done [OF P s] by (auto simp: tcp_read_phase_def)
next
  case True
  then have op: "\<not> tc_closed (fst y)" and m: "may_read (fst y)" using may by simp_all
  obtain r z where z: "tcp_process_receive P R y = Some (r, z)" "step_ok y z"
    "tc_interests (fst z) = tc_interests (fst y)"
    "case r of Inl f \<Rightarrow> f = WouldBlock \<and> may_read (fst z) \<and> tc_closed (fst z) = tc_closed (fst y) | Inr _ \<Rightarrow> True"
    using tcp_process_receive_ok [OF P step_ok_inv [OF s] op R m] by blast
  have xz: "step_ok x z" using s z(2) by (rule step_ok_trans)
  show ?thesis
  proof (cases r)
    case (Inl f)
    then have "event_done x z" using z xz by (simp add: event_done_def interest_ok_def)
    then show ?thesis using True z Inl op by (simp add: tcp_read_phase_def)
  next
    case (Inr u)
    then show ?thesis using True z tcp_update_done [OF P xz] by (auto simp: tcp_read_phase_def)
  qed
qed

lemma tcp_process_ready_eq:
  "tcp_process_ready P sock ready x = then_process
     (if is_writable ready then
        (if state_of x = SynSent then map_option (Pair (Inr ())) (tcp_process_connect P (io_take_error sock) x)
         else tcp_process_send P (io_write sock) x)
      else Some (Inr (), x))
     (tcp_read_phase P (io_read sock) ready)"
  unfolding tcp_process_ready_def tcp_read_phase_def ..

definition sock_ok :: "tcp_io \<Rightarrow> bool" where
  "sock_ok sock \<longleftrightarrow> reader_ok (io_read sock) \<and> writer_ok (io_write sock)"

lemma tcp_process_ready_ok:
  assumes P: "poll_works P" and inv: "ctx_inv x" and op: "\<not> tc_closed (fst x)" and sock: "sock_ok sock"
    and ev: "event_ok (fst x) ready"
  shows "\<exists>r y. tcp_process_ready P sock ready x = Some (r, y) \<and> event_done x y
    \<and> (case r of Inl f \<Rightarrow> f = WouldBlock \<and> \<not> tc_closed (fst y) | Inr _ \<Rightarrow> True)"
proof -
  have R: "reader_ok (io_read sock)" and W: "writer_ok (io_write sock)" using sock by (simp_all add: sock_ok_def)
  consider (idle) "\<not> is_writable ready" | (connect) "is_writable ready" "state_of x = SynSent"
    | (send) "is_writable ready" "state_of x \<noteq> SynSent" by blast
  then show ?thesis
  proof cases
    case idle
    then show ?thesis
      using tcp_read_phase_ok [OF P R step_ok_refl [OF inv], of ready] ev
      by (simp add: tcp_process_ready_eq event_ok_def)
  next
    case connect
    obtain y where y: "tcp_process_connect P (io_take_error sock) x = Some y" "step_ok x y"
      using tcp_process_connect_ok [OF P inv op connect(2), of "io_take_error sock"] by blast
    have "\<not> is_readable ready" using ev may_read_state [of "fst x"] connect(2) by (auto simp: event_ok_def)
    then show ?thesis
      using tcp_read_phase_ok [OF P R y(2), of ready] connect y(1) by (simp add: tcp_process_ready_eq)
  next
    case send
    obtain r y where y: "tcp_process_send P (io_write sock) x = Some (r, y)" "step_ok x y"
      "case r of Inl f \<Rightarrow> f = WouldBlock \<and> y = x | Inr _ \<Rightarrow> True"
      "\<not> tcb_fin_received (tc_tcb (fst x)) \<longrightarrow> may_read (fst y) = may_read (fst x)"
      using tcp_process_send_ok [OF P inv op W] by blast
    show ?thesis
    proof (cases r)
      case (Inl f)
      then show ?thesis using send y op by (simp add: tcp_process_ready_eq event_done_def step_ok_refl [OF inv])
    next
      case (Inr u)
      have "is_readable ready \<Longrightarrow> may_read (fst y)" using ev y(4) send by (simp add: event_ok_def)
      then show ?thesis
        using tcp_read_phase_ok [OF P R y(2), of ready] send y(1) Inr by (simp add: tcp_process_ready_eq)
    qed
  qed
qed

text \<open>\<open>process\<close> and \<open>on_ready\<close>: a closed connection asks the router to forget it, once.\<close>

lemma tcp_touch_ok:
  assumes "ctx_inv x"
  shows "step_ok x (tcp_touch now x)" and "tc_closed (fst (tcp_touch now x)) = tc_closed (fst x)"
    and "state_of (tcp_touch now x) = state_of x" and "interest_ok (fst (tcp_touch now x)) = interest_ok (fst x)"
    and "event_ok (fst (tcp_touch now x)) r = event_ok (fst x) r"
  using assms by (simp_all add: tcp_touch_def case_prod_beta step_ok_def ctx_inv_def tcp_frame_def tc_inv_def
      interest_ok_def event_ok_def)

lemma tcp_remove_ok:
  "event_done x y \<Longrightarrow> event_done x (tcp_remove_from_router y)"
  "tc_closed (fst (tcp_remove_from_router y)) = tc_closed (fst y)"
  by (auto simp: tcp_remove_from_router_def case_prod_beta request_def event_done_def step_ok_def ctx_inv_def
      tcp_frame_def)

lemma event_done_from: "step_ok x y \<Longrightarrow> interest_ok (fst y) = interest_ok (fst x) \<Longrightarrow> event_done y z \<Longrightarrow> event_done x z"
  by (auto simp: event_done_def intro: step_ok_trans)

lemma tcp_process_ok:
  assumes P: "poll_works P" and inv: "ctx_inv x" and sock: "sock_ok sock"
    and ev: "event_ok (fst x) ready"
  shows "\<exists>r y. tcp_process P now sock ready x = Some (r, y) \<and> event_done x y
    \<and> (case r of Inl f \<Rightarrow> f = WouldBlock \<and> \<not> tc_closed (fst y) | Inr _ \<Rightarrow> True)"
proof (cases "tc_closed (fst x)")
  case True
  then show ?thesis by (simp add: tcp_process_def event_done_def step_ok_refl [OF inv])
next
  case False
  note T = tcp_touch_ok [OF inv]
  have T': "ctx_inv (tcp_touch now x)" "\<not> tc_closed (fst (tcp_touch now x))"
    using step_ok_inv [OF T(1)] T(2) False by simp_all
  consider (ready) "is_readable ready \<or> is_writable ready"
    | (hup) "\<not> is_readable ready" "\<not> is_writable ready" by blast
  then show ?thesis
  proof cases
    case ready
    obtain r y where "tcp_process_ready P sock ready (tcp_touch now x) = Some (r, y)"
      "event_done (tcp_touch now x) y"
      "case r of Inl f \<Rightarrow> f = WouldBlock \<and> \<not> tc_closed (fst y) | Inr _ \<Rightarrow> True"
      using tcp_process_ready_ok [OF P T' sock] ev T(5) by blast
    then show ?thesis
      using ready False event_done_from [OF T(1,4)] tcp_remove_ok(1) [of x y]
      by (cases r) (auto simp: tcp_process_def Let_def)
  next
    case hup
    obtain y where y: "(if state_of (tcp_touch now x) = SynSent \<or> state_of (tcp_touch now x) = SynReceived
        then send_empty_packet_to_client P FLAG_RST (tcp_touch now x) else Some (tcp_touch now x)) = Some y"
      "step_ok (tcp_touch now x) y" "\<not> tc_closed (fst y)"
      using reply_then [OF P T'(1) flag_values(3)] T' step_ok_refl [OF T'(1)]
      by (metis send_empty_packet_to_client_def)
    have "step_ok x (tcp_close P y)"
      using T(1) y(2) step_ok_close [OF step_ok_inv [OF y(2)] y(3)] by (blast intro: step_ok_trans)
    then have "event_done x (tcp_close P y)" by (simp add: event_done_def)
    then show ?thesis
      using hup False y(1) tcp_remove_ok(1) [of x "tcp_close P y"] by (simp add: tcp_process_def Let_def)
  qed
qed

lemma tcp_on_ready_ok:
  assumes P: "poll_works P" and inv: "ctx_inv x" and sock: "sock_ok sock"
    and ev: "event_ok (fst x) ready"
  shows "\<exists>y. tcp_on_ready P now sock ready x = Some y \<and> event_done x y"
proof -
  obtain r y where y: "tcp_process P now sock ready x = Some (r, y)" "event_done x y"
    "case r of Inl f \<Rightarrow> f = WouldBlock \<and> \<not> tc_closed (fst y) | Inr _ \<Rightarrow> True"
    using tcp_process_ok [OF assms] by blast
  then show ?thesis by (cases r) (auto simp: tcp_on_ready_def)
qed

section \<open>Events that panic\<close>

text \<open>
  Two events that the conditions above exclude.  A readable event that was collected before an
  earlier handler of the same batch closed the window, or deferred a packet, meets an assertion of
  the read.
\<close>

lemma tcp_stale_read_panics:
  assumes "\<not> tc_closed (fst x)" and "is_readable ready" "\<not> is_writable ready"
    and "tc_packet_for_client_length (fst x) \<noteq> None \<or> remaining_client_window (tc_tcb (fst x)) = 0"
  shows "tcp_on_ready P now sock ready x = None"
  using assms
  by (auto simp: tcp_on_ready_def tcp_process_def tcp_process_ready_def Let_def tcp_touch_def case_prod_beta
      tcp_process_receive_def)

text \<open>
  A write that empties the buffer of a connection whose client has finished sends the FIN of the
  relay, which uses up a window of one byte; the read of the same event then meets the assertion.
\<close>

lemma reply_same_tcb:
  assumes "reply_empty_packet_to_client P flags x = Some y"
  shows "tc_tcb (fst y) = tc_tcb (fst x) \<and> tc_closed (fst y) = tc_closed (fst x)
    \<and> tc_packet_for_client_length (fst y) = tc_packet_for_client_length (fst x)"
  using assms by (cases x) (auto simp: reply_empty_packet_to_client_def bind_eq_Some_conv)

lemma window_used_up:
  assumes "remaining_client_window t = 1"
  shows "remaining_client_window (t\<lparr>tcb_acknowledgement_number := a, tcb_fin_sequence_number := f,
    tcb_sequence_number := tcb_sequence_number t + 1, tcb_state := s\<rparr>) = 0"
proof -
  let ?r = "tcb_their_acknowledgement_number t + ucast (tcb_client_window t) - tcb_sequence_number t"
  have le: "?r \<le> ucast (tcb_client_window t)" "(ucast ?r :: u16) = 1"
    using assms by (auto simp: remaining_client_window_def Let_def split: if_splits)
  have "unat ?r \<le> unat (tcb_client_window t)" using le(1) by (simp add: word_le_nat_alt)
  then have "unat ?r < 65536" using u16_less [of "tcb_client_window t"] by linarith
  then have "unat (ucast ?r :: u16) = unat ?r" by (simp add: unsigned_ucast_eq take_bit_eq_mod)
  then have "unat ?r = unat (1 :: u32)" using le(2) by simp
  then have "?r = 1" by (simp only: word_unat_eq_iff)
  then have "tcb_their_acknowledgement_number t + ucast (tcb_client_window t) - (tcb_sequence_number t + 1) = 0"
    by (simp add: algebra_simps)
  then show ?thesis by (simp add: remaining_client_window_def Let_def)
qed

lemma tcp_fin_read_panics:
  assumes op: "\<not> tc_closed (fst x)" and s: "state_of x = Established" and fin: "tcb_fin_received (tc_tcb (fst x))"
    and win: "remaining_client_window (tc_tcb (fst x)) = 1" and both: "is_readable ready" "is_writable ready"
    and w: "sb_write_to (io_write sock) (tc_client_to_network (fst x)) = Some (Inr w, b)" "0 < w" "sb_is_empty b"
  shows "tcp_on_ready P now sock ready x = None"
proof -
  obtain c e where x: "x = (c, e)" by (cases x)
  let ?x = "(c\<lparr>tc_idle_since := now\<rparr>, e)"
  have send: "tcp_process_send P (io_write sock) ?x = None \<or>
    (\<exists>y. tcp_process_send P (io_write sock) ?x = Some (Inr (), y) \<and> \<not> tc_closed (fst y)
      \<and> remaining_client_window (tc_tcb (fst y)) = 0)"
  proof -
    let ?t = "(tc_tcb c)\<lparr>tcb_acknowledgement_number := tcb_acknowledgement_number (tc_tcb c) + of_nat w + 1\<rparr>"
    let ?y = "(c\<lparr>tc_idle_since := now, tc_client_to_network := b, tc_tcb := ?t\<rparr>, e)"
    have run: "tcp_process_send P (io_write sock) ?x = do {
        y \<leftarrow> reply_empty_packet_to_client P (FLAG_FIN OR FLAG_ACK) ?y;
        Some (Inr (), tcb_update (\<lambda>t. t\<lparr>tcb_fin_sequence_number := Some (tcb_sequence_number t),
          tcb_sequence_number := tcb_sequence_number t + 1, tcb_state := LastAck\<rparr>) y) }"
      using s fin w by (simp add: x tcp_process_send_def do_handle_fin_def tcb_update_def Let_def)
    show ?thesis
    proof (cases "reply_empty_packet_to_client P (FLAG_FIN OR FLAG_ACK) ?y")
      case None
      then show ?thesis unfolding run by simp
    next
      case (Some y)
      show ?thesis
        unfolding run using Some reply_same_tcb [OF Some] op window_used_up [of "tc_tcb c"] win by (simp add: x)
    qed
  qed
  then have "tcp_process_ready P sock ready ?x = None"
    using both s by (auto simp: tcp_process_ready_def then_process_def x tcp_process_receive_def case_prod_beta)
  then show ?thesis using op both by (simp add: x tcp_on_ready_def tcp_process_def tcp_touch_def Let_def then_process_def)
qed

section \<open>The handshake\<close>

lemma control_segment_state [simp]:
  "control_segment (c\<lparr>tc_tcb := (tc_tcb c)\<lparr>tcb_state := s\<rparr>\<rparr>) = control_segment c"
  by (simp add: control_segment_def fun_eq_iff)

lemma tcp_connected:
  assumes P: "poll_works P" and inv: "ctx_inv x" and op: "\<not> tc_closed (fst x)" and s: "state_of x = SynSent"
  shows "\<exists>y q. tcp_process_connect P (Inr None) x = Some y \<and> step_ok x y \<and> \<not> tc_closed (fst y)
    \<and> state_of y = SynReceived
    \<and> tcb_sequence_number (tc_tcb (fst y)) = tcb_sequence_number (tc_tcb (fst x)) + 1
    \<and> control_segment (fst x) (FLAG_SYN OR FLAG_ACK) q \<and> offered (snd x) (ip_raw q) (snd y)"
proof -
  let ?x = "tcb_update (\<lambda>t. t\<lparr>tcb_state := SynReceived\<rparr>) x"
  have "tcp_edge\<^sup>*\<^sup>* SynSent SynReceived" by (rule r_into_rtranclp, rule tcp_edge.intros)
  then have x: "step_ok x ?x" by (intro step_ok_tcb [OF inv]) (simp add: s)
  obtain y q where y: "reply_empty_packet_to_client P (FLAG_SYN OR FLAG_ACK) ?x = Some y" "step_ok ?x y"
    "tc_tcb (fst y) = tc_tcb (fst ?x)" "tc_closed (fst y) = tc_closed (fst ?x)"
    "control_segment (fst ?x) (FLAG_SYN OR FLAG_ACK) q" "offered (snd ?x) (ip_raw q) (snd y)"
    using step_ok_reply [OF P step_ok_inv [OF x] flag_values(6)] by blast
  let ?z = "tcb_update (\<lambda>t. t\<lparr>tcb_sequence_number := tcb_sequence_number t + 1\<rparr>) y"
  have "step_ok y ?z" by (rule step_ok_tcb [OF step_ok_inv [OF y(2)]]) simp
  then have "step_ok x ?z" using x y(2) by (blast intro: step_ok_trans)
  then show ?thesis
    using s op y by (intro exI [of _ ?z] exI [of _ q])
      (simp add: tcp_process_connect_def send_empty_packet_to_client_def Let_def)
qed

text \<open>The writable event that ends the connection attempt, as \<open>on_ready\<close> handles it.\<close>

lemma tcp_on_ready_connected:
  assumes P: "poll_works P" and inv: "ctx_inv x" and op: "\<not> tc_closed (fst x)" and s: "state_of x = SynSent"
    and sock: "io_take_error sock = Inr None"
  shows "\<exists>y q. tcp_on_ready P now sock ready_writable x = Some y \<and> ctx_inv y \<and> \<not> tc_closed (fst y)
    \<and> state_of y = SynReceived
    \<and> tcb_sequence_number (tc_tcb (fst y)) = tcb_sequence_number (tc_tcb (fst x)) + 1
    \<and> control_segment (fst x) (FLAG_SYN OR FLAG_ACK) q
    \<and> ch_contents (en_channel (snd y)) =
        (if length (ip_raw q) \<le> sb_remaining (ch_network_to_client (en_channel (snd x)))
         then ch_contents (en_channel (snd x)) @ ip_raw q else ch_contents (en_channel (snd x)))"
proof -
  let ?x = "tcp_touch now x"
  note T = tcp_touch_ok [OF inv, of now]
  have t: "snd ?x = snd x" "tc_tcb (fst ?x) = tc_tcb (fst x)"
    "control_segment (fst ?x) = control_segment (fst x)"
    by (simp_all add: tcp_touch_def case_prod_beta control_segment_def fun_eq_iff)
  have T': "ctx_inv ?x" "\<not> tc_closed (fst ?x)" "state_of ?x = SynSent"
    using step_ok_inv [OF T(1)] T(2,3) op s by simp_all
  obtain y q where y: "tcp_process_connect P (Inr None) ?x = Some y" "step_ok ?x y" "\<not> tc_closed (fst y)"
    "state_of y = SynReceived"
    "tcb_sequence_number (tc_tcb (fst y)) = tcb_sequence_number (tc_tcb (fst ?x)) + 1"
    "control_segment (fst ?x) (FLAG_SYN OR FLAG_ACK) q" "offered (snd ?x) (ip_raw q) (snd y)"
    using tcp_connected [OF P T'] by blast
  obtain z where z: "tcp_update_interests P y = Some z" "step_ok y z" "tc_tcb (fst z) = tc_tcb (fst y)"
    "\<not> tc_closed (fst z)" "en_channel (snd z) = en_channel (snd y)"
    using tcp_update_interests_ok [OF P step_ok_inv [OF y(2)] y(3)] by blast
  have "tcp_process_ready P sock ready_writable ?x = Some (Inr (), z)"
    using y(1,3) z(1) T'(3) sock
    by (simp add: tcp_process_ready_eq tcp_read_phase_def ready_writable_def)
  then have "tcp_on_ready P now sock ready_writable x = Some z"
    using op z(4) by (simp add: tcp_on_ready_def tcp_process_def Let_def ready_writable_def)
  then show ?thesis
    using y(4-7) z(2-5) t step_ok_inv [OF z(2)]
    by (intro exI [of _ z] exI [of _ q]) (auto simp: offered_def)
qed

text \<open>A SYN opens the connection: nothing is sent before the socket is connected.\<close>

lemma tcp_send_syn:
  assumes P: "poll_works P" and inv: "ctx_inv x" and op: "\<not> tc_closed (fst x)" and s: "state_of x = Init"
    and q: "tcp_packet q h" and syn: "is_syn h"
  shows "\<exists>y. tcp_send_to_network P now random (Ipv4 q) x = Some y \<and> ctx_inv y \<and> \<not> tc_closed (fst y)
    \<and> state_of y = SynSent \<and> tcb_sequence_number (tc_tcb (fst y)) = random
    \<and> tcb_acknowledgement_number (tc_tcb (fst y)) = th_sequence_number h + 1
    \<and> tc_interests (fst y) = ready_writable \<and> en_channel (snd y) = en_channel (snd x)
    \<and> pk_endpoints (tc_network_to_client (fst y)) = pk_endpoints (tc_network_to_client (fst x))"
proof -
  let ?x = "tcp_touch now x"
  note T = tcp_touch_ok [OF inv, of now]
  have T': "ctx_inv ?x" "\<not> tc_closed (fst ?x)" "state_of ?x = Init" "snd ?x = snd x"
    using step_ok_inv [OF T(1)] T(2,3) op s by (simp_all add: tcp_touch_def case_prod_beta)
  let ?y = "tcb_update (\<lambda>t. t\<lparr>tcb_acknowledgement_number := th_sequence_number h + 1,
    tcb_syn_sequence_number := th_sequence_number h, tcb_sequence_number := random,
    tcb_client_window := th_window h, tcb_state := SynSent\<rparr>) ?x"
  have hp: "handle_packet P random q ?x = Some ?y"
    using tcp_packet_ok(1) [OF q] T'(3) syn by (simp add: handle_packet_def handle_first_packet_def)
  have "tcp_edge\<^sup>*\<^sup>* Init SynSent" by (rule r_into_rtranclp, rule tcp_edge.intros)
  then have y: "step_ok ?x ?y" by (intro step_ok_tcb [OF T'(1)]) (simp add: T'(3))
  have oy: "\<not> tc_closed (fst ?y)" using T'(2) by simp
  obtain z where z: "tcp_update_interests P ?y = Some z" "step_ok ?y z" "tc_tcb (fst z) = tc_tcb (fst ?y)"
    "tc_interests (fst z) = tcp_wanted (fst ?y)" "\<not> tc_closed (fst z)" "en_channel (snd z) = en_channel (snd ?y)"
    using tcp_update_interests_ok [OF P step_ok_inv [OF y] oy] by blast
  have "tcp_wanted (fst ?y) = ready_writable" by (simp add: tcp_wanted_def)
  moreover have "step_ok x z" using T(1) y z(2) by (blast intro: step_ok_trans)
  ultimately show ?thesis
    using hp z oy T'(4) by (intro exI [of _ z]) (simp add: tcp_send_to_network_def step_ok_def tcp_frame_def)
qed

end
