(* ===== verification/Tcp_Stream.thy ===== *)
theory Tcp_Stream
  imports Tcp_Events
begin

text \<open>
  The byte streams of a TCP connection: what is taken from the client in order and acknowledged
  once written, and what happens to a packet that must wait for room towards the client.
\<close>

section \<open>From the client to the network\<close>

text \<open>The sequence number of the next byte the relay accepts.\<close>

definition tcp_expected :: "tcp_connection \<Rightarrow> u32" where
  "tcp_expected c = tcb_acknowledgement_number (tc_tcb c) + of_nat (sb_size (tc_client_to_network c))"

abbreviation tcp_buffered :: "tcp_ctx \<Rightarrow> bytes" where
  "tcp_buffered x \<equiv> sb_contents (tc_client_to_network (fst x))"

text \<open>A plain data segment: no SYN, RST or FIN.\<close>

definition plain :: "tcp_header_data \<Rightarrow> bool" where
  "plain h \<longleftrightarrow> \<not> is_syn h \<and> \<not> is_rst h \<and> \<not> is_fin h"

text \<open>On an established connection that has sent no FIN, a plain segment is taken whole exactly
  when it is the next one and fits; otherwise the stream is as it was.\<close>

lemma handle_packet_plain:
  assumes inv: "ctx_inv x" and s: "state_of x = Established" and nf: "tcb_fin_sequence_number (tc_tcb (fst x)) = None"
    and q: "tcp_packet q h" and pl: "plain h" and bs: "ipv4_packet_payload q = Some (Some bs)"
  shows "\<exists>y. handle_packet P random q x = Some y
    \<and> tcp_buffered y = tcp_buffered x @ (if is_ack h \<and> th_sequence_number h = tcp_expected (fst x)
        \<and> length bs \<le> sb_remaining (tc_client_to_network (fst x)) then bs else [])
    \<and> tcb_acknowledgement_number (tc_tcb (fst y)) = tcb_acknowledgement_number (tc_tcb (fst x))
    \<and> state_of y = Established \<and> ctx_inv y \<and> tc_closed (fst y) = tc_closed (fst x)
    \<and> tcb_fin_sequence_number (tc_tcb (fst y)) = None
    \<and> tcb_fin_received (tc_tcb (fst y)) = tcb_fin_received (tc_tcb (fst x))"
proof (cases "th_sequence_number h = tcp_expected (fst x)")
  case False
  then show ?thesis
    using tcp_packet_ok(1) [OF q] s pl inv nf by (simp add: handle_packet_def plain_def tcp_expected_def)
next
  case True
  let ?x = "tcb_update (\<lambda>t. t\<lparr>tcb_client_window := th_window h,
    tcb_their_acknowledgement_number := th_acknowledgement_number h\<rparr>) x"
  have i: "ctx_inv ?x" using step_ok_inv [OF step_ok_tcb [OF inv]] by simp
  obtain y where y: "(if is_ack h then handle_ack q ?x else Some ?x) = Some y"
    "tcp_buffered y = tcp_buffered x @ (if is_ack h \<and> length bs \<le> sb_remaining (tc_client_to_network (fst x)) then bs else [])"
    "tc_tcb (fst y) = tc_tcb (fst ?x)" "ctx_inv y" "tc_closed (fst y) = tc_closed (fst x)"
    using handle_ack_ok [OF i bs] s i by (cases "is_ack h") (auto simp: not_le dest: step_ok_inv)
  have "handle_packet P random q x = Some y"
    using True tcp_packet_ok(1) [OF q] s pl nf y(1,3)
    by (simp add: handle_packet_def plain_def tcp_expected_def)
  then show ?thesis using y True s nf by (intro exI [of _ y]) simp
qed

text \<open>Whatever comes next, \<open>tcp_expected\<close> has moved by the bytes that were taken.\<close>

lemma tcp_expected_moves:
  assumes "tcp_buffered y = tcp_buffered x @ bs"
    and "tcb_acknowledgement_number (tc_tcb (fst y)) = tcb_acknowledgement_number (tc_tcb (fst x))"
  shows "tcp_expected (fst y) = tcp_expected (fst x) + of_nat (length bs)"
proof -
  have "sb_size (tc_client_to_network (fst y)) = sb_size (tc_client_to_network (fst x)) + length bs"
    using arg_cong [OF assms(1), of length] by simp
  then show ?thesis using assms(2) by (simp add: tcp_expected_def ac_simps)
qed

text \<open>A write to the socket moves the front of the buffer out and acknowledges exactly that.\<close>

lemma tcp_process_send_acks:
  assumes P: "poll_works P" and inv: "ctx_inv x" and ne: "tcp_buffered x \<noteq> []"
    and W: "W (sb_offered (tc_client_to_network (fst x))) = Inr w" "0 < w"
      "w \<le> length (sb_offered (tc_client_to_network (fst x)))"
    and nf: "\<not> tcb_fin_received (tc_tcb (fst x))"
  shows "\<exists>y q. tcp_process_send P W x = Some (Inr (), y) \<and> tcp_buffered y = drop w (tcp_buffered x)
    \<and> tcp_expected (fst y) = tcp_expected (fst x)
    \<and> control_segment (fst y) FLAG_ACK q \<and> offered (snd x) (ip_raw q) (snd y)
    \<and> ctx_inv y \<and> tc_closed (fst y) = tc_closed (fst x)
    \<and> tc_tcb (fst y) = (tc_tcb (fst x))\<lparr>tcb_acknowledgement_number := tcb_acknowledgement_number (tc_tcb (fst x)) + of_nat w\<rparr>"
proof -
  obtain c e where x: "x = (c, e)" by (cases x)
  have sb: "sb_inv (tc_client_to_network c)" using inv by (simp add: x ctx_inv_def tc_inv_def)
  obtain b where b: "sb_write_to W (tc_client_to_network c) = Some (Inr w, b)" "sb_inv b"
    "sb_contents b = drop w (sb_contents (tc_client_to_network c))"
    "length (sb_buf b) = length (sb_buf (tc_client_to_network c))"
    using sb_write_to_ok [of "tc_client_to_network c" W w, OF sb] ne W(1,3) by (auto simp: x)
  let ?x = "(c\<lparr>tc_client_to_network := b\<rparr>, e)"
  let ?z = "tcb_update (\<lambda>t. t\<lparr>tcb_acknowledgement_number := tcb_acknowledgement_number t + of_nat w\<rparr>) ?x"
  have z: "ctx_inv ?z"
    using step_ok_inv [OF step_ok_tcb [OF step_ok_inv [OF step_ok_buffer [OF inv [unfolded x] b(2,4)]]]] by simp
  obtain y q where y: "reply_empty_packet_to_client P FLAG_ACK ?z = Some y"
    "tc_tcb (fst y) = tc_tcb (fst ?z)" "tc_client_to_network (fst y) = b" "step_ok ?z y"
    "control_segment (fst ?z) FLAG_ACK q" "offered (snd ?z) (ip_raw q) (snd y)"
    "tc_closed (fst y) = tc_closed (fst ?z)"
    using step_ok_reply [OF P z flag_values(4)] by auto
  have e: "pk_endpoints (tc_network_to_client (fst y)) = pk_endpoints (tc_network_to_client (fst ?z))"
    using y(4) by (simp add: step_ok_def tcp_frame_def)
  have q: "control_segment (fst y) FLAG_ACK q"
    using y(2,5) e by (simp add: control_segment_def)
  have size: "sb_size b = sb_size (tc_client_to_network c) - w" using arg_cong [OF b(3), of length] by simp
  have le: "w \<le> sb_size (tc_client_to_network c)"
    using W(3) sb_offered_prefix(2) [OF sb] by (simp add: x)
  have "tcp_expected (fst y) = tcp_expected c"
    using y(2,3) le by (simp add: tcp_expected_def size of_nat_diff)
  moreover have "tcp_process_send P W x = Some (Inr (), y)"
    using b(1) y(1) W(2) nf by (simp add: x tcp_process_send_def Let_def send_empty_packet_to_client_def)
  ultimately show ?thesis using y(2,3,6,7) b(3) q step_ok_inv [OF y(4)]
    by (intro exI [of _ y] exI [of _ q]) (simp add: x)
qed

text \<open>A segment that carries both data and a FIN: the FIN is accepted even when its data is dropped
  for want of room.\<close>

lemma handle_packet_fin_without_data:
  assumes P: "poll_works P" and inv: "ctx_inv x" and s: "state_of x = Established"
    and nf: "tcb_fin_sequence_number (tc_tcb (fst x)) = None"
    and q: "tcp_packet q h" and h: "is_ack h" "is_fin h" "\<not> is_syn h" "\<not> is_rst h"
      "th_sequence_number h = tcp_expected (fst x)"
    and bs: "ipv4_packet_payload q = Some (Some bs)" "bs \<noteq> []"
    and full: "sb_remaining (tc_client_to_network (fst x)) < length bs"
    and ne: "tcp_buffered x \<noteq> []"
  shows "\<exists>y. handle_packet P random q x = Some y \<and> tcp_buffered y = tcp_buffered x
    \<and> tcb_fin_received (tc_tcb (fst y)) \<and> tcp_expected (fst y) = tcp_expected (fst x)
    \<and> ctx_inv y \<and> state_of y = Established \<and> tc_client_to_network (fst y) = tc_client_to_network (fst x)
    \<and> snd y = snd x"
proof -
  have i: "sb_inv (tc_client_to_network (fst x))" using inv by (simp add: ctx_inv_def tc_inv_def)
  then have "\<not> sb_is_empty (tc_client_to_network (fst x))" using ne by (simp add: sb_is_empty_iff)
  then show ?thesis
    using tcp_packet_ok(1) [OF q] s h bs full nf inv
    by (simp add: handle_packet_def tcp_expected_def handle_ack_def handle_fin_def Let_def case_prod_beta
        ctx_inv_def tc_inv_def tcb_update_def)
qed

text \<open>
  When the buffer then drains, the acknowledgement counts one number for the FIN right after the
  stored bytes, where the first dropped byte stood; a segment that starts there is ignored from then on.
\<close>

lemma tcp_drained_after_fin:
  assumes P: "poll_works P" and inv: "ctx_inv x" and s: "state_of x = Established"
    and fin: "tcb_fin_received (tc_tcb (fst x))" and ne: "tcp_buffered x \<noteq> []"
    and whole: "sb_offered (tc_client_to_network (fst x)) = tcp_buffered x" and W: "W (tcp_buffered x) = Inr (length (tcp_buffered x))"
  shows "\<exists>y q d. tcp_process_send P W x = Some (Inr (), y) \<and> tcp_buffered y = [] \<and> state_of y = LastAck
    \<and> tcp_expected (fst y) = tcp_expected (fst x) + 1
    \<and> ipv4_sendable q \<and> ip_transport_data q = Some (TcpTransport d) \<and> th_flags d = FLAG_FIN OR FLAG_ACK
    \<and> th_acknowledgement_number d = tcp_expected (fst x) + 1 \<and> offered (snd x) (ip_raw q) (snd y)"
proof -
  obtain c e where x: "x = (c, e)" by (cases x)
  let ?n = "length (tcp_buffered x)"
  have sb: "sb_inv (tc_client_to_network c)" using inv by (simp add: x ctx_inv_def tc_inv_def)
  have "W (sb_offered (tc_client_to_network c)) = Inr ?n" "?n \<le> length (sb_offered (tc_client_to_network c))"
    using W whole by (simp_all add: x)
  then obtain b where b: "sb_write_to W (tc_client_to_network c) = Some (Inr ?n, b)" "sb_inv b" "sb_contents b = []"
    "length (sb_buf b) = length (sb_buf (tc_client_to_network c))"
    using sb_write_to_ok [of "tc_client_to_network c" W ?n, OF sb] ne by (auto simp: x)
  let ?x = "(c\<lparr>tc_client_to_network := b\<rparr>, e)"
  let ?u = "tcb_update (\<lambda>t. t\<lparr>tcb_acknowledgement_number := tcb_acknowledgement_number t + of_nat ?n\<rparr>) ?x"
  let ?z = "tcb_update (\<lambda>t. t\<lparr>tcb_acknowledgement_number := tcb_acknowledgement_number t + 1\<rparr>) ?u"
  have "ctx_inv ?u"
    using step_ok_inv [OF step_ok_tcb [OF step_ok_inv [OF step_ok_buffer [OF inv [unfolded x] b(2,4)]]]] by simp
  then have z: "ctx_inv ?z" using step_ok_inv [OF step_ok_tcb] by simp
  obtain y q where y: "reply_empty_packet_to_client P (FLAG_FIN OR FLAG_ACK) ?z = Some y"
    "tc_tcb (fst y) = tc_tcb (fst ?z)" "tc_client_to_network (fst y) = b"
    "control_segment (fst ?z) (FLAG_FIN OR FLAG_ACK) q" "offered (snd ?z) (ip_raw q) (snd y)"
    using step_ok_reply [OF P z flag_values(5)] by auto
  let ?y = "tcb_update (\<lambda>t. t\<lparr>tcb_fin_sequence_number := Some (tcb_sequence_number t),
    tcb_sequence_number := tcb_sequence_number t + 1, tcb_state := LastAck\<rparr>) y"
  have e: "sb_is_empty b" "sb_size b = 0"
    subgoal using b(2,3) sb_is_empty_iff [of b] by simp
    subgoal using arg_cong [OF b(3), of length] by simp
    done
  have n0: "0 < ?n" using ne by (cases "tcp_buffered x") simp_all
  have "tcp_process_send P W x = Some (Inr (), ?y)"
    using b(1) e(1) n0 s fin y(1) by (simp add: x tcp_process_send_def do_handle_fin_def Let_def)
  moreover obtain d where "ip_transport_data q = Some (TcpTransport d)" "th_flags d = FLAG_FIN OR FLAG_ACK"
    "th_acknowledgement_number d = tcb_acknowledgement_number (tc_tcb c) + of_nat ?n + 1" "ipv4_sendable q"
    using y(4) by (auto simp: control_segment_def)
  ultimately show ?thesis using y(2,3,5) b(3) e(2)
    by (intro exI [of _ ?y] exI [of _ q] exI [of _ d]) (simp add: x tcp_expected_def)
qed

lemma handle_packet_unexpected:
  assumes "tcp_packet q h" and "\<not> is_syn h" and "state_of x \<noteq> Init" and "th_sequence_number h \<noteq> tcp_expected (fst x)"
  shows "handle_packet P random q x = Some x"
  using assms tcp_packet_ok(1) [OF assms(1)] by (simp add: handle_packet_def tcp_expected_def Let_def)

section \<open>The deferred packet\<close>

text \<open>While a packet waits, its bytes stay in the buffer of the packetizer, whose headers every
  control segment rewrites.\<close>

lemma inflate_after_reply:
  assumes p: "tcp_pk p d" and f: "flags AND 0x1FF = flags"
    and len: "pk_payload_index p \<le> unat len" "unat len \<le> 65535"
  shows "\<exists>s p' q. create_empty_response_packet t flags p = Some (s, p')
    \<and> packetizer_inflate len p' = Some q \<and> length (ip_raw q) = unat len
    \<and> front_packet_length (ip_raw q) = ok (Some (pk_payload_index p))"
proof -
  obtain s p' where s: "create_empty_response_packet t flags p = Some (s, p')"
    "tcp_pk p' (stamped t flags d)" "pk_payload_index p' = pk_payload_index p"
    "ih_total_length (pk_ipv4_header_data p') = of_nat (pk_payload_index p)"
    using create_empty_response_packet_ok [OF p f] by blast
  then have inv: "pk_inv p'" by (simp add: tcp_pk_def)
  note I = pk_invD [OF inv]
  let ?buf = "pk_buffer p'" and ?ti = "pk_transport_index p'"
  let ?q = "ipv4_packet_new (take (unat len) ?buf) (pk_ipv4_header_data p') (pk_transport_header_data p')"
  have q: "packetizer_inflate len p' = Some ?q" "ip_raw ?q = take (unat len) ?buf"
    using I(1) len(2) by (simp_all add: packetizer_inflate_def slice_Some ipv4_packet_new_def)
  have l: "28 \<le> unat len" using I(6) s(3) len(1) by simp
  have cells: "i < 20 \<Longrightarrow> take (unat len) ?buf ! i = ?buf ! i" "i < 20 \<Longrightarrow> take ?ti ?buf ! i = ?buf ! i" for i
    using l I(2) by simp_all
  have "be16 (?buf ! 2) (?buf ! 3) = of_nat (pk_payload_index p)"
    using ipv4_parse_total_length [OF I(8)] s(4) cells(2) [of 2] cells(2) [of 3] by simp
  then have total: "unat (be16 (?buf ! 2) (?buf ! 3)) = pk_payload_index p"
    using I(7) s(3) by (simp only: unat_of_nat_u16)
  have hl: "unat (?buf ! 0 AND 15) * 4 = ?ti"
    using ipv4_parse_header_length [OF I(8)] I(4) cells(2) [of 0] by (simp add: low_nibble_length)
  have "?ti \<le> pk_payload_index p" using I(5) s(3) by simp
  then have "front_packet_length (take (unat len) ?buf) = ok (Some (pk_payload_index p))"
    unfolding front_packet_length_eq
    using l I(1,2,10) cells(1) [of 0] cells(1) [of 2] cells(1) [of 3] total hl len by auto
  then show ?thesis using s(1) q I(1) len(2) by (intro exI [of _ s] exI [of _ p'] exI [of _ ?q]) simp
qed

lemma tcp_reply_corrupts_deferred:
  assumes P: "poll_works P" and inv: "ctx_inv (c, e)" and owes: "owes_packet c q"
    and len: "pk_payload_index (tc_network_to_client c) \<le> length (ip_raw q)"
    and f: "flags AND 0x1FF = flags"
  shows "\<exists>c' e' q'. reply_empty_packet_to_client P flags (c, e) = Some (c', e')
    \<and> tcp_get c' = Some (Some q') \<and> length (ip_raw q') = length (ip_raw q)
    \<and> front_packet_length (ip_raw q') = ok (Some (pk_payload_index (tc_network_to_client c)))"
proof -
  obtain d where d: "tcp_pk (tc_network_to_client c) d" using inv by (auto simp: ctx_inv_def tc_inv_def)
  obtain n where n: "tc_packet_for_client_length c = Some n"
    "packetizer_inflate n (tc_network_to_client c) = Some q"
    using owes by (auto simp: owes_packet_def tcp_get_def bind_eq_Some_conv split: option.splits)
  have "length (pk_buffer (tc_network_to_client c)) = 65536" using d pk_invD(1) by (simp add: tcp_pk_def)
  then have lq: "length (ip_raw q) = unat n"
    using n(2) u16_less [of n] by (auto simp: packetizer_inflate_def bind_eq_Some_conv slice_def ipv4_packet_new_def split: if_splits)
  have n': "pk_payload_index (tc_network_to_client c) \<le> unat n" "unat n \<le> 65535"
    using len lq u16_less [of n] by simp_all
  obtain s p' q' where s: "create_empty_response_packet (tc_tcb c) flags (tc_network_to_client c) = Some (s, p')"
    "packetizer_inflate n p' = Some q'" "length (ip_raw q') = unat n"
    "front_packet_length (ip_raw q') = ok (Some (pk_payload_index (tc_network_to_client c)))"
    using inflate_after_reply [OF d f n'] by blast
  have ch: "ch_inv (en_channel e)" using inv by (simp add: ctx_inv_def)
  obtain r e' where "send_through P (ip_raw s) e = Some (r, e')" using send_through_ok [OF P ch] by blast
  then show ?thesis
    using s n(1) lq by (auto simp: reply_empty_packet_to_client_def tcp_get_def)
qed

text \<open>\<open>next\<close> counts the whole packet, headers included, as bytes of the stream.\<close>

lemma tcp_next_counts_headers:
  assumes P: "poll_works P" and inv: "ctx_inv x" and op: "\<not> tc_closed (fst x)"
    and q: "data_segment c bs q" and len: "tc_packet_for_client_length (fst x) = Some (ipv4_packet_length q)"
  shows "\<exists>y. tcp_next P x = Some y \<and> tc_packet_for_client_length (fst y) = None
    \<and> tcb_sequence_number (tc_tcb (fst y)) = tcb_sequence_number (tc_tcb (fst x))
        + of_nat (pk_payload_index (tc_network_to_client c) + length bs)"
proof -
  obtain c0 e where x: "x = (c0, e)" by (cases x)
  let ?x = "tcb_update (\<lambda>t. t\<lparr>tcb_sequence_number := tcb_sequence_number t + ucast (ipv4_packet_length q)\<rparr>) x"
  let ?y = "((fst ?x)\<lparr>tc_packet_for_client_length := None\<rparr>, snd ?x)"
  have i: "ctx_inv ?y" "\<not> tc_closed (fst ?y)" using inv op by (simp_all add: ctx_inv_def tc_inv_def)
  obtain z where z: "tcp_update_interests P ?y = Some z" "tc_tcb (fst z) = tc_tcb (fst ?y)"
    "tc_packet_for_client_length (fst z) = tc_packet_for_client_length (fst ?y)"
    using tcp_update_interests_ok [OF P i] by blast
  have acc: "ipv4_accepted q" using q by (simp add: data_segment_def ipv4_sendable_def)
  have "unat (ipv4_packet_length q) = length (ip_raw q)"
    using acc ipv4_packet_okD(2) by (simp add: ipv4_accepted_def ipv4_packet_length_def)
  then have "(ucast (ipv4_packet_length q) :: u32) = of_nat (length (ip_raw q))"
    by (metis unat_ucast_16_32 of_nat_unat ucast_id)
  then show ?thesis
    using z len q by (intro exI [of _ z]) (simp add: tcp_next_def case_prod_beta data_segment_def)
qed

text \<open>A connection that was closed while its packet waited: \<open>next\<close> panics, in \<open>update_interests\<close>.\<close>

lemma tcp_next_closed: "tc_closed (fst x) \<Longrightarrow> tcp_next P x = None"
  by (cases "tc_packet_for_client_length (fst x)")
    (simp_all add: tcp_next_def tcp_update_interests_def case_prod_beta)

text \<open>A reset of the client closes it at once, whatever waits.\<close>

lemma handle_packet_rst:
  assumes q: "tcp_packet q h" and h: "is_rst h" "\<not> is_syn h" "th_sequence_number h = tcp_expected (fst x)"
    and s: "state_of x \<noteq> Init"
  shows "\<exists>y. handle_packet P random q x = Some y \<and> tc_closed (fst y)
    \<and> tc_packet_for_client_length (fst y) = tc_packet_for_client_length (fst x)"
  using tcp_packet_ok(1) [OF q] h s by (simp add: handle_packet_def tcp_expected_def)

end
