(* ===== verification/Udp_Connection.thy ===== *)
theory Udp_Connection
  imports Conn_Env Packetizer Datagram_Buffer
begin

text \<open>
  \<open>relay/udp_connection.rs\<close>: one UDP flow.  Datagrams of the client wait in a
  \<open>DatagramBuffer\<close>; a datagram of the socket becomes one packet to the client, or is dropped.
\<close>

definition UDP_IDLE_TIMEOUT_SECONDS :: nat where
  "UDP_IDLE_TIMEOUT_SECONDS = 2 * 60"

record udp_connection =
  uc_id :: connection_id
  uc_socket :: nat
  uc_interests :: ready
  uc_token :: nat
  uc_client_to_network :: datagram_buffer
  uc_network_to_client :: packetizer
  uc_closed :: bool
  uc_idle_since :: nat

type_synonym udp_ctx = "udp_connection \<times> conn_env"

text \<open>What the socket returns during one event: \<open>UdpSocket::recv\<close> and \<open>UdpSocket::send\<close>.\<close>

record udp_io =
  uio_recv :: reader
  uio_send :: datagram_sender

definition udp_close :: "poll \<Rightarrow> udp_ctx \<Rightarrow> udp_ctx" where
  "udp_close P = (\<lambda>(c, e). (c\<lparr>uc_closed := True\<rparr>,
     e\<lparr>en_selector := snd (selector_deregister P (uc_socket c) (uc_token c) (en_selector e))\<rparr>))"

definition udp_remove_from_router :: "udp_ctx \<Rightarrow> udp_ctx" where
  "udp_remove_from_router = (\<lambda>(c, e). (c, request RemoveFromRouter e))"

definition udp_touch :: "nat \<Rightarrow> udp_ctx \<Rightarrow> udp_ctx" where
  "udp_touch now = (\<lambda>(c, e). (c\<lparr>uc_idle_since := now\<rparr>, e))"

definition udp_wanted :: "udp_connection \<Rightarrow> ready" where
  "udp_wanted c = (if dg_is_empty (uc_client_to_network c) then ready_readable
     else sup ready_readable ready_writable)"

definition udp_update_interests :: "poll \<Rightarrow> udp_ctx \<Rightarrow> udp_ctx option" where
  "udp_update_interests P = (\<lambda>(c, e). do {
     let ready = udp_wanted c;
     if uc_interests c \<noteq> ready then do {
       s \<leftarrow> reregister_expect P (uc_socket c) (uc_token c) ready (en_selector e);
       Some (c\<lparr>uc_interests := ready\<rparr>, e\<lparr>en_selector := s\<rparr>) }
     else Some (c, e) })"

definition udp_read :: "poll \<Rightarrow> reader \<Rightarrow> udp_ctx \<Rightarrow> (unit io_result \<times> udp_ctx) option" where
  "udp_read P recv = (\<lambda>(c, e). do {
     (r, p) \<leftarrow> packetize recv (uc_network_to_client c);
     let c = c\<lparr>uc_network_to_client := p\<rparr>;
     case r of
       Inl failure \<Rightarrow> Some (Inl failure, c, e)
     | Inr ipv4_packet \<Rightarrow> do {
         (_, e) \<leftarrow> send_through P (ip_raw ipv4_packet) e;
         Some (Inr (), c, e) } })"

definition udp_write :: "datagram_sender \<Rightarrow> udp_ctx \<Rightarrow> (unit io_result \<times> udp_ctx) option" where
  "udp_write send = (\<lambda>(c, e). do {
     (r, b) \<leftarrow> dg_write_to send (uc_client_to_network c);
     Some (r, c\<lparr>uc_client_to_network := b\<rparr>, e) })"

definition udp_process_send :: "poll \<Rightarrow> datagram_sender \<Rightarrow> udp_ctx \<Rightarrow> (unit io_result \<times> udp_ctx) option" where
  "udp_process_send P send x = do {
     (r, x) \<leftarrow> udp_write send x;
     case r of
       Inr _ \<Rightarrow> Some (Inr (), x)
     | Inl failure \<Rightarrow> if failure = WouldBlock then Some (Inr (), x) else Some (Inr (), udp_close P x) }"

definition udp_process_receive :: "poll \<Rightarrow> reader \<Rightarrow> udp_ctx \<Rightarrow> (unit io_result \<times> udp_ctx) option" where
  "udp_process_receive P recv x = do {
     (r, x) \<leftarrow> udp_read P recv x;
     case r of
       Inr _ \<Rightarrow> Some (Inr (), x)
     | Inl failure \<Rightarrow> if failure = WouldBlock then Some (Inl failure, x) else Some (Inr (), udp_close P x) }"

definition udp_process :: "poll \<Rightarrow> nat \<Rightarrow> udp_io \<Rightarrow> ready \<Rightarrow> udp_ctx \<Rightarrow> (unit io_result \<times> udp_ctx) option" where
  "udp_process P now sock ready x =
     (if \<not> uc_closed (fst x) then
        then_process
          (let x = udp_touch now x in
           if is_readable ready \<or> is_writable ready then
             then_process
               (if is_writable ready then udp_process_send P (uio_send sock) x else Some (Inr (), x))
               (\<lambda>x. then_process
                 (if \<not> uc_closed (fst x) \<and> is_readable ready
                  then udp_process_receive P (uio_recv sock) x else Some (Inr (), x))
                 (\<lambda>x. if \<not> uc_closed (fst x)
                    then map_option (Pair (Inr ())) (udp_update_interests P x)
                    else Some (Inr (), x)))
           else Some (Inr (), udp_close P x))
          (\<lambda>x. Some (Inr (), if uc_closed (fst x) then udp_remove_from_router x else x))
      else Some (Inr (), x))"

definition udp_on_ready :: "poll \<Rightarrow> nat \<Rightarrow> udp_io \<Rightarrow> ready \<Rightarrow> udp_ctx \<Rightarrow> udp_ctx option" where
  "udp_on_ready P now sock ready x = do {
     (r, x) \<leftarrow> udp_process P now sock ready x;
     case r of
       Inr _ \<Rightarrow> Some x
     | Inl failure \<Rightarrow>
         if failure = WouldBlock then Some x
         else Some (udp_remove_from_router (if \<not> uc_closed (fst x) then udp_close P x else x)) }"

definition udp_send_to_network :: "poll \<Rightarrow> ip_packet \<Rightarrow> udp_ctx \<Rightarrow> udp_ctx option" where
  "udp_send_to_network P packet = (\<lambda>(c, e). case packet of
     Ipv6 _ \<Rightarrow> Some (c, e)
   | Ipv4 ipv4_packet \<Rightarrow> do {
       p \<leftarrow> ipv4_packet_payload ipv4_packet;
       payload \<leftarrow> p;
       (r, b) \<leftarrow> dg_read_from payload (uc_client_to_network c);
       let x = (c\<lparr>uc_client_to_network := b\<rparr>, e);
       case r of
         Inr _ \<Rightarrow> udp_update_interests P x
       | Inl _ \<Rightarrow> Some x })"

definition udp_is_expired :: "nat \<Rightarrow> udp_connection \<Rightarrow> bool" where
  "udp_is_expired now c \<longleftrightarrow> elapsed_secs now (uc_idle_since c) > UDP_IDLE_TIMEOUT_SECONDS"

text \<open>\<open>bound\<close> is \<open>UdpSocket::bind\<close> on an address the system picks; \<open>connect\<close> the call on the result.\<close>

definition udp_create_socket :: "(ipv4_addr \<times> u16) option \<Rightarrow> nat io_result \<Rightarrow> (nat \<Rightarrow> socket_addr \<Rightarrow> unit io_result)
    \<Rightarrow> connection_id \<Rightarrow> (io_error, nat) fallible" where
  "udp_create_socket upstream bound connect cid = (case bound of
     Inl e \<Rightarrow> err e
   | Inr socket \<Rightarrow> do {
       destination \<leftarrow> rewritten_destination upstream cid;
       case connect socket destination of Inl e \<Rightarrow> err e | Inr _ \<Rightarrow> ok socket })"

definition udp_create :: "poll \<Rightarrow> ((nat \<rightharpoonup> handler) \<Rightarrow> nat) \<Rightarrow> (ipv4_addr \<times> u16) option
    \<Rightarrow> nat io_result \<Rightarrow> (nat \<Rightarrow> socket_addr \<Rightarrow> unit io_result) \<Rightarrow> nat \<Rightarrow> nat \<Rightarrow> connection_id
    \<Rightarrow> ipv4_header_mut \<Rightarrow> transport_header_mut \<Rightarrow> selector \<Rightarrow> (udp_connection io_result \<times> selector) option" where
  "udp_create P vacant upstream bound connect me now cid ipv4_header transport_header s = do {
     created \<leftarrow> udp_create_socket upstream bound connect cid;
     case created of
       Inl e \<Rightarrow> Some (Inl e, s)
     | Inr socket \<Rightarrow> do {
         packetizer \<leftarrow> packetizer_new ipv4_header transport_header;
         (r, s) \<leftarrow> selector_register P vacant socket (ConnectionHandler me) ready_readable s;
         case r of
           Inl e \<Rightarrow> Some (Inl e, s)
         | Inr token \<Rightarrow> Some (Inr \<lparr>uc_id = cid, uc_socket = socket, uc_interests = ready_readable,
             uc_token = token, uc_client_to_network = dg_new (4 * MAX_PACKET_LENGTH),
             uc_network_to_client = packetizer, uc_closed = False, uc_idle_since = now\<rparr>, s) } }"

end
