(* ===== verification/Udp_Facts.thy ===== *)
theory Udp_Facts
  imports Udp_Connection
begin

text \<open>
  What the handlers of \<open>Udp_Connection\<close> do: the invariant they keep, and the events they handle
  without a panic.
\<close>

section \<open>The buffer of datagrams\<close>

text \<open>Every datagram of the client leads to a well-formed buffer: the datagram is stored last,
  refused for want of space, or it brings the head onto the tail and everything is forgotten.\<close>

lemma dg_read_from_cases:
  assumes h: "dg_holds b ds" and len: "length d \<le> 65535"
  obtains (stored) b' where "dg_read_from d b = Some (Inr (), b')" "dg_holds b' (ds @ [d])"
  | (refused) "dg_read_from d b = Some (Inl OtherError, b)"
  | (forgotten) b' where "dg_read_from d b = Some (Inr (), b')" "dg_holds b' []"
proof (cases "dg_has_enough_space_for (length d) b")
  case False
  then have "dg_read_from d b = Some (Inl OtherError, b)" using len by (intro dg_read_from_full) simp_all
  then show thesis by (rule refused)
next
  case True
  show thesis
  proof (cases "0 < dg_tail b \<or> dg_head b + 2 + length d < dg_circular_length b")
    case safe: True
    show thesis using dg_read_from_ok [OF h len True safe] stored by blast
  next
    case False
    then have "dg_tail b = 0" "dg_circular_length b \<le> dg_head b + 2 + length d" by simp_all
    then show thesis using dg_read_from_forgets [OF h len] forgotten by blast
  qed
qed

section \<open>The invariant\<close>

definition uc_inv :: "udp_connection \<Rightarrow> bool" where
  "uc_inv c \<longleftrightarrow> pk_inv (uc_network_to_client c) \<and> (\<exists>ds. dg_holds (uc_client_to_network c) ds)"

definition udp_inv :: "udp_ctx \<Rightarrow> bool" where
  "udp_inv x \<longleftrightarrow> uc_inv (fst x) \<and> ch_inv (en_channel (snd x)) \<and> sel_inv (en_selector (snd x))
     \<and> (\<not> uc_closed (fst x) \<longrightarrow> live_token (en_selector (snd x)) (uc_token (fst x)))"

text \<open>What no handler changes, and the tokens of others it leaves alone.\<close>

definition udp_step :: "udp_ctx \<Rightarrow> udp_ctx \<Rightarrow> bool" where
  "udp_step x y \<longleftrightarrow> udp_inv y \<and> uc_id (fst y) = uc_id (fst x) \<and> uc_token (fst y) = uc_token (fst x)
     \<and> uc_socket (fst y) = uc_socket (fst x)
     \<and> pk_payload_index (uc_network_to_client (fst y)) = pk_payload_index (uc_network_to_client (fst x))
     \<and> ch_frame (en_channel (snd x)) (en_channel (snd y))
     \<and> (\<forall>t. live_token (en_selector (snd x)) t \<and> t \<noteq> uc_token (fst x) \<longrightarrow> live_token (en_selector (snd y)) t)
     \<and> (\<exists>rs. en_requests (snd y) = en_requests (snd x) @ rs)"

lemma udp_step_refl: "udp_inv x \<Longrightarrow> udp_step x x"
  by (simp add: udp_step_def)

lemma udp_step_trans [trans]: "udp_step x y \<Longrightarrow> udp_step y z \<Longrightarrow> udp_step x z"
  by (auto simp: udp_step_def intro: ch_frame_trans)

lemma udp_step_inv: "udp_step x y \<Longrightarrow> udp_inv y"
  by (simp add: udp_step_def)

text \<open>Writes are asked for exactly when a datagram waits.\<close>

definition udp_interest_ok :: "udp_connection \<Rightarrow> bool" where
  "udp_interest_ok c \<longleftrightarrow> (is_writable (uc_interests c) \<longrightarrow> \<not> dg_is_empty (uc_client_to_network c))"

lemma udp_update_interests_ok:
  assumes P: "poll_works P" and inv: "udp_inv x"
  shows "\<exists>y. udp_update_interests P x = Some y \<and> udp_step x y \<and> udp_interest_ok (fst y)
    \<and> uc_closed (fst y) = uc_closed (fst x) \<and> uc_client_to_network (fst y) = uc_client_to_network (fst x)
    \<and> uc_interests (fst y) = udp_wanted (fst x) \<and> en_requests (snd y) = en_requests (snd x)
    \<and> en_channel (snd y) = en_channel (snd x)"
proof -
  obtain c e where x: "x = (c, e)" by (cases x)
  let ?op = "PollReregister (uc_socket c) (uc_token c) (udp_wanted c)"
  let ?s = "(en_selector e)\<lparr>sel_log := ?op # sel_log (en_selector e)\<rparr>"
  have same: "same_tokens (en_selector e) ?s" by (simp add: same_tokens_def)
  have w: "is_writable (udp_wanted c) \<Longrightarrow> \<not> dg_is_empty (uc_client_to_network c)"
    by (auto simp: udp_wanted_def ready_defs split: if_splits)
  show ?thesis
    using P inv w same_tokens_inv [OF same]
    by (auto simp: x udp_update_interests_def Let_def reregister_expect_ok udp_step_def udp_inv_def uc_inv_def
        udp_interest_ok_def)
qed

lemma udp_close_ok:
  assumes inv: "udp_inv x" and op: "\<not> uc_closed (fst x)"
  shows "udp_step x (udp_close P x)" and "uc_closed (fst (udp_close P x))"
    and "en_requests (snd (udp_close P x)) = en_requests (snd x)"
    and "en_channel (snd (udp_close P x)) = en_channel (snd x)"
  using assms selector_deregister_ok [of "en_selector (snd x)" "uc_token (fst x)" P "uc_socket (fst x)"]
  by (auto simp: udp_step_def udp_inv_def uc_inv_def udp_close_def case_prod_beta)

section \<open>Packets from the client\<close>

definition udp_packet :: "ipv4_packet \<Rightarrow> udp_header_data \<Rightarrow> bool" where
  "udp_packet q h \<longleftrightarrow> ipv4_accepted q \<and> ip_transport_data q = Some (UdpTransport h)"

lemma ipv4_payload_bounded:
  assumes "ipv4_accepted q" and "ip_transport_data q = Some t"
  shows "\<exists>bs. ipv4_packet_payload q = Some (Some bs) \<and> length bs \<le> 65535"
proof -
  have ok: "ipv4_packet_ok q" using assms by (simp add: ipv4_accepted_def)
  show ?thesis
    using ipv4_packet_payload_ok [OF ok assms(2)] ipv4_packet_okD(2) [OF ok]
      u16_less [of "ih_total_length (ip_header_data q)"]
    by (auto intro!: exI)
qed

lemma udp_send_to_network_ok:
  assumes P: "poll_works P" and inv: "udp_inv x" and op: "\<not> uc_closed (fst x)"
    and q: "ipv4_accepted q" "ip_transport_data q = Some t"
  shows "\<exists>y. udp_send_to_network P (Ipv4 q) x = Some y \<and> udp_step x y
    \<and> (udp_interest_ok (fst x) \<longrightarrow> udp_interest_ok (fst y))
    \<and> \<not> uc_closed (fst y) \<and> en_requests (snd y) = en_requests (snd x)
    \<and> en_channel (snd y) = en_channel (snd x)"
proof -
  obtain c e where x: "x = (c, e)" by (cases x)
  obtain bs where bs: "ipv4_packet_payload q = Some (Some bs)" "length bs \<le> 65535"
    using ipv4_payload_bounded [OF q] by blast
  obtain ds where ds: "dg_holds (uc_client_to_network c) ds" using inv by (auto simp: x udp_inv_def uc_inv_def)
  have upd: ?thesis if r: "dg_read_from bs (uc_client_to_network c) = Some (Inr (), b)" and h: "dg_holds b ds'" for b ds'
  proof -
    let ?x = "(c\<lparr>uc_client_to_network := b\<rparr>, e)"
    have s: "udp_step x ?x" using inv h by (auto simp: x udp_step_def udp_inv_def uc_inv_def)
    obtain y where "udp_update_interests P ?x = Some y" "udp_step ?x y" "udp_interest_ok (fst y)"
      "uc_closed (fst y) = uc_closed (fst ?x)" "en_requests (snd y) = en_requests (snd ?x)"
      "en_channel (snd y) = en_channel (snd ?x)"
      using udp_update_interests_ok [OF P udp_step_inv [OF s]] by blast
    then show ?thesis using s bs(1) r op by (intro exI [of _ y]) (auto simp: x udp_send_to_network_def intro: udp_step_trans)
  qed
  from ds bs(2) show ?thesis
  proof (cases rule: dg_read_from_cases)
    case refused
    then show ?thesis using bs(1) op inv by (simp add: x udp_send_to_network_def udp_step_refl)
  qed (use upd in blast)+
qed

section \<open>Events of the socket\<close>

text \<open>
  A \<open>recv\<close> keeps the contract of a reader, and its datagram leaves a byte of the room free: with the
  buffer of 65536 bytes full, the length of the packet would not fit its field.  For a header
  without options the room is 65508 bytes, one more than a UDP datagram over IPv4 can have.
\<close>

definition udp_recv_ok :: "udp_connection \<Rightarrow> reader \<Rightarrow> bool" where
  "udp_recv_ok c R \<longleftrightarrow> reader_ok R \<and> (\<forall>bs. R (pk_room (uc_network_to_client c)) = Inr bs \<longrightarrow>
     length bs < pk_room (uc_network_to_client c))"

lemma pk_room_eq: "pk_inv p \<Longrightarrow> pk_room p = 65536 - pk_payload_index p"
  using pk_invD(1) [of p] by (simp add: pk_room_def)

lemma udp_recv_ok_step:
  assumes "udp_inv x" and "udp_step x y"
  shows "udp_recv_ok (fst y) R = udp_recv_ok (fst x) R"
  using assms pk_room_eq [of "uc_network_to_client (fst x)"] pk_room_eq [of "uc_network_to_client (fst y)"]
  by (simp add: udp_recv_ok_def udp_step_def udp_inv_def uc_inv_def)

text \<open>A datagram of the socket: one packet with exactly its bytes, offered to the client.\<close>

definition datagram_packet :: "udp_connection \<Rightarrow> bytes \<Rightarrow> ipv4_packet \<Rightarrow> bool" where
  "datagram_packet c bs q \<longleftrightarrow> ipv4_sendable q \<and> ipv4_payload_bytes q = Some bs
     \<and> ip_transport_data q = Some (pk_transport_header_data (uc_network_to_client c))
     \<and> length (ip_raw q) = pk_payload_index (uc_network_to_client c) + length bs
     \<and> ih_source (ip_header_data q) = ih_source (pk_ipv4_header_data (uc_network_to_client c))
     \<and> ih_destination (ip_header_data q) = ih_destination (pk_ipv4_header_data (uc_network_to_client c))"

lemma udp_read_ok:
  assumes P: "poll_works P" and inv: "udp_inv x" and R: "udp_recv_ok (fst x) R"
  shows "\<exists>r y. udp_read P R x = Some (r, y) \<and> udp_step x y \<and> uc_closed (fst y) = uc_closed (fst x)
    \<and> uc_client_to_network (fst y) = uc_client_to_network (fst x)
    \<and> uc_interests (fst y) = uc_interests (fst x) \<and> en_requests (snd y) = en_requests (snd x)
    \<and> (case R (pk_room (uc_network_to_client (fst x))) of
        Inl f \<Rightarrow> r = Inl f \<and> y = x
      | Inr bs \<Rightarrow> r = Inr () \<and> (\<exists>q. datagram_packet (fst x) bs q \<and> offered (snd x) (ip_raw q) (snd y)))"
proof -
  obtain c e where x: "x = (c, e)" by (cases x)
  let ?p = "uc_network_to_client c"
  have pi: "pk_inv ?p" and ch: "ch_inv (en_channel e)" using inv by (simp_all add: x udp_inv_def uc_inv_def)
  show ?thesis
  proof (cases "R (pk_room ?p)")
    case (Inl f)
    have "packetize R ?p = Some (Inl f, ?p)" using pk_recv_error [of ?p R f, OF pi Inl] by (simp add: packetize_def)
    then show ?thesis using Inl inv by (simp add: x udp_read_def udp_step_refl)
  next
    case (Inr bs)
    then have "length bs < 65536 - pk_payload_index ?p"
      using R pk_room_eq [OF pi] by (simp add: x udp_recv_ok_def)
    then have len: "length bs \<le> pk_capacity ?p" unfolding pk_capacity_def by linarith
    obtain p1 q p' where q: "pk_recv R ?p = Some (Inr (length bs), p1)"
      "packetizer_build (of_nat (length bs)) p1 = Some (q, p')" "pk_inv p'" "ipv4_accepted q"
      "ipv4_checksum_valid q" "transport_checksum_valid q" "ipv4_packet_payload q = Some (Some bs)"
      "ip_header_data q = (pk_ipv4_header_data ?p)\<lparr>ih_total_length := of_nat (pk_payload_index ?p + length bs)\<rparr>"
      "ip_transport_data q = Some (pk_transport_header_data ?p)"
      "length (ip_raw q) = pk_payload_index ?p + length bs" "pk_payload_index p' = pk_payload_index ?p"
      using pk_recv_build [of ?p R bs, OF pi Inr len] by blast
    obtain r e' where e': "send_through P (ip_raw q) e = Some (r, e')" "offered e (ip_raw q) e'"
      using send_through_ok [OF P ch] by blast
    have d: "datagram_packet c bs q"
      using q(4-10) by (simp add: datagram_packet_def ipv4_sendable_def ipv4_payload_bytes_def)
    have run: "udp_read P R x = Some (Inr (), c\<lparr>uc_network_to_client := p'\<rparr>, e')"
      using q(1,2) e'(1) by (simp add: x udp_read_def packetize_def)
    have "udp_step x (c\<lparr>uc_network_to_client := p'\<rparr>, e')"
      using inv q(3,11) e'(2) same_tokens_inv
      by (auto simp: x udp_step_def udp_inv_def uc_inv_def offered_def)
    then show ?thesis using run Inr d e'(2) by (auto simp: x offered_def)
  qed
qed

lemma udp_write_ok:
  assumes inv: "udp_inv x" and ne: "\<not> dg_is_empty (uc_client_to_network (fst x))"
  shows "\<exists>r y. udp_write S x = Some (r, y) \<and> udp_step x y \<and> uc_closed (fst y) = uc_closed (fst x)
    \<and> uc_network_to_client (fst y) = uc_network_to_client (fst x) \<and> en_requests (snd y) = en_requests (snd x)"
proof -
  obtain c e where x: "x = (c, e)" by (cases x)
  obtain ds where ds: "dg_holds (uc_client_to_network c) ds" using inv by (auto simp: x udp_inv_def uc_inv_def)
  then obtain d ds' where "ds = d # ds'" using ne dg_holds_empty [OF ds] by (cases ds) (auto simp: x)
  then obtain b where b: "dg_write_to S (uc_client_to_network c) = Some (send_outcome S d, b)" "dg_holds b ds'"
    using dg_write_to_ok ds by blast
  have "udp_step x (c\<lparr>uc_client_to_network := b\<rparr>, e)"
    using inv b(2) by (auto simp: x udp_step_def udp_inv_def uc_inv_def)
  then show ?thesis using b(1) by (simp add: x udp_write_def)
qed

lemma udp_process_send_ok:
  assumes inv: "udp_inv x" and op: "\<not> uc_closed (fst x)"
    and ne: "\<not> dg_is_empty (uc_client_to_network (fst x))"
  shows "\<exists>y. udp_process_send P S x = Some (Inr (), y) \<and> udp_step x y \<and> en_requests (snd y) = en_requests (snd x)"
proof -
  obtain r y where y: "udp_write S x = Some (r, y)" "udp_step x y" "uc_closed (fst y) = uc_closed (fst x)"
    "en_requests (snd y) = en_requests (snd x)"
    using udp_write_ok [OF inv ne] by blast
  have "udp_step y (udp_close P y)" "en_requests (snd (udp_close P y)) = en_requests (snd y)"
    using udp_close_ok(1,3) [OF udp_step_inv [OF y(2)]] y(3) op by simp_all
  then have c: "udp_step x (udp_close P y)" "en_requests (snd (udp_close P y)) = en_requests (snd x)"
    using y(2,4) by (auto intro: udp_step_trans)
  show ?thesis
    using y(1,2,4) c by (cases r) (auto simp: udp_process_send_def simp del: split_paired_Ex intro: exI [of _ y] exI [of _ "udp_close P y"])
qed

lemma udp_process_receive_ok:
  assumes P: "poll_works P" and inv: "udp_inv x" and op: "\<not> uc_closed (fst x)" and R: "udp_recv_ok (fst x) R"
  shows "\<exists>r y. udp_process_receive P R x = Some (r, y) \<and> udp_step x y \<and> en_requests (snd y) = en_requests (snd x)
    \<and> (case r of Inl f \<Rightarrow> f = WouldBlock \<and> y = x | Inr _ \<Rightarrow> True)"
proof -
  obtain r y where y: "udp_read P R x = Some (r, y)" "udp_step x y" "uc_closed (fst y) = uc_closed (fst x)"
    "en_requests (snd y) = en_requests (snd x)"
    "case R (pk_room (uc_network_to_client (fst x))) of Inl f \<Rightarrow> r = Inl f \<and> y = x | Inr bs \<Rightarrow> r = Inr ()
        \<and> (\<exists>q. datagram_packet (fst x) bs q \<and> offered (snd x) (ip_raw q) (snd y))"
    using udp_read_ok [OF P inv R] by blast
  have "udp_step y (udp_close P y)" "en_requests (snd (udp_close P y)) = en_requests (snd y)"
    using udp_close_ok(1,3) [OF udp_step_inv [OF y(2)]] y(3) op by simp_all
  then have c: "udp_step x (udp_close P y)" "en_requests (snd (udp_close P y)) = en_requests (snd x)"
    using y(2,4) by (auto intro: udp_step_trans)
  consider (sent) "r = Inr ()" | (block) "r = Inl WouldBlock" "y = x" | (fail) f where "r = Inl f" "f \<noteq> WouldBlock"
    using y(5) by (auto split: sum.splits)
  then show ?thesis
  proof cases
    case sent
    then show ?thesis using y(1,2,4) by (simp add: udp_process_receive_def)
  next
    case block
    then show ?thesis using y(1,2,4) by (simp add: udp_process_receive_def)
  next
    case fail
    then show ?thesis using y(1) c
      by (intro exI [of _ "Inr ()"] exI [of _ "udp_close P y"]) (simp add: udp_process_receive_def)
  qed
qed

text \<open>The second half of an event: the read, then the interests.\<close>

definition udp_read_phase :: "poll \<Rightarrow> reader \<Rightarrow> ready \<Rightarrow> udp_ctx \<Rightarrow> (unit io_result \<times> udp_ctx) option" where
  "udp_read_phase P R ready x = then_process
     (if \<not> uc_closed (fst x) \<and> is_readable ready then udp_process_receive P R x else Some (Inr (), x))
     (\<lambda>x. if \<not> uc_closed (fst x) then map_option (Pair (Inr ())) (udp_update_interests P x) else Some (Inr (), x))"

lemma udp_update_done:
  assumes P: "poll_works P" and s: "udp_step x y"
  shows "\<exists>z. (if \<not> uc_closed (fst y) then map_option (Pair (Inr ())) (udp_update_interests P y)
      else Some (Inr (), y)) = Some (Inr (), z) \<and> udp_step x z \<and> (\<not> uc_closed (fst z) \<longrightarrow> udp_interest_ok (fst z))"
proof (cases "uc_closed (fst y)")
  case False
  obtain z where "udp_update_interests P y = Some z" "udp_step y z" "udp_interest_ok (fst z)"
    using udp_update_interests_ok [OF P udp_step_inv [OF s]] by blast
  then show ?thesis using False s by (auto intro: udp_step_trans)
qed (use s in simp)

lemma udp_read_phase_ok:
  assumes P: "poll_works P" and s: "udp_step x y" and R: "udp_recv_ok (fst y) R"
  shows "\<exists>r z. udp_read_phase P R ready y = Some (r, z) \<and> udp_step x z
    \<and> (case r of Inl f \<Rightarrow> f = WouldBlock \<and> z = y \<and> \<not> uc_closed (fst y) \<and> is_readable ready
       | Inr _ \<Rightarrow> \<not> uc_closed (fst z) \<longrightarrow> udp_interest_ok (fst z))"
proof (cases "\<not> uc_closed (fst y) \<and> is_readable ready")
  case False
  then show ?thesis using udp_update_done [OF P s] by (auto simp: udp_read_phase_def)
next
  case True
  then have op: "\<not> uc_closed (fst y)" by simp
  obtain r z where z: "udp_process_receive P R y = Some (r, z)" "udp_step y z"
    "case r of Inl f \<Rightarrow> f = WouldBlock \<and> z = y | Inr _ \<Rightarrow> True"
    using udp_process_receive_ok [OF P udp_step_inv [OF s] op R] by blast
  have xz: "udp_step x z" using s z(2) by (rule udp_step_trans)
  show ?thesis
  proof (cases r)
    case (Inl f)
    then show ?thesis using True z xz by (simp add: udp_read_phase_def)
  next
    case (Inr u)
    then show ?thesis using True z udp_update_done [OF P xz] by (auto simp: udp_read_phase_def)
  qed
qed

lemma udp_touch_ok:
  assumes "udp_inv x"
  shows "udp_step x (udp_touch now x)" and "uc_closed (fst (udp_touch now x)) = uc_closed (fst x)"
    and "uc_client_to_network (fst (udp_touch now x)) = uc_client_to_network (fst x)"
    and "udp_interest_ok (fst (udp_touch now x)) = udp_interest_ok (fst x)"
  using assms by (simp_all add: udp_touch_def case_prod_beta udp_step_def udp_inv_def uc_inv_def udp_interest_ok_def)

lemma udp_remove_ok:
  "udp_step x y \<Longrightarrow> udp_step x (udp_remove_from_router y)"
  "fst (udp_remove_from_router y) = fst y"
  by (auto simp: udp_remove_from_router_def case_prod_beta request_def udp_step_def udp_inv_def)

text \<open>
  An event: writable is only reported while a datagram waits.  Afterwards the interests agree with
  the buffer, except when a datagram left and the read of the same event was spurious.
\<close>

lemma udp_process_ok:
  assumes P: "poll_works P" and inv: "udp_inv x" and R: "udp_recv_ok (fst x) (uio_recv sock)"
    and ev: "is_writable ready \<longrightarrow> \<not> dg_is_empty (uc_client_to_network (fst x))"
  shows "\<exists>r y. udp_process P now sock ready x = Some (r, y) \<and> udp_step x y
    \<and> (case r of Inl f \<Rightarrow> f = WouldBlock \<and> is_readable ready \<and> (is_writable ready \<or> udp_interest_ok (fst y) = udp_interest_ok (fst x))
       | Inr _ \<Rightarrow> \<not> uc_closed (fst y) \<longrightarrow> udp_interest_ok (fst y))"
proof (cases "uc_closed (fst x)")
  case True
  then show ?thesis by (simp add: udp_process_def udp_step_refl [OF inv])
next
  case False
  let ?x = "udp_touch now x"
  note T = udp_touch_ok [OF inv, of now]
  have T': "udp_inv ?x" "\<not> uc_closed (fst ?x)" using udp_step_inv [OF T(1)] T(2) False by simp_all
  show ?thesis
  proof (cases "is_readable ready \<or> is_writable ready")
    case hup: False
    have "udp_step x (udp_close P ?x)" using T(1) udp_close_ok(1) [OF T'] by (rule udp_step_trans)
    then show ?thesis using hup False udp_close_ok(2) [OF T', of P] udp_remove_ok(1) [of x "udp_close P ?x"] udp_remove_ok(2)
      by (simp add: udp_process_def Let_def)
  next
    case rw: True
    obtain y where y: "(if is_writable ready then udp_process_send P (uio_send sock) ?x else Some (Inr (), ?x)) = Some (Inr (), y)"
      "udp_step ?x y" "\<not> is_writable ready \<longrightarrow> y = ?x"
      using udp_process_send_ok [OF T', of P "uio_send sock"] ev T(3) udp_step_refl [OF T'(1)]
      by (cases "is_writable ready") auto
    have xy: "udp_step x y" using T(1) y(2) by (rule udp_step_trans)
    have Ry: "udp_recv_ok (fst y) (uio_recv sock)" using R udp_recv_ok_step [OF inv xy] by simp
    obtain r z where z: "udp_read_phase P (uio_recv sock) ready y = Some (r, z)" "udp_step x z"
      "case r of Inl f \<Rightarrow> f = WouldBlock \<and> z = y \<and> \<not> uc_closed (fst y) \<and> is_readable ready
       | Inr _ \<Rightarrow> \<not> uc_closed (fst z) \<longrightarrow> udp_interest_ok (fst z)"
      using udp_read_phase_ok [OF P xy Ry] by blast
    have run: "udp_process P now sock ready x = then_process (Some (r, z))
        (\<lambda>x. Some (Inr (), if uc_closed (fst x) then udp_remove_from_router x else x))"
      using False rw y(1) z(1) by (simp add: udp_process_def Let_def udp_read_phase_def)
    show ?thesis
    proof (cases r)
      case (Inl f)
      then have "\<not> is_writable ready \<Longrightarrow> udp_interest_ok (fst z) = udp_interest_ok (fst x)" using z(3) y(3) T(4) by simp
      then show ?thesis using run Inl z by auto
    next
      case (Inr u)
      then show ?thesis using run z udp_remove_ok(1) [of x z] udp_remove_ok(2) by auto
    qed
  qed
qed

lemma udp_on_ready_ok:
  assumes P: "poll_works P" and inv: "udp_inv x" and R: "udp_recv_ok (fst x) (uio_recv sock)"
    and ev: "is_writable ready \<longrightarrow> \<not> dg_is_empty (uc_client_to_network (fst x))"
  shows "\<exists>y. udp_on_ready P now sock ready x = Some y \<and> udp_step x y
    \<and> (udp_interest_ok (fst x) \<longrightarrow> uc_closed (fst y) \<or> udp_interest_ok (fst y) \<or> is_readable ready \<and> is_writable ready)"
proof -
  obtain r y where y: "udp_process P now sock ready x = Some (r, y)" "udp_step x y"
    "case r of Inl f \<Rightarrow> f = WouldBlock \<and> is_readable ready \<and> (is_writable ready \<or> udp_interest_ok (fst y) = udp_interest_ok (fst x))
       | Inr _ \<Rightarrow> \<not> uc_closed (fst y) \<longrightarrow> udp_interest_ok (fst y)"
    using udp_process_ok [OF assms] by blast
  then show ?thesis by (cases r) (auto simp: udp_on_ready_def)
qed

text \<open>A writable event that finds the buffer empty panics, on the assertion of \<open>write_to\<close>.\<close>

lemma udp_writable_empty_panics:
  assumes "\<not> uc_closed (fst x)" and "is_writable ready" and "dg_is_empty (uc_client_to_network (fst x))"
  shows "udp_on_ready P now sock ready x = None"
  using assms
  by (simp add: udp_on_ready_def udp_process_def Let_def udp_process_send_def udp_write_def udp_touch_def
      dg_write_to_def case_prod_beta)

text \<open>The exception above is reachable: the last datagram leaves, and the read would block.\<close>

lemma udp_spurious_read:
  assumes inv: "udp_inv x" and op: "\<not> uc_closed (fst x)"
    and one: "dg_holds (uc_client_to_network (fst x)) [d]"
    and sock: "uio_send sock d = Inr (length d)" "uio_recv sock (pk_room (uc_network_to_client (fst x))) = Inl WouldBlock"
    and both: "is_readable ready" "is_writable ready"
  shows "\<exists>y. udp_on_ready P now sock ready x = Some y \<and> dg_is_empty (uc_client_to_network (fst y))
    \<and> uc_interests (fst y) = uc_interests (fst x) \<and> \<not> uc_closed (fst y)"
proof -
  obtain c e where x: "x = (c, e)" by (cases x)
  obtain b where b: "dg_write_to (uio_send sock) (uc_client_to_network c) = Some (Inr (), b)" "dg_holds b []"
    using dg_write_to_ok [of "uc_client_to_network c" d "[]" "uio_send sock"] one sock(1)
    by (auto simp: x send_outcome_def)
  have pi: "pk_inv (uc_network_to_client c)" using inv by (simp add: x udp_inv_def uc_inv_def)
  have "packetize (uio_recv sock) (uc_network_to_client c) = Some (Inl WouldBlock, uc_network_to_client c)"
    using pk_recv_error [of "uc_network_to_client c" "uio_recv sock", OF pi] sock(2) by (simp add: packetize_def x)
  then have "udp_on_ready P now sock ready x
      = Some (c\<lparr>uc_idle_since := now, uc_client_to_network := b\<rparr>, e)"
    using b(1) both op
    by (simp add: x udp_on_ready_def udp_process_def Let_def udp_process_send_def udp_write_def udp_touch_def
        udp_process_receive_def udp_read_def)
  then show ?thesis using b(2) dg_holds_empty [OF b(2)] op by (simp add: x)
qed

text \<open>A datagram that fills the room panics: the \<open>u16\<close> length of the packet wraps to 0.\<close>

lemma udp_full_datagram_panics:
  assumes inv: "udp_inv x" and op: "\<not> uc_closed (fst x)" and ready: "is_readable ready" "\<not> is_writable ready"
    and bs: "uio_recv sock (pk_room (uc_network_to_client (fst x))) = Inr bs"
      "length bs = pk_room (uc_network_to_client (fst x))"
  shows "udp_on_ready P now sock ready x = None"
proof -
  obtain c e where x: "x = (c, e)" by (cases x)
  let ?p = "uc_network_to_client c"
  have pi: "pk_inv ?p" using inv by (simp add: x udp_inv_def uc_inv_def)
  obtain p1 where p1: "pk_recv (uio_recv sock) ?p = Some (Inr (length bs), p1)" "pk_inv p1"
    "p1 = ?p\<lparr>pk_buffer := take (pk_payload_index ?p) (pk_buffer ?p) @ bs
        @ drop (pk_payload_index ?p + length bs) (pk_buffer ?p)\<rparr>"
    using pk_recv_ok [of ?p "uio_recv sock" bs, OF pi] bs by (auto simp: x)
  have "pk_payload_index p1 + length bs = 65536"
    using bs(2) pk_invD(7) [OF pi] by (simp add: p1(3) x pk_room_eq [OF pi])
  then have "packetizer_build (of_nat (length bs)) p1 = None" by (rule packetizer_build_overflow [OF p1(2)])
  then have "packetize (uio_recv sock) ?p = None" using p1(1) by (simp add: packetize_def)
  then show ?thesis
    using op ready by (simp add: x udp_on_ready_def udp_process_def Let_def udp_touch_def udp_process_receive_def udp_read_def)
qed

end
