(* ===== verification/Ipv6_Connection.thy ===== *)
theory Ipv6_Connection
  imports Conn_Env Ipv6_Packetizer
begin

text \<open>
  \<open>relay/ipv6_connection.rs\<close>: one IPv6 flow, TCP or UDP.  Payloads of the client are written
  straight to the socket; what the socket delivers becomes one IPv6 packet.
\<close>

definition V6_IDLE_TIMEOUT_SECONDS :: nat where
  "V6_IDLE_TIMEOUT_SECONDS = 2 * 60"

datatype v6_socket = V6Tcp (v6_fd: nat) | V6Udp (v6_fd: nat)

record v6_connection =
  vc_id :: connection_id
  vc_socket :: v6_socket
  vc_network_to_client :: ipv6_packetizer
  vc_token :: nat
  vc_closed :: bool
  vc_idle_since :: nat

type_synonym v6_ctx = "v6_connection \<times> conn_env"

definition v6_close :: "poll \<Rightarrow> v6_ctx \<Rightarrow> v6_ctx" where
  "v6_close P = (\<lambda>(c, e). if vc_closed c then (c, e) else (c\<lparr>vc_closed := True\<rparr>,
     e\<lparr>en_selector := snd (selector_deregister P (v6_fd (vc_socket c)) (vc_token c) (en_selector e))\<rparr>))"

definition v6_remove_from_router :: "v6_ctx \<Rightarrow> v6_ctx" where
  "v6_remove_from_router = (\<lambda>(c, e). (c, request RemoveFromRouter e))"

definition v6_read :: "poll \<Rightarrow> nat \<Rightarrow> reader \<Rightarrow> v6_ctx \<Rightarrow> (unit io_result \<times> v6_ctx) option" where
  "v6_read P now read = (\<lambda>(c, e). do {
     (r, p) \<leftarrow> (case vc_socket c of
       V6Tcp _ \<Rightarrow> ipv6_packetize_read read None (vc_network_to_client c)
     | V6Udp _ \<Rightarrow> map_option (map_prod (map_sum id Some) id)
         (ipv6_packetize read (vc_network_to_client c)));
     let c = c\<lparr>vc_network_to_client := p\<rparr>;
     case r of
       Inl failure \<Rightarrow> Some (Inl failure, c, e)
     | Inr None \<Rightarrow> Some (Inr (), v6_close P (c, e))
     | Inr (Some packet) \<Rightarrow> do {
         (_, e) \<leftarrow> send_through P (i6p_raw packet) e;
         Some (Inr (), c\<lparr>vc_idle_since := now\<rparr>, e) } })"

definition v6_process_receive :: "poll \<Rightarrow> nat \<Rightarrow> reader \<Rightarrow> v6_ctx \<Rightarrow> (unit io_result \<times> v6_ctx) option" where
  "v6_process_receive P now read x = do {
     (r, x) \<leftarrow> v6_read P now read x;
     case r of
       Inr _ \<Rightarrow> Some (Inr (), x)
     | Inl failure \<Rightarrow> if failure = WouldBlock then Some (Inl failure, x) else Some (Inr (), v6_close P x) }"

definition v6_process :: "poll \<Rightarrow> nat \<Rightarrow> reader \<Rightarrow> ready \<Rightarrow> v6_ctx \<Rightarrow> (unit io_result \<times> v6_ctx) option" where
  "v6_process P now read ready x =
     (if vc_closed (fst x) then Some (Inr (), x)
      else then_process
        (if is_readable ready then v6_process_receive P now read x else Some (Inr (), x))
        (\<lambda>x. Some (Inr (), if vc_closed (fst x) then v6_remove_from_router x else x)))"

definition v6_on_ready :: "poll \<Rightarrow> nat \<Rightarrow> reader \<Rightarrow> ready \<Rightarrow> v6_ctx \<Rightarrow> v6_ctx option" where
  "v6_on_ready P now read ready x = do {
     (r, x) \<leftarrow> v6_process P now read ready x;
     case r of
       Inr _ \<Rightarrow> Some x
     | Inl failure \<Rightarrow>
         if failure = WouldBlock then Some x
         else Some (v6_remove_from_router (if \<not> vc_closed (fst x) then v6_close P x else x)) }"

text \<open>A write error closes the flow without deregistering it; a short write is not continued.\<close>

definition v6_send_to_network :: "nat \<Rightarrow> writer \<Rightarrow> ip_packet \<Rightarrow> v6_ctx \<Rightarrow> v6_ctx option" where
  "v6_send_to_network now write packet = (\<lambda>(c, e). case packet of
     Ipv4 _ \<Rightarrow> Some (c, e)
   | Ipv6 ipv6_packet \<Rightarrow> do {
       payload \<leftarrow> ipv6_packet_payload ipv6_packet;
       let c = c\<lparr>vc_idle_since := now\<rparr>;
       if payload = [] then Some (c, e)
       else case write payload of
         Inl failure \<Rightarrow> Some (if failure \<noteq> WouldBlock then c\<lparr>vc_closed := True\<rparr> else c, e)
       | Inr _ \<Rightarrow> Some (c, e) })"

definition v6_is_expired :: "nat \<Rightarrow> v6_connection \<Rightarrow> bool" where
  "v6_is_expired now c \<longleftrightarrow> elapsed_secs now (vc_idle_since c) > V6_IDLE_TIMEOUT_SECONDS"

text \<open>The socket of a new flow: \<open>TcpStream::connect\<close>, or \<open>UdpSocket::bind\<close> and \<open>connect\<close>.\<close>

definition v6_create_socket :: "(socket_addr \<Rightarrow> nat io_result) \<Rightarrow> nat io_result
    \<Rightarrow> (nat \<Rightarrow> socket_addr \<Rightarrow> unit io_result) \<Rightarrow> protocol \<Rightarrow> socket_addr \<Rightarrow> v6_socket io_result" where
  "v6_create_socket tcp_connect bound connect protocol destination = (case protocol of
     Tcp \<Rightarrow> map_sum id V6Tcp (tcp_connect destination)
   | Udp \<Rightarrow> (case bound of
       Inl e \<Rightarrow> Inl e
     | Inr socket \<Rightarrow> map_sum id (\<lambda>_. V6Udp socket) (connect socket destination))
   | Other \<Rightarrow> Inl InvalidInput)"

definition v6_create :: "poll \<Rightarrow> ((nat \<rightharpoonup> handler) \<Rightarrow> nat) \<Rightarrow> (ipv4_addr \<times> u16) option
    \<Rightarrow> (socket_addr \<Rightarrow> nat io_result) \<Rightarrow> nat io_result \<Rightarrow> (nat \<Rightarrow> socket_addr \<Rightarrow> unit io_result)
    \<Rightarrow> nat \<Rightarrow> nat \<Rightarrow> connection_id \<Rightarrow> ipv6_packetizer \<Rightarrow> selector
    \<Rightarrow> (v6_connection io_result \<times> selector) option" where
  "v6_create P vacant upstream tcp_connect bound connect me now cid packetizer s = do {
     destination \<leftarrow> rewritten_destination upstream cid;
     case v6_create_socket tcp_connect bound connect (cid_protocol cid) destination of
       Inl e \<Rightarrow> Some (Inl e, s)
     | Inr socket \<Rightarrow> do {
         (r, s) \<leftarrow> selector_register P vacant (v6_fd socket) (ConnectionHandler me) ready_readable s;
         case r of
           Inl e \<Rightarrow> Some (Inl e, s)
         | Inr token \<Rightarrow> Some (Inr \<lparr>vc_id = cid, vc_socket = socket, vc_network_to_client = packetizer,
             vc_token = token, vc_closed = False, vc_idle_since = now\<rparr>, s) } }"

section \<open>The invariant\<close>

definition v6_inv :: "v6_ctx \<Rightarrow> bool" where
  "v6_inv x \<longleftrightarrow> p6_inv (vc_network_to_client (fst x)) \<and> ch_inv (en_channel (snd x))
     \<and> sel_inv (en_selector (snd x))
     \<and> (\<not> vc_closed (fst x) \<longrightarrow> live_token (en_selector (snd x)) (vc_token (fst x)))"

definition v6_step :: "v6_ctx \<Rightarrow> v6_ctx \<Rightarrow> bool" where
  "v6_step x y \<longleftrightarrow> v6_inv y \<and> vc_id (fst y) = vc_id (fst x) \<and> vc_token (fst y) = vc_token (fst x)
     \<and> vc_socket (fst y) = vc_socket (fst x) \<and> ch_frame (en_channel (snd x)) (en_channel (snd y))
     \<and> (\<forall>t. live_token (en_selector (snd x)) t \<and> t \<noteq> vc_token (fst x) \<longrightarrow> live_token (en_selector (snd y)) t)
     \<and> (\<exists>rs. en_requests (snd y) = en_requests (snd x) @ rs)"

lemma v6_step_refl: "v6_inv x \<Longrightarrow> v6_step x x"
  by (simp add: v6_step_def)

lemma v6_step_trans [trans]: "v6_step x y \<Longrightarrow> v6_step y z \<Longrightarrow> v6_step x z"
  by (auto simp: v6_step_def intro: ch_frame_trans)

lemma v6_step_inv: "v6_step x y \<Longrightarrow> v6_inv y"
  by (simp add: v6_step_def)

lemma v6_close_ok:
  assumes "v6_inv x"
  shows "v6_step x (v6_close P x)" and "vc_closed (fst (v6_close P x))"
    and "en_requests (snd (v6_close P x)) = en_requests (snd x)"
  using assms selector_deregister_ok [of "en_selector (snd x)" "vc_token (fst x)" P "v6_fd (vc_socket (fst x))"]
  by (auto simp: v6_step_def v6_inv_def v6_close_def case_prod_beta)

text \<open>The client's side: no panic, the flow stays open unless the socket fails.\<close>

lemma v6_send_to_network_ok:
  assumes inv: "v6_inv x" and q: "ipv6_packet_ok q"
  shows "\<exists>y. v6_send_to_network now W (Ipv6 q) x = Some y \<and> v6_step x y \<and> snd y = snd x
    \<and> (\<forall>bs. ipv6_packet_payload q = Some bs \<longrightarrow> bs \<noteq> [] \<longrightarrow>
        vc_closed (fst y) = (vc_closed (fst x) \<or> (\<exists>f. W bs = Inl f \<and> f \<noteq> WouldBlock)))"
proof -
  obtain c e where x: "x = (c, e)" by (cases x)
  obtain bs where "ipv6_packet_payload q = Some bs"
    using q by (auto simp: ipv6_packet_payload_def ipv6_packet_ok_def slice_Some IPV6_HEADER_LENGTH_def Let_def)
  then show ?thesis
    using inv by (auto simp: x v6_send_to_network_def Let_def v6_step_def v6_inv_def split: sum.splits)
qed

section \<open>Events of the socket\<close>

text \<open>What a read gives: one packet with exactly the bytes read, valid and offered to the client,
  its transport header the one of the template but for lengths and checksum.\<close>

definition v6_data_packet :: "v6_connection \<Rightarrow> bytes \<Rightarrow> ipv6_packet \<Rightarrow> bool" where
  "v6_data_packet c bs q \<longleftrightarrow> ipv6_sendable q \<and> ipv6_packet_payload q = Some bs
     \<and> i6p_transport_data q = p6_transport_header_data (vc_network_to_client c)"

lemma p6_recv_nil: "p6_inv p \<Longrightarrow> R (p6_room p) = Inr [] \<Longrightarrow> p6_recv R p = Some (Inr 0, p)"
  using p6_inv_bounds [of p] by (simp add: p6_recv_def slice_Some splice_Some p6_room_def)

lemma v6_packetize_ok:
  assumes inv: "p6_inv p" and R: "reader_ok R"
  shows "\<exists>r p'. (case s of V6Tcp _ \<Rightarrow> ipv6_packetize_read R None p
      | V6Udp _ \<Rightarrow> map_option (map_prod (map_sum id Some) id) (ipv6_packetize R p)) = Some (r, p') \<and> p6_inv p'
    \<and> (case R (p6_room p) of
        Inl f \<Rightarrow> r = Inl f \<and> p' = p
      | Inr bs \<Rightarrow> if (\<exists>n. s = V6Tcp n) \<and> bs = [] then r = Inr None
          else \<exists>q. r = Inr (Some q) \<and> ipv6_sendable q \<and> ipv6_packet_payload q = Some bs
            \<and> i6p_transport_data q = p6_transport_header_data p)"
proof (cases "R (p6_room p)")
  case (Inl f)
  then show ?thesis
    using p6_recv_error [of p R f, OF inv] p6_recv_error [of p "read_adapter_recv R None" f, OF inv] inv
    by (cases s) (simp_all add: ipv6_packetize_read_def ipv6_packetize_def read_adapter_recv_def)
next
  case (Inr bs)
  then have len: "length bs \<le> p6_room p" using R by (simp add: reader_ok_def)
  have a: "read_adapter_recv R None = R" by (simp add: read_adapter_recv_def)
  show ?thesis
  proof (cases "bs = []")
    case True
    then show ?thesis
      using p6_recv_nil [of p R, OF inv] p6_recv_build [of p R bs, OF inv Inr len] Inr inv
      by (cases s) (auto simp: ipv6_packetize_read_def ipv6_packetize_def a)
  next
    case False
    then show ?thesis
      using p6_recv_build [of p R bs, OF inv Inr len] Inr
      by (cases s) (auto simp: ipv6_packetize_read_def ipv6_packetize_def a)
  qed
qed

lemma v6_read_ok:
  assumes P: "poll_works P" and inv: "v6_inv x" and R: "reader_ok R"
  shows "\<exists>r y. v6_read P now R x = Some (r, y) \<and> v6_step x y \<and> en_requests (snd y) = en_requests (snd x)
    \<and> (case R (p6_room (vc_network_to_client (fst x))) of
        Inl f \<Rightarrow> r = Inl f \<and> y = x
      | Inr bs \<Rightarrow> r = Inr () \<and> (if (\<exists>n. vc_socket (fst x) = V6Tcp n) \<and> bs = [] then vc_closed (fst y)
          else vc_closed (fst y) = vc_closed (fst x)
            \<and> (\<exists>q. v6_data_packet (fst x) bs q \<and> offered (snd x) (i6p_raw q) (snd y))))"
proof -
  obtain c e where x: "x = (c, e)" by (cases x)
  let ?p = "vc_network_to_client c"
  have pi: "p6_inv ?p" and ch: "ch_inv (en_channel e)" using inv by (simp_all add: x v6_inv_def)
  obtain r p' where r: "(case vc_socket c of V6Tcp _ \<Rightarrow> ipv6_packetize_read R None ?p
      | V6Udp _ \<Rightarrow> map_option (map_prod (map_sum id Some) id) (ipv6_packetize R ?p)) = Some (r, p')" "p6_inv p'"
    "case R (p6_room ?p) of Inl f \<Rightarrow> r = Inl f \<and> p' = ?p
      | Inr bs \<Rightarrow> if (\<exists>n. vc_socket c = V6Tcp n) \<and> bs = [] then r = Inr None
          else \<exists>q. r = Inr (Some q) \<and> ipv6_sendable q \<and> ipv6_packet_payload q = Some bs
            \<and> i6p_transport_data q = p6_transport_header_data ?p"
    using v6_packetize_ok [OF pi R, of "vc_socket c"] by blast
  let ?c = "c\<lparr>vc_network_to_client := p'\<rparr>"
  have s: "v6_step x (?c, e)" "v6_inv (?c, e)" using inv r(2) by (simp_all add: x v6_step_def v6_inv_def)
  show ?thesis
  proof (cases r)
    case (Inl f)
    then have "p' = ?p" "R (p6_room ?p) = Inl f" using r(3) by (auto split: sum.splits if_splits)
    then show ?thesis using Inl r(1) inv by (simp add: x v6_read_def v6_step_refl)
  next
    case (Inr o')
    then obtain bs where bs: "R (p6_room ?p) = Inr bs" using r(3) by (cases "R (p6_room ?p)") auto
    show ?thesis
    proof (cases o')
      case None
      have "v6_step x (v6_close P (?c, e))" using s(1) v6_close_ok(1) [OF s(2)] by (rule v6_step_trans)
      then show ?thesis
        using None Inr r(1,3) bs v6_close_ok(2,3) [OF s(2), of P]
        by (intro exI [of _ "Inr ()"] exI [of _ "v6_close P (?c, e)"]) (auto simp: x v6_read_def split: if_splits)
    next
      case (Some q)
      obtain r' e' where e': "send_through P (i6p_raw q) e = Some (r', e')" "offered e (i6p_raw q) e'"
        using send_through_ok [OF P ch] by blast
      have "v6_step x (?c\<lparr>vc_idle_since := now\<rparr>, e')"
        using s e'(2) same_tokens_inv by (auto simp: x v6_step_def v6_inv_def offered_def)
      moreover have "v6_data_packet c bs q" using r(3) bs Inr Some by (auto simp: v6_data_packet_def split: if_splits)
      ultimately show ?thesis
        using Some Inr r(1,3) bs e' by (auto simp: x v6_read_def offered_def split: if_splits)
    qed
  qed
qed

lemma v6_on_ready_ok:
  assumes P: "poll_works P" and inv: "v6_inv x" and R: "reader_ok R"
  shows "\<exists>y. v6_on_ready P now R ready x = Some y \<and> v6_step x y"
proof -
  have rm: "v6_step x y \<Longrightarrow> v6_step x (v6_remove_from_router y)" for y
    by (auto simp: v6_remove_from_router_def case_prod_beta request_def v6_step_def v6_inv_def)
  obtain r y where y: "v6_read P now R x = Some (r, y)" "v6_step x y"
    using v6_read_ok [OF P inv R] by blast
  have c: "v6_step x (v6_close P y)" using y(2) v6_close_ok(1) [OF v6_step_inv [OF y(2)]] by (rule v6_step_trans)
  show ?thesis
    using y c rm [OF y(2)] rm [OF c] v6_step_refl [OF inv] rm [OF v6_step_refl [OF inv]]
    by (cases r) (auto simp: v6_on_ready_def v6_process_def v6_process_receive_def simp del: split_paired_Ex split: if_splits)
qed

end
