(* ===== verification/Flow.thy ===== *)
theory Flow
  imports Tcp_Stream Udp_Facts Ipv6_Connection
begin

text \<open>
  \<open>trait Connection\<close>: what the router relies on, as a locale, interpreted on the TCP, the UDP and
  the IPv6 connection and then on their union, the \<open>dyn Connection\<close> of the code.
\<close>

section \<open>The host\<close>

text \<open>
  What the system answers during one call: registrations, the slab's next key, the clock, the
  random sequence number, and the results of the socket calls that a packet can cause.
\<close>

record host =
  h_poll :: poll
  h_vacant :: "(nat \<rightharpoonup> handler) \<Rightarrow> nat"
  h_upstream :: "(ipv4_addr \<times> u16) option"
  h_now :: nat
  h_random :: u32
  h_tcp_connect :: "socket_addr \<Rightarrow> nat io_result"
  h_udp_bind :: "nat io_result"
  h_udp_connect :: "nat \<Rightarrow> socket_addr \<Rightarrow> unit io_result"
  h_write :: writer

text \<open>\<open>dns::configure\<close> ran, registrations succeed, and slab keys are fresh.\<close>

definition host_ok :: "host \<Rightarrow> bool" where
  "host_ok h \<longleftrightarrow> poll_works (h_poll h) \<and> slab_ok (h_vacant h) \<and> h_upstream h \<noteq> None"

section \<open>The contract\<close>

definition env_ok :: "conn_env \<Rightarrow> bool" where
  "env_ok e \<longleftrightarrow> ch_inv (en_channel e) \<and> sel_inv (en_selector e)"

text \<open>What one flow, on token \<open>t\<close>, may do to the environment: nothing to the tokens of others, and
  no call on the client, which the caller has borrowed.\<close>

definition env_step :: "nat \<Rightarrow> conn_env \<Rightarrow> conn_env \<Rightarrow> bool" where
  "env_step t e e' \<longleftrightarrow> env_ok e' \<and> (\<forall>u. live_token (en_selector e) u \<and> u \<noteq> t \<longrightarrow> live_token (en_selector e') u)
     \<and> en_requests e' = en_requests e \<and> ch_frame (en_channel e) (en_channel e')"

lemma env_step_trans [trans]: "env_step t e e' \<Longrightarrow> env_step t e' e'' \<Longrightarrow> env_step t e e''"
  by (auto simp: env_step_def intro: ch_frame_trans)

locale flow =
  fixes own :: "'c \<Rightarrow> bool" and ident :: "'c \<Rightarrow> connection_id" and token :: "'c \<Rightarrow> nat"
    and closed :: "'c \<Rightarrow> bool"
    and send :: "host \<Rightarrow> ip_packet \<Rightarrow> 'c \<times> conn_env \<Rightarrow> ('c \<times> conn_env) option"
    and expire :: "poll \<Rightarrow> 'c \<times> conn_env \<Rightarrow> ('c \<times> conn_env) option"
    and close :: "poll \<Rightarrow> 'c \<times> conn_env \<Rightarrow> 'c \<times> conn_env"
  assumes send_ok: "host_ok h \<Longrightarrow> own c \<Longrightarrow> env_ok e \<Longrightarrow> \<not> closed c \<Longrightarrow>
      live_token (en_selector e) (token c) \<Longrightarrow> ip_packet_ok p \<Longrightarrow>
      connection_id_from_packet p = Some (ident c) \<Longrightarrow>
      \<exists>c' e'. send h p (c, e) = Some (c', e') \<and> own c' \<and> ident c' = ident c \<and> token c' = token c
        \<and> env_step (token c) e e' \<and> (\<not> closed c' \<longrightarrow> live_token (en_selector e') (token c))"
    and expire_ok: "poll_works P \<Longrightarrow> own c \<Longrightarrow> env_ok e \<Longrightarrow> \<not> closed c \<Longrightarrow>
      live_token (en_selector e) (token c) \<Longrightarrow>
      \<exists>c' e'. expire P (c, e) = Some (c', e') \<and> closed c' \<and> env_step (token c) e e'
        \<and> \<not> live_token (en_selector e') (token c)"
    and close_ok: "own c \<Longrightarrow> env_ok e \<Longrightarrow> \<not> closed c \<Longrightarrow> live_token (en_selector e) (token c) \<Longrightarrow>
      \<exists>c' e'. close P (c, e) = (c', e') \<and> closed c' \<and> env_step (token c) e e'
        \<and> \<not> live_token (en_selector e') (token c)"
begin

text \<open>A flow that receives packets, each with the answers of the host, until it is closed.\<close>

fun talk :: "(host \<times> ip_packet) list \<Rightarrow> 'c \<times> conn_env \<Rightarrow> ('c \<times> conn_env) option" where
  "talk [] x = Some x"
| "talk ((h, p) # ps) x = (if closed (fst x) then Some x else do { x' \<leftarrow> send h p x; talk ps x' })"

text \<open>It never panics, keeps its identity and its token, and harms no other flow.\<close>

lemma talk_ok:
  "own c \<Longrightarrow> env_ok e \<Longrightarrow> (\<not> closed c \<longrightarrow> live_token (en_selector e) (token c)) \<Longrightarrow>
    (\<forall>(h, p) \<in> set ps. host_ok h \<and> ip_packet_ok p \<and> connection_id_from_packet p = Some (ident c)) \<Longrightarrow>
    \<exists>c' e'. talk ps (c, e) = Some (c', e') \<and> own c' \<and> ident c' = ident c \<and> token c' = token c
      \<and> env_step (token c) e e' \<and> (\<not> closed c' \<longrightarrow> live_token (en_selector e') (token c))"
proof (induction ps arbitrary: c e)
  case Nil
  then show ?case by (simp add: env_step_def)
next
  case (Cons hp ps)
  obtain h p where hp: "hp = (h, p)" by (cases hp)
  show ?case
  proof (cases "closed c")
    case True
    then show ?thesis using Cons.prems by (simp add: hp env_step_def)
  next
    case False
    obtain c1 e1 where s: "send h p (c, e) = Some (c1, e1)" "own c1" "ident c1 = ident c" "token c1 = token c"
      "env_step (token c) e e1" "\<not> closed c1 \<longrightarrow> live_token (en_selector e1) (token c)"
      using send_ok [of h c e p] Cons.prems False by (auto simp: hp)
    have "env_ok e1" using s(5) by (simp add: env_step_def)
    then obtain c2 e2 where "talk ps (c1, e1) = Some (c2, e2)" "own c2" "ident c2 = ident c1" "token c2 = token c1"
      "env_step (token c1) e1 e2" "\<not> closed c2 \<longrightarrow> live_token (en_selector e2) (token c1)"
      using Cons.IH [of c1 e1] s Cons.prems(4) by (auto simp: hp)
    then show ?thesis using s False env_step_trans [of "token c" e e1 e2] by (auto simp: hp)
  qed
qed

end

section \<open>The three connections\<close>

text \<open>The identity tells the kind of connection: version and protocol.\<close>

definition v4_id :: "protocol \<Rightarrow> connection_id \<Rightarrow> bool" where
  "v4_id q cid \<longleftrightarrow> cid_protocol cid = q \<and> (\<exists>a p. cid_source cid = SocketV4 a p)"

definition v6_id :: "connection_id \<Rightarrow> bool" where
  "v6_id cid \<longleftrightarrow> (\<exists>a p. cid_source cid = SocketV6 a p)"

lemma packet_of_v4_id:
  assumes "ip_packet_ok p" and "connection_id_from_packet p = Some cid" and "v4_id q cid" and "q \<noteq> Other"
  obtains p4 t where "p = Ipv4 p4" "ipv4_accepted p4" "ip_transport_data p4 = Some t"
    "q = Tcp \<longleftrightarrow> (\<exists>h. t = TcpTransport h)"
proof (cases p)
  case (Ipv4 p4)
  then obtain t where t: "ip_transport_data p4 = Some t" "cid = connection_id_from_headers (ip_header_data p4) t"
    using assms(2) by auto
  have a: "ipv4_accepted p4" using assms(1) Ipv4 by simp
  then have "transport_header_parse (ih_protocol (ip_header_data p4))
      (drop (unat (ih_header_length (ip_header_data p4))) (ip_raw p4)) = Some (Some t)"
    using t(1) by (simp add: ipv4_accepted_def ipv4_packet_ok_def)
  moreover have "ih_protocol (ip_header_data p4) = q"
    using t(2) assms(3) by (simp add: v4_id_def connection_id_from_headers_def)
  ultimately have "q = Tcp \<longleftrightarrow> (\<exists>h. t = TcpTransport h)"
    using assms(4) by (cases q) (auto simp: bind_eq_Some_conv)
  then show thesis using that Ipv4 a t(1) by blast
next
  case (Ipv6 p6)
  then show thesis using assms(2,3) by (auto simp: v4_id_def Let_def split: if_splits)
qed

lemma packet_of_v6_id:
  assumes "ip_packet_ok p" and "connection_id_from_packet p = Some cid" and "v6_id cid"
  obtains p6 where "p = Ipv6 p6" "ipv6_packet_ok p6"
  using assms by (cases p) (auto simp: v6_id_def connection_id_from_headers_def to_socket_addr_def)

definition tcp_own :: "tcp_connection \<Rightarrow> bool" where
  "tcp_own c \<longleftrightarrow> tc_inv c \<and> v4_id Tcp (tc_id c)"

definition udp_own :: "udp_connection \<Rightarrow> bool" where
  "udp_own c \<longleftrightarrow> uc_inv c \<and> v4_id Udp (uc_id c)"

definition v6_own :: "v6_connection \<Rightarrow> bool" where
  "v6_own c \<longleftrightarrow> p6_inv (vc_network_to_client c) \<and> v6_id (vc_id c)"

lemma tcp_expire_ok:
  assumes P: "poll_works P" and inv: "ctx_inv x" and op: "\<not> tc_closed (fst x)"
  shows "\<exists>y. tcp_expire P x = Some y \<and> step_ok x y \<and> tc_closed (fst y)
    \<and> en_requests (snd y) = en_requests (snd x) \<and> \<not> live_token (en_selector (snd y)) (tc_token (fst x))"
proof -
  have close: "step_ok x (tcp_close P y) \<and> en_requests (snd (tcp_close P y)) = en_requests (snd x)
      \<and> \<not> live_token (en_selector (snd (tcp_close P y))) (tc_token (fst x))"
    if y: "step_ok x y" "quiet x y" "\<not> tc_closed (fst y)" for y
  proof -
    have "tc_token (fst y) = tc_token (fst x)" using y(1) by (simp add: step_ok_def tcp_frame_def)
    then show ?thesis
      using y step_ok_close [OF step_ok_inv [OF y(1)] y(3), of P]
        selector_deregister_ok(2) [of "en_selector (snd y)" "tc_token (fst y)" P "tc_stream (fst y)" "tc_token (fst x)"]
        step_ok_inv [OF y(1)]
      by (auto simp: quiet_def tcp_close_def case_prod_beta ctx_inv_def intro: step_ok_trans)
  qed
  obtain y where y: "reply_empty_packet_to_client P FLAG_RST x = Some y" "step_ok x y" "quiet x y"
    "tc_closed (fst y) = tc_closed (fst x)"
    using reply_then [OF P inv flag_values(3)] by blast
  show ?thesis
    using close [OF y(2,3)] close [OF step_ok_refl [OF inv] quiet_refl op] y op
    by (auto simp: tcp_expire_def simp del: split_paired_Ex split: if_splits)
qed

lemma ctx_inv_env: "ctx_inv (c, e) \<longleftrightarrow> tc_inv c \<and> env_ok e
    \<and> (\<not> tc_closed c \<longrightarrow> live_token (en_selector e) (tc_token c))"
  by (auto simp: ctx_inv_def env_ok_def)

lemma udp_inv_env: "udp_inv (c, e) \<longleftrightarrow> uc_inv c \<and> env_ok e
    \<and> (\<not> uc_closed c \<longrightarrow> live_token (en_selector e) (uc_token c))"
  by (auto simp: udp_inv_def env_ok_def)

lemma v6_inv_env: "v6_inv (c, e) \<longleftrightarrow> p6_inv (vc_network_to_client c) \<and> env_ok e
    \<and> (\<not> vc_closed c \<longrightarrow> live_token (en_selector e) (vc_token c))"
  by (auto simp: v6_inv_def env_ok_def)

text \<open>A handler's step is a step of the environment when it made no request.\<close>

lemma step_ok_flow:
  assumes "step_ok (c, e) (c', e')" and "en_requests e' = en_requests e" and "tcp_own c"
  shows "tcp_own c' \<and> tc_id c' = tc_id c \<and> tc_token c' = tc_token c \<and> env_step (tc_token c) e e'
    \<and> (\<not> tc_closed c' \<longrightarrow> live_token (en_selector e') (tc_token c))"
  using assms by (auto simp: step_ok_def tcp_frame_def ctx_inv_env tcp_own_def env_step_def)

lemma udp_step_flow:
  assumes "udp_step (c, e) (c', e')" and "en_requests e' = en_requests e" and "udp_own c"
  shows "udp_own c' \<and> uc_id c' = uc_id c \<and> uc_token c' = uc_token c \<and> env_step (uc_token c) e e'
    \<and> (\<not> uc_closed c' \<longrightarrow> live_token (en_selector e') (uc_token c))"
  using assms by (auto simp: udp_step_def udp_inv_env udp_own_def env_step_def)

lemma v6_step_flow:
  assumes "v6_step (c, e) (c', e')" and "en_requests e' = en_requests e" and "v6_own c"
  shows "v6_own c' \<and> vc_id c' = vc_id c \<and> vc_token c' = vc_token c \<and> env_step (vc_token c) e e'
    \<and> (\<not> vc_closed c' \<longrightarrow> live_token (en_selector e') (vc_token c))"
  using assms by (auto simp: v6_step_def v6_inv_env v6_own_def env_step_def)

lemma live_after_close:
  "sel_inv s \<Longrightarrow> live_token s t \<Longrightarrow> \<not> live_token (snd (selector_deregister P h t s)) t"
  by (simp add: selector_deregister_ok)

interpretation tcp_flow: flow tcp_own tc_id tc_token tc_closed
  "\<lambda>h. tcp_send_to_network (h_poll h) (h_now h) (h_random h)" tcp_expire tcp_close
proof
  fix h c e p
  assume a: "host_ok h" "tcp_own c" "env_ok e" "\<not> tc_closed c" "live_token (en_selector e) (tc_token c)"
    "ip_packet_ok p" "connection_id_from_packet p = Some (tc_id c)"
  have inv: "ctx_inv (c, e)" using a by (simp add: ctx_inv_env tcp_own_def)
  have "v4_id Tcp (tc_id c)" using a(2) by (simp add: tcp_own_def)
  with a(6,7) obtain p4 hd where p: "p = Ipv4 p4" "tcp_packet p4 hd"
    by (rule packet_of_v4_id) (auto simp: tcp_packet_def)
  obtain c' e' where y: "tcp_send_to_network (h_poll h) (h_now h) (h_random h) p (c, e) = Some (c', e')"
    "step_ok (c, e) (c', e')" "en_requests e' = en_requests e"
    using tcp_send_to_network_ok [of "h_poll h" "(c, e)" p4 hd "h_now h" "h_random h"] a(1,4) inv p
    by (auto simp: host_ok_def)
  then show "\<exists>c' e'. tcp_send_to_network (h_poll h) (h_now h) (h_random h) p (c, e) = Some (c', e')
      \<and> tcp_own c' \<and> tc_id c' = tc_id c \<and> tc_token c' = tc_token c \<and> env_step (tc_token c) e e'
      \<and> (\<not> tc_closed c' \<longrightarrow> live_token (en_selector e') (tc_token c))"
    using step_ok_flow a(2) by blast
next
  fix P c e
  assume a: "poll_works P" "tcp_own c" "env_ok e" "\<not> tc_closed c" "live_token (en_selector e) (tc_token c)"
  then have inv: "ctx_inv (c, e)" by (simp add: ctx_inv_env tcp_own_def)
  obtain y where y: "tcp_expire P (c, e) = Some y" "step_ok (c, e) y" "tc_closed (fst y)"
    "en_requests (snd y) = en_requests e" "\<not> live_token (en_selector (snd y)) (tc_token c)"
    using tcp_expire_ok [OF a(1) inv] a(4) by auto
  then show "\<exists>c' e'. tcp_expire P (c, e) = Some (c', e') \<and> tc_closed c' \<and> env_step (tc_token c) e e'
      \<and> \<not> live_token (en_selector e') (tc_token c)"
    using step_ok_flow [of c e "fst y" "snd y"] a(2) by (cases y) auto
next
  fix c e P
  assume a: "tcp_own c" "env_ok e" "\<not> tc_closed c" "live_token (en_selector e) (tc_token c)"
  then have inv: "ctx_inv (c, e)" by (simp add: ctx_inv_env tcp_own_def)
  have s: "step_ok (c, e) (tcp_close P (c, e))" using step_ok_close [OF inv] a(3) by simp
  then show "\<exists>c' e'. tcp_close P (c, e) = (c', e') \<and> tc_closed c' \<and> env_step (tc_token c) e e'
      \<and> \<not> live_token (en_selector e') (tc_token c)"
    using step_ok_flow [of c e "fst (tcp_close P (c, e))" "snd (tcp_close P (c, e))"] a
      live_after_close [of "en_selector e" "tc_token c" P "tc_stream c"]
    by (auto simp: tcp_close_def env_ok_def)
qed

interpretation udp_flow: flow udp_own uc_id uc_token uc_closed
  "\<lambda>h. udp_send_to_network (h_poll h)" "\<lambda>P x. Some (udp_close P x)" udp_close
proof
  fix h c e p
  assume a: "host_ok h" "udp_own c" "env_ok e" "\<not> uc_closed c" "live_token (en_selector e) (uc_token c)"
    "ip_packet_ok p" "connection_id_from_packet p = Some (uc_id c)"
  have inv: "udp_inv (c, e)" using a by (simp add: udp_inv_env udp_own_def)
  have "v4_id Udp (uc_id c)" using a(2) by (simp add: udp_own_def)
  with a(6,7) obtain p4 t where p: "p = Ipv4 p4" "ipv4_accepted p4" "ip_transport_data p4 = Some t"
    by (rule packet_of_v4_id) auto
  obtain c' e' where y: "udp_send_to_network (h_poll h) p (c, e) = Some (c', e')" "udp_step (c, e) (c', e')"
    "en_requests e' = en_requests e"
    using udp_send_to_network_ok [of "h_poll h" "(c, e)" p4 t] a(1,4) inv p by (auto simp: host_ok_def)
  then show "\<exists>c' e'. udp_send_to_network (h_poll h) p (c, e) = Some (c', e') \<and> udp_own c' \<and> uc_id c' = uc_id c
      \<and> uc_token c' = uc_token c \<and> env_step (uc_token c) e e'
      \<and> (\<not> uc_closed c' \<longrightarrow> live_token (en_selector e') (uc_token c))"
    using udp_step_flow a(2) by blast
next
  have close: "\<exists>c' e'. udp_close P (c, e) = (c', e') \<and> uc_closed c' \<and> env_step (uc_token c) e e'
      \<and> \<not> live_token (en_selector e') (uc_token c)"
    if a: "udp_own c" "env_ok e" "\<not> uc_closed c" "live_token (en_selector e) (uc_token c)" for c e P
  proof -
    have inv: "udp_inv (c, e)" using a by (simp add: udp_inv_env udp_own_def)
    have "udp_step (c, e) (udp_close P (c, e))" using udp_close_ok(1) [OF inv] a(3) by simp
    then show ?thesis
      using udp_step_flow [of c e "fst (udp_close P (c, e))" "snd (udp_close P (c, e))"] a
        live_after_close [of "en_selector e" "uc_token c" P "uc_socket c"]
      by (auto simp: udp_close_def env_ok_def)
  qed
  show "udp_own c \<Longrightarrow> env_ok e \<Longrightarrow> \<not> uc_closed c \<Longrightarrow> live_token (en_selector e) (uc_token c) \<Longrightarrow>
      \<exists>c' e'. Some (udp_close P (c, e)) = Some (c', e') \<and> uc_closed c' \<and> env_step (uc_token c) e e'
        \<and> \<not> live_token (en_selector e') (uc_token c)" for c e P
    using close [of c e P] by simp
  show "udp_own c \<Longrightarrow> env_ok e \<Longrightarrow> \<not> uc_closed c \<Longrightarrow> live_token (en_selector e) (uc_token c) \<Longrightarrow>
      \<exists>c' e'. udp_close P (c, e) = (c', e') \<and> uc_closed c' \<and> env_step (uc_token c) e e'
        \<and> \<not> live_token (en_selector e') (uc_token c)" for c e P
    by (rule close)
qed

interpretation v6_flow: flow v6_own vc_id vc_token vc_closed
  "\<lambda>h. v6_send_to_network (h_now h) (h_write h)" "\<lambda>P x. Some (v6_close P x)" v6_close
proof
  fix h c e p
  assume a: "host_ok h" "v6_own c" "env_ok e" "\<not> vc_closed c" "live_token (en_selector e) (vc_token c)"
    "ip_packet_ok p" "connection_id_from_packet p = Some (vc_id c)"
  have inv: "v6_inv (c, e)" using a by (simp add: v6_inv_env v6_own_def)
  have "v6_id (vc_id c)" using a(2) by (simp add: v6_own_def)
  with a(6,7) obtain p6 where p: "p = Ipv6 p6" "ipv6_packet_ok p6" by (rule packet_of_v6_id)
  obtain y where y: "v6_send_to_network (h_now h) (h_write h) p (c, e) = Some y" "v6_step (c, e) y" "snd y = e"
    using v6_send_to_network_ok [OF inv p(2), of "h_now h" "h_write h"] p(1) by auto
  then show "\<exists>c' e'. v6_send_to_network (h_now h) (h_write h) p (c, e) = Some (c', e') \<and> v6_own c' \<and> vc_id c' = vc_id c
      \<and> vc_token c' = vc_token c \<and> env_step (vc_token c) e e'
      \<and> (\<not> vc_closed c' \<longrightarrow> live_token (en_selector e') (vc_token c))"
    using v6_step_flow [of c e "fst y" "snd y"] a(2) by (cases y) auto
next
  have close: "\<exists>c' e'. v6_close P (c, e) = (c', e') \<and> vc_closed c' \<and> env_step (vc_token c) e e'
      \<and> \<not> live_token (en_selector e') (vc_token c)"
    if a: "v6_own c" "env_ok e" "\<not> vc_closed c" "live_token (en_selector e) (vc_token c)" for c e P
  proof -
    have inv: "v6_inv (c, e)" using a by (simp add: v6_inv_env v6_own_def)
    have "v6_step (c, e) (v6_close P (c, e))" using v6_close_ok(1) [OF inv] .
    then show ?thesis
      using v6_step_flow [of c e "fst (v6_close P (c, e))" "snd (v6_close P (c, e))"] a
        live_after_close [of "en_selector e" "vc_token c" P "v6_fd (vc_socket c)"]
      by (auto simp: v6_close_def env_ok_def)
  qed
  show "v6_own c \<Longrightarrow> env_ok e \<Longrightarrow> \<not> vc_closed c \<Longrightarrow> live_token (en_selector e) (vc_token c) \<Longrightarrow>
      \<exists>c' e'. Some (v6_close P (c, e)) = Some (c', e') \<and> vc_closed c' \<and> env_step (vc_token c) e e'
        \<and> \<not> live_token (en_selector e') (vc_token c)" for c e P
    using close [of c e P] by simp
  show "v6_own c \<Longrightarrow> env_ok e \<Longrightarrow> \<not> vc_closed c \<Longrightarrow> live_token (en_selector e) (vc_token c) \<Longrightarrow>
      \<exists>c' e'. v6_close P (c, e) = (c', e') \<and> vc_closed c' \<and> env_step (vc_token c) e e'
        \<and> \<not> live_token (en_selector e') (vc_token c)" for c e P
    by (rule close)
qed

section \<open>Any connection\<close>

datatype connection = TcpConn tcp_connection | UdpConn udp_connection | V6Conn v6_connection

fun conn_id :: "connection \<Rightarrow> connection_id" where
  "conn_id (TcpConn c) = tc_id c"
| "conn_id (UdpConn c) = uc_id c"
| "conn_id (V6Conn c) = vc_id c"

fun conn_token :: "connection \<Rightarrow> nat" where
  "conn_token (TcpConn c) = tc_token c"
| "conn_token (UdpConn c) = uc_token c"
| "conn_token (V6Conn c) = vc_token c"

fun conn_closed :: "connection \<Rightarrow> bool" where
  "conn_closed (TcpConn c) = tc_closed c"
| "conn_closed (UdpConn c) = uc_closed c"
| "conn_closed (V6Conn c) = vc_closed c"

fun conn_is_expired :: "nat \<Rightarrow> connection \<Rightarrow> bool" where
  "conn_is_expired now (TcpConn c) = tcp_is_expired now c"
| "conn_is_expired now (UdpConn c) = udp_is_expired now c"
| "conn_is_expired now (V6Conn c) = v6_is_expired now c"

fun conn_send :: "host \<Rightarrow> ip_packet \<Rightarrow> connection \<times> conn_env \<Rightarrow> (connection \<times> conn_env) option" where
  "conn_send h p (TcpConn c, e) = map_option (map_prod TcpConn id)
     (tcp_send_to_network (h_poll h) (h_now h) (h_random h) p (c, e))"
| "conn_send h p (UdpConn c, e) = map_option (map_prod UdpConn id) (udp_send_to_network (h_poll h) p (c, e))"
| "conn_send h p (V6Conn c, e) = map_option (map_prod V6Conn id) (v6_send_to_network (h_now h) (h_write h) p (c, e))"

text \<open>\<open>expire\<close> is \<open>close\<close> unless the connection overrides it.\<close>

fun conn_close :: "poll \<Rightarrow> connection \<times> conn_env \<Rightarrow> connection \<times> conn_env" where
  "conn_close P (TcpConn c, e) = map_prod TcpConn id (tcp_close P (c, e))"
| "conn_close P (UdpConn c, e) = map_prod UdpConn id (udp_close P (c, e))"
| "conn_close P (V6Conn c, e) = map_prod V6Conn id (v6_close P (c, e))"

fun conn_expire :: "poll \<Rightarrow> connection \<times> conn_env \<Rightarrow> (connection \<times> conn_env) option" where
  "conn_expire P (TcpConn c, e) = map_option (map_prod TcpConn id) (tcp_expire P (c, e))"
| "conn_expire P (UdpConn c, e) = Some (conn_close P (UdpConn c, e))"
| "conn_expire P (V6Conn c, e) = Some (conn_close P (V6Conn c, e))"

fun conn_own :: "connection \<Rightarrow> bool" where
  "conn_own (TcpConn c) = tcp_own c"
| "conn_own (UdpConn c) = udp_own c"
| "conn_own (V6Conn c) = v6_own c"

interpretation conn_flow: flow conn_own conn_id conn_token conn_closed conn_send conn_expire conn_close
proof
  fix h c e p
  assume "host_ok h" "conn_own c" "env_ok e" "\<not> conn_closed c" "live_token (en_selector e) (conn_token c)"
    "ip_packet_ok p" "connection_id_from_packet p = Some (conn_id c)"
  then show "\<exists>c' e'. conn_send h p (c, e) = Some (c', e') \<and> conn_own c' \<and> conn_id c' = conn_id c
      \<and> conn_token c' = conn_token c \<and> env_step (conn_token c) e e'
      \<and> (\<not> conn_closed c' \<longrightarrow> live_token (en_selector e') (conn_token c))"
    using tcp_flow.send_ok [of h _ e p] udp_flow.send_ok [of h _ e p] v6_flow.send_ok [of h _ e p]
    by (cases c) fastforce+
next
  fix P c e
  assume "poll_works P" "conn_own c" "env_ok e" "\<not> conn_closed c" "live_token (en_selector e) (conn_token c)"
  then show "\<exists>c' e'. conn_expire P (c, e) = Some (c', e') \<and> conn_closed c' \<and> env_step (conn_token c) e e'
      \<and> \<not> live_token (en_selector e') (conn_token c)"
    using tcp_flow.expire_ok [of P _ e] udp_flow.expire_ok [of P _ e] v6_flow.expire_ok [of P _ e]
    by (cases c) fastforce+
next
  fix c e P
  assume "conn_own c" "env_ok e" "\<not> conn_closed c" "live_token (en_selector e) (conn_token c)"
  then show "\<exists>c' e'. conn_close P (c, e) = (c', e') \<and> conn_closed c' \<and> env_step (conn_token c) e e'
      \<and> \<not> live_token (en_selector e') (conn_token c)"
    using tcp_flow.close_ok [of _ e P] udp_flow.close_ok [of _ e P] v6_flow.close_ok [of _ e P]
    by (cases c) fastforce+
qed

end
