(* ===== verification/Router.thy ===== *)
theory Router
  imports Flow
begin

text \<open>
  \<open>relay/router.rs\<close>: the connections of one client by identity.  The connection objects are
  shared with the selector's handlers, so the router's map leads to references into a store; a
  connection that left the map stays in the store, closed.
\<close>

section \<open>Creating a connection\<close>

text \<open>What a successful creation gives: an open connection of that identity, on a fresh token.\<close>

definition created :: "connection_id \<Rightarrow> selector \<Rightarrow> connection \<Rightarrow> selector \<Rightarrow> bool" where
  "created cid s c s' \<longleftrightarrow> conn_own c \<and> conn_id c = cid \<and> \<not> conn_closed c \<and> live_token s' (conn_token c)
     \<and> \<not> live_token s (conn_token c)"

definition selector_grows :: "selector \<Rightarrow> selector \<Rightarrow> bool" where
  "selector_grows s s' \<longleftrightarrow> sel_inv s' \<and> (\<forall>u. live_token s u \<longrightarrow> live_token s' u)"

lemma selector_register_grows:
  assumes "sel_inv s" and "slab_ok vacant"
  obtains (fails) e s' where "selector_register P vacant fd h i s = Some (Inl e, s')" "selector_grows s s'"
  | (works) t s' where "selector_register P vacant fd h i s = Some (Inr t, s')" "selector_grows s s'"
      "live_token s' t" "\<not> live_token s t"
proof -
  obtain r s' where r: "selector_register P vacant fd h i s = Some (r, s')" "sel_inv s'"
    "\<forall>t. live_token s t \<longrightarrow> live_token s' t"
    "case r of Inl e \<Rightarrow> sel_handlers s' = sel_handlers s
       | Inr t \<Rightarrow> sel_handlers s t = None \<and> live_token s' t \<and> sel_handlers s' = (sel_handlers s)(t \<mapsto> h)"
    using selector_register_ok [OF assms] by blast
  then show thesis using fails works by (cases r) (auto simp: selector_grows_def live_token_def)
qed

text \<open>The header parts of an accepted packet that a packetizer is made from.\<close>

lemma accepted_headers:
  assumes q: "ipv4_accepted q" and t: "ip_transport_data q = Some t"
  obtains iraw traw where "ipv4_packet_headers q = Some ((iraw, ip_header_data q), Some (traw, t))"
    "ipv4_header_parse iraw = Some (ip_header_data q)" "length iraw = unat (ih_header_length (ip_header_data q))"
    "20 \<le> length iraw" "transport_matches (ih_protocol (ip_header_data q)) t traw"
    "length traw = unat (transport_header_length t)"
    "drop_bit 4 (iraw ! 0) = 4" "iraw ! 6 AND 0x3f = 0" "iraw ! 7 = 0"
proof -
  let ?d = "ip_header_data q"
  let ?hl = "unat (ih_header_length ?d)" and ?n = "unat (transport_header_length t)"
  have ok: "ipv4_packet_ok q" using q by (simp add: ipv4_accepted_def)
  note Q = ipv4_packet_okD [OF ok] and T = ipv4_packet_ok_transport [OF ok t refl]
  let ?iraw = "take ?hl (ip_raw q)" and ?traw = "take ?n (drop ?hl (ip_raw q))"
  have i: "ipv4_header_parse ?iraw = Some ?d"
    using ipv4_header_parse_append [of ?iraw "drop ?hl (ip_raw q)"] Q(1,3,5) by simp
  have tp: "transport_header_parse (ih_protocol ?d) ?traw = Some (Some t)"
  proof -
    define seg where "seg = drop ?hl (ip_raw q)"
    have j: "take ?n seg @ drop ?n seg = seg" by simp
    have l: "length (take ?n seg) = ?n" using T(1) by (simp add: seg_def)
    show ?thesis
      using T(2,4,5) tcp_header_parse_append [of "take ?n seg" "drop ?n seg", unfolded j l]
        udp_header_parse_append [of "take ?n seg" "drop ?n seg", unfolded j l]
      unfolding seg_def [symmetric]
      by (cases "ih_protocol ?d") (auto simp: bind_eq_Some_conv)
  qed
  have "transport_matches (ih_protocol ?d) t ?traw"
    using tp T(5) by (simp add: transport_matches_def split: transport_header_data.splits)
  moreover have "ipv4_packet_headers q = Some ((?iraw, ?d), Some (?traw, t))"
    by (rule ipv4_packet_headers_ok [OF ok refl t refl])
  moreover have "length ?iraw = ?hl" "length ?traw = ?n" using Q(5) T(1) by simp_all
  moreover have "drop_bit 4 (?iraw ! 0) = 4" "?iraw ! 6 AND 0x3f = 0" "?iraw ! 7 = 0"
    using q Q(3) by (simp_all add: ipv4_accepted_def)
  ultimately show thesis using that [of ?iraw ?traw] i Q(3) by simp
qed

lemma tcp_shrink_ok:
  assumes "tcp_header_parse raw = Some d" and "length raw = 20"
  shows "\<exists>raw'. tcp_shrink_options (raw, d) = Some (raw', d\<lparr>th_header_length := 20\<rparr>) \<and> length raw' = 20
    \<and> tcp_header_parse raw' = Some (d\<lparr>th_header_length := 20\<rparr>)"
proof -
  have m: "tcp_shrink_options \<in> tcp_setters" by (simp add: tcp_setters_def)
  have "(push_bit 2 5 :: u8) = 20" by simp
  then obtain raw' where s: "tcp_shrink_options (raw, d) = Some (raw', d\<lparr>th_header_length := 20\<rparr>)"
    using assms by (auto simp: tcp_shrink_options_def tcp_set_data_offset_def read_u16_Some write_u16_Some)
  then show ?thesis
    using tcp_view.setter_length [OF m s] tcp_view.setter_coherent [OF m assms(1) s] assms(2) by auto
qed

lemma rewritten_Some: "upstream \<noteq> None \<Longrightarrow> \<exists>d. rewritten_destination upstream cid = Some d"
  by (auto simp: rewritten_destination_def split: socket_addr.splits)

definition create_outcome :: "connection_id \<Rightarrow> selector \<Rightarrow> ('c \<Rightarrow> connection) \<Rightarrow> ('c io_result \<times> selector) option \<Rightarrow> bool" where
  "create_outcome cid s C r \<longleftrightarrow> (\<exists>v s'. r = Some (v, s') \<and> selector_grows s s'
     \<and> (case v of Inl e \<Rightarrow> True | Inr c \<Rightarrow> created cid s (C c) s'))"

lemma tcp_create_ok:
  assumes s: "sel_inv s" and v: "slab_ok vacant" and up: "upstream \<noteq> None"
    and q: "ipv4_accepted q" "ip_transport_data q = Some (TcpTransport h)" and cid: "v4_id Tcp cid"
    and hd: "ipv4_packet_headers q = Some (ih, Some th)"
  shows "create_outcome cid s TcpConn (tcp_create P vacant upstream connect me now cid ih th s)"
proof -
  obtain iraw traw where H: "ipv4_packet_headers q = Some ((iraw, ip_header_data q), Some (traw, TcpTransport h))"
    "ipv4_header_parse iraw = Some (ip_header_data q)" "length iraw = unat (ih_header_length (ip_header_data q))"
    "20 \<le> length iraw" "transport_matches (ih_protocol (ip_header_data q)) (TcpTransport h) traw"
    "length traw = unat (transport_header_length (TcpTransport h))"
    "drop_bit 4 (iraw ! 0) = 4" "iraw ! 6 AND 0x3f = 0" "iraw ! 7 = 0"
    using accepted_headers [OF q] by blast
  have e: "ih = (iraw, ip_header_data q)" "th = (traw, TcpTransport h)" using H(1) hd by simp_all
  have m: "ih_protocol (ip_header_data q) = Tcp" "tcp_header_parse traw = Some h" "20 \<le> length traw"
    using H(5,6) by (simp_all add: transport_matches_protocol)
  have p20: "tcp_header_parse (take 20 traw) = Some h"
    using tcp_header_parse_append [of "take 20 traw" "drop 20 traw"] m by simp
  obtain raw' where r: "tcp_shrink_options (take 20 traw, h) = Some (raw', h\<lparr>th_header_length := 20\<rparr>)"
    "length raw' = 20" "tcp_header_parse raw' = Some (h\<lparr>th_header_length := 20\<rparr>)"
    using tcp_shrink_ok [OF p20] m(3) by auto
  let ?t = "TcpTransport (h\<lparr>th_header_length := 20\<rparr>)"
  have m': "transport_matches (ih_protocol (ip_header_data q)) ?t raw'"
    "length raw' = unat (transport_header_length ?t)"
    using m(1) r by (simp_all add: transport_matches_protocol)
  obtain p where p: "packetizer_new (iraw, ip_header_data q) (raw', ?t) = Some p" "pk_inv p"
    "pk_transport_header_data p = swapped_transport ?t"
    using packetizer_new_ok [OF H(2,3,4) m' H(7-9)] by blast
  have pk: "tcp_pk p ((h\<lparr>th_header_length := 20\<rparr>)\<lparr>th_source_port := th_destination_port h,
      th_destination_port := th_source_port h\<rparr>)"
    using p(2,3) by (simp add: tcp_pk_def)
  obtain d where d: "rewritten_destination upstream cid = Some d" using rewritten_Some [OF up] by blast
  have len: "length (sb_buf (sb_new c)) = c + 1" for c by (simp add: sb_new_def)
  show ?thesis
  proof (cases "connect d")
    case (Inl f)
    then show ?thesis using d s by (simp add: tcp_create_def create_outcome_def selector_grows_def)
  next
    case (Inr fd)
    have run: "tcp_create P vacant upstream connect me now cid ih th s = do {
         (r, s) \<leftarrow> selector_register P vacant fd (ConnectionHandler me) ready_writable s;
         case r of
           Inl e \<Rightarrow> Some (Inl e, s)
         | Inr token \<Rightarrow> Some (Inr \<lparr>tc_id = cid, tc_stream = fd, tc_interests = ready_writable,
             tc_token = token, tc_client_to_network = sb_new (4 * MAX_PACKET_LENGTH),
             tc_network_to_client = p, tc_packet_for_client_length = None,
             tc_closed = False, tc_tcb = tcb_new, tc_idle_since = now, tc_created_at = now\<rparr>, s) }"
      using d Inr r(1) p(1) m(3) by (simp add: tcp_create_def e slice_Some)
    from s v show ?thesis
    proof (cases rule: selector_register_grows [where P = P and fd = fd and h = "ConnectionHandler me" and i = ready_writable])
      case (fails f s')
      then show ?thesis using run by (simp add: create_outcome_def)
    next
      case (works t s')
      then show ?thesis
        using run pk cid len by (auto simp: create_outcome_def created_def tcp_own_def tc_inv_def)
    qed
  qed
qed

lemma udp_create_ok:
  assumes s: "sel_inv s" and v: "slab_ok vacant" and up: "upstream \<noteq> None"
    and q: "ipv4_accepted q" "ip_transport_data q = Some t" and cid: "v4_id Udp cid"
    and hd: "ipv4_packet_headers q = Some (ih, Some th)"
  shows "create_outcome cid s UdpConn (udp_create P vacant upstream bound connect me now cid ih th s)"
proof -
  obtain iraw traw where H: "ipv4_packet_headers q = Some ((iraw, ip_header_data q), Some (traw, t))"
    "ipv4_header_parse iraw = Some (ip_header_data q)" "length iraw = unat (ih_header_length (ip_header_data q))"
    "20 \<le> length iraw" "transport_matches (ih_protocol (ip_header_data q)) t traw"
    "length traw = unat (transport_header_length t)"
    "drop_bit 4 (iraw ! 0) = 4" "iraw ! 6 AND 0x3f = 0" "iraw ! 7 = 0"
    using accepted_headers [OF q] by blast
  have e: "ih = (iraw, ip_header_data q)" "th = (traw, t)" using H(1) hd by simp_all
  obtain p where p: "packetizer_new ih th = Some p" "pk_inv p"
    using packetizer_new_ok [OF H(2-9)] by (auto simp: e)
  obtain d where d: "rewritten_destination upstream cid = Some d" using rewritten_Some [OF up] by blast
  consider (bad) f where "udp_create_socket upstream bound connect cid = err f"
    | (good) fd where "udp_create_socket upstream bound connect cid = ok fd"
  proof (cases bound)
    case (Inr b)
    then show ?thesis using d bad good by (cases "connect b d") (simp_all add: udp_create_socket_def)
  qed (use bad in \<open>simp add: udp_create_socket_def\<close>)
  then show ?thesis
  proof cases
    case bad
    then show ?thesis using s by (simp add: udp_create_def create_outcome_def selector_grows_def)
  next
    case good
    from s v show ?thesis
    proof (cases rule: selector_register_grows [where P = P and fd = fd and h = "ConnectionHandler me" and i = ready_readable])
      case (fails f s')
      then show ?thesis using good p(1) by (simp add: udp_create_def create_outcome_def)
    next
      case (works t s')
      then show ?thesis
        using good p cid dg_new_holds by (auto simp: udp_create_def create_outcome_def created_def udp_own_def uc_inv_def)
    qed
  qed
qed

lemma v6_create_ok:
  assumes s: "sel_inv s" and v: "slab_ok vacant" and up: "upstream \<noteq> None" and p: "p6_inv p" and cid: "v6_id cid"
  shows "create_outcome cid s V6Conn (v6_create P vacant upstream tcp_connect bound connect me now cid p s)"
proof -
  obtain d where d: "rewritten_destination upstream cid = Some d" using rewritten_Some [OF up] by blast
  show ?thesis
  proof (cases "v6_create_socket tcp_connect bound connect (cid_protocol cid) d")
    case (Inl f)
    then show ?thesis using s d by (simp add: v6_create_def create_outcome_def selector_grows_def)
  next
    case (Inr sock)
    from s v show ?thesis
    proof (cases rule: selector_register_grows [where P = P and fd = "v6_fd sock" and h = "ConnectionHandler me" and i = ready_readable])
      case (fails f s')
      then show ?thesis using Inr d by (simp add: v6_create_def create_outcome_def)
    next
      case (works t s')
      then show ?thesis using Inr d p cid by (auto simp: v6_create_def create_outcome_def created_def v6_own_def)
    qed
  qed
qed

section \<open>The router\<close>

record conn_store =
  st_conns :: "nat \<rightharpoonup> connection"
  st_next :: nat

type_synonym routes = "connection_id \<rightharpoonup> nat"

type_synonym router_ctx = "routes \<times> conn_store \<times> conn_env"

definition store_put :: "nat \<Rightarrow> connection \<Rightarrow> conn_store \<Rightarrow> conn_store" where
  "store_put r c st = st\<lparr>st_conns := (st_conns st)(r \<mapsto> c)\<rparr>"

text \<open>A created connection gets the next reference.\<close>

definition store_created :: "('c \<Rightarrow> connection) \<Rightarrow> ('c io_result \<times> selector) option \<Rightarrow> conn_store
    \<Rightarrow> (nat io_result \<times> conn_store \<times> selector) option" where
  "store_created C m st = do {
     (v, s) \<leftarrow> m;
     case v of
       Inl e \<Rightarrow> Some (Inl e, st, s)
     | Inr c \<Rightarrow> Some (Inr (st_next st), (store_put (st_next st) (C c) st)\<lparr>st_next := st_next st + 1\<rparr>, s) }"

definition router_create_connection ::
    "host \<Rightarrow> connection_id \<Rightarrow> ip_packet \<Rightarrow> conn_store \<Rightarrow> selector \<Rightarrow> (nat io_result \<times> conn_store \<times> selector) option" where
  "router_create_connection h cid packet st s = (case packet of
     Ipv4 ipv4_packet \<Rightarrow> do {
       (ipv4_header, transport_header) \<leftarrow> ipv4_packet_headers ipv4_packet;
       transport_header \<leftarrow> transport_header;
       case cid_protocol cid of
         Tcp \<Rightarrow> store_created TcpConn (tcp_create (h_poll h) (h_vacant h) (h_upstream h) (h_tcp_connect h)
           (st_next st) (h_now h) cid ipv4_header transport_header s) st
       | Udp \<Rightarrow> store_created UdpConn (udp_create (h_poll h) (h_vacant h) (h_upstream h) (h_udp_bind h)
           (h_udp_connect h) (st_next st) (h_now h) cid ipv4_header transport_header s) st
       | Other \<Rightarrow> Some (Inl OtherError, st, s) }
   | Ipv6 ipv6_packet \<Rightarrow> do {
       header \<leftarrow> slice 0 IPV6_HEADER_LENGTH (i6p_raw ipv6_packet);
       transport_header \<leftarrow> ipv6_packet_transport_header ipv6_packet;
       packetizer \<leftarrow> ipv6_packetizer_new (header, i6p_header_data ipv6_packet) transport_header;
       store_created V6Conn (v6_create (h_poll h) (h_vacant h) (h_upstream h) (h_tcp_connect h) (h_udp_bind h)
         (h_udp_connect h) (st_next st) (h_now h) cid packetizer s) st })"

text \<open>The second half of \<open>send_to_network\<close>: the packet goes to the connection, which leaves the map
  when it closed.\<close>

definition router_deliver :: "host \<Rightarrow> ip_packet \<Rightarrow> connection_id \<Rightarrow> nat \<Rightarrow> router_ctx \<Rightarrow> router_ctx option" where
  "router_deliver h packet cid r = (\<lambda>(routes, st, e). do {
     c \<leftarrow> st_conns st r;
     (c, e) \<leftarrow> conn_send h packet (c, e);
     Some (if conn_closed c then routes(cid := None) else routes, store_put r c st, e) })"

definition router_send_to_network :: "host \<Rightarrow> ip_packet \<Rightarrow> router_ctx \<Rightarrow> router_ctx option" where
  "router_send_to_network h packet = (\<lambda>(routes, st, e). case connection_id_from_packet packet of
     None \<Rightarrow> Some (routes, st, e)
   | Some cid \<Rightarrow>
       if (case packet of Ipv4 ipv4_packet \<Rightarrow> \<not> ipv4_packet_is_valid ipv4_packet | Ipv6 _ \<Rightarrow> False)
       then Some (routes, st, e)
       else (case routes cid of
         Some r \<Rightarrow> router_deliver h packet cid r (routes, st, e)
       | None \<Rightarrow> do {
           (v, st, s) \<leftarrow> router_create_connection h cid packet st (en_selector e);
           let e = e\<lparr>en_selector := s\<rparr>;
           case v of
             Inl _ \<Rightarrow> Some (routes, st, e)
           | Inr r \<Rightarrow> router_deliver h packet cid r (routes(cid \<mapsto> r), st, e) }))"

text \<open>\<open>remove\<close> by identity; removing an unknown one is only logged.\<close>

definition router_remove :: "connection_id \<Rightarrow> routes \<Rightarrow> routes" where
  "router_remove cid routes = routes(cid := None)"

text \<open>\<open>clear\<close> and \<open>clean_expired_connections\<close>; \<open>order\<close> is the order in which the hash map is walked.\<close>

fun close_all :: "poll \<Rightarrow> nat list \<Rightarrow> conn_store \<times> conn_env \<Rightarrow> (conn_store \<times> conn_env) option" where
  "close_all P [] x = Some x"
| "close_all P (r # rs) (st, e) = do {
     c \<leftarrow> st_conns st r;
     let (c, e) = conn_close P (c, e);
     close_all P rs (store_put r c st, e) }"

definition router_clear :: "poll \<Rightarrow> connection_id list \<Rightarrow> router_ctx \<Rightarrow> router_ctx option" where
  "router_clear P order = (\<lambda>(routes, st, e). do {
     (st, e) \<leftarrow> close_all P (List.map_filter routes order) (st, e);
     Some (Map.empty, st, e) })"

fun expire_all :: "poll \<Rightarrow> connection_id list \<Rightarrow> router_ctx \<Rightarrow> router_ctx option" where
  "expire_all P [] x = Some x"
| "expire_all P (cid # ids) (routes, st, e) = (case routes cid of
     None \<Rightarrow> expire_all P ids (routes, st, e)
   | Some r \<Rightarrow> do {
       c \<leftarrow> st_conns st r;
       (c, e) \<leftarrow> conn_expire P (c, e);
       expire_all P ids (routes(cid := None), store_put r c st, e) })"

definition route_expired :: "nat \<Rightarrow> routes \<Rightarrow> conn_store \<Rightarrow> connection_id \<Rightarrow> bool" where
  "route_expired now routes st cid = (case Option.bind (routes cid) (st_conns st) of
     Some c \<Rightarrow> conn_is_expired now c | None \<Rightarrow> False)"

definition router_clean_expired :: "poll \<Rightarrow> nat \<Rightarrow> connection_id list \<Rightarrow> router_ctx \<Rightarrow> router_ctx option" where
  "router_clean_expired P now order = (\<lambda>(routes, st, e).
     let expired_ids = filter (route_expired now routes st) order in
     expire_all P expired_ids (routes, st, e))"

definition router_active_count :: "routes \<Rightarrow> nat" where
  "router_active_count routes = card (dom routes)"

fun protocol_counts :: "connection_id list \<Rightarrow> nat \<times> nat \<times> nat" where
  "protocol_counts [] = (0, 0, 0)"
| "protocol_counts (cid # ids) = (let (tcp, udp, other) = protocol_counts ids in
     case cid_protocol cid of
       Tcp \<Rightarrow> (tcp + 1, udp, other) | Udp \<Rightarrow> (tcp, udp + 1, other) | Other \<Rightarrow> (tcp, udp, other + 1))"

section \<open>The invariant of the router\<close>

definition routed_ok :: "conn_env \<Rightarrow> connection_id \<Rightarrow> connection \<Rightarrow> bool" where
  "routed_ok e cid c \<longleftrightarrow> conn_own c \<and> conn_id c = cid \<and> \<not> conn_closed c \<and> live_token (en_selector e) (conn_token c)"

text \<open>Every route leads to an open connection of that identity, on a live token of its own.\<close>

definition router_inv :: "router_ctx \<Rightarrow> bool" where
  "router_inv = (\<lambda>(routes, st, e). env_ok e \<and> finite (dom routes)
     \<and> (\<forall>cid r. routes cid = Some r \<longrightarrow> (\<exists>c. st_conns st r = Some c \<and> routed_ok e cid c))
     \<and> (\<forall>r \<in> dom (st_conns st). r < st_next st)
     \<and> (\<forall>cid cid' r r' c c'. routes cid = Some r \<and> routes cid' = Some r' \<and> cid \<noteq> cid'
         \<and> st_conns st r = Some c \<and> st_conns st r' = Some c' \<longrightarrow> conn_token c \<noteq> conn_token c'))"

lemma router_invD:
  assumes "router_inv (routes, st, e)"
  shows "env_ok e" and "finite (dom routes)"
    and "routes cid = Some r \<Longrightarrow> \<exists>c. st_conns st r = Some c \<and> routed_ok e cid c"
    and "r \<in> dom (st_conns st) \<Longrightarrow> r < st_next st"
    and "routes cid = Some r \<Longrightarrow> routes cid' = Some r' \<Longrightarrow> cid \<noteq> cid' \<Longrightarrow> st_conns st r = Some c \<Longrightarrow>
      st_conns st r' = Some c' \<Longrightarrow> conn_token c \<noteq> conn_token c'"
  using assms unfolding router_inv_def by (fast, fast, blast, blast, blast)

lemma router_invI:
  assumes "env_ok e" and "finite (dom routes)"
    and "\<And>cid r. routes cid = Some r \<Longrightarrow> \<exists>c. st_conns st r = Some c \<and> routed_ok e cid c"
    and "\<And>r. r \<in> dom (st_conns st) \<Longrightarrow> r < st_next st"
    and "\<And>cid cid' r r' c c'. routes cid = Some r \<Longrightarrow> routes cid' = Some r' \<Longrightarrow> cid \<noteq> cid' \<Longrightarrow>
      st_conns st r = Some c \<Longrightarrow> st_conns st r' = Some c' \<Longrightarrow> conn_token c \<noteq> conn_token c'"
  shows "router_inv (routes, st, e)"
  using assms unfolding router_inv_def prod.case by (intro conjI) (blast | metis)+

text \<open>The environment may change as long as no token in use dies.\<close>

lemma router_inv_env:
  assumes inv: "router_inv (routes, st, e)" and e': "env_ok e'"
    and live: "\<And>u. live_token (en_selector e) u \<Longrightarrow> live_token (en_selector e') u"
  shows "router_inv (routes, st, e')"
proof -
  note I = router_invD [OF inv]
  have "\<exists>c. st_conns st r = Some c \<and> routed_ok e' cid c" if "routes cid = Some r" for cid r
    using I(3) [OF that] live by (auto simp: routed_ok_def)
  then show ?thesis by (rule router_invI [OF e' I(2) _ I(4,5)])
qed

text \<open>Two routes never share a reference.\<close>

lemma routes_distinct:
  assumes "router_inv (routes, st, e)" "routes cid = Some r" "routes cid' = Some r"
  shows "cid = cid'"
  using router_invD(3) [OF assms(1,2)] router_invD(3) [OF assms(1,3)] by (auto simp: routed_ok_def)

text \<open>The one connection a step concerns changes, is closed and leaves the map, or both.\<close>

lemma router_inv_update:
  assumes inv: "router_inv (routes, st, e)" and r: "routes cid = Some r" "st_conns st r = Some c"
    and step: "env_step (conn_token c) e e'"
    and c': "\<not> gone \<Longrightarrow> routed_ok e' cid c' \<and> conn_token c' = conn_token c"
  shows "router_inv (if gone then routes(cid := None) else routes, store_put r c' st, e')"
proof -
  note I = router_invD [OF inv]
  let ?rt = "if gone then routes(cid := None) else routes"
  have other: "st_conns (store_put r c' st) r' = st_conns st r' \<and> r' \<noteq> r"
    if "routes cid' = Some r'" "cid' \<noteq> cid" for cid' r'
    using that routes_distinct [OF inv r(1)] by (auto simp: store_put_def)
  have ok: "\<exists>d. st_conns (store_put r c' st) r' = Some d \<and> routed_ok e' cid' d"
    if "?rt cid' = Some r'" for cid' r'
  proof (cases "cid' = cid")
    case True
    then show ?thesis using that c' r(1) by (auto simp: store_put_def split: if_splits)
  next
    case False
    then have rt: "routes cid' = Some r'" using that by (simp split: if_splits)
    obtain d where d: "st_conns st r' = Some d" "routed_ok e cid' d" using I(3) [OF rt] by blast
    have "conn_token d \<noteq> conn_token c" using I(5) [OF rt r(1) False d(1) r(2)] .
    then have "routed_ok e' cid' d" using d(2) step by (simp add: routed_ok_def env_step_def)
    then show ?thesis using other [OF rt False] d(1) by simp
  qed
  have tok: "conn_token d1 \<noteq> conn_token d2"
    if "?rt c1 = Some r1" "?rt c2 = Some r2" "c1 \<noteq> c2" "st_conns (store_put r c' st) r1 = Some d1"
      "st_conns (store_put r c' st) r2 = Some d2" for c1 c2 r1 r2 d1 d2
  proof -
    have rt: "routes c1 = Some r1" "routes c2 = Some r2" using that(1,2) by (simp_all split: if_splits)
    have old: "\<exists>d. st_conns st r' = Some d \<and> conn_token d = conn_token d'"
      if "?rt cid' = Some r'" "st_conns (store_put r c' st) r' = Some d'" for cid' r' d'
    proof (cases "cid' = cid")
      case True
      then show ?thesis using that c' r by (auto simp: store_put_def split: if_splits)
    next
      case False
      then have "routes cid' = Some r'" using that(1) by (simp split: if_splits)
      then have "st_conns st r' = Some d'" using other [OF _ False] that(2) by simp
      then show ?thesis by blast
    qed
    show ?thesis using old [OF that(1,4)] old [OF that(2,5)] I(5) [OF rt that(3)] by fastforce
  qed
  have "dom (st_conns (store_put r c' st)) = dom (st_conns st)" "st_next (store_put r c' st) = st_next st"
    using r(2) by (auto simp: store_put_def)
  then have n: "\<And>r'. r' \<in> dom (st_conns (store_put r c' st)) \<Longrightarrow> r' < st_next (store_put r c' st)" using I(4) by simp
  have f: "finite (dom ?rt)" "env_ok e'" using I(2) step by (simp_all add: env_step_def)
  show ?thesis by (rule router_invI [OF f(2,1) ok n tok])
qed

section \<open>What a router leaves alone\<close>

text \<open>A token that lives outside a router: of its client, of the server, of another router.\<close>

definition outside :: "nat \<Rightarrow> router_ctx \<Rightarrow> bool" where
  "outside t = (\<lambda>(routes, st, e). live_token (en_selector e) t
     \<and> (\<forall>cid r c. routes cid = Some r \<and> st_conns st r = Some c \<longrightarrow> conn_token c \<noteq> t))"

text \<open>
  The router makes no request on its client, keeps the channel's identity, lets tokens outside
  live, and touches no connection that is not its own.
\<close>

definition router_step :: "router_ctx \<Rightarrow> router_ctx \<Rightarrow> bool" where
  "router_step = (\<lambda>(rt, st, e) (rt', st', e').
     en_requests e' = en_requests e \<and> ch_frame (en_channel e) (en_channel e')
     \<and> (\<forall>t. outside t (rt, st, e) \<longrightarrow> outside t (rt', st', e')) \<and> st_next st \<le> st_next st'
     \<and> (\<forall>r. r < st_next st \<and> r \<notin> ran rt \<longrightarrow> st_conns st' r = st_conns st r \<and> r \<notin> ran rt'))"

lemma router_step_refl [simp]: "router_step x x"
  by (auto simp: router_step_def)

lemma router_step_trans [trans]: "router_step x y \<Longrightarrow> router_step y z \<Longrightarrow> router_step x z"
  by (cases x; cases y; cases z) (auto simp: router_step_def intro: ch_frame_trans)

lemma router_step_requests: "router_step (rt, st, e) (rt', st', e') \<Longrightarrow> en_requests e' = en_requests e"
  by (simp add: router_step_def)

lemma router_step_update:
  assumes inv: "router_inv (routes, st, e)" and r: "routes cid = Some r" "st_conns st r = Some c"
    and step: "env_step (conn_token c) e e'" and c': "\<not> gone \<Longrightarrow> conn_token c' = conn_token c"
  shows "router_step (routes, st, e) (if gone then routes(cid := None) else routes, store_put r c' st, e')"
proof -
  let ?rt = "if gone then routes(cid := None) else routes"
  have sub: "?rt x = Some y \<Longrightarrow> routes x = Some y" for x y by (simp split: if_splits)
  have "outside t (?rt, store_put r c' st, e')" if o: "outside t (routes, st, e)" for t
  proof -
    have t: "live_token (en_selector e) t" "conn_token c \<noteq> t" using o r by (auto simp: outside_def)
    have tok: "conn_token d \<noteq> t" if d: "?rt x = Some y" "st_conns (store_put r c' st) y = Some d" for x y d
    proof (cases "y = r")
      case True
      show ?thesis
      proof (cases gone)
        case False
        then show ?thesis using True d(2) c' t(2) by (simp add: store_put_def)
      next
        case g: True
        show ?thesis
        proof (cases "x = cid")
          case x: False
          show ?thesis using d(2) True c' t(2) g x d(1) routes_distinct [OF inv r(1), of x] by simp
        qed (use g d(1) in simp)
      qed
    next
      case False
      then show ?thesis using o d sub [OF d(1)] by (auto simp: outside_def store_put_def)
    qed
    have "live_token (en_selector e') t" using t step by (auto simp: env_step_def)
    then show ?thesis using tok unfolding outside_def prod.case by blast
  qed
  moreover have "x \<notin> ran ?rt \<and> st_conns (store_put r c' st) x = st_conns st x" if x: "x \<notin> ran routes" for x
  proof -
    have "r \<noteq> x" using x r(1) by (auto simp: ran_def)
    moreover have "x \<notin> ran ?rt" using x sub unfolding ran_def by blast
    ultimately show ?thesis by (simp add: store_put_def)
  qed
  moreover have "en_requests e' = en_requests e" "ch_frame (en_channel e) (en_channel e')"
    "st_next (store_put r c' st) = st_next st"
    using step by (simp_all add: env_step_def store_put_def)
  ultimately show ?thesis unfolding router_step_def prod.case by simp
qed

lemma router_step_insert:
  assumes g: "selector_grows (en_selector e) s" and c: "created cid (en_selector e) c s"
    and d: "\<forall>r \<in> dom (st_conns st). r < st_next st"
  shows "router_step (routes, st, e) (routes(cid \<mapsto> st_next st),
    (store_put (st_next st) c st)\<lparr>st_next := st_next st + 1\<rparr>, e\<lparr>en_selector := s\<rparr>)"
  using g c
  by (auto simp: router_step_def outside_def selector_grows_def created_def store_put_def ran_def
      split: if_splits)

section \<open>Each operation keeps it\<close>

lemma router_deliver_ok:
  assumes h: "host_ok h" and inv: "router_inv (routes, st, e)" and p: "ip_packet_ok p"
    and cid: "connection_id_from_packet p = Some cid" and r: "routes cid = Some r"
  shows "\<exists>routes' st' e'. router_deliver h p cid r (routes, st, e) = Some (routes', st', e')
    \<and> router_inv (routes', st', e') \<and> router_step (routes, st, e) (routes', st', e') \<and> st_next st' = st_next st
    \<and> (\<forall>cid'. cid' \<noteq> cid \<longrightarrow> routes' cid' = routes cid')
    \<and> (\<forall>r'. r' \<noteq> r \<longrightarrow> st_conns st' r' = st_conns st r')"
proof -
  note I = router_invD [OF inv]
  obtain c where c: "st_conns st r = Some c" "routed_ok e cid c" using I(3) [OF r] by blast
  then obtain c' e' where s: "conn_send h p (c, e) = Some (c', e')" "conn_own c'" "conn_id c' = conn_id c"
    "conn_token c' = conn_token c" "env_step (conn_token c) e e'"
    "\<not> conn_closed c' \<longrightarrow> live_token (en_selector e') (conn_token c)"
    using conn_flow.send_ok [of h c e p] h I(1) p cid by (auto simp: routed_ok_def)
  have "router_inv (if conn_closed c' then routes(cid := None) else routes, store_put r c' st, e')"
    by (rule router_inv_update [OF inv r c(1) s(5)]) (use s c(2) in \<open>simp add: routed_ok_def\<close>)
  moreover note router_step_update [OF inv r c(1) s(5), of "conn_closed c'" c', OF s(4)]
  ultimately show ?thesis
    using c(1) s(1,5) by (auto simp: router_deliver_def env_step_def store_put_def)
qed

text \<open>A created connection takes its place in the map.\<close>

lemma router_inv_insert:
  assumes inv: "router_inv (routes, st, e)" and new: "routes cid = None"
    and g: "selector_grows (en_selector e) s" and c: "created cid (en_selector e) c s"
  shows "router_inv (routes(cid \<mapsto> st_next st), (store_put (st_next st) c st)\<lparr>st_next := st_next st + 1\<rparr>,
    e\<lparr>en_selector := s\<rparr>)"
proof -
  note I = router_invD [OF inv]
  let ?st = "(store_put (st_next st) c st)\<lparr>st_next := st_next st + 1\<rparr>" and ?rt = "routes(cid \<mapsto> st_next st)"
  let ?e = "e\<lparr>en_selector := s\<rparr>"
  have fresh: "st_conns st (st_next st) = None" using I(4) [of "st_next st"] by auto
  have old: "\<exists>d. st_conns st r = Some d \<and> st_conns ?st r = Some d \<and> routed_ok e cid' d" if "routes cid' = Some r" for cid' r
    using I(3) [OF that] fresh by (force simp: store_put_def)
  have ok: "\<exists>d. st_conns ?st r = Some d \<and> routed_ok ?e cid' d" if "?rt cid' = Some r" for cid' r
  proof (cases "cid' = cid")
    case True
    then show ?thesis using that c by (auto simp: store_put_def routed_ok_def created_def)
  next
    case False
    then show ?thesis using old [of cid' r] that g by (auto simp: routed_ok_def selector_grows_def)
  qed
  have tok: "conn_token d1 \<noteq> conn_token d2"
    if "?rt c1 = Some r1" "?rt c2 = Some r2" "c1 \<noteq> c2" "st_conns ?st r1 = Some d1" "st_conns ?st r2 = Some d2"
    for c1 c2 r1 r2 d1 d2
  proof -
    have new_old: "conn_token c \<noteq> conn_token d" if "routes cid' = Some r" "st_conns ?st r = Some d" for cid' r d
      using old [OF that(1)] that(2) c by (auto simp: routed_ok_def created_def)
    note neq = that(3)
    consider "c1 = cid" "c2 \<noteq> cid" | "c1 \<noteq> cid" "c2 = cid" | "c1 \<noteq> cid" "c2 \<noteq> cid" using neq by blast
    then show ?thesis
    proof cases
      case 1
      then show ?thesis using that new_old [of c2 r2 d2] by (simp add: store_put_def)
    next
      case 2
      then have "conn_token c \<noteq> conn_token d1" using that(1,4) new_old [of c1 r1 d1] by simp
      moreover have "d2 = c" using 2 that(2,5) by (simp add: store_put_def)
      ultimately show ?thesis by simp
    next
      case 3
      then have rt: "routes c1 = Some r1" "routes c2 = Some r2" using that(1,2) by simp_all
      then show ?thesis using old [OF rt(1)] old [OF rt(2)] that(3-5) I(5) [OF rt that(3)] by auto
    qed
  qed
  have n: "\<And>r. r \<in> dom (st_conns ?st) \<Longrightarrow> r < st_next ?st" using I(4) by (fastforce simp: store_put_def split: if_splits)
  have f: "finite (dom ?rt)" "env_ok ?e" using I(1,2) g by (simp_all add: env_ok_def selector_grows_def)
  show ?thesis by (rule router_invI [OF f(2,1) ok n tok])
qed

lemma store_created_ok:
  assumes "create_outcome cid s C m"
  shows "\<exists>v st' s'. store_created C m st = Some (v, st', s') \<and> selector_grows s s'
    \<and> (case v of Inl e \<Rightarrow> st' = st
       | Inr r \<Rightarrow> r = st_next st \<and> (\<exists>c. created cid s c s'
           \<and> st' = (store_put (st_next st) c st)\<lparr>st_next := st_next st + 1\<rparr>))"
proof -
  obtain v s' where "m = Some (v, s')" "selector_grows s s'"
    "case v of Inl e \<Rightarrow> True | Inr c \<Rightarrow> created cid s (C c) s'"
    using assms by (auto simp: create_outcome_def)
  then show ?thesis by (cases v) (auto simp: store_created_def)
qed

lemma router_create_ok:
  assumes h: "host_ok h" and s: "sel_inv s" and p: "ip_packet_ok p" and cid: "connection_id_from_packet p = Some cid"
  shows "\<exists>v st' s'. router_create_connection h cid p st s = Some (v, st', s') \<and> selector_grows s s'
    \<and> (case v of Inl e \<Rightarrow> st' = st
       | Inr r \<Rightarrow> r = st_next st \<and> (\<exists>c. created cid s c s'
           \<and> st' = (store_put (st_next st) c st)\<lparr>st_next := st_next st + 1\<rparr>))"
proof (cases p)
  case (Ipv4 q)
  then obtain t where t: "ip_transport_data q = Some t" "cid = connection_id_from_headers (ip_header_data q) t"
    using cid by auto
  have q: "ipv4_accepted q" using p Ipv4 by simp
  obtain iraw traw where H: "ipv4_packet_headers q = Some ((iraw, ip_header_data q), Some (traw, t))"
    "transport_matches (ih_protocol (ip_header_data q)) t traw"
    using accepted_headers [OF q t(1)] by blast
  have id: "v4_id (ih_protocol (ip_header_data q)) cid" "cid_protocol cid = ih_protocol (ip_header_data q)"
    using t(2) by (auto simp: v4_id_def connection_id_from_headers_def to_socket_addr_def simp del: split_paired_Ex)
  have up: "slab_ok (h_vacant h)" "h_upstream h \<noteq> None" using h by (simp_all add: host_ok_def)
  show ?thesis
  proof (cases t)
    case (TcpTransport hd)
    then have "ih_protocol (ip_header_data q) = Tcp" using H(2) by (simp add: transport_matches_protocol)
    then show ?thesis
      using Ipv4 H(1) id store_created_ok [OF tcp_create_ok [OF s up q t(1) [unfolded TcpTransport] _ H(1)]]
      by (simp add: router_create_connection_def)
  next
    case (UdpTransport hd)
    then have "ih_protocol (ip_header_data q) = Udp" using H(2) by (simp add: transport_matches_protocol)
    then show ?thesis
      using Ipv4 H(1) id store_created_ok [OF udp_create_ok [OF s up q t(1) _ H(1)]]
      by (simp add: router_create_connection_def)
  qed
next
  case (Ipv6 q)
  have q: "ipv6_packet_ok q" using p Ipv6 by simp
  then have len: "40 + unat (transport_header_length (i6p_transport_data q)) \<le> length (i6p_raw q)"
    by (simp add: ipv6_packet_ok_def)
  obtain th where th: "ipv6_packet_transport_header q = Some th"
    using len by (auto simp: ipv6_packet_transport_header_def slice_Some IPV6_HEADER_LENGTH_def Let_def)
  obtain pk where pk: "ipv6_packetizer_new (take 40 (i6p_raw q), i6p_header_data q) th = Some pk" "p6_inv pk"
    using ipv6_packetizer_new_ok [OF q th] by blast
  have id: "v6_id cid" using cid Ipv6 by (auto simp: v6_id_def Let_def split: if_splits)
  have up: "slab_ok (h_vacant h)" "h_upstream h \<noteq> None" using h by (simp_all add: host_ok_def)
  show ?thesis
    using Ipv6 th pk(1) len store_created_ok [OF v6_create_ok [OF s up pk(2) id]]
    by (simp add: router_create_connection_def slice_Some IPV6_HEADER_LENGTH_def)
qed

text \<open>A packet reaches the connection of its identity and no other; no packet panics the router.\<close>

lemma router_send_ok:
  assumes h: "host_ok h" and inv: "router_inv (routes, st, e)" and p: "ip_packet_ok p"
  shows "\<exists>routes' st' e'. router_send_to_network h p (routes, st, e) = Some (routes', st', e')
    \<and> router_inv (routes', st', e') \<and> router_step (routes, st, e) (routes', st', e')
    \<and> (\<forall>cid. connection_id_from_packet p \<noteq> Some cid \<longrightarrow> routes' cid = routes cid
        \<and> (\<forall>r. routes cid = Some r \<longrightarrow> st_conns st' r = st_conns st r))"
proof (cases "connection_id_from_packet p")
  case None
  then show ?thesis using inv by (simp add: router_send_to_network_def)
next
  case (Some cid)
  have valid: "\<not> (case p of Ipv4 q \<Rightarrow> \<not> ipv4_packet_is_valid q | Ipv6 _ \<Rightarrow> False)"
    using Some by (cases p) (auto simp: ipv4_packet_is_valid_def)
  note I = router_invD [OF inv]
  show ?thesis
  proof (cases "routes cid")
    case r: (Some r)
    have "st_conns st' r' = st_conns st r'"
      if "\<forall>r'. r' \<noteq> r \<longrightarrow> st_conns st' r' = st_conns st r'" "routes cid' = Some r'" "cid' \<noteq> cid" for st' r' cid'
    proof -
      have "r' \<noteq> r" using routes_distinct [OF inv r, of cid'] that(2,3) by blast
      then show ?thesis using that(1) by simp
    qed
    moreover obtain routes' st' e' where "router_deliver h p cid r (routes, st, e) = Some (routes', st', e')"
      "router_inv (routes', st', e')" "router_step (routes, st, e) (routes', st', e')"
      "\<forall>cid'. cid' \<noteq> cid \<longrightarrow> routes' cid' = routes cid'" "\<forall>r'. r' \<noteq> r \<longrightarrow> st_conns st' r' = st_conns st r'"
      using router_deliver_ok [OF h inv p Some r] by blast
    ultimately show ?thesis using Some valid r by (auto simp: router_send_to_network_def)
  next
    case None
    have s: "sel_inv (en_selector e)" using I(1) by (simp add: env_ok_def)
    obtain v st1 s1 where k: "router_create_connection h cid p st (en_selector e) = Some (v, st1, s1)"
      "selector_grows (en_selector e) s1"
      "case v of Inl e \<Rightarrow> st1 = st | Inr r \<Rightarrow> r = st_next st \<and> (\<exists>c. created cid (en_selector e) c s1
           \<and> st1 = (store_put (st_next st) c st)\<lparr>st_next := st_next st + 1\<rparr>)"
      using router_create_ok [OF h s p Some] by blast
    let ?e = "e\<lparr>en_selector := s1\<rparr>"
    show ?thesis
    proof (cases v)
      case (Inl f)
      have "router_inv (routes, st, ?e)"
        by (rule router_inv_env [OF inv]) (use I(1) k(2) in \<open>auto simp: env_ok_def selector_grows_def\<close>)
      moreover have "router_step (routes, st, e) (routes, st, ?e)"
        using k(2) by (auto simp: router_step_def outside_def selector_grows_def)
      ultimately show ?thesis using Inl k Some valid None by (simp add: router_send_to_network_def)
    next
      case (Inr r)
      obtain c where c: "r = st_next st" "created cid (en_selector e) c s1"
        "st1 = (store_put (st_next st) c st)\<lparr>st_next := st_next st + 1\<rparr>"
        using k(3) Inr by auto
      have d0: "\<forall>r \<in> dom (st_conns st). r < st_next st" using I(4) by blast
      have step1: "router_step (routes, st, e) (routes(cid \<mapsto> r), st1, ?e)"
        using router_step_insert [OF k(2) c(2) d0] c(1,3) by simp
      have inv1: "router_inv (routes(cid \<mapsto> r), st1, ?e)"
        using router_inv_insert [OF inv None k(2) c(2)] c(1,3) by simp
      obtain routes' st' e' where d: "router_deliver h p cid r (routes(cid \<mapsto> r), st1, ?e) = Some (routes', st', e')"
        "router_inv (routes', st', e')" "router_step (routes(cid \<mapsto> r), st1, ?e) (routes', st', e')"
        "\<forall>cid'. cid' \<noteq> cid \<longrightarrow> routes' cid' = (routes(cid \<mapsto> r)) cid'"
        "\<forall>r'. r' \<noteq> r \<longrightarrow> st_conns st' r' = st_conns st1 r'"
        using router_deliver_ok [OF h inv1 p Some] by auto
      have "st_conns st' r' = st_conns st r'" if "routes cid' = Some r'" for cid' r'
      proof -
        have "r' < st_next st" using I(3) [OF that] I(4) by blast
        then show ?thesis using d(5) c(1,3) by (simp add: store_put_def)
      qed
      then show ?thesis using d Inr k(1) Some valid None router_step_trans [OF step1 d(3)]
        by (auto simp: router_send_to_network_def)
    qed
  qed
qed

section \<open>Clearing and expiry\<close>

text \<open>What is left of a route once its connection was closed for good.\<close>

definition shut :: "conn_store \<Rightarrow> nat \<Rightarrow> bool" where
  "shut st r \<longleftrightarrow> (\<exists>c. st_conns st r = Some c \<and> conn_closed c)"

lemma close_all_ok:
  "router_inv (routes, st, e) \<Longrightarrow> distinct order \<Longrightarrow> set order \<subseteq> dom routes \<Longrightarrow>
    \<exists>st' e'. close_all P (List.map_filter routes order) (st, e) = Some (st', e')
      \<and> router_inv (routes |` (- set order), st', e')
      \<and> router_step (routes, st, e) (routes |` (- set order), st', e')
      \<and> (\<forall>cid \<in> set order. shut st' (the (routes cid)))
      \<and> (\<forall>r. r \<notin> (the \<circ> routes) ` set order \<longrightarrow> st_conns st' r = st_conns st r)"
proof (induction order arbitrary: routes st e)
  case Nil
  then show ?case by (simp add: List.map_filter_def)
next
  case (Cons cid order)
  note inv = Cons.prems(1)
  obtain r where r: "routes cid = Some r" using Cons.prems(3) by auto
  obtain c where c: "st_conns st r = Some c" "routed_ok e cid c" using router_invD(3) [OF inv r] by blast
  obtain c' e' where s: "conn_close P (c, e) = (c', e')" "conn_closed c'" "env_step (conn_token c) e e'"
    using conn_flow.close_ok [of c e P] c(2) router_invD(1) [OF inv] by (auto simp: routed_ok_def)
  let ?rt = "routes(cid := None)" and ?st = "store_put r c' st"
  have inv': "router_inv (?rt, ?st, e')"
    using router_inv_update [OF inv r c(1) s(3), of True c'] by simp
  have step: "router_step (routes, st, e) (?rt, ?st, e')"
    using router_step_update [OF inv r c(1) s(3), of True c'] by simp
  have d: "distinct order" "cid \<notin> set order" "set order \<subseteq> dom ?rt" using Cons.prems(2,3) by auto
  have mf: "List.map_filter ?rt order = List.map_filter routes order"
    using d(2) by (induction order) (auto simp: List.map_filter_simps split: option.splits)
  obtain st' e'' where k: "close_all P (List.map_filter ?rt order) (?st, e') = Some (st', e'')"
    "router_inv (?rt |` (- set order), st', e'')" "router_step (?rt, ?st, e') (?rt |` (- set order), st', e'')"
    "\<forall>cid \<in> set order. shut st' (the (?rt cid))"
    "\<forall>r. r \<notin> (the \<circ> ?rt) ` set order \<longrightarrow> st_conns st' r = st_conns ?st r"
    using Cons.IH [OF inv' d(1,3)] by blast
  have same: "cid' \<in> set order \<Longrightarrow> ?rt cid' = routes cid'" for cid' using d(2) by auto
  have rn: "r \<notin> (the \<circ> ?rt) ` set order"
  proof
    assume "r \<in> (the \<circ> ?rt) ` set order"
    then obtain cid' where x: "cid' \<in> set order" "r = the (routes cid')" using same by auto
    moreover obtain r' where "routes cid' = Some r'" using x(1) Cons.prems(3) by auto
    ultimately have "cid = cid'" using routes_distinct [OF inv r, of cid'] by simp
    then show False using x(1) d(2) by simp
  qed
  have "shut st' r" using k(5) rn s(2) by (auto simp: shut_def store_put_def)
  then have "\<forall>cid' \<in> set (cid # order). shut st' (the (routes cid'))" using k(4) r same by auto
  moreover have "st_conns st' r' = st_conns st r'" if "r' \<notin> (the \<circ> routes) ` set (cid # order)" for r'
  proof -
    have "r' \<notin> (the \<circ> ?rt) ` set order" "r' \<noteq> r" using that r same by (auto simp: image_iff)
    then show ?thesis using k(5) by (simp add: store_put_def)
  qed
  moreover have rs: "?rt |` (- set order) = routes |` (- set (cid # order))"
    by (auto simp: restrict_map_def fun_eq_iff)
  ultimately show ?case
    using k(1) k(2) [unfolded rs] router_step_trans [OF step k(3) [unfolded rs]] s(1) r c(1) mf
    by (auto simp: List.map_filter_simps)
qed

text \<open>\<open>clear\<close> closes every connection, once, and empties the map.\<close>

lemma router_clear_ok:
  assumes "router_inv (routes, st, e)" and "distinct order" and "set order = dom routes"
  shows "\<exists>st' e'. router_clear P order (routes, st, e) = Some (Map.empty, st', e')
    \<and> router_inv (Map.empty, st', e') \<and> router_step (routes, st, e) (Map.empty, st', e')
    \<and> (\<forall>cid r. routes cid = Some r \<longrightarrow> shut st' r)"
proof -
  obtain st' e' where k: "close_all P (List.map_filter routes order) (st, e) = Some (st', e')"
    "router_inv (routes |` (- set order), st', e')" "router_step (routes, st, e) (routes |` (- set order), st', e')"
    "\<forall>cid \<in> set order. shut st' (the (routes cid))"
    using close_all_ok [OF assms(1,2), of P] assms(3) by blast
  have "routes |` (- set order) = Map.empty" using assms(3) by (auto simp: restrict_map_def fun_eq_iff)
  moreover have "shut st' r" if "routes cid = Some r" for cid r
  proof -
    have "cid \<in> set order" using that assms(3) by auto
    then show ?thesis using k(4) that by force
  qed
  ultimately show ?thesis using k by (auto simp: router_clear_def)
qed

text \<open>Expiry registers nothing: no token comes to life.\<close>

lemma conn_expire_tokens:
  assumes P: "poll_works P" and e: "env_ok e" and run: "conn_expire P (c, e) = Some (c', e')"
    and live: "live_token (en_selector e') u"
  shows "live_token (en_selector e) u"
proof -
  have close: "live_token (snd (selector_deregister P h t s)) u \<Longrightarrow> live_token s u" for h t s
    by (simp add: live_token_def)
  show ?thesis
  proof (cases c)
    case (TcpConn t)
    have reply: "live_token (en_selector e1) u = live_token (en_selector e) u"
      if r: "reply_empty_packet_to_client P flags (t, e) = Some (t1, e1)" for flags t1 e1
    proof -
      obtain q :: ipv4_packet and v where q: "send_through P (ip_raw q) e = Some (v, e1)"
        using r by (auto simp: reply_empty_packet_to_client_def bind_eq_Some_conv)
      obtain e3 where "send_through P (ip_raw q) e = Some
          (if length (ip_raw q) \<le> sb_remaining (ch_network_to_client (en_channel e)) then Inr () else Inl WouldBlock, e3)"
        "offered e (ip_raw q) e3"
        using send_through_ok [OF P, of e] e by (auto simp: env_ok_def)
      then show ?thesis using q by (simp add: offered_def same_tokens_def live_token_def)
    qed
    then show ?thesis
      using run live by (auto simp: TcpConn tcp_expire_def tcp_close_def bind_eq_Some_conv split: if_splits dest!: close)
  next
    case (UdpConn t)
    then show ?thesis using run live by (auto simp: udp_close_def dest!: close)
  next
    case (V6Conn t)
    then show ?thesis using run live by (auto simp: v6_close_def split: if_splits dest!: close)
  qed
qed

lemma expire_all_ok:
  "router_inv (routes, st, e) \<Longrightarrow> poll_works P \<Longrightarrow>
    \<exists>st' e'. expire_all P ids (routes, st, e) = Some (routes |` (- set ids), st', e')
      \<and> router_inv (routes |` (- set ids), st', e')
      \<and> router_step (routes, st, e) (routes |` (- set ids), st', e')
      \<and> (\<forall>cid r. cid \<notin> set ids \<longrightarrow> routes cid = Some r \<longrightarrow> st_conns st' r = st_conns st r)
      \<and> (\<forall>cid r c. cid \<in> set ids \<longrightarrow> routes cid = Some r \<longrightarrow> st_conns st r = Some c \<longrightarrow>
          shut st' r \<and> \<not> live_token (en_selector e') (conn_token c))
      \<and> (\<forall>u. live_token (en_selector e') u \<longrightarrow> live_token (en_selector e) u)"
proof (induction ids arbitrary: routes st e)
  case Nil
  then show ?case by simp
next
  case (Cons cid ids)
  note inv = Cons.prems(1)
  show ?case
  proof (cases "routes cid")
    case None
    then have "routes |` (- set (cid # ids)) = routes |` (- set ids)" by (auto simp: restrict_map_def fun_eq_iff)
    then show ?thesis using Cons.IH [OF inv Cons.prems(2)] None by auto
  next
    case (Some r)
    obtain c where c: "st_conns st r = Some c" "routed_ok e cid c" using router_invD(3) [OF inv Some] by blast
    obtain c' e' where s: "conn_expire P (c, e) = Some (c', e')" "env_step (conn_token c) e e'"
      "conn_closed c'" "\<not> live_token (en_selector e') (conn_token c)"
      using conn_flow.expire_ok [of P c e] c(2) Cons.prems(2) router_invD(1) [OF inv] by (auto simp: routed_ok_def)
    let ?rt = "routes(cid := None)" and ?st = "store_put r c' st"
    have inv': "router_inv (?rt, ?st, e')"
      using router_inv_update [OF inv Some c(1) s(2), of True c'] by simp
    have step: "router_step (routes, st, e) (?rt, ?st, e')"
      using router_step_update [OF inv Some c(1) s(2), of True c'] by simp
    obtain st' e'' where k: "expire_all P ids (?rt, ?st, e') = Some (?rt |` (- set ids), st', e'')"
      "router_inv (?rt |` (- set ids), st', e'')" "router_step (?rt, ?st, e') (?rt |` (- set ids), st', e'')"
      "\<forall>cid r. cid \<notin> set ids \<longrightarrow> ?rt cid = Some r \<longrightarrow> st_conns st' r = st_conns ?st r"
      "\<forall>cid r c. cid \<in> set ids \<longrightarrow> ?rt cid = Some r \<longrightarrow> st_conns ?st r = Some c \<longrightarrow>
          shut st' r \<and> \<not> live_token (en_selector e'') (conn_token c)"
      "\<forall>u. live_token (en_selector e'') u \<longrightarrow> live_token (en_selector e') u"
      using Cons.IH [OF inv' Cons.prems(2)] by blast
    have kept: "st_conns st' r' = st_conns st r'" if "cid' \<notin> set (cid # ids)" "routes cid' = Some r'" for cid' r'
    proof -
      have "r' \<noteq> r" using routes_distinct [OF inv Some, of cid'] that by auto
      then show ?thesis using k(4) that by (auto simp: store_put_def)
    qed
    have dead: "live_token (en_selector e'') u \<Longrightarrow> live_token (en_selector e) u" for u
      using k(6) conn_expire_tokens [OF Cons.prems(2) router_invD(1) [OF inv] s(1)] by blast
    have shuts: "shut st' r' \<and> \<not> live_token (en_selector e'') (conn_token d)"
      if "cid' \<in> set (cid # ids)" "routes cid' = Some r'" "st_conns st r' = Some d" for cid' r' d
    proof (cases "cid' = cid")
      case True
      have "r \<notin> ran ?rt" using routes_distinct [OF inv Some] by (auto simp: ran_def)
      moreover have "r < st_next ?st" using router_invD(4) [OF inv] c(1) by (auto simp: store_put_def)
      ultimately have "st_conns st' r = st_conns ?st r" using k(3) by (simp add: router_step_def)
      then show ?thesis
        using True that Some c(1) s(3,4) k(6) by (auto simp: shut_def store_put_def)
    next
      case False
      then have "r' \<noteq> r" using routes_distinct [OF inv Some, of cid'] that(2) by auto
      then show ?thesis using k(5) False that by (simp add: store_put_def)
    qed
    have rs: "?rt |` (- set ids) = routes |` (- set (cid # ids))"
      by (auto simp: restrict_map_def fun_eq_iff)
    have run: "expire_all P (cid # ids) (routes, st, e) = Some (routes |` (- set (cid # ids)), st', e'')"
      using k(1) [unfolded rs] s(1) Some c(1) by simp
    show ?thesis
      using run k(2) [unfolded rs] router_step_trans [OF step k(3) [unfolded rs]] kept shuts dead by blast
  qed
qed

text \<open>The reaper removes exactly the expired connections.\<close>

lemma router_clean_expired_ok:
  assumes inv: "router_inv (routes, st, e)" and P: "poll_works P" and order: "set order = dom routes"
  shows "\<exists>routes' st' e'. router_clean_expired P now order (routes, st, e) = Some (routes', st', e')
    \<and> router_inv (routes', st', e') \<and> router_step (routes, st, e) (routes', st', e')
    \<and> (\<forall>cid. routes' cid = (if route_expired now routes st cid then None else routes cid))
    \<and> (\<forall>cid r. routes' cid = Some r \<longrightarrow> st_conns st' r = st_conns st r)
    \<and> (\<forall>cid r c. route_expired now routes st cid \<and> routes cid = Some r \<and> st_conns st r = Some c \<longrightarrow>
        shut st' r \<and> \<not> live_token (en_selector e') (conn_token c))"
proof -
  let ?ids = "filter (route_expired now routes st) order"
  obtain st' e' where k: "expire_all P ?ids (routes, st, e) = Some (routes |` (- set ?ids), st', e')"
    "router_inv (routes |` (- set ?ids), st', e')" "router_step (routes, st, e) (routes |` (- set ?ids), st', e')"
    "\<forall>cid r. cid \<notin> set ?ids \<longrightarrow> routes cid = Some r \<longrightarrow> st_conns st' r = st_conns st r"
    "\<forall>cid r c. cid \<in> set ?ids \<longrightarrow> routes cid = Some r \<longrightarrow> st_conns st r = Some c \<longrightarrow>
        shut st' r \<and> \<not> live_token (en_selector e') (conn_token c)"
    using expire_all_ok [OF inv P] by blast
  have rt: "(routes |` (- set ?ids)) cid = (if route_expired now routes st cid then None else routes cid)" for cid
    using order by (cases "cid \<in> set order") (auto simp: restrict_map_def)
  have "st_conns st' r = st_conns st r" if "(routes |` (- set ?ids)) cid = Some r" for cid r
    using that k(4) by (auto simp: restrict_map_def split: if_splits)
  moreover have "shut st' r \<and> \<not> live_token (en_selector e') (conn_token c)"
    if "route_expired now routes st cid" "routes cid = Some r" "st_conns st r = Some c" for cid r c
    using that k(5) order by auto
  ultimately show ?thesis using k(1-3) rt by (auto simp: router_clean_expired_def Let_def)
qed

section \<open>Every flow is opened\<close>

text \<open>A host on which every call of the operating system succeeds.\<close>

definition host_answers :: "host \<Rightarrow> bool" where
  "host_answers h \<longleftrightarrow> host_ok h \<and> (\<forall>ops. h_poll h ops = None) \<and> (\<forall>d. \<exists>fd. h_tcp_connect h d = Inr fd)
     \<and> (\<exists>fd. h_udp_bind h = Inr fd) \<and> (\<forall>fd d. h_udp_connect h fd d = Inr ())"

lemma register_works:
  "\<forall>ops. P ops = None \<Longrightarrow> selector_register P vacant fd h i s \<noteq> Some (Inl f, s')"
  by (simp add: selector_register_def poll_do_def Let_def)

lemma store_created_error: "store_created C m st = Some (Inl f, st', s') \<Longrightarrow> m = Some (Inl f, s')"
proof -
  assume *: "store_created C m st = Some (Inl f, st', s')"
  then obtain v s1 where "m = Some (v, s1)" by (auto simp: store_created_def bind_eq_Some_conv)
  then show ?thesis using * by (cases v) (auto simp: store_created_def)
qed

lemma tcp_create_works:
  assumes "\<forall>ops. P ops = None" and "\<forall>d. \<exists>fd. connect d = Inr fd"
  shows "tcp_create P vacant upstream connect me now cid ih th s \<noteq> Some (Inl f, s')"
proof
  assume *: "tcp_create P vacant upstream connect me now cid ih th s = Some (Inl f, s')"
  then obtain d where d: "rewritten_destination upstream cid = Some d" by (auto simp: tcp_create_def bind_eq_Some_conv)
  obtain fd where "connect d = Inr fd" using assms(2) by blast
  then show False
    using * d register_works [OF assms(1)]
    by (auto simp: tcp_create_def bind_eq_Some_conv split: sum.split_asm) (metis sum.exhaust)+
qed

lemma udp_create_works:
  assumes "\<forall>ops. P ops = None" and "bound = Inr fd" and "\<forall>fd d. connect fd d = Inr ()"
  shows "udp_create P vacant upstream bound connect me now cid ih th s \<noteq> Some (Inl f, s')"
proof
  assume *: "udp_create P vacant upstream bound connect me now cid ih th s = Some (Inl f, s')"
  then obtain d where "rewritten_destination upstream cid = Some d"
    using assms(2) by (auto simp: udp_create_def udp_create_socket_def bind_eq_Some_conv)
  then show False
    using * assms(2,3) register_works [OF assms(1)]
    by (auto simp: udp_create_def udp_create_socket_def bind_eq_Some_conv split: sum.split_asm) (metis sum.exhaust)+
qed

lemma v6_create_works:
  assumes "\<forall>ops. P ops = None" and "\<forall>d. \<exists>fd. tcp_connect d = Inr fd" and "bound = Inr fd"
    and "\<forall>fd d. connect fd d = Inr ()" and "cid_protocol cid \<noteq> Other"
  shows "v6_create P vacant upstream tcp_connect bound connect me now cid pk s \<noteq> Some (Inl f, s')"
proof
  assume *: "v6_create P vacant upstream tcp_connect bound connect me now cid pk s = Some (Inl f, s')"
  then obtain d where d: "rewritten_destination upstream cid = Some d" by (auto simp: v6_create_def bind_eq_Some_conv)
  obtain fd' where "tcp_connect d = Inr fd'" using assms(2) by blast
  then obtain sock where "v6_create_socket tcp_connect bound connect (cid_protocol cid) d = Inr sock"
    using assms(3-5) by (cases "cid_protocol cid") (simp_all add: v6_create_socket_def)
  then show False
    using * d register_works [OF assms(1)] by (auto simp: v6_create_def bind_eq_Some_conv split: sum.split_asm) (metis sum.exhaust)+
qed

text \<open>Every flow is opened: a creation fails only when a call of the operating system does.\<close>

lemma router_opens:
  assumes h: "host_answers h" and s: "sel_inv s" and p: "ip_packet_ok p" and cid: "connection_id_from_packet p = Some cid"
  shows "\<exists>c st' s'. router_create_connection h cid p st s = Some (Inr (st_next st), st', s') \<and> selector_grows s s'
    \<and> st_conns st' (st_next st) = Some c \<and> created cid s c s'"
proof -
  have H: "host_ok h" "\<forall>ops. h_poll h ops = None" "\<forall>d. \<exists>fd. h_tcp_connect h d = Inr fd"
    "\<forall>fd d. h_udp_connect h fd d = Inr ()" using h by (simp_all add: host_answers_def)
  obtain b where b: "h_udp_bind h = Inr b" using h by (auto simp: host_answers_def)
  obtain v st' s' where v: "router_create_connection h cid p st s = Some (v, st', s')" "selector_grows s s'"
    "case v of Inl e \<Rightarrow> st' = st
       | Inr r \<Rightarrow> r = st_next st \<and> (\<exists>c. created cid s c s'
           \<and> st' = (store_put (st_next st) c st)\<lparr>st_next := st_next st + 1\<rparr>)"
    using router_create_ok [OF H(1) s p cid] by blast
  have pr: "cid_protocol cid \<noteq> Other"
  proof (cases p)
    case (Ipv4 q)
    then obtain t where t: "ip_transport_data q = Some t" "cid = connection_id_from_headers (ip_header_data q) t"
      using cid by auto
    have "ipv4_accepted q" using p Ipv4 by simp
    then obtain traw where "transport_matches (ih_protocol (ip_header_data q)) t traw"
      using accepted_headers [of q t] t(1) by blast
    then show ?thesis using t(2) by (cases t) (simp_all add: connection_id_from_headers_def transport_matches_protocol)
  qed (use cid in \<open>auto simp: Let_def split: if_splits\<close>)
  have "v \<noteq> Inl f" for f
  proof
    assume "v = Inl f"
    then have "router_create_connection h cid p st s = Some (Inl f, st', s')" using v(1) by simp
    then show False
      using pr tcp_create_works [OF H(2,3)] udp_create_works [OF H(2) b H(4)] v6_create_works [OF H(2,3) b H(4) pr]
      by (cases p; cases "cid_protocol cid")
        (auto simp: router_create_connection_def bind_eq_Some_conv dest!: store_created_error)
  qed
  then show ?thesis using v by (cases v) (auto simp: store_put_def)
qed

end
