(* ===== verification/Client.thy ===== *)
theory Client
  imports Router
begin

text \<open>
  \<open>relay/client.rs\<close>: one device behind the tunnel.  The client owns its socket, the two buffers
  and the router; the connections live in the shared store, the router holds references to them.
\<close>

section \<open>State\<close>

text \<open>\<open>stream\<close>, \<open>token\<close>, \<open>interests\<close> and \<open>network_to_client\<close> are the fields a \<open>ClientChannel\<close> borrows.\<close>

record client =
  cl_id :: u32
  cl_channel :: client_channel
  cl_client_to_network :: ip_packet_buffer
  cl_routes :: routes
  cl_closed :: bool
  cl_pending_packet_sources :: "nat list"
  cl_pending_id_bytes :: nat

text \<open>A client with what it works on; \<open>cw_on_closed\<close> counts the calls of its close listener.\<close>

record client_world =
  cw_client :: client
  cw_store :: conn_store
  cw_selector :: selector
  cw_on_closed :: nat

text \<open>
  The answers of the system during one event: registrations, the order in which the hash map is
  walked, the socket of the client, and the host of each packet that is relayed.
\<close>

record client_io =
  ci_poll :: poll
  ci_walk :: "routes \<Rightarrow> connection_id list"
  ci_write :: writer
  ci_read :: reader
  ci_hosts :: "nat \<Rightarrow> host"

definition client_env :: "client_world \<Rightarrow> conn_env" where
  "client_env w = \<lparr>en_channel = cl_channel (cw_client w), en_selector = cw_selector w, en_requests = []\<rparr>"

definition put_env :: "conn_env \<Rightarrow> client_world \<Rightarrow> client_world" where
  "put_env e w = w\<lparr>cw_client := (cw_client w)\<lparr>cl_channel := en_channel e\<rparr>, cw_selector := en_selector e\<rparr>"

definition on_client :: "(client \<Rightarrow> client) \<Rightarrow> client_world \<Rightarrow> client_world" where
  "on_client f w = w\<lparr>cw_client := f (cw_client w)\<rparr>"

text \<open>A method of the router, with a \<open>ClientChannel\<close> made of the client's fields.\<close>

definition client_router :: "client_world \<Rightarrow> router_ctx" where
  "client_router w = (cl_routes (cw_client w), cw_store w, client_env w)"

definition on_router :: "(router_ctx \<Rightarrow> router_ctx option) \<Rightarrow> client_world \<Rightarrow> client_world option" where
  "on_router f w = do {
     (routes, st, e) \<leftarrow> f (client_router w);
     Some (put_env e (on_client (cl_routes_update (\<lambda>_. routes)) (w\<lparr>cw_store := st\<rparr>))) }"

section \<open>Operations\<close>

definition client_create :: "poll \<Rightarrow> ((nat \<rightharpoonup> handler) \<Rightarrow> nat) \<Rightarrow> nat \<Rightarrow> u32 \<Rightarrow> nat \<Rightarrow> selector
    \<Rightarrow> (client io_result \<times> selector) option" where
  "client_create P vacant me cid stream s = do {
     (r, s) \<leftarrow> selector_register P vacant stream (ClientHandler me) ready_writable s;
     case r of
       Inl e \<Rightarrow> Some (Inl e, s)
     | Inr token \<Rightarrow> Some (Inr \<lparr>cl_id = cid,
         cl_channel = \<lparr>ch_network_to_client = sb_new (16 * MAX_PACKET_LENGTH), ch_stream = stream,
           ch_token = token, ch_interests = ready_writable\<rparr>,
         cl_client_to_network = ipb_new, cl_routes = Map.empty, cl_closed = False,
         cl_pending_packet_sources = [], cl_pending_id_bytes = 4\<rparr>, s) }"

text \<open>\<open>close\<close>: the \<open>unwrap\<close> of the deregistration panics; a failed shutdown is only logged.\<close>

definition client_close :: "poll \<Rightarrow> (routes \<Rightarrow> connection_id list) \<Rightarrow> client_world \<Rightarrow> client_world option" where
  "client_close P walk w = do {
     let w = on_client (cl_closed_update (\<lambda>_. True)) w;
     let ch = cl_channel (cw_client w);
     s \<leftarrow> (case selector_deregister P (ch_stream ch) (ch_token ch) (cw_selector w) of
       (Inl _, s) \<Rightarrow> None | (Inr _, s) \<Rightarrow> Some s);
     w \<leftarrow> on_router (\<lambda>x. router_clear P (walk (fst x)) x) (w\<lparr>cw_selector := s\<rparr>);
     Some (w\<lparr>cw_on_closed := cw_on_closed w + 1\<rparr>) }"

definition client_update_interests :: "poll \<Rightarrow> client_world \<Rightarrow> client_world option" where
  "client_update_interests P w = do {
     (ch, s) \<leftarrow> channel_update_interests P (cl_channel (cw_client w), cw_selector w);
     Some (on_client (cl_channel_update (\<lambda>_. ch)) (w\<lparr>cw_selector := s\<rparr>)) }"

definition must_send_id :: "client \<Rightarrow> bool" where
  "must_send_id c \<longleftrightarrow> cl_pending_id_bytes c > 0"

definition send_id :: "writer \<Rightarrow> client_world \<Rightarrow> (unit io_result \<times> client_world) option" where
  "send_id W w = do {
     assert_that (must_send_id (cw_client w));
     let raw_id = to_byte_array (cl_id (cw_client w));
     raw \<leftarrow> slice (4 - cl_pending_id_bytes (cw_client w)) (length raw_id) raw_id;
     case W raw of
       Inl e \<Rightarrow> Some (Inl e, w)
     | Inr n \<Rightarrow> Some (Inr (), on_client (cl_pending_id_bytes_update (\<lambda>k. k - n)) w) }"

definition client_write :: "writer \<Rightarrow> client_world \<Rightarrow> (unit io_result \<times> client_world) option" where
  "client_write W w = do {
     (r, b) \<leftarrow> sb_write_to W (ch_network_to_client (cl_channel (cw_client w)));
     let w = on_client (cl_channel_update (ch_network_to_client_update (\<lambda>_. b))) w;
     case r of Inl e \<Rightarrow> Some (Inl e, w) | Inr _ \<Rightarrow> Some (Inr (), w) }"

definition client_read :: "reader \<Rightarrow> client_world \<Rightarrow> (bool io_result \<times> client_world) option" where
  "client_read R w = do {
     (r, b) \<leftarrow> bb_read_from R (cl_client_to_network (cw_client w));
     Some (r, on_client (cl_client_to_network_update (\<lambda>_. b)) w) }"

text \<open>\<open>Client::send_raw_to_client\<close> and \<open>send_to_client\<close>, which the comments call functionally equivalent
  to those of a channel made of the client's fields; below is the proof.\<close>

definition client_send_raw_to_client :: "poll \<Rightarrow> bytes \<Rightarrow> client_world \<Rightarrow> (unit io_result \<times> client_world) option" where
  "client_send_raw_to_client P raw w =
     (if length raw \<le> sb_remaining (ch_network_to_client (cl_channel (cw_client w))) then do {
        buffer \<leftarrow> sb_read_from raw (ch_network_to_client (cl_channel (cw_client w)));
        w \<leftarrow> client_update_interests P (on_client (cl_channel_update (ch_network_to_client_update (\<lambda>_. buffer))) w);
        Some (Inr (), w) }
      else Some (Inl WouldBlock, w))"

definition client_send_to_client :: "poll \<Rightarrow> ipv4_packet \<Rightarrow> client_world \<Rightarrow> (unit io_result \<times> client_world) option" where
  "client_send_to_client P ipv4_packet w = client_send_raw_to_client P (ip_raw ipv4_packet) w"

lemma client_send_raw_eq:
  "client_send_raw_to_client P raw w = map_option (\<lambda>(r, e). (r, put_env e w)) (send_through P raw (client_env w))"
proof -
  let ?b = "ch_network_to_client (cl_channel (cw_client w))"
  show ?thesis
  proof (cases "length raw \<le> sb_remaining ?b")
    case True
    show ?thesis
    proof (cases "sb_read_from raw ?b")
      case (Some b)
      then show ?thesis using True
        by (cases "channel_update_interests P ((cl_channel (cw_client w))\<lparr>ch_network_to_client := b\<rparr>, cw_selector w)")
          (auto simp: client_send_raw_to_client_def send_through_def send_raw_to_client_def client_env_def put_env_def
            client_update_interests_def on_client_def)
    qed (simp add: True client_send_raw_to_client_def send_through_def send_raw_to_client_def client_env_def)
  qed (simp add: client_send_raw_to_client_def send_through_def send_raw_to_client_def client_env_def put_env_def)
qed

text \<open>
  One pending source: its packet goes to the client, and \<open>next\<close> discards it, unless the client
  has no room, which keeps it pending.  Only TCP connections are packet sources.
\<close>

definition process_one_pending :: "poll \<Rightarrow> nat \<Rightarrow> client_world \<Rightarrow> client_world option" where
  "process_one_pending P r w = do {
     c \<leftarrow> st_conns (cw_store w) r;
     source \<leftarrow> (case c of TcpConn source \<Rightarrow> Some source | _ \<Rightarrow> None);
     packet \<leftarrow> tcp_get source;
     ipv4_packet \<leftarrow> packet;
     (result, w) \<leftarrow> client_send_to_client P ipv4_packet w;
     if result = Inl WouldBlock
     then Some (on_client (cl_pending_packet_sources_update (\<lambda>rs. rs @ [r])) w)
     else do {
       (source, e) \<leftarrow> tcp_next P (source, client_env w);
       Some (put_env e (w\<lparr>cw_store := store_put r (TcpConn source) (cw_store w)\<rparr>)) } }"

lemma client_env_put: "send_through P raw (client_env w) = Some (r, e) \<Longrightarrow> client_env (put_env e w) = e"
  by (auto simp: send_through_def client_env_def put_env_def bind_eq_Some_conv)

lemma send_bind:
  "map_option (\<lambda>(r, e). (r, put_env e w)) (send_through P raw (client_env w)) \<bind> (\<lambda>(r, w). f r w (client_env w))
    = send_through P raw (client_env w) \<bind> (\<lambda>(r, e). f r (put_env e w) e)"
  by (cases "send_through P raw (client_env w)") (auto simp: client_env_put)

lemma process_one_pending_eq:
  "process_one_pending P r w = do {
     c \<leftarrow> st_conns (cw_store w) r;
     source \<leftarrow> (case c of TcpConn source \<Rightarrow> Some source | _ \<Rightarrow> None);
     packet \<leftarrow> tcp_get source;
     ipv4_packet \<leftarrow> packet;
     (result, e) \<leftarrow> send_through P (ip_raw ipv4_packet) (client_env w);
     let w = put_env e w;
     if result = Inl WouldBlock
     then Some (on_client (cl_pending_packet_sources_update (\<lambda>rs. rs @ [r])) w)
     else do {
       (source, e) \<leftarrow> tcp_next P (source, e);
       Some (put_env e (w\<lparr>cw_store := store_put r (TcpConn source) (cw_store w)\<rparr>)) } }"
  unfolding process_one_pending_def client_send_to_client_def client_send_raw_eq Let_def
  by (intro Option.bind_cong refl) (rule send_bind [where f = "\<lambda>result w e. if result = Inl WouldBlock
      then Some (on_client (cl_pending_packet_sources_update (\<lambda>rs. rs @ [r])) w)
      else tcp_next P (_, e) \<bind> (\<lambda>(source, e).
        Some (put_env e (w\<lparr>cw_store := store_put r (TcpConn source) (cw_store w)\<rparr>)))"])

fun process_pending_sources :: "poll \<Rightarrow> nat list \<Rightarrow> client_world \<Rightarrow> client_world option" where
  "process_pending_sources P [] w = Some w"
| "process_pending_sources P (r # rs) w = do {
     w \<leftarrow> process_one_pending P r w;
     process_pending_sources P rs w }"

definition process_pending :: "poll \<Rightarrow> client_world \<Rightarrow> client_world option" where
  "process_pending P w = process_pending_sources P (cl_pending_packet_sources (cw_client w))
     (on_client (cl_pending_packet_sources_update (\<lambda>_. [])) w)"

definition client_process_send :: "poll \<Rightarrow> (routes \<Rightarrow> connection_id list) \<Rightarrow> writer \<Rightarrow> client_world
    \<Rightarrow> (unit io_result \<times> client_world) option" where
  "client_process_send P walk W w =
     (if must_send_id (cw_client w) then do {
        (r, w) \<leftarrow> send_id W w;
        case r of
          Inr _ \<Rightarrow> Some (Inr (), w)
        | Inl e \<Rightarrow> if e = WouldBlock then Some (Inl e, w)
            else do { w \<leftarrow> client_close P walk w; Some (Inr (), w) } }
      else do {
        (r, w) \<leftarrow> client_write W w;
        w \<leftarrow> (case r of Inr _ \<Rightarrow> process_pending P w | Inl _ \<Rightarrow> client_close P walk w);
        Some (Inr (), w) })"

text \<open>Packets of unsupported kinds are dropped, a malformed one closes the client.\<close>

definition push_one_packet_to_network :: "poll \<Rightarrow> (routes \<Rightarrow> connection_id list) \<Rightarrow> host \<Rightarrow> client_world
    \<Rightarrow> (bool \<times> client_world) option" where
  "push_one_packet_to_network P walk h w = do {
     packet \<leftarrow> ipb_packet (cl_client_to_network (cw_client w));
     case packet of
       Inr (Some packet) \<Rightarrow> do { w \<leftarrow> on_router (router_send_to_network h packet) w; Some (True, w) }
     | Inr None \<Rightarrow> Some (False, w)
     | Inl (Unsupported reason) \<Rightarrow> Some (True, w)
     | Inl _ \<Rightarrow> do { w \<leftarrow> client_close P walk w; Some (False, w) } }"

lemma on_router_keeps_input:
  "on_router f w = Some w' \<Longrightarrow> cl_client_to_network (cw_client w') = cl_client_to_network (cw_client w)"
  by (auto simp: on_router_def bind_eq_Some_conv put_env_def on_client_def)

lemma push_one_keeps_input:
  assumes "push_one_packet_to_network P walk h w = Some (True, w')"
  shows "cl_client_to_network (cw_client w') = cl_client_to_network (cw_client w)"
proof -
  obtain packet where p: "ipb_packet (cl_client_to_network (cw_client w)) = Some packet"
    using assms by (auto simp: push_one_packet_to_network_def bind_eq_Some_conv)
  consider q where "packet = Inr (Some q)" | "packet = Inr None" | x where "packet = Inl (Unsupported x)"
    | x where "packet = Inl (Malformed x)"
    by (metis packet_parse_error.exhaust option.exhaust sum.exhaust)
  then show ?thesis
    using assms p
    by cases (auto simp: push_one_packet_to_network_def bind_eq_Some_conv on_router_keeps_input)
qed

lemma ipb_next_shrinks:
  "ipb_next b = Some (Inr True, b') \<Longrightarrow> bb_head b' < bb_head b"
  by (auto simp: ipb_next_def bb_consume_def bind_eq_Some_conv Let_def split: option.splits sum.splits if_splits
      dest!: front_packet_length_Some)

function push_to_network :: "poll \<Rightarrow> (routes \<Rightarrow> connection_id list) \<Rightarrow> (nat \<Rightarrow> host) \<Rightarrow> nat \<Rightarrow> client_world
    \<Rightarrow> client_world option" where
  "push_to_network P walk hosts n w = (case push_one_packet_to_network P walk (hosts n) w of
     None \<Rightarrow> None
   | Some (False, w) \<Rightarrow> Some w
   | Some (True, w) \<Rightarrow> (case ipb_next (cl_client_to_network (cw_client w)) of
       None \<Rightarrow> None
     | Some (Inr True, b) \<Rightarrow> push_to_network P walk hosts (n + 1)
         (on_client (cl_client_to_network_update (\<lambda>_. b)) w)
     | Some (Inr False, b) \<Rightarrow> Some (on_client (cl_client_to_network_update (\<lambda>_. b)) w)
     | Some (Inl _, b) \<Rightarrow> client_close P walk (on_client (cl_client_to_network_update (\<lambda>_. b)) w)))"
  by pat_completeness auto
termination
  by (relation "measure (\<lambda>(P, walk, hosts, n, w). bb_head (cl_client_to_network (cw_client w)))")
    (auto dest!: push_one_keeps_input ipb_next_shrinks simp: on_client_def)

declare push_to_network.simps [simp del]

definition client_process_receive :: "client_io \<Rightarrow> client_world \<Rightarrow> (unit io_result \<times> client_world) option" where
  "client_process_receive io w = do {
     (r, w) \<leftarrow> client_read (ci_read io) w;
     case r of
       Inr True \<Rightarrow> do { w \<leftarrow> push_to_network (ci_poll io) (ci_walk io) (ci_hosts io) 0 w; Some (Inr (), w) }
     | Inr False \<Rightarrow> do { w \<leftarrow> client_close (ci_poll io) (ci_walk io) w; Some (Inr (), w) }
     | Inl e \<Rightarrow> if e = WouldBlock then Some (Inl e, w)
         else do { w \<leftarrow> client_close (ci_poll io) (ci_walk io) w; Some (Inr (), w) } }"

definition client_process :: "client_io \<Rightarrow> ready \<Rightarrow> client_world \<Rightarrow> (unit io_result \<times> client_world) option" where
  "client_process io ready w =
     (if cl_closed (cw_client w) then Some (Inr (), w)
      else then_process
        (if is_writable ready then client_process_send (ci_poll io) (ci_walk io) (ci_write io) w
         else Some (Inr (), w))
        (\<lambda>w. then_process
          (if \<not> cl_closed (cw_client w) \<and> is_readable ready then client_process_receive io w
           else Some (Inr (), w))
          (\<lambda>w. if cl_closed (cw_client w) then Some (Inr (), w)
             else do { w \<leftarrow> client_update_interests (ci_poll io) w; Some (Inr (), w) })))"

definition client_on_ready :: "client_io \<Rightarrow> ready \<Rightarrow> client_world \<Rightarrow> client_world option" where
  "client_on_ready io ready w = do {
     (r, w) \<leftarrow> client_process io ready w;
     case r of
       Inr _ \<Rightarrow> Some w
     | Inl e \<Rightarrow> if e = WouldBlock then Some w
         else if \<not> cl_closed (cw_client w) then client_close (ci_poll io) (ci_walk io) w else Some w }"

definition client_clean_expired :: "poll \<Rightarrow> (routes \<Rightarrow> connection_id list) \<Rightarrow> nat \<Rightarrow> client_world
    \<Rightarrow> client_world option" where
  "client_clean_expired P walk now w = on_router (\<lambda>x. router_clean_expired P now (walk (fst x)) x) w"

end
