(* ===== verification/Client_Facts.thy ===== *)
theory Client_Facts
  imports Client
begin

text \<open>
  The client: its invariant, what one event leaves of the rest of the relay, and the loop over the
  packets of a read as the routing of the frames of the stream, in order.
\<close>

section \<open>Invariant and frame\<close>

abbreviation cl_token :: "client_world \<Rightarrow> nat" where
  "cl_token w \<equiv> ch_token (cl_channel (cw_client w))"

abbreviation cl_input :: "client_world \<Rightarrow> ip_packet_buffer" where
  "cl_input w \<equiv> cl_client_to_network (cw_client w)"

definition client_inv :: "client_world \<Rightarrow> bool" where
  "client_inv w \<longleftrightarrow> bb_inv (cl_input w) \<and> length (bb_buf (cl_input w)) = MAX_IP_PACKET_LENGTH
     \<and> cl_pending_id_bytes (cw_client w) \<le> 4 \<and> router_inv (client_router w)
     \<and> (if cl_closed (cw_client w) then cl_routes (cw_client w) = Map.empty
        else outside (cl_token w) (client_router w))"

text \<open>
  What an operation of the client may do: the router's step on its own connections, and the close
  listener called exactly when the client closes.
\<close>

definition client_step :: "client_world \<Rightarrow> client_world \<Rightarrow> bool" where
  "client_step w w' \<longleftrightarrow> cl_id (cw_client w') = cl_id (cw_client w)
     \<and> ch_frame (cl_channel (cw_client w)) (cl_channel (cw_client w'))
     \<and> (cl_closed (cw_client w) \<longrightarrow> cl_closed (cw_client w'))
     \<and> cw_on_closed w' + of_bool (cl_closed (cw_client w)) = cw_on_closed w + of_bool (cl_closed (cw_client w'))
     \<and> (\<forall>t. t \<noteq> cl_token w \<and> outside t (client_router w) \<longrightarrow> outside t (client_router w'))
     \<and> st_next (cw_store w) \<le> st_next (cw_store w')
     \<and> (\<forall>r. r < st_next (cw_store w) \<and> r \<notin> ran (cl_routes (cw_client w)) \<longrightarrow>
         st_conns (cw_store w') r = st_conns (cw_store w) r \<and> r \<notin> ran (cl_routes (cw_client w')))"

lemma client_step_refl [simp]: "client_step w w"
  by (simp add: client_step_def)

lemma client_step_trans [trans]:
  assumes 1: "client_step a b" and 2: "client_step b c"
  shows "client_step a c"
proof -
  have "ch_frame (cl_channel (cw_client a)) (cl_channel (cw_client c))"
    using 1 2 by (auto simp: client_step_def intro: ch_frame_trans)
  moreover have "cl_token b = cl_token a" using 1 by (simp add: client_step_def ch_frame_def)
  ultimately show ?thesis using 1 2 unfolding client_step_def by auto
qed

text \<open>The order in which a hash map is walked: every key once.\<close>

definition walk_ok :: "(routes \<Rightarrow> connection_id list) \<Rightarrow> bool" where
  "walk_ok walk \<longleftrightarrow> (\<forall>routes. finite (dom routes) \<longrightarrow> distinct (walk routes) \<and> set (walk routes) = dom routes)"

section \<open>The router inside the client\<close>

lemma put_env_simps [simp]:
  "cw_store (put_env e w) = cw_store w" "cw_on_closed (put_env e w) = cw_on_closed w"
  "cw_selector (put_env e w) = en_selector e"
  "cw_client (put_env e w) = (cw_client w)\<lparr>cl_channel := en_channel e\<rparr>"
  by (simp_all add: put_env_def)

lemma on_client_simps [simp]:
  "cw_store (on_client f w) = cw_store w" "cw_on_closed (on_client f w) = cw_on_closed w"
  "cw_selector (on_client f w) = cw_selector w" "cw_client (on_client f w) = f (cw_client w)"
  by (simp_all add: on_client_def)

lemma client_env_simps [simp]:
  "en_channel (client_env w) = cl_channel (cw_client w)" "en_selector (client_env w) = cw_selector w"
  "en_requests (client_env w) = []"
  by (simp_all add: client_env_def)

text \<open>What a router operation leaves of the client: everything but routes and channel.\<close>

definition same_client :: "client_world \<Rightarrow> client_world \<Rightarrow> bool" where
  "same_client w w' \<longleftrightarrow> cl_input w' = cl_input w \<and> cl_closed (cw_client w') = cl_closed (cw_client w)
     \<and> cl_pending_packet_sources (cw_client w') = cl_pending_packet_sources (cw_client w)
     \<and> cl_pending_id_bytes (cw_client w') = cl_pending_id_bytes (cw_client w)
     \<and> cw_on_closed w' = cw_on_closed w"

text \<open>A step of the router inside an open client, with any change of the client's own fields.\<close>

lemma client_by_router:
  assumes w: "client_inv w" and inv: "router_inv (client_router w')" and step: "router_step (client_router w) (client_router w')"
    and op: "\<not> cl_closed (cw_client w)" "\<not> cl_closed (cw_client w')"
    and input: "bb_inv (cl_input w')" "length (bb_buf (cl_input w')) = MAX_IP_PACKET_LENGTH"
    and rest: "cl_id (cw_client w') = cl_id (cw_client w)" "cl_pending_id_bytes (cw_client w') \<le> 4"
      "cw_on_closed w' = cw_on_closed w"
  shows "client_inv w' \<and> client_step w w'"
proof -
  have ch: "ch_frame (cl_channel (cw_client w)) (cl_channel (cw_client w'))"
    using step by (simp add: client_router_def router_step_def)
  have o: "outside t (client_router w) \<Longrightarrow> outside t (client_router w')" for t
    using step by (simp add: client_router_def router_step_def)
  have "client_inv w'"
    using w op inv input rest o [of "cl_token w"] ch by (simp add: client_inv_def ch_frame_def)
  moreover have "client_step w w'"
    using step o ch op rest by (simp add: client_step_def client_router_def router_step_def)
  ultimately show ?thesis by blast
qed

lemma client_input: "client_inv w \<Longrightarrow> bb_inv (cl_input w) \<and> length (bb_buf (cl_input w)) = MAX_IP_PACKET_LENGTH"
  by (simp add: client_inv_def)

lemma on_router_ok:
  assumes f: "f (client_router w) = Some (routes', st', e')"
    and inv: "router_inv (routes', st', e')" and step: "router_step (client_router w) (routes', st', e')"
    and w: "client_inv w" and op: "\<not> cl_closed (cw_client w)"
  shows "\<exists>w'. on_router f w = Some w' \<and> client_inv w' \<and> client_step w w' \<and> same_client w w'
    \<and> client_router w' = (routes', st', e')"
proof -
  let ?w = "put_env e' (on_client (cl_routes_update (\<lambda>_. routes')) (w\<lparr>cw_store := st'\<rparr>))"
  have "en_requests e' = []" using step by (simp add: client_router_def router_step_def)
  then have r: "client_router ?w = (routes', st', e')" by (simp add: client_router_def client_env_def)
  have "client_inv ?w \<and> client_step w ?w"
    by (rule client_by_router [OF w]) (use r inv step op w in \<open>simp_all add: client_inv_def\<close>)
  then show ?thesis using f r by (simp add: on_router_def same_client_def)
qed

lemma client_router_inv: "client_inv w \<Longrightarrow> router_inv (cl_routes (cw_client w), cw_store w, client_env w)"
  by (simp add: client_inv_def client_router_def)

lemma client_sel_inv: "client_inv w \<Longrightarrow> sel_inv (cw_selector w) \<and> ch_inv (cl_channel (cw_client w))"
  using router_invD(1) [OF client_router_inv] by (simp add: env_ok_def)

text \<open>\<open>close\<close> closes every connection of the client with it.\<close>

lemma client_close_ok:
  assumes P: "poll_works P" and walk: "walk_ok walk" and w: "client_inv w" and op: "\<not> cl_closed (cw_client w)"
  shows "\<exists>w'. client_close P walk w = Some w' \<and> client_inv w' \<and> client_step w w' \<and> cl_closed (cw_client w')
    \<and> cl_input w' = cl_input w
    \<and> (\<forall>cid r. cl_routes (cw_client w) cid = Some r \<longrightarrow> shut (cw_store w') r)"
proof -
  let ?ch = "cl_channel (cw_client w)" and ?rt = "cl_routes (cw_client w)"
  have out: "outside (cl_token w) (client_router w)" using w op by (simp add: client_inv_def)
  define s where "s = snd (selector_deregister P (ch_stream ?ch) (ch_token ?ch) (cw_selector w))"
  have d: "selector_deregister P (ch_stream ?ch) (ch_token ?ch) (cw_selector w) = (Inr (), s)"
    using P by (simp add: selector_deregister_def poll_do_def poll_works_def Let_def s_def)
  have live: "live_token (cw_selector w) (cl_token w)" using out by (simp add: outside_def client_router_def)
  have s: "sel_inv s" "live_token s u \<longleftrightarrow> live_token (cw_selector w) u \<and> u \<noteq> cl_token w" for u
    using selector_deregister_ok [OF _ live] client_sel_inv [OF w] by (auto simp: s_def)
  let ?e = "(client_env w)\<lparr>en_selector := s\<rparr>"
  have "router_inv (?rt, cw_store w, ?e)"
  proof -
    note I = router_invD [OF client_router_inv [OF w]]
    have "\<exists>c. st_conns (cw_store w) r = Some c \<and> routed_ok ?e cid c" if "?rt cid = Some r" for cid r
      using I(3) [OF that] out that s(2) by (auto simp: routed_ok_def outside_def client_router_def)
    then show ?thesis using I(1,2) s(1) by (intro router_invI) (use I(4,5) in \<open>auto simp: env_ok_def\<close>)
  qed
  moreover have fin: "finite (dom ?rt)" using router_invD(2) [OF client_router_inv [OF w]] .
  ultimately obtain st' e' where k: "router_clear P (walk ?rt) (?rt, cw_store w, ?e) = Some (Map.empty, st', e')"
    "router_inv (Map.empty, st', e')" "router_step (?rt, cw_store w, ?e) (Map.empty, st', e')"
    "\<forall>cid r. ?rt cid = Some r \<longrightarrow> shut st' r"
    using router_clear_ok [of ?rt "cw_store w" ?e "walk ?rt" P] walk by (auto simp: walk_ok_def)
  have o: "outside t (client_router w) \<Longrightarrow> t \<noteq> cl_token w \<Longrightarrow> outside t (Map.empty, st', e')" for t
    using k(3) s(2) by (auto simp: router_step_def outside_def client_router_def)
  have rq: "en_requests e' = []" "ch_frame ?ch (en_channel e')" using k(3) by (simp_all add: router_step_def)
  let ?w0 = "(on_client (cl_closed_update (\<lambda>_. True)) w)\<lparr>cw_selector := s\<rparr>"
  have r0: "client_router ?w0 = (?rt, cw_store w, ?e)" by (simp add: client_router_def client_env_def)
  let ?w = "(put_env e' (on_client (cl_routes_update (\<lambda>_. Map.empty)) (?w0\<lparr>cw_store := st'\<rparr>)))
    \<lparr>cw_on_closed := cw_on_closed w + 1\<rparr>"
  have run: "client_close P walk w = Some ?w"
    using d k(1) by (simp add: client_close_def on_router_def r0 [symmetric]) (simp add: client_router_def)
  have r: "client_router ?w = (Map.empty, st', e')" using rq(1) by (simp add: client_router_def client_env_def)
  have "client_inv ?w" using w k(2) r by (simp add: client_inv_def)
  moreover have "client_step w ?w"
    using k(3) o rq(2) op r by (auto simp: client_step_def router_step_def)
  ultimately show ?thesis using run k(4) by (intro exI [of _ ?w]) simp
qed

section \<open>The buffers of the client\<close>

text \<open>A call on the channel that leaves every token alone.\<close>

lemma client_channel_ok:
  assumes w: "client_inv w" and op: "\<not> cl_closed (cw_client w)" and ch: "ch_inv (en_channel e)"
    and step: "ch_frame (cl_channel (cw_client w)) (en_channel e)" "same_tokens (cw_selector w) (en_selector e)"
  shows "client_inv (put_env e w) \<and> client_step w (put_env e w)"
proof -
  have e: "env_ok (client_env (put_env e w))"
    using ch client_sel_inv [OF w] same_tokens_inv(1) [OF step(2)] by (simp add: env_ok_def)
  have live: "live_token (cw_selector w) t \<Longrightarrow> live_token (en_selector e) t" for t
    using same_tokens_inv(2) [OF step(2)] by simp
  have "router_inv (client_router (put_env e w))"
    using router_inv_env [OF client_router_inv [OF w] e] live by (simp add: client_router_def)
  moreover have "router_step (client_router w) (client_router (put_env e w))"
    using step(1) live by (auto simp: client_router_def router_step_def outside_def)
  ultimately show ?thesis
    using client_input [OF w] w op by (intro client_by_router) (simp_all add: client_inv_def)
qed

lemma client_update_interests_ok:
  assumes P: "poll_works P" and w: "client_inv w" and op: "\<not> cl_closed (cw_client w)"
  shows "\<exists>w'. client_update_interests P w = Some w' \<and> client_inv w' \<and> client_step w w' \<and> same_client w w'"
proof -
  obtain ch s where u: "channel_update_interests P (cl_channel (cw_client w), cw_selector w) = Some (ch, s)"
    "ch_network_to_client ch = ch_network_to_client (cl_channel (cw_client w))"
    "ch_frame (cl_channel (cw_client w)) ch" "same_tokens (cw_selector w) s"
    using channel_update_interests_ok [OF P] by blast
  let ?e = "\<lparr>en_channel = ch, en_selector = s, en_requests = []\<rparr>"
  have "client_inv (put_env ?e w) \<and> client_step w (put_env ?e w)"
    using client_channel_ok [OF w op, of ?e] u client_sel_inv [OF w] by (simp add: ch_inv_def)
  moreover have "client_update_interests P w = Some (put_env ?e w)"
    using u(1) by (simp add: client_update_interests_def put_env_def on_client_def)
  ultimately show ?thesis by (simp add: same_client_def)
qed

text \<open>The id: the rest of its four bytes is offered, and what the socket took is ticked off.\<close>

lemma send_id_ok:
  assumes W: "writer_ok W" and w: "client_inv w" and op: "\<not> cl_closed (cw_client w)" and m: "must_send_id (cw_client w)"
  shows "send_id W w = Some (case W (drop (4 - cl_pending_id_bytes (cw_client w)) (enc32 (cl_id (cw_client w)))) of
      Inl e \<Rightarrow> (Inl e, w)
    | Inr n \<Rightarrow> (Inr (), on_client (cl_pending_id_bytes_update (\<lambda>k. k - n)) w))"
    and "client_inv (on_client (cl_pending_id_bytes_update (\<lambda>k. k - n)) w)
      \<and> client_step w (on_client (cl_pending_id_bytes_update (\<lambda>k. k - n)) w)"
proof -
  show "send_id W w = Some (case W (drop (4 - cl_pending_id_bytes (cw_client w)) (enc32 (cl_id (cw_client w)))) of
      Inl e \<Rightarrow> (Inl e, w)
    | Inr n \<Rightarrow> (Inr (), on_client (cl_pending_id_bytes_update (\<lambda>k. k - n)) w))"
    using m by (simp add: send_id_def to_byte_array_def slice_Some split: sum.split)
  let ?w = "on_client (cl_pending_id_bytes_update (\<lambda>k. k - n)) w"
  have "client_router ?w = client_router w" by (simp add: client_router_def client_env_def)
  moreover have "cl_pending_id_bytes (cw_client w) - n \<le> 4" using w by (auto simp: client_inv_def)
  ultimately show "client_inv ?w \<and> client_step w ?w"
    using w op by (intro client_by_router) (simp_all add: client_inv_def)
qed

lemma client_write_ok:
  assumes W: "writer_ok W" and w: "client_inv w" and op: "\<not> cl_closed (cw_client w)"
  shows "\<exists>r w'. client_write W w = Some (r, w') \<and> client_inv w' \<and> client_step w w' \<and> same_client w w'
    \<and> cw_store w' = cw_store w \<and> cl_routes (cw_client w') = cl_routes (cw_client w)
    \<and> (\<exists>k. ch_contents (cl_channel (cw_client w')) = drop k (ch_contents (cl_channel (cw_client w))))"
proof -
  let ?b = "ch_network_to_client (cl_channel (cw_client w))"
  have b: "sb_inv ?b" using client_sel_inv [OF w] by (simp add: ch_inv_def)
  obtain r b' where r0: "sb_write_to W ?b = Some (r, b')" "sb_inv b'" "length (sb_buf b') = length (sb_buf ?b)"
    "case r of Inl e \<Rightarrow> b' = ?b | Inr n \<Rightarrow> n \<le> length (sb_contents ?b) \<and> sb_contents b' = drop n (sb_contents ?b)"
    using sb_write_to_cases [OF b W] by blast
  obtain k where k: "sb_contents b' = drop k (sb_contents ?b)"
    using r0(4) by (cases r) (auto intro: that [of 0])
  note r = r0(1,2) k r0(3)
  let ?e = "\<lparr>en_channel = (cl_channel (cw_client w))\<lparr>ch_network_to_client := b'\<rparr>,
    en_selector = cw_selector w, en_requests = []\<rparr>"
  have i: "client_inv (put_env ?e w) \<and> client_step w (put_env ?e w)"
    using client_channel_ok [OF w op, of ?e] r by (simp add: ch_inv_def ch_frame_def)
  have run: "client_write W w = Some (case r of Inl f \<Rightarrow> Inl f | Inr _ \<Rightarrow> Inr (), put_env ?e w)"
    using r(1) by (simp add: client_write_def put_env_def on_client_def split: sum.split)
  show ?thesis unfolding run using i r(3) by (auto simp: same_client_def)
qed

section \<open>Pending sources\<close>

lemma tcp_next_ok:
  assumes P: "poll_works P" and inv: "ctx_inv x" and op: "\<not> tc_closed (fst x)"
    and len: "tc_packet_for_client_length (fst x) = Some n"
  shows "\<exists>y. tcp_next P x = Some y \<and> step_ok x y \<and> \<not> tc_closed (fst y) \<and> tc_packet_for_client_length (fst y) = None
    \<and> en_requests (snd y) = en_requests (snd x) \<and> en_channel (snd y) = en_channel (snd x)"
proof -
  let ?x = "tcb_update (\<lambda>t. t\<lparr>tcb_sequence_number := tcb_sequence_number t + ucast n\<rparr>) x"
  let ?y = "((fst ?x)\<lparr>tc_packet_for_client_length := None\<rparr>, snd ?x)"
  have i: "ctx_inv ?y" "\<not> tc_closed (fst ?y)" using inv op by (simp_all add: ctx_inv_def tc_inv_def)
  obtain z where z: "tcp_update_interests P ?y = Some z" "step_ok ?y z" "\<not> tc_closed (fst z)"
    "tc_packet_for_client_length (fst z) = tc_packet_for_client_length (fst ?y)"
    "en_requests (snd z) = en_requests (snd ?y)" "en_channel (snd z) = en_channel (snd ?y)"
    using tcp_update_interests_ok [OF P i] by blast
  have "step_ok x ?y" using i(1) by (simp add: step_ok_def tcp_frame_def)
  then have "step_ok x z" using z(2) by (rule step_ok_trans)
  then show ?thesis using z len by (intro exI [of _ z]) (simp add: tcp_next_def case_prod_beta)
qed

text \<open>A pending source that is still what it was: an open, routed TCP connection that owes a packet.\<close>

definition pending_source :: "client_world \<Rightarrow> nat \<Rightarrow> ipv4_packet \<Rightarrow> bool" where
  "pending_source w r q \<longleftrightarrow> (\<exists>cid c. cl_routes (cw_client w) cid = Some r
     \<and> st_conns (cw_store w) r = Some (TcpConn c) \<and> owes_packet c q)"

definition pending_ok :: "client_world \<Rightarrow> bool" where
  "pending_ok w \<longleftrightarrow> distinct (cl_pending_packet_sources (cw_client w))
     \<and> (\<forall>r \<in> set (cl_pending_packet_sources (cw_client w)). \<exists>q. pending_source w r q)"

abbreviation cl_room :: "client_world \<Rightarrow> nat" where
  "cl_room w \<equiv> sb_remaining (ch_network_to_client (cl_channel (cw_client w)))"

abbreviation cl_output :: "client_world \<Rightarrow> bytes" where
  "cl_output w \<equiv> ch_contents (cl_channel (cw_client w))"

lemma process_one_pending_ok:
  assumes P: "poll_works P" and w: "client_inv w" and op: "\<not> cl_closed (cw_client w)" and r: "pending_source w r q"
  shows "\<exists>w'. process_one_pending P r w = Some w' \<and> client_inv w' \<and> client_step w w' \<and> \<not> cl_closed (cw_client w')
    \<and> cl_routes (cw_client w') = cl_routes (cw_client w)
    \<and> (\<forall>r'. r' \<noteq> r \<longrightarrow> st_conns (cw_store w') r' = st_conns (cw_store w) r')
    \<and> (if length (ip_raw q) \<le> cl_room w
       then cl_output w' = cl_output w @ ip_raw q
         \<and> cl_pending_packet_sources (cw_client w') = cl_pending_packet_sources (cw_client w)
       else cl_output w' = cl_output w \<and> cw_store w' = cw_store w
         \<and> cl_pending_packet_sources (cw_client w') = cl_pending_packet_sources (cw_client w) @ [r])"
proof -
  obtain cid c where c: "cl_routes (cw_client w) cid = Some r" "st_conns (cw_store w) r = Some (TcpConn c)" "owes_packet c q"
    using r by (auto simp: pending_source_def)
  note I = router_invD [OF client_router_inv [OF w]]
  have own: "tcp_own c" "tc_id c = cid" "\<not> tc_closed c" "live_token (cw_selector w) (tc_token c)"
    using I(3) [OF c(1)] c(2) by (simp_all add: routed_ok_def)
  have get: "tcp_get c = Some (Some q)" and "tc_packet_for_client_length c \<noteq> None"
    using c(3) by (simp_all add: owes_packet_def)
  then obtain n where n: "tc_packet_for_client_length c = Some n" by blast
  have ch: "ch_inv (en_channel (client_env w))" using client_sel_inv [OF w] by simp
  obtain v e where e: "send_through P (ip_raw q) (client_env w) = Some (v, e)"
    "v = (if length (ip_raw q) \<le> cl_room w then Inr () else Inl WouldBlock)" "offered (client_env w) (ip_raw q) e"
    "cl_room w < length (ip_raw q) \<longrightarrow> e = client_env w"
    using send_through_ok [OF P ch, of "ip_raw q"] by auto
  have O: "same_tokens (cw_selector w) (en_selector e)" "ch_inv (en_channel e)"
    "ch_frame (cl_channel (cw_client w)) (en_channel e)" "en_requests e = []"
    using e(3) by (simp_all add: offered_def)
  let ?w1 = "put_env e w"
  have w1: "client_inv ?w1" "client_step w ?w1" using client_channel_ok [OF w op O(2,3,1)] by simp_all
  have env1: "client_env ?w1 = e" using O(4) by (simp add: client_env_def)
  show ?thesis
  proof (cases "length (ip_raw q) \<le> cl_room w")
    case False
    let ?w2 = "on_client (cl_pending_packet_sources_update (\<lambda>rs. rs @ [r])) ?w1"
    have "client_router ?w2 = client_router ?w1" by (simp add: client_router_def client_env_def)
    then have "client_inv ?w2 \<and> client_step ?w1 ?w2"
      using w1(1) op by (intro client_by_router) (simp_all add: client_inv_def)
    moreover have "process_one_pending P r w = Some ?w2"
      using c(2) get e(1,2) False by (simp add: process_one_pending_eq)
    moreover have "en_channel e = cl_channel (cw_client w)" using e(4) False by simp
    ultimately show ?thesis using False w1(2) op client_step_trans [of w ?w1 ?w2] by (intro exI [of _ ?w2]) simp
  next
    case True
    have live: "live_token (en_selector e) (tc_token c)" using own(4) same_tokens_inv(2) [OF O(1)] by simp
    have "env_ok (client_env ?w1)" using router_invD(1) [OF client_router_inv [OF w1(1)]] .
    then have ci: "ctx_inv (c, e)" using own live by (simp add: ctx_inv_env tcp_own_def env1)
    obtain c' e' where z: "tcp_next P (c, e) = Some (c', e')" "step_ok (c, e) (c', e')" "\<not> tc_closed c'"
      "en_requests e' = en_requests e" "en_channel e' = en_channel e"
      using tcp_next_ok [OF P ci, of n] own(3) n by auto
    have f: "tcp_own c'" "tc_id c' = tc_id c" "tc_token c' = tc_token c" "env_step (tc_token c) e e'"
      "live_token (en_selector e') (tc_token c)"
      using step_ok_flow [OF z(2,4) own(1)] z(3) by simp_all
    let ?w2 = "put_env e' (?w1\<lparr>cw_store := store_put r (TcpConn c') (cw_store w)\<rparr>)"
    have inv1: "router_inv (cl_routes (cw_client w), cw_store w, e)"
      using client_router_inv [OF w1(1)] by (simp add: env1)
    have rs: "env_step (conn_token (TcpConn c)) e e'" using f(4) by simp
    have r2: "client_router ?w2 = (cl_routes (cw_client w), store_put r (TcpConn c') (cw_store w), e')"
      "client_router ?w1 = (cl_routes (cw_client w), cw_store w, e)"
      using z(4) O(4) env1 by (simp_all add: client_router_def client_env_def)
    have "router_inv (client_router ?w2)" "router_step (client_router ?w1) (client_router ?w2)"
      unfolding r2
      using router_inv_update [OF inv1 c(1,2) rs, of False "TcpConn c'"]
        router_step_update [OF inv1 c(1,2) rs, of False "TcpConn c'"] f own(2) z(3)
      by (simp_all add: routed_ok_def)
    then have "client_inv ?w2 \<and> client_step ?w1 ?w2"
      using w1(1) op by (intro client_by_router) (simp_all add: client_inv_def)
    moreover have "process_one_pending P r w = Some ?w2"
      using c(2) get e(1,2) True z(1) by (simp add: process_one_pending_eq)
    moreover have "ch_contents (en_channel e) = cl_output w @ ip_raw q" using e(3) True by (simp add: offered_def)
    ultimately show ?thesis
      using True w1(2) op z(5) client_step_trans [of w ?w1 ?w2]
      by (intro exI [of _ ?w2]) (simp add: store_put_def)
  qed
qed

text \<open>Which of the waiting packets fit: the bytes that go out, and the sources that wait on.\<close>

fun fit :: "nat \<Rightarrow> (nat \<times> bytes) list \<Rightarrow> bytes \<times> nat list" where
  "fit room [] = ([], [])"
| "fit room ((r, raw) # ps) = (if length raw \<le> room
     then (raw @ fst (fit (room - length raw) ps), snd (fit (room - length raw) ps))
     else (fst (fit room ps), r # snd (fit room ps)))"

lemma fit_subset: "set (snd (fit room ps)) \<subseteq> fst ` set ps"
  by (induction room ps rule: fit.induct) auto

lemma fit_distinct: "distinct (map fst ps) \<Longrightarrow> distinct (snd (fit room ps))"
  using fit_subset by (induction room ps rule: fit.induct) (force split: if_splits)+

lemma client_room_after:
  assumes "client_inv w" and "client_inv w'" and "client_step w w'" and "cl_output w' = cl_output w @ out"
  shows "cl_room w' = cl_room w - length out"
  using client_sel_inv [OF assms(1)] client_sel_inv [OF assms(2)] assms(3,4)
  by (simp add: ch_inv_def sb_remaining_eq client_step_def ch_frame_def)

lemma process_pending_sources_ok:
  "poll_works P \<Longrightarrow> client_inv w \<Longrightarrow> \<not> cl_closed (cw_client w) \<Longrightarrow> distinct rs \<Longrightarrow>
    (\<forall>r \<in> set rs. pending_source w r (q r)) \<Longrightarrow>
    \<exists>w'. process_pending_sources P rs w = Some w' \<and> client_inv w' \<and> client_step w w' \<and> \<not> cl_closed (cw_client w')
      \<and> cl_output w' = cl_output w @ fst (fit (cl_room w) (map (\<lambda>r. (r, ip_raw (q r))) rs))
      \<and> cl_pending_packet_sources (cw_client w') = cl_pending_packet_sources (cw_client w)
          @ snd (fit (cl_room w) (map (\<lambda>r. (r, ip_raw (q r))) rs))
      \<and> cl_routes (cw_client w') = cl_routes (cw_client w)
      \<and> (\<forall>r. r \<in> set (snd (fit (cl_room w) (map (\<lambda>r. (r, ip_raw (q r))) rs))) \<or> r \<notin> set rs \<longrightarrow>
            st_conns (cw_store w') r = st_conns (cw_store w) r)"
proof (induction rs arbitrary: w)
  case Nil
  then show ?case by simp
next
  case (Cons r rs)
  obtain w1 where w1: "process_one_pending P r w = Some w1" "client_inv w1" "client_step w w1"
    "\<not> cl_closed (cw_client w1)" "cl_routes (cw_client w1) = cl_routes (cw_client w)"
    "\<forall>r'. r' \<noteq> r \<longrightarrow> st_conns (cw_store w1) r' = st_conns (cw_store w) r'"
    "if length (ip_raw (q r)) \<le> cl_room w
       then cl_output w1 = cl_output w @ ip_raw (q r)
         \<and> cl_pending_packet_sources (cw_client w1) = cl_pending_packet_sources (cw_client w)
       else cl_output w1 = cl_output w \<and> cw_store w1 = cw_store w
         \<and> cl_pending_packet_sources (cw_client w1) = cl_pending_packet_sources (cw_client w) @ [r]"
    using process_one_pending_ok [OF Cons.prems(1-3), of r "q r"] Cons.prems(5) by auto
  have d: "distinct rs" "r \<notin> set rs" using Cons.prems(4) by simp_all
  have src: "\<forall>r' \<in> set rs. pending_source w1 r' (q r')"
  proof
    fix r' assume r': "r' \<in> set rs"
    then have "pending_source w r' (q r')" "r' \<noteq> r" using Cons.prems(5) d(2) by auto
    then show "pending_source w1 r' (q r')" using w1(5,6) by (simp add: pending_source_def)
  qed
  let ?F = "fit (cl_room w1) (map (\<lambda>r. (r, ip_raw (q r))) rs)"
  obtain w2 where w2: "process_pending_sources P rs w1 = Some w2" "client_inv w2" "client_step w1 w2"
    "\<not> cl_closed (cw_client w2)" "cl_output w2 = cl_output w1 @ fst ?F"
    "cl_pending_packet_sources (cw_client w2) = cl_pending_packet_sources (cw_client w1) @ snd ?F"
    "cl_routes (cw_client w2) = cl_routes (cw_client w1)"
    "\<forall>r. r \<in> set (snd ?F) \<or> r \<notin> set rs \<longrightarrow> st_conns (cw_store w2) r = st_conns (cw_store w1) r"
    using Cons.IH [OF Cons.prems(1) w1(2,4) d(1) src] by blast
  have sub: "set (snd ?F) \<subseteq> set rs" using fit_subset [of "cl_room w1" "map (\<lambda>r. (r, ip_raw (q r))) rs"] by auto
  have st: "client_step w w2" using w1(3) w2(3) by (rule client_step_trans)
  show ?case
  proof (cases "length (ip_raw (q r)) \<le> cl_room w")
    case True
    have "cl_room w1 = cl_room w - length (ip_raw (q r))"
      using client_room_after [OF Cons.prems(2) w1(2,3)] w1(7) True by simp
    then show ?thesis
      using w1(1,5,6,7) w2 True st sub d(2) by (intro exI [of _ w2]) auto
  next
    case False
    have "cl_room w1 = cl_room w"
      using client_room_after [OF Cons.prems(2) w1(2,3), of "[]"] w1(7) False by simp
    then show ?thesis
      using w1(1,5,6,7) w2 False st sub d(2) by (intro exI [of _ w2]) auto
  qed
qed

text \<open>\<open>process_pending\<close> sends what fits, in order, and leaves the rest pending, in order.\<close>

lemma process_pending_ok:
  assumes P: "poll_works P" and w: "client_inv w" and op: "\<not> cl_closed (cw_client w)"
    and rs: "cl_pending_packet_sources (cw_client w) = rs" "distinct rs" "\<forall>r \<in> set rs. pending_source w r (q r)"
  shows "\<exists>w'. process_pending P w = Some w' \<and> client_inv w' \<and> client_step w w' \<and> \<not> cl_closed (cw_client w')
    \<and> cl_output w' = cl_output w @ fst (fit (cl_room w) (map (\<lambda>r. (r, ip_raw (q r))) rs))
    \<and> cl_pending_packet_sources (cw_client w') = snd (fit (cl_room w) (map (\<lambda>r. (r, ip_raw (q r))) rs))
    \<and> pending_ok w'"
proof -
  let ?w = "on_client (cl_pending_packet_sources_update (\<lambda>_. [])) w"
  let ?F = "fit (cl_room w) (map (\<lambda>r. (r, ip_raw (q r))) rs)"
  have "client_router ?w = client_router w" by (simp add: client_router_def client_env_def)
  then have w0: "client_inv ?w \<and> client_step w ?w"
    using w op by (intro client_by_router) (simp_all add: client_inv_def)
  have src: "\<forall>r \<in> set rs. pending_source ?w r (q r)" using rs(3) by (simp add: pending_source_def)
  obtain w' where w': "process_pending_sources P rs ?w = Some w'" "client_inv w'" "client_step ?w w'"
    "\<not> cl_closed (cw_client w')" "cl_output w' = cl_output w @ fst ?F"
    "cl_pending_packet_sources (cw_client w') = snd ?F"
    "cl_routes (cw_client w') = cl_routes (cw_client w)"
    "\<forall>r. r \<in> set (snd ?F) \<or> r \<notin> set rs \<longrightarrow> st_conns (cw_store w') r = st_conns (cw_store w) r"
    using process_pending_sources_ok [OF P conjunct1 [OF w0] _ rs(2) src] op by auto
  have sub: "set (snd ?F) \<subseteq> set rs" using fit_subset [of "cl_room w" "map (\<lambda>r. (r, ip_raw (q r))) rs"] by auto
  have "pending_source w' r (q r)" if r: "r \<in> set (snd ?F)" for r
    using rs(3) sub r w'(7,8) by (auto simp: pending_source_def)
  moreover have "distinct (snd ?F)" using rs(2) by (intro fit_distinct) (simp add: comp_def)
  ultimately have "pending_ok w'" using w'(6) by (auto simp: pending_ok_def)
  then show ?thesis
    using w' rs(1) client_step_trans [OF conjunct2 [OF w0] w'(3)] by (simp add: process_pending_def)
qed

text \<open>A pending source that was closed meanwhile: its packet still goes out, then \<open>next\<close> panics.\<close>

lemma process_pending_closed:
  assumes P: "poll_works P" and w: "client_inv w"
    and rs: "cl_pending_packet_sources (cw_client w) = r # rs"
    and c: "st_conns (cw_store w) r = Some (TcpConn c)" "tc_closed c" "tcp_get c = Some (Some q)"
    and room: "length (ip_raw q) \<le> cl_room w"
  shows "process_pending P w = None"
proof -
  let ?w = "on_client (cl_pending_packet_sources_update (\<lambda>_. [])) w"
  have ch: "ch_inv (en_channel (client_env ?w))" using client_sel_inv [OF w] by simp
  obtain e where "send_through P (ip_raw q) (client_env ?w) = Some (Inr (), e)"
    using send_through_ok [OF P ch, of "ip_raw q"] room by auto
  then have "process_one_pending P r ?w = None"
    using c by (simp add: process_one_pending_eq tcp_next_closed)
  then show ?thesis using rs by (simp add: process_pending_def)
qed

section \<open>The stream of packets\<close>

text \<open>
  What the loop of \<open>push_to_network\<close> means, on the frames of the stream instead of the buffer:
  each frame is routed or dropped, and the first malformed one closes the client, as does a
  front that can never become a frame.
\<close>

fun relay_frames :: "poll \<Rightarrow> (routes \<Rightarrow> connection_id list) \<Rightarrow> (nat \<Rightarrow> host) \<Rightarrow> nat \<Rightarrow> bytes list \<Rightarrow> client_world
    \<Rightarrow> client_world option" where
  "relay_frames P walk hosts n [] w = Some w"
| "relay_frames P walk hosts n (f # fs) w = (case ip_packet_parse f of
     None \<Rightarrow> None
   | Some (Inr packet) \<Rightarrow> Option.bind (on_router (router_send_to_network (hosts n) packet) w)
       (relay_frames P walk hosts (n + 1) fs)
   | Some (Inl (Unsupported _)) \<Rightarrow> relay_frames P walk hosts (n + 1) fs w
   | Some (Inl (Malformed _)) \<Rightarrow> client_close P walk w)"

definition relay_stream :: "poll \<Rightarrow> (routes \<Rightarrow> connection_id list) \<Rightarrow> (nat \<Rightarrow> host) \<Rightarrow> nat \<Rightarrow> bytes \<Rightarrow> client_world
    \<Rightarrow> client_world option" where
  "relay_stream P walk hosts n raw w = do {
     w \<leftarrow> relay_frames P walk hosts n (fst (frames raw)) w;
     if \<not> cl_closed (cw_client w) \<and> front_packet_length (snd (frames raw)) \<noteq> ok None
     then client_close P walk w else Some w }"

text \<open>The client without its input buffer.\<close>

definition sans_input :: "client_world \<Rightarrow> client_world" where
  "sans_input w = on_client (cl_client_to_network_update (\<lambda>_. ipb_new)) w"

lemma sans_input_simps [simp]:
  "client_router (sans_input w) = client_router w" "cl_closed (cw_client (sans_input w)) = cl_closed (cw_client w)"
  "sans_input (on_client (cl_client_to_network_update (\<lambda>_. b)) w) = sans_input w"
  by (simp_all add: sans_input_def client_router_def client_env_def on_client_def)

lemma on_router_sans_input: "on_router f (sans_input w) = map_option sans_input (on_router f w)"
  by (cases "f (client_router w)")
    (auto simp: on_router_def sans_input_def on_client_def put_env_def client_router_def client_env_def)

lemma client_close_sans_input: "client_close P walk (sans_input w) = map_option sans_input (client_close P walk w)"
proof -
  let ?ch = "cl_channel (cw_client w)"
  obtain r s where d: "selector_deregister P (ch_stream ?ch) (ch_token ?ch) (cw_selector w) = (r, s)"
    by fastforce
  let ?w0 = "(on_client (cl_closed_update (\<lambda>_. True)) w)\<lparr>cw_selector := s\<rparr>"
  let ?bump = "\<lambda>x :: client_world. x\<lparr>cw_on_closed := Suc (cw_on_closed x)\<rparr>"
  let ?f = "\<lambda>x. router_clear P (walk (fst x)) x"
  have w0: "(on_client (cl_closed_update (\<lambda>_. True)) (sans_input w))\<lparr>cw_selector := s\<rparr> = sans_input ?w0"
    by (simp add: sans_input_def on_client_def)
  have ch: "cl_channel (cw_client (sans_input w)) = ?ch" "cw_selector (sans_input w) = cw_selector w"
    by (simp_all add: sans_input_def)
  show ?thesis
  proof (cases r)
    case (Inr u)
    have "client_close P walk (sans_input w) =
        map_option ?bump (map_option sans_input (on_router ?f ?w0))"
      using d Inr w0 by (simp add: client_close_def ch on_router_sans_input map_option_case split: option.split)
    also have "\<dots> = map_option sans_input (map_option ?bump (on_router ?f ?w0))"
    proof -
      have "?bump (sans_input x) = sans_input (?bump x)" for x
        by (cases x) (simp add: sans_input_def on_client_def)
      then show ?thesis by (simp add: option.map_comp comp_def)
    qed
    finally show ?thesis using d Inr by (simp add: client_close_def map_option_case split: option.split)
  qed (use d ch in \<open>simp add: client_close_def\<close>)
qed

text \<open>
  The loop does not panic, keeps the invariant, and acts as \<open>relay_stream\<close> does on the bytes that
  had been read; a client that stays open keeps exactly the bytes after the last frame.
\<close>

lemma ipb_packet_front:
  "front_packet_length (bb_peek b) = ok None \<Longrightarrow> ipb_packet b = ok None"
  "front_packet_length (bb_peek b) = err e \<Longrightarrow> ipb_packet b = err e"
  "front_packet_length (bb_peek b) = ok (Some n) \<Longrightarrow>
    ipb_packet b = question (ip_packet_parse (take n (bb_peek b))) (\<lambda>p. ok (Some p))"
  by (simp_all add: ipb_packet_def slice_Some front_packet_length_Some)

lemma push_to_network_ok:
  assumes P: "poll_works P" and walk: "walk_ok walk" and hosts: "\<forall>i. host_ok (hosts i)"
  shows "client_inv w \<Longrightarrow> \<not> cl_closed (cw_client w) \<Longrightarrow> frames (bb_peek (cl_input w)) = (fs, rest) \<Longrightarrow>
    \<exists>w'. push_to_network P walk hosts n w = Some w' \<and> client_inv w' \<and> client_step w w'
      \<and> relay_stream P walk hosts n (bb_peek (cl_input w)) (sans_input w) = Some (sans_input w')
      \<and> (\<not> cl_closed (cw_client w') \<longrightarrow> bb_peek (cl_input w') = rest)"
proof (induction fs arbitrary: n w)
  case Nil
  note w = Nil.prems(1) and op = Nil.prems(2)
  let ?raw = "bb_peek (cl_input w)"
  have no: "\<nexists>k. front_packet_length ?raw = ok (Some k)" using Nil.prems(3) frames_step [of ?raw] by force
  then have rest: "rest = ?raw" using Nil.prems(3) frames_stop [of ?raw] by simp
  obtain w' where c: "client_close P walk w = Some w'" "client_inv w'" "client_step w w'" "cl_closed (cw_client w')"
    using client_close_ok [OF P walk w op] by blast
  consider "front_packet_length ?raw = ok None" | e where "front_packet_length ?raw = err e"
    using no front_packet_length_total [of ?raw] by (cases "front_packet_length ?raw") (auto, metis old.sum.exhaust option.exhaust)
  then show ?case
  proof cases
    case 1
    then show ?thesis
      using Nil.prems(3) w op ipb_packet_front(1) [OF 1] 1 rest
      by (subst push_to_network.simps) (simp add: push_one_packet_to_network_def relay_stream_def)
  next
    case (2 e)
    have same: "on_client (cl_client_to_network_update (\<lambda>_. cl_input w)) w = w" by (simp add: on_client_def)
    have "push_to_network P walk hosts n w = Some w'"
      using ipb_packet_front(2) [OF 2] c(1) 2
      by (subst push_to_network.simps) (simp add: same push_one_packet_to_network_def ipb_next_def split: packet_parse_error.split)
    moreover have "relay_stream P walk hosts n ?raw (sans_input w) = Some (sans_input w')"
      using Nil.prems(3) 2 op c(1) rest by (simp add: relay_stream_def client_close_sans_input)
    ultimately show ?thesis using c by blast
  qed
next
  case (Cons f fs)
  note w = Cons.prems(1) and op = Cons.prems(2)
  let ?raw = "bb_peek (cl_input w)"
  obtain k where k: "front_packet_length ?raw = ok (Some k)"
    using Cons.prems(3) frames_stop [of ?raw] by fastforce
  have fr: "f = take k ?raw" "frames (drop k ?raw) = (fs, rest)"
    using Cons.prems(3) frames_step [OF k] by (simp_all add: prod_eq_iff)
  note pk = ipb_packet_front(3) [OF k, folded fr(1)]
  have len: "k \<le> length ?raw" using front_packet_length_Some [OF k] by simp
  have next1: "\<exists>b. ipb_next (cl_input w) = Some (Inr True, b) \<and> bb_inv b \<and> length (bb_buf b) = MAX_IP_PACKET_LENGTH
      \<and> bb_peek b = drop k ?raw"
    using bb_consume_ok [of "cl_input w" k] client_input [OF w] len k by (auto simp: ipb_next_def)
  then obtain b where b: "ipb_next (cl_input w) = Some (Inr True, b)" "bb_inv b"
    "length (bb_buf b) = MAX_IP_PACKET_LENGTH" "bb_peek b = drop k ?raw" by blast
  text \<open>After a frame that did not close the client, the loop goes on with the next.\<close>
  have continue: ?case
    if one: "push_one_packet_to_network P walk (hosts n) w = Some (True, w1)" "client_inv w1" "client_step w w1"
        "\<not> cl_closed (cw_client w1)" "cl_input w1 = cl_input w"
      and spec: "relay_frames P walk hosts n (f # fs) (sans_input w) = relay_frames P walk hosts (n + 1) fs (sans_input w1)"
    for w1
  proof -
    let ?w2 = "on_client (cl_client_to_network_update (\<lambda>_. b)) w1"
    have "client_router ?w2 = client_router w1" by (simp add: client_router_def client_env_def)
    then have w2: "client_inv ?w2 \<and> client_step w1 ?w2"
      using one(2,4) b(2,3) by (intro client_by_router) (simp_all add: client_inv_def)
    obtain w' where w': "push_to_network P walk hosts (n + 1) ?w2 = Some w'" "client_inv w'" "client_step ?w2 w'"
      "relay_stream P walk hosts (n + 1) (drop k ?raw) (sans_input w1) = Some (sans_input w')"
      "\<not> cl_closed (cw_client w') \<longrightarrow> bb_peek (cl_input w') = rest"
      using Cons.IH [OF conjunct1 [OF w2], of "n + 1"] one(4) b(4) fr(2) by auto
    have "push_to_network P walk hosts n w = Some w'"
      using one(1,5) b(1) w'(1) by (subst push_to_network.simps) simp
    moreover have "relay_stream P walk hosts n ?raw (sans_input w) = Some (sans_input w')"
      using w'(4) spec Cons.prems(3) fr(2) by (simp add: relay_stream_def)
    moreover have "client_step w w'"
      using client_step_trans [OF client_step_trans [OF one(3) conjunct2 [OF w2]] w'(3)] .
    ultimately show ?thesis using w'(2,5) by blast
  qed
  obtain r where r: "ip_packet_parse f = Some r" using ip_packet_parse_total [of f] by auto
  consider (routed) p where "r = Inr p" | (dropped) u where "r = Inl (Unsupported u)" | (bad) m where "r = Inl (Malformed m)"
    by (metis packet_parse_error.exhaust old.sum.exhaust)
  then show ?case
  proof cases
    case (routed p)
    have ok: "ip_packet_ok p" using ip_packet_parse_ok r routed by simp
    obtain rt st e where s: "router_send_to_network (hosts n) p (client_router w) = Some (rt, st, e)"
      "router_inv (rt, st, e)" "router_step (client_router w) (rt, st, e)"
      using router_send_ok [OF hosts [rule_format] client_router_inv [OF w] ok, of n] by (auto simp: client_router_def)
    obtain w1 where w1: "on_router (router_send_to_network (hosts n) p) w = Some w1" "client_inv w1" "client_step w w1"
      "same_client w w1"
      using on_router_ok [of "router_send_to_network (hosts n) p" w, OF s w op] by blast
    show ?thesis
      by (rule continue [of w1])
        (use w1 op pk r routed in \<open>simp_all add: push_one_packet_to_network_def same_client_def on_router_sans_input\<close>)
  next
    case (dropped u)
    show ?thesis
      by (rule continue [of w]) (use w op pk r dropped in \<open>simp_all add: push_one_packet_to_network_def\<close>)
  next
    case (bad m)
    obtain w' where c: "client_close P walk w = Some w'" "client_inv w'" "client_step w w'" "cl_closed (cw_client w')"
      using client_close_ok [OF P walk w op] by blast
    have "push_to_network P walk hosts n w = Some w'"
      using pk r bad c(1) by (subst push_to_network.simps) (simp add: push_one_packet_to_network_def)
    moreover have "relay_stream P walk hosts n ?raw (sans_input w) = Some (sans_input w')"
      using Cons.prems(3) r bad c by (simp add: relay_stream_def client_close_sans_input)
    ultimately show ?thesis using c by blast
  qed
qed

section \<open>Events\<close>

definition io_ok :: "client_io \<Rightarrow> bool" where
  "io_ok io \<longleftrightarrow> poll_works (ci_poll io) \<and> walk_ok (ci_walk io) \<and> writer_ok (ci_write io) \<and> reader_ok (ci_read io)
     \<and> (\<forall>i. host_ok (ci_hosts io i))"

text \<open>A part of an event that leaves a good state, or reports that nothing was ready.\<close>

definition handled :: "client_world \<Rightarrow> (unit io_result \<times> client_world) option \<Rightarrow> bool" where
  "handled w m \<longleftrightarrow> (\<exists>r w'. m = Some (r, w') \<and> client_inv w' \<and> client_step w w'
     \<and> (r = Inr () \<or> r = Inl WouldBlock))"

lemma handledI: "client_inv w' \<Longrightarrow> client_step w w' \<Longrightarrow> handled w (Some (Inr (), w'))"
  "client_inv w' \<Longrightarrow> client_step w w' \<Longrightarrow> handled w (Some (Inl WouldBlock, w'))"
  by (auto simp: handled_def)

lemma handled_then:
  assumes "handled w m" and "\<And>w'. client_inv w' \<Longrightarrow> client_step w w' \<Longrightarrow> handled w' (f w')"
  shows "handled w (then_process m f)"
proof -
  obtain r w' where m: "m = Some (r, w')" "client_inv w'" "client_step w w'" "r = Inr () \<or> r = Inl WouldBlock"
    using assms(1) by (auto simp: handled_def)
  obtain r' w'' where "f w' = Some (r', w'')" "client_inv w''" "client_step w' w''" "r' = Inr () \<or> r' = Inl WouldBlock"
    using assms(2) [OF m(2,3)] by (auto simp: handled_def)
  then show ?thesis using m client_step_trans [OF m(3)] by (auto simp: handled_def)
qed

lemma client_process_send_ok:
  assumes P: "poll_works P" and walk: "walk_ok walk" and W: "writer_ok W"
    and w: "client_inv w" and op: "\<not> cl_closed (cw_client w)" and pend: "pending_ok w"
  shows "handled w (client_process_send P walk W w)"
proof -
  obtain w1 where c: "client_close P walk w = Some w1" "client_inv w1" "client_step w w1"
    using client_close_ok [OF P walk w op] by blast
  show ?thesis
  proof (cases "must_send_id (cw_client w)")
    case True
    have i: "client_inv (on_client (cl_pending_id_bytes_update (\<lambda>k. k - n)) w)
        \<and> client_step w (on_client (cl_pending_id_bytes_update (\<lambda>k. k - n)) w)" for n
      by (rule send_id_ok(2) [OF W w op True])
    show ?thesis
      using send_id_ok(1) [OF W w op True] True c i w
      by (auto simp: client_process_send_def intro: handledI split: sum.splits)
  next
    case False
    obtain r w2 where w2: "client_write W w = Some (r, w2)" "client_inv w2" "client_step w w2" "same_client w w2"
      "cw_store w2 = cw_store w" "cl_routes (cw_client w2) = cl_routes (cw_client w)"
      using client_write_ok [OF W w op] by blast
    have op2: "\<not> cl_closed (cw_client w2)" using w2(4) op by (simp add: same_client_def)
    obtain w3 where c3: "client_close P walk w2 = Some w3" "client_inv w3" "client_step w2 w3"
      using client_close_ok [OF P walk w2(2) op2] by blast
    have "pending_ok w2" using pend w2(4-6) by (simp add: pending_ok_def pending_source_def same_client_def)
    then obtain q where q: "distinct (cl_pending_packet_sources (cw_client w2))"
      "\<forall>r \<in> set (cl_pending_packet_sources (cw_client w2)). pending_source w2 r (q r)"
      unfolding pending_ok_def by metis
    obtain w4 where w4: "process_pending P w2 = Some w4" "client_inv w4" "client_step w2 w4"
      using process_pending_ok [OF P w2(2) op2 refl q] by blast
    show ?thesis
      using False w2(1) c3 w4 client_step_trans [OF w2(3)]
      by (cases r) (auto simp: client_process_send_def intro!: handledI)
  qed
qed

lemma client_process_receive_ok:
  assumes io: "io_ok io" and w: "client_inv w" and op: "\<not> cl_closed (cw_client w)"
  shows "handled w (client_process_receive io w)"
proof -
  have P: "poll_works (ci_poll io)" and walk: "walk_ok (ci_walk io)" and R: "reader_ok (ci_read io)"
    and hosts: "\<forall>i. host_ok (ci_hosts io i)"
    using io by (simp_all add: io_ok_def)
  have b: "bb_inv (cl_input w)" "length (bb_buf (cl_input w)) = MAX_IP_PACKET_LENGTH" using client_input [OF w] by simp_all
  obtain r b' where r: "bb_read_from (ci_read io) (cl_input w) = Some (r, b')" "bb_inv b'"
    "length (bb_buf b') = MAX_IP_PACKET_LENGTH"
  proof (cases "ci_read io (bb_room (cl_input w))")
    case (Inl e)
    then show ?thesis using that bb_read_from_error [of "cl_input w" "ci_read io", OF b(1) Inl] b by blast
  next
    case (Inr bs)
    then have "length bs \<le> bb_room (cl_input w)" using R by (auto simp: reader_ok_def)
    then show ?thesis using that bb_read_from_ok [of "cl_input w" "ci_read io", OF b(1) Inr] b by (metis (no_types, lifting))
  qed
  let ?w = "on_client (cl_client_to_network_update (\<lambda>_. b')) w"
  have "client_router ?w = client_router w" by (simp add: client_router_def client_env_def)
  then have w1: "client_inv ?w" "client_step w ?w"
    using client_by_router [OF w, of ?w] r(2,3) w op by (simp_all add: client_inv_def)
  have op1: "\<not> cl_closed (cw_client ?w)" using op by simp
  obtain w2 where w2: "client_close (ci_poll io) (ci_walk io) ?w = Some w2" "client_inv w2" "client_step ?w w2"
    using client_close_ok [OF P walk w1(1) op1] by blast
  obtain w3 where w3: "push_to_network (ci_poll io) (ci_walk io) (ci_hosts io) 0 ?w = Some w3" "client_inv w3" "client_step ?w w3"
    using push_to_network_ok [OF P walk hosts w1(1) op1 prod.collapse [symmetric]] by blast
  have run: "client_read (ci_read io) w = Some (r, ?w)" using r(1) by (simp add: client_read_def)
  consider "r = Inr True" | "r = Inr False" | e where "r = Inl e" by (metis sum.exhaust)
  then show ?thesis
    using run w1 w2 w3 client_step_trans [OF w1(2)]
    by cases (auto simp: client_process_receive_def intro!: handledI)
qed

text \<open>No event panics a client whose pending sources are all alive.\<close>

lemma client_on_ready_ok:
  assumes io: "io_ok io" and w: "client_inv w" and pend: "\<not> cl_closed (cw_client w) \<Longrightarrow> pending_ok w"
  shows "\<exists>w'. client_on_ready io ready w = Some w' \<and> client_inv w' \<and> client_step w w'"
proof -
  have P: "poll_works (ci_poll io)" and walk: "walk_ok (ci_walk io)" and W: "writer_ok (ci_write io)"
    using io by (simp_all add: io_ok_def)
  have "handled w (client_process io ready w)"
  proof (cases "cl_closed (cw_client w)")
    case True
    then show ?thesis using w by (auto simp: client_process_def intro: handledI)
  next
    case False
    have upd: "handled w2 (if cl_closed (cw_client w2) then Some (Inr (), w2)
        else Option.bind (client_update_interests (ci_poll io) w2) (\<lambda>w. Some (Inr (), w)))" if i: "client_inv w2" for w2
      using client_update_interests_ok [OF P i] i by (auto intro!: handledI)
    have recv: "handled w1 (if \<not> cl_closed (cw_client w1) \<and> is_readable ready then client_process_receive io w1
        else Some (Inr (), w1))" if i: "client_inv w1" for w1
      using client_process_receive_ok [OF io i] i by (auto intro: handledI)
    have send: "handled w (if is_writable ready then client_process_send (ci_poll io) (ci_walk io) (ci_write io) w
        else Some (Inr (), w))"
      using client_process_send_ok [OF P walk W w False pend [OF False]] w by (auto intro: handledI)
    show ?thesis
      using False unfolding client_process_def
      by (simp only: if_False) (intro handled_then send recv upd)
  qed
  then obtain r w' where r: "client_process io ready w = Some (r, w')" "client_inv w'" "client_step w w'"
    "r = Inr () \<or> r = Inl WouldBlock"
    by (auto simp: handled_def)
  then show ?thesis by (auto simp: client_on_ready_def)
qed

lemma client_clean_expired_ok:
  assumes P: "poll_works P" and walk: "walk_ok walk" and w: "client_inv w" and op: "\<not> cl_closed (cw_client w)"
  shows "\<exists>w'. client_clean_expired P walk now w = Some w' \<and> client_inv w' \<and> client_step w w' \<and> same_client w w'"
proof -
  have fin: "finite (dom (cl_routes (cw_client w)))" using router_invD(2) [OF client_router_inv [OF w]] .
  let ?f = "\<lambda>x. router_clean_expired P now (walk (fst x)) x"
  obtain rt st e where k: "?f (client_router w) = Some (rt, st, e)" "router_inv (rt, st, e)"
    "router_step (client_router w) (rt, st, e)"
    using router_clean_expired_ok [OF client_router_inv [OF w] P, of "walk (cl_routes (cw_client w))" now] walk fin
    by (auto simp: walk_ok_def client_router_def)
  show ?thesis using on_router_ok [of ?f, OF k w op] by (auto simp: client_clean_expired_def)
qed

lemma client_create_ok:
  assumes s: "sel_inv s" and v: "slab_ok vacant" and st: "\<forall>r \<in> dom (st_conns st). r < st_next st"
  shows "\<exists>r s'. client_create P vacant me cid fd s = Some (r, s') \<and> selector_grows s s'
    \<and> (case r of Inl e \<Rightarrow> True | Inr c \<Rightarrow> client_inv \<lparr>cw_client = c, cw_store = st, cw_selector = s', cw_on_closed = n\<rparr>
        \<and> \<not> cl_closed c \<and> cl_id c = cid \<and> \<not> live_token s (ch_token (cl_channel c)))"
  using s v
proof (cases rule: selector_register_grows [where P = P and fd = fd and h = "ClientHandler me" and i = ready_writable])
  case (fails e s')
  then show ?thesis by (simp add: client_create_def)
next
  case (works t s')
  have "env_ok \<lparr>en_channel = \<lparr>ch_network_to_client = sb_new (16 * MAX_PACKET_LENGTH), ch_stream = fd, ch_token = t,
      ch_interests = ready_writable\<rparr>, en_selector = s', en_requests = []\<rparr>"
    using works(2) by (simp add: env_ok_def ch_inv_def selector_grows_def)
  then show ?thesis
    using works st
    by (simp add: client_create_def client_inv_def client_router_def client_env_def outside_def ipb_new_def
        bb_new_def bb_inv_def router_inv_def)
qed

text \<open>
  How often the loop of \<open>push_to_network\<close> runs: with fuel for one iteration per frame of 20 bytes, the
  least a frame takes, and one more, it is the loop itself.
\<close>

fun push_fuel :: "nat \<Rightarrow> poll \<Rightarrow> (routes \<Rightarrow> connection_id list) \<Rightarrow> (nat \<Rightarrow> host) \<Rightarrow> nat \<Rightarrow> client_world
    \<Rightarrow> client_world option option" where
  "push_fuel 0 P walk hosts n w = None"
| "push_fuel (Suc fuel) P walk hosts n w = (case push_one_packet_to_network P walk (hosts n) w of
     None \<Rightarrow> Some None
   | Some (False, w) \<Rightarrow> Some (Some w)
   | Some (True, w) \<Rightarrow> (case ipb_next (cl_input w) of
       None \<Rightarrow> Some None
     | Some (Inr True, b) \<Rightarrow> push_fuel fuel P walk hosts (n + 1) (on_client (cl_client_to_network_update (\<lambda>_. b)) w)
     | Some (Inr False, b) \<Rightarrow> Some (Some (on_client (cl_client_to_network_update (\<lambda>_. b)) w))
     | Some (Inl _, b) \<Rightarrow> Some (client_close P walk (on_client (cl_client_to_network_update (\<lambda>_. b)) w))))"

lemma ipb_next_takes:
  assumes "ipb_next b = Some (Inr True, b')"
  shows "bb_head b' + 20 \<le> bb_head b"
proof -
  obtain n where n: "front_packet_length (bb_peek b) = ok (Some n)" "bb_consume n b = Some b'"
    using assms by (auto simp: ipb_next_def bind_eq_Some_conv split: option.splits sum.splits)
  then have "20 \<le> n" "n \<le> bb_head b" "bb_head b' = bb_head b - n"
    using front_packet_length_Some [OF n(1)] by (auto simp: bb_peek_def bb_consume_def bind_eq_Some_conv Let_def split: if_splits)
  then show ?thesis by simp
qed

lemma push_fuel_enough:
  "bb_head (cl_input w) < 20 * fuel \<Longrightarrow> push_fuel fuel P walk hosts n w = Some (push_to_network P walk hosts n w)"
proof (induction fuel arbitrary: n w)
  case (Suc fuel)
  show ?case
  proof (cases "\<exists>w' b. push_one_packet_to_network P walk (hosts n) w = Some (True, w') \<and> ipb_next (cl_input w') = Some (Inr True, b)")
    case True
    then obtain w' b where w': "push_one_packet_to_network P walk (hosts n) w = Some (True, w')"
      "ipb_next (cl_input w') = Some (Inr True, b)" by blast
    have "bb_head b + 20 \<le> bb_head (cl_input w)"
      using ipb_next_takes [OF w'(2)] push_one_keeps_input [OF w'(1)] by simp
    then have "bb_head (cl_input (on_client (cl_client_to_network_update (\<lambda>_. b)) w')) < 20 * fuel"
      using Suc.prems by (simp add: on_client_def)
    from Suc.IH [OF this, of "n + 1"] show ?thesis
      using w' by (simp add: push_to_network.simps [of P walk hosts n w])
  next
    case False
    then show ?thesis
      by (auto simp: push_to_network.simps [of P walk hosts n w] split: option.splits prod.splits sum.splits bool.splits)
  qed
qed simp

end
