(* ===== verification/Conn_Event.thy ===== *)
theory Conn_Event
  imports Client_Facts
begin

text \<open>
  An event on the socket of a connection: the handler runs with the channel of its client, and the
  calls it makes on the rest of the client take effect.  The client, its router and all its other
  connections keep their invariants.
\<close>

section \<open>The handler of any connection\<close>

record conn_io =
  cn_poll :: poll
  cn_now :: nat
  cn_tcp :: tcp_io
  cn_udp :: udp_io
  cn_read :: reader

fun conn_on_ready :: "conn_io \<Rightarrow> ready \<Rightarrow> connection \<times> conn_env \<Rightarrow> (connection \<times> conn_env) option" where
  "conn_on_ready io ready (TcpConn c, e) =
     map_option (map_prod TcpConn id) (tcp_on_ready (cn_poll io) (cn_now io) (cn_tcp io) ready (c, e))"
| "conn_on_ready io ready (UdpConn c, e) =
     map_option (map_prod UdpConn id) (udp_on_ready (cn_poll io) (cn_now io) (cn_udp io) ready (c, e))"
| "conn_on_ready io ready (V6Conn c, e) =
     map_option (map_prod V6Conn id) (v6_on_ready (cn_poll io) (cn_now io) (cn_read io) ready (c, e))"

text \<open>
  \<open>register_pending_packet_source\<close> and \<open>Router::remove\<close>, on behalf of the connection \<open>r\<close>.
\<close>

fun serve_request :: "nat \<Rightarrow> connection_id \<Rightarrow> client_request \<Rightarrow> client \<Rightarrow> client" where
  "serve_request r cid RegisterPendingSource = cl_pending_packet_sources_update (\<lambda>rs. rs @ [r])"
| "serve_request r cid RemoveFromRouter = cl_routes_update (router_remove cid)"

definition conn_event :: "conn_io \<Rightarrow> ready \<Rightarrow> nat \<Rightarrow> client_world \<Rightarrow> client_world option" where
  "conn_event io ready r w = do {
     c \<leftarrow> st_conns (cw_store w) r;
     (c, e) \<leftarrow> conn_on_ready io ready (c, client_env w);
     let w = put_env e (w\<lparr>cw_store := store_put r c (cw_store w)\<rparr>);
     Some (on_client (fold (serve_request r (conn_id c)) (en_requests e)) w) }"

section \<open>The requests of a handler\<close>

text \<open>Only a TCP read registers a source, and only a closed connection leaves the router.\<close>

lemma send_through_requests: "send_through P raw e = Some (r, e') \<Longrightarrow> en_requests e' = en_requests e"
  by (auto simp: send_through_def bind_eq_Some_conv)

abbreviation reqs :: "'c \<times> conn_env \<Rightarrow> client_request list" where
  "reqs x \<equiv> en_requests (snd x)"

lemma reqs_simps [simp]:
  "reqs (tcb_update f x) = reqs x" "reqs (tcp_close P x) = reqs x" "reqs (tcp_touch now x) = reqs x"
  "reqs (udp_close P u) = reqs u" "reqs (udp_touch now u) = reqs u" "reqs (v6_close P v) = reqs v"
  by (simp_all add: tcb_update_def tcp_close_def tcp_touch_def udp_close_def udp_touch_def v6_close_def case_prod_beta)

lemma tcp_reply_requests: "reply_empty_packet_to_client P flags x = Some y \<Longrightarrow> reqs y = reqs x"
  by (cases x) (auto simp: reply_empty_packet_to_client_def bind_eq_Some_conv dest: send_through_requests)

lemma tcp_send_empty_requests: "send_empty_packet_to_client P flags x = Some y \<Longrightarrow> reqs y = reqs x"
  by (simp add: send_empty_packet_to_client_def tcp_reply_requests)

lemma tcp_update_requests: "tcp_update_interests P x = Some y \<Longrightarrow> reqs y = reqs x"
  by (cases x) (auto simp: tcp_update_interests_def bind_eq_Some_conv Let_def split: if_splits)

lemma do_handle_fin_requests: "do_handle_fin P x = Some y \<Longrightarrow> reqs y = reqs x"
  by (auto simp: do_handle_fin_def Let_def bind_eq_Some_conv dest!: tcp_reply_requests split: if_splits)

lemma tcp_eof_requests: "tcp_eof P x = Some y \<Longrightarrow> reqs y = reqs x"
  by (auto simp: tcp_eof_def bind_eq_Some_conv dest!: tcp_send_empty_requests)

lemmas tcp_requests = tcp_reply_requests tcp_send_empty_requests tcp_update_requests do_handle_fin_requests tcp_eof_requests

lemma tcp_process_send_requests:
  assumes "tcp_process_send P W x = Some (r, y)"
  shows "reqs y = reqs x"
proof -
  obtain c e where x: "x = (c, e)" by (cases x)
  obtain v b where v: "sb_write_to W (tc_client_to_network c) = Some (v, b)"
    using assms by (auto simp: x tcp_process_send_def bind_eq_Some_conv)
  show ?thesis
    using assms v
    by (cases v) (auto simp: x tcp_process_send_def Let_def bind_eq_Some_conv dest!: tcp_requests split: if_split_asm)
qed

lemma tcp_process_connect_requests:
  assumes "tcp_process_connect P t x = Some y"
  shows "reqs y = reqs x"
proof -
  consider f where "t = Inr (Some f)" | "t = Inr None" | f where "t = Inl f" by (metis option.exhaust sum.exhaust)
  then show ?thesis
    using assms
    by cases (auto simp: tcp_process_connect_def Let_def bind_eq_Some_conv dest!: tcp_requests)
qed

lemma tcp_process_receive_requests:
  assumes "tcp_process_receive P R x = Some (r, y)"
  shows "reqs y = reqs x \<or> reqs y = reqs x @ [RegisterPendingSource]"
proof -
  obtain c e where x: "x = (c, e)" by (cases x)
  obtain p v p' where v: "update_headers (tc_tcb c) (FLAG_ACK OR FLAG_PSH) (tc_network_to_client c) = Some p"
    "packetize_read R (Some (unat (min (remaining_client_window (tc_tcb c)) MAX_PAYLOAD_LENGTH))) p = Some (v, p')"
    using assms by (auto simp: x tcp_process_receive_def Let_def bind_eq_Some_conv)
  consider (failed) f where "v = Inl f" | (eof) "v = Inr None" | (packet) q where "v = Inr (Some q)"
    by (metis option.exhaust sum.exhaust)
  then show ?thesis
  proof cases
    case (packet q)
    then obtain sent e' where s: "send_through P (ip_raw q) e = Some (sent, e')"
      using assms v by (auto simp: x tcp_process_receive_def Let_def bind_eq_Some_conv)
    show ?thesis
      using assms v packet s send_through_requests [OF s]
      by (cases sent) (auto simp: x tcp_process_receive_def Let_def bind_eq_Some_conv request_def)
  qed (use assms v in \<open>auto simp: x tcp_process_receive_def Let_def bind_eq_Some_conv
      dest!: tcp_requests split: if_split_asm\<close>)
qed

lemma then_process_cases:
  assumes "then_process m f = Some (r, y)"
  obtains (failed) e where "m = Some (Inl e, y)" "r = Inl e" | (went) x where "m = Some (Inr (), x)" "f x = Some (r, y)"
  using assms by (cases m) (auto simp: then_process_def split: sum.split_asm)

lemma tcp_read_phase_requests:
  assumes "tcp_read_phase P R ready x = Some (r, y)"
  shows "reqs y = reqs x \<or> reqs y = reqs x @ [RegisterPendingSource]"
  using assms unfolding tcp_read_phase_def
  by (cases rule: then_process_cases)
    (auto dest!: tcp_process_receive_requests tcp_update_requests split: if_split_asm)

lemma tcp_process_ready_requests:
  assumes "tcp_process_ready P sock ready x = Some (r, y)"
  shows "reqs y = reqs x \<or> reqs y = reqs x @ [RegisterPendingSource]"
  using assms unfolding tcp_process_ready_eq
  by (cases rule: then_process_cases)
    (auto dest!: tcp_process_send_requests tcp_process_connect_requests tcp_read_phase_requests split: if_split_asm)

text \<open>\<open>RemoveFromRouter\<close> is asked for exactly by the event that closes the connection.\<close>

lemma tcp_remove_requests [simp]: "reqs (tcp_remove_from_router x) = reqs x @ [RemoveFromRouter]"
  by (simp add: tcp_remove_from_router_def request_def case_prod_beta)

lemma udp_remove_requests [simp]: "reqs (udp_remove_from_router u) = reqs u @ [RemoveFromRouter]"
  by (simp add: udp_remove_from_router_def request_def case_prod_beta)

lemma v6_remove_requests [simp]: "reqs (v6_remove_from_router v) = reqs v @ [RemoveFromRouter]"
  by (simp add: v6_remove_from_router_def request_def case_prod_beta)

lemma udp_update_requests: "udp_update_interests P x = Some y \<Longrightarrow> reqs y = reqs x"
  by (cases x) (auto simp: udp_update_interests_def bind_eq_Some_conv Let_def split: if_splits)

lemma udp_send_requests:
  assumes "udp_process_send P S x = Some (r, y)"
  shows "reqs y = reqs x"
proof -
  obtain v z where z: "udp_write S x = Some (v, z)" using assms by (auto simp: udp_process_send_def bind_eq_Some_conv)
  then have "reqs z = reqs x" by (cases x) (auto simp: udp_write_def bind_eq_Some_conv)
  then show ?thesis using assms z by (cases v) (auto simp: udp_process_send_def split: if_split_asm)
qed

lemma udp_receive_requests:
  assumes "udp_process_receive P R x = Some (r, y)"
  shows "reqs y = reqs x"
proof -
  obtain c e where x: "x = (c, e)" by (cases x)
  obtain v z where z: "udp_read P R x = Some (v, z)" using assms by (auto simp: udp_process_receive_def bind_eq_Some_conv)
  obtain u p where "packetize R (uc_network_to_client c) = Some (u, p)"
    using z by (auto simp: x udp_read_def bind_eq_Some_conv)
  then have "reqs z = reqs x"
    using z by (cases u) (auto simp: x udp_read_def bind_eq_Some_conv dest: send_through_requests)
  then show ?thesis using assms z by (cases v) (auto simp: udp_process_receive_def split: if_split_asm)
qed

lemma v6_receive_requests:
  assumes "v6_process_receive P now R x = Some (r, y)" and "poll_works P" and "v6_inv x" and "reader_ok R"
  shows "reqs y = reqs x \<and> (case r of Inl f \<Rightarrow> f = WouldBlock \<and> y = x | Inr _ \<Rightarrow> True)"
proof -
  obtain v z where z: "v6_read P now R x = Some (v, z)" "reqs z = reqs x"
    "case R (p6_room (vc_network_to_client (fst x))) of Inl f \<Rightarrow> v = Inl f \<and> z = x | Inr bs \<Rightarrow> v = Inr ()"
    using v6_read_ok [OF assms(2-4), of now] by (fastforce split: sum.splits)
  then show ?thesis
    using assms(1) by (cases v) (auto simp: v6_process_receive_def split: if_split_asm sum.split_asm)
qed

lemma udp_read_phase_requests:
  assumes "udp_read_phase P R ready x = Some (r, y)"
  shows "reqs y = reqs x \<and> (case r of Inl f \<Rightarrow> f = WouldBlock \<and> \<not> uc_closed (fst y) | Inr _ \<Rightarrow> True)"
  using assms unfolding udp_read_phase_def
proof (cases rule: then_process_cases)
  case (failed f)
  then have m: "\<not> uc_closed (fst x)" "udp_process_receive P R x = Some (Inl f, y)" by (auto split: if_split_asm)
  then obtain v z where z: "udp_read P R x = Some (v, z)" by (auto simp: udp_process_receive_def bind_eq_Some_conv)
  obtain c e where x: "x = (c, e)" by (cases x)
  obtain u p where "packetize R (uc_network_to_client c) = Some (u, p)"
    using z by (auto simp: x udp_read_def bind_eq_Some_conv)
  then have "uc_closed (fst z) = uc_closed (fst x)"
    using z by (cases u) (auto simp: x udp_read_def bind_eq_Some_conv)
  then show ?thesis
    using m z failed udp_receive_requests [OF m(2)] by (cases v) (auto simp: udp_process_receive_def split: if_split_asm)
next
  case (went z)
  then show ?thesis
    by (auto dest!: udp_receive_requests udp_update_requests split: if_split_asm sum.split_asm)
qed

text \<open>What a handler asked for, and whether it closed: the outer shape the three handlers share.\<close>

definition well_asked :: "bool \<Rightarrow> 'c \<times> conn_env \<Rightarrow> 'c \<times> conn_env \<Rightarrow> bool" where
  "well_asked closed x y \<longleftrightarrow> (\<exists>rs. reqs y = reqs x @ rs \<and> (RemoveFromRouter \<in> set rs \<longleftrightarrow> closed))"

lemma tcp_event_requests:
  assumes P: "poll_works P" and inv: "ctx_inv x" and sock: "sock_ok sock" and ev: "event_ok (fst x) ready"
    and op: "\<not> tc_closed (fst x)"
  shows "\<exists>y. tcp_on_ready P now sock ready x = Some y \<and> step_ok x y \<and> well_asked (tc_closed (fst y)) x y
    \<and> (interest_ok (fst x) \<longrightarrow> tc_closed (fst y) \<or> interest_ok (fst y))"
proof -
  obtain r y where y: "tcp_process P now sock ready x = Some (r, y)" "event_done x y"
    "case r of Inl f \<Rightarrow> f = WouldBlock \<and> \<not> tc_closed (fst y) | Inr _ \<Rightarrow> True"
    using tcp_process_ok [OF P inv sock ev] by blast
  let ?m = "if is_readable ready \<or> is_writable ready then tcp_process_ready P sock ready (tcp_touch now x)
    else do { x \<leftarrow> (if state_of (tcp_touch now x) = SynSent \<or> state_of (tcp_touch now x) = SynReceived
        then send_empty_packet_to_client P FLAG_RST (tcp_touch now x) else Some (tcp_touch now x));
      Some (Inr (), tcp_close P x) }"
  have m: "then_process ?m (\<lambda>x. Some (Inr (), if tc_closed (fst x) then tcp_remove_from_router x else x)) = Some (r, y)"
    using y(1) op by (simp add: tcp_process_def Let_def)
  have rq: "reqs z = reqs x \<or> reqs z = reqs x @ [RegisterPendingSource]" if "?m = Some (v, z)" for v z
    using that
    by (cases x) (auto simp: bind_eq_Some_conv tcp_touch_def
        dest!: tcp_process_ready_requests tcp_send_empty_requests split: if_split_asm)
  from m have "well_asked (tc_closed (fst y)) x y"
  proof (cases rule: then_process_cases)
    case (failed f)
    then show ?thesis using y(3) rq [OF failed(1)] by (auto simp: well_asked_def)
  next
    case (went z)
    then show ?thesis using rq [OF went(1)] by (auto simp: well_asked_def tcp_remove_ok split: if_split_asm)
  qed
  then show ?thesis using y by (cases r) (auto simp: tcp_on_ready_def event_done_def)
qed

lemma udp_event_requests:
  assumes P: "poll_works P" and inv: "udp_inv x" and R: "udp_recv_ok (fst x) (uio_recv sock)"
    and ev: "is_writable ready \<longrightarrow> \<not> dg_is_empty (uc_client_to_network (fst x))"
    and op: "\<not> uc_closed (fst x)"
  shows "\<exists>y. udp_on_ready P now sock ready x = Some y \<and> udp_step x y \<and> well_asked (uc_closed (fst y)) x y"
proof -
  obtain r y where y: "udp_process P now sock ready x = Some (r, y)" "udp_step x y"
    "case r of Inl f \<Rightarrow> f = WouldBlock | Inr _ \<Rightarrow> True"
    using udp_process_ok [OF P inv R ev] by (fastforce split: sum.splits)
  let ?m = "if is_readable ready \<or> is_writable ready then
      then_process (if is_writable ready then udp_process_send P (uio_send sock) (udp_touch now x) else Some (Inr (), udp_touch now x))
        (udp_read_phase P (uio_recv sock) ready)
    else Some (Inr (), udp_close P (udp_touch now x))"
  have m: "then_process ?m (\<lambda>x. Some (Inr (), if uc_closed (fst x) then udp_remove_from_router x else x)) = Some (r, y)"
    using y(1) op
    by (simp only: udp_process_def Let_def udp_read_phase_def [abs_def] not_False_eq_True if_True)
  have rq: "reqs z = reqs x \<and> (case v of Inl f \<Rightarrow> \<not> uc_closed (fst z) | Inr _ \<Rightarrow> True)" if z: "?m = Some (v, z)" for v z
  proof (cases "is_readable ready \<or> is_writable ready")
    case True
    then have "then_process (if is_writable ready then udp_process_send P (uio_send sock) (udp_touch now x) else Some (Inr (), udp_touch now x))
        (udp_read_phase P (uio_recv sock) ready) = Some (v, z)" using z by simp
    then show ?thesis
    proof (cases rule: then_process_cases)
      case (failed f)
      have "udp_process_send P (uio_send sock) (udp_touch now x) \<noteq> Some (Inl f, z)"
        by (auto simp: udp_process_send_def bind_eq_Some_conv split: sum.split_asm if_split_asm)
      then show ?thesis using failed(1) by (simp split: if_split_asm)
    next
      case (went u)
      then have "reqs u = reqs x" by (auto dest!: udp_send_requests split: if_split_asm)
      then show ?thesis using udp_read_phase_requests [OF went(2)] by (auto split: sum.splits)
    qed
  qed (use z in auto)
  from m have "well_asked (uc_closed (fst y)) x y"
  proof (cases rule: then_process_cases)
    case (failed f)
    then show ?thesis using rq [OF failed(1)] by (auto simp: well_asked_def)
  next
    case (went z)
    then show ?thesis using rq [OF went(1)] by (auto simp: well_asked_def udp_remove_ok split: if_split_asm)
  qed
  then show ?thesis using y by (cases r) (auto simp: udp_on_ready_def)
qed

lemma v6_event_requests:
  assumes P: "poll_works P" and inv: "v6_inv x" and R: "reader_ok R" and op: "\<not> vc_closed (fst x)"
  shows "\<exists>y. v6_on_ready P now R ready x = Some y \<and> v6_step x y \<and> well_asked (vc_closed (fst y)) x y"
proof -
  obtain y where y: "v6_on_ready P now R ready x = Some y" "v6_step x y"
    using v6_on_ready_ok [OF P inv R] by blast
  obtain r z where z: "v6_process P now R ready x = Some (r, z)" using y(1) by (auto simp: v6_on_ready_def bind_eq_Some_conv)
  then have m: "then_process (if is_readable ready then v6_process_receive P now R x else Some (Inr (), x))
      (\<lambda>x. Some (Inr (), if vc_closed (fst x) then v6_remove_from_router x else x)) = Some (r, z)"
    using op by (simp add: v6_process_def)
  have rq: "reqs u = reqs x \<and> (case v of Inl f \<Rightarrow> f = WouldBlock \<and> u = x | Inr _ \<Rightarrow> True)"
    if "(if is_readable ready then v6_process_receive P now R x else Some (Inr (), x)) = Some (v, u)" for v u
    using that v6_receive_requests [OF _ P inv R] by (auto split: if_split_asm)
  have same: "fst (v6_remove_from_router u) = fst u" for u by (simp add: v6_remove_from_router_def case_prod_beta)
  from m have "well_asked (vc_closed (fst z)) x z \<and> (r = Inr () \<or> r = Inl WouldBlock)"
  proof (cases rule: then_process_cases)
    case (failed f)
    then show ?thesis using rq [OF failed(1)] op by (auto simp: well_asked_def)
  next
    case (went u)
    then show ?thesis using rq [OF went(1)] by (auto simp: well_asked_def same split: if_split_asm)
  qed
  then show ?thesis using y z by (auto simp: v6_on_ready_def)
qed

section \<open>Any connection\<close>

text \<open>The contract of the socket: reads and writes of no more bytes than they were offered.\<close>

fun answers_ok :: "conn_io \<Rightarrow> connection \<Rightarrow> bool" where
  "answers_ok io (TcpConn c) \<longleftrightarrow> sock_ok (cn_tcp io)"
| "answers_ok io (UdpConn c) \<longleftrightarrow> reader_ok (uio_recv (cn_udp io))"
| "answers_ok io (V6Conn c) \<longleftrightarrow> reader_ok (cn_read io)"

text \<open>
  The events that the handlers are not made for, each of which can panic: for TCP, a readable event
  that the connection no longer asks for (\<open>tcp_stale_read_panics\<close>), and one both readable and
  writable while a FIN of the client waits for the buffer to drain (\<open>tcp_fin_read_panics\<close>); for UDP, a
  writable event without a datagram (\<open>udp_writable_empty_panics\<close>), and a datagram that fills the whole
  buffer (\<open>udp_full_datagram_panics\<close>).
\<close>

fun unhandled :: "conn_io \<Rightarrow> ready \<Rightarrow> connection \<Rightarrow> bool" where
  "unhandled io ready (TcpConn c) \<longleftrightarrow> is_readable ready \<and> \<not> may_read c
     \<or> is_readable ready \<and> is_writable ready \<and> tcb_fin_received (tc_tcb c)"
| "unhandled io ready (UdpConn c) \<longleftrightarrow> is_writable ready \<and> dg_is_empty (uc_client_to_network c)
     \<or> (case uio_recv (cn_udp io) (pk_room (uc_network_to_client c)) of
          Inl e \<Rightarrow> False | Inr bs \<Rightarrow> length bs = pk_room (uc_network_to_client c))"
| "unhandled io ready (V6Conn c) \<longleftrightarrow> False"

definition ready_ok :: "conn_io \<Rightarrow> ready \<Rightarrow> connection \<Rightarrow> bool" where
  "ready_ok io ready c \<longleftrightarrow> answers_ok io c \<and> \<not> unhandled io ready c"

lemma ready_ok_simps [simp]:
  "ready_ok io ready (TcpConn c) \<longleftrightarrow> sock_ok (cn_tcp io) \<and> event_ok c ready"
  "ready_ok io ready (UdpConn u) \<longleftrightarrow> udp_recv_ok u (uio_recv (cn_udp io))
     \<and> (is_writable ready \<longrightarrow> \<not> dg_is_empty (uc_client_to_network u))"
  "ready_ok io ready (V6Conn v) \<longleftrightarrow> reader_ok (cn_read io)"
  by (auto simp: ready_ok_def event_ok_def udp_recv_ok_def reader_ok_def le_less split: sum.splits)

lemma env_step_forget:
  "env_ok e' \<Longrightarrow> ch_frame (en_channel e) (en_channel e') \<Longrightarrow>
    (\<forall>u. live_token (en_selector e) u \<and> u \<noteq> t \<longrightarrow> live_token (en_selector e') u) \<Longrightarrow>
    env_step t e (e'\<lparr>en_requests := en_requests e\<rparr>)"
  by (simp add: env_step_def env_ok_def)

lemma conn_on_ready_ok:
  assumes P: "poll_works (cn_poll io)" and own: "conn_own c" and e: "env_ok e" "en_requests e = []"
    and op: "\<not> conn_closed c" and live: "live_token (en_selector e) (conn_token c)" and ready: "ready_ok io ready c"
  shows "\<exists>c' e'. conn_on_ready io ready (c, e) = Some (c', e') \<and> conn_own c' \<and> conn_id c' = conn_id c
    \<and> conn_token c' = conn_token c \<and> env_step (conn_token c) e (e'\<lparr>en_requests := []\<rparr>)
    \<and> (\<not> conn_closed c' \<longrightarrow> live_token (en_selector e') (conn_token c))
    \<and> (RemoveFromRouter \<in> set (en_requests e') \<longleftrightarrow> conn_closed c')"
proof (cases c)
  case (TcpConn t)
  have inv: "ctx_inv (t, e)" using TcpConn own e(1) op live by (simp add: ctx_inv_env tcp_own_def)
  obtain t' e' where y: "tcp_on_ready (cn_poll io) (cn_now io) (cn_tcp io) ready (t, e) = Some (t', e')"
    "step_ok (t, e) (t', e')" "well_asked (tc_closed t') (t, e) (t', e')"
    using tcp_event_requests [OF P inv, where now = "cn_now io" and sock = "cn_tcp io" and ready = ready] ready op TcpConn by auto
  have "env_ok e'" "ch_frame (en_channel e) (en_channel e')" "tcp_own t'" "tc_id t' = tc_id t" "tc_token t' = tc_token t"
    "\<forall>u. live_token (en_selector e) u \<and> u \<noteq> tc_token t \<longrightarrow> live_token (en_selector e') u"
    "\<not> tc_closed t' \<longrightarrow> live_token (en_selector e') (tc_token t)"
    using y(2) own TcpConn by (auto simp: step_ok_def tcp_frame_def ctx_inv_env tcp_own_def)
  then show ?thesis
    using y(1,3) e(2) env_step_forget [of e' e "tc_token t"] TcpConn by (simp add: well_asked_def)
next
  case (UdpConn u)
  have inv: "udp_inv (u, e)" using UdpConn own e(1) op live by (simp add: udp_inv_env udp_own_def)
  obtain u' e' where y: "udp_on_ready (cn_poll io) (cn_now io) (cn_udp io) ready (u, e) = Some (u', e')"
    "udp_step (u, e) (u', e')" "well_asked (uc_closed u') (u, e) (u', e')"
    using udp_event_requests [OF P inv, where now = "cn_now io" and sock = "cn_udp io" and ready = ready] ready op UdpConn by auto
  have "env_ok e'" "ch_frame (en_channel e) (en_channel e')" "udp_own u'" "uc_id u' = uc_id u" "uc_token u' = uc_token u"
    "\<forall>t. live_token (en_selector e) t \<and> t \<noteq> uc_token u \<longrightarrow> live_token (en_selector e') t"
    "\<not> uc_closed u' \<longrightarrow> live_token (en_selector e') (uc_token u)"
    using y(2) own UdpConn by (auto simp: udp_step_def udp_inv_env udp_own_def)
  then show ?thesis
    using y(1,3) e(2) env_step_forget [of e' e "uc_token u"] UdpConn by (simp add: well_asked_def)
next
  case (V6Conn v)
  have inv: "v6_inv (v, e)" using V6Conn own e(1) op live by (simp add: v6_inv_env v6_own_def)
  obtain v' e' where y: "v6_on_ready (cn_poll io) (cn_now io) (cn_read io) ready (v, e) = Some (v', e')"
    "v6_step (v, e) (v', e')" "well_asked (vc_closed v') (v, e) (v', e')"
    using v6_event_requests [OF P inv, where now = "cn_now io" and R = "cn_read io" and ready = ready] ready op V6Conn by auto
  have "env_ok e'" "ch_frame (en_channel e) (en_channel e')" "v6_own v'" "vc_id v' = vc_id v" "vc_token v' = vc_token v"
    "\<forall>t. live_token (en_selector e) t \<and> t \<noteq> vc_token v \<longrightarrow> live_token (en_selector e') t"
    "\<not> vc_closed v' \<longrightarrow> live_token (en_selector e') (vc_token v)"
    using y(2) own V6Conn by (auto simp: v6_step_def v6_inv_env v6_own_def)
  then show ?thesis
    using y(1,3) e(2) env_step_forget [of e' e "vc_token v"] V6Conn by (simp add: well_asked_def)
qed

section \<open>The event inside its client\<close>

lemma serve_requests:
  "\<exists>n. fold (serve_request r cid) rs c = c\<lparr>
     cl_routes := (if RemoveFromRouter \<in> set rs then (cl_routes c)(cid := None) else cl_routes c),
     cl_pending_packet_sources := cl_pending_packet_sources c @ replicate n r\<rparr>"
proof (induction rs arbitrary: c)
  case Nil
  show ?case by (rule exI [of _ 0]) simp
next
  case (Cons q rs)
  obtain n where n: "fold (serve_request r cid) rs (serve_request r cid q c) = (serve_request r cid q c)\<lparr>
     cl_routes := (if RemoveFromRouter \<in> set rs then (cl_routes (serve_request r cid q c))(cid := None)
       else cl_routes (serve_request r cid q c)),
     cl_pending_packet_sources := cl_pending_packet_sources (serve_request r cid q c) @ replicate n r\<rparr>"
    using Cons.IH by blast
  show ?case
  proof (cases q)
    case RegisterPendingSource
    then show ?thesis using n by (intro exI [of _ "Suc n"]) simp
  next
    case RemoveFromRouter
    then show ?thesis using n by (intro exI [of _ n]) (simp add: router_remove_def fun_upd_def cong: if_cong)
  qed
qed

text \<open>
  One event on one connection: whatever the socket did, the client keeps its invariant, and a
  connection that closed has left the router.
\<close>

lemma conn_event_ok:
  assumes P: "poll_works (cn_poll io)" and w: "client_inv w" and op: "\<not> cl_closed (cw_client w)"
    and r: "cl_routes (cw_client w) cid = Some r" "st_conns (cw_store w) r = Some c" and ready: "ready_ok io ready c"
  shows "\<exists>w' c'. conn_event io ready r w = Some w' \<and> client_inv w' \<and> client_step w w' \<and> \<not> cl_closed (cw_client w')
    \<and> cl_input w' = cl_input w
    \<and> st_conns (cw_store w') r = Some c' \<and> conn_id c' = cid
    \<and> cl_routes (cw_client w') cid = (if conn_closed c' then None else Some r)"
proof -
  have inv: "router_inv (cl_routes (cw_client w), cw_store w, client_env w)" using w by (rule client_router_inv)
  have c: "routed_ok (client_env w) cid c" using router_invD(3) [OF inv r(1)] r(2) by auto
  obtain c' e' where y: "conn_on_ready io ready (c, client_env w) = Some (c', e')" "conn_own c'" "conn_id c' = cid"
    "conn_token c' = conn_token c" "env_step (conn_token c) (client_env w) (e'\<lparr>en_requests := []\<rparr>)"
    "\<not> conn_closed c' \<longrightarrow> live_token (en_selector e') (conn_token c)"
    "RemoveFromRouter \<in> set (en_requests e') \<longleftrightarrow> conn_closed c'"
    using conn_on_ready_ok [OF P _ router_invD(1) [OF inv], of c ready] c ready by (auto simp: routed_ok_def)
  let ?e = "e'\<lparr>en_requests := []\<rparr>" and ?st = "store_put r c' (cw_store w)"
  let ?rt = "if conn_closed c' then (cl_routes (cw_client w))(cid := None) else cl_routes (cw_client w)"
  obtain n where n: "fold (serve_request r cid) (en_requests e') (cw_client (put_env e' (w\<lparr>cw_store := ?st\<rparr>))) =
      (cw_client (put_env e' (w\<lparr>cw_store := ?st\<rparr>)))\<lparr>cl_routes := ?rt,
        cl_pending_packet_sources := cl_pending_packet_sources (cw_client w) @ replicate n r\<rparr>"
    using serve_requests [of r cid "en_requests e'" "cw_client (put_env e' (w\<lparr>cw_store := ?st\<rparr>))"] y(7) by auto
  let ?w = "on_client (fold (serve_request r cid) (en_requests e')) (put_env e' (w\<lparr>cw_store := ?st\<rparr>))"
  have cl: "cw_client ?w = (cw_client w)\<lparr>cl_channel := en_channel e', cl_routes := ?rt,
      cl_pending_packet_sources := cl_pending_packet_sources (cw_client w) @ replicate n r\<rparr>"
    using n by simp
  have r': "client_router ?w = (?rt, ?st, ?e)"
    unfolding client_router_def client_env_def cl by simp
  have "router_inv (client_router ?w)"
    unfolding r' by (rule router_inv_update [OF inv r y(5)]) (use y in \<open>simp add: routed_ok_def\<close>)
  moreover have "router_step (client_router w) (client_router ?w)"
    unfolding r' client_router_def [of w] by (rule router_step_update [OF inv r y(5)]) (use y(4) in simp)
  moreover have "\<not> cl_closed (cw_client ?w)" "bb_inv (cl_input ?w)" "length (bb_buf (cl_input ?w)) = MAX_IP_PACKET_LENGTH"
    "cl_id (cw_client ?w) = cl_id (cw_client w)" "cl_pending_id_bytes (cw_client ?w) \<le> 4"
    unfolding cl using op w by (simp_all add: client_inv_def)
  ultimately have i: "client_inv ?w \<and> client_step w ?w" using op by (intro client_by_router [OF w]) simp_all
  have run: "conn_event io ready r w = Some ?w" using r(2) y(1,3) by (simp add: conn_event_def)
  have "\<not> cl_closed (cw_client ?w)" "cl_input ?w = cl_input w" "cl_routes (cw_client ?w) cid = (if conn_closed c' then None else Some r)"
    unfolding cl using op r(1) by simp_all
  then show ?thesis using run i y(3) by (intro exI [of _ ?w] exI [of _ c']) (simp add: store_put_def)
qed

text \<open>A stale event of a connection that closed earlier in the batch changes nothing.\<close>

lemma conn_event_closed:
  assumes "st_conns (cw_store w) r = Some c" and "conn_closed c"
  shows "conn_event io ready r w = Some w"
proof -
  have e: "conn_on_ready io ready (c, client_env w) = Some (c, client_env w)"
    using assms(2) by (cases c) (simp_all add: tcp_on_ready_def tcp_process_def udp_on_ready_def udp_process_def
        v6_on_ready_def v6_process_def)
  have st: "store_put r c (cw_store w) = cw_store w"
    using assms(1) by (simp add: store_put_def fun_upd_idem)
  show ?thesis using assms(1) e by (simp add: conn_event_def st put_env_def on_client_def)
qed

end
