(* ===== verification/Tunnel_Server.thy ===== *)
theory Tunnel_Server
  imports Conn_Event
begin

text \<open>
  \<open>relay/tunnel_server.rs\<close>: the listener and the list of clients, with the shared store in which
  the clients and connections live, and the dispatch of an event to the object its token names.
\<close>

section \<open>State\<close>

text \<open>An \<open>Rc<RefCell<Client>>\<close> is a reference into the store of clients.\<close>

record tunnel_server =
  ts_clients :: "nat list"
  ts_tcp_listener :: nat
  ts_next_client_id :: u32

text \<open>\<open>rw_owner\<close> is the \<open>client\<close> field of every connection, a weak reference.\<close>

record relay_world =
  rw_server :: tunnel_server
  rw_clients :: "nat \<rightharpoonup> client"
  rw_next :: nat
  rw_store :: conn_store
  rw_owner :: "nat \<rightharpoonup> nat"

type_synonym relay_ctx = "relay_world \<times> selector"

section \<open>Operations\<close>

text \<open>\<open>inherited\<close> is \<open>root_listener::inherited\<close>, \<open>bind_to\<close> is \<open>TcpListener::bind\<close>.\<close>

definition start_socket :: "(u16 \<Rightarrow> nat option io_result) \<Rightarrow> (socket_addr \<Rightarrow> nat io_result) \<Rightarrow> u16 \<Rightarrow> nat io_result" where
  "start_socket inherited bind_to port = (case inherited port of
     Inl e \<Rightarrow> Inl e
   | Inr (Some listener) \<Rightarrow> Inr listener
   | Inr None \<Rightarrow>
       let localhost = (127, 0, 0, 1);
           addr = SocketV4 localhost port
       in bind_to addr)"

definition tunnel_server_create :: "poll \<Rightarrow> ((nat \<rightharpoonup> handler) \<Rightarrow> nat) \<Rightarrow> (u16 \<Rightarrow> nat option io_result)
    \<Rightarrow> (socket_addr \<Rightarrow> nat io_result) \<Rightarrow> u16 \<Rightarrow> selector \<Rightarrow> (relay_world io_result \<times> selector) option" where
  "tunnel_server_create P vacant inherited bind_to port s = (case start_socket inherited bind_to port of
     Inl e \<Rightarrow> Some (Inl e, s)
   | Inr tcp_listener \<Rightarrow> do {
       (r, s) \<leftarrow> selector_register P vacant tcp_listener ServerHandler ready_readable s;
       case r of
         Inl e \<Rightarrow> Some (Inl e, s)
       | Inr _ \<Rightarrow> Some (Inr \<lparr>rw_server = \<lparr>ts_clients = [], ts_tcp_listener = tcp_listener, ts_next_client_id = 0\<rparr>,
           rw_clients = Map.empty, rw_next = 0, rw_store = \<lparr>st_conns = Map.empty, st_next = 0\<rparr>,
           rw_owner = Map.empty\<rparr>, s) })"

text \<open>\<open>Vec::swap_remove\<close>: the last element takes the place of the removed one.\<close>

definition swap_remove :: "nat \<Rightarrow> 'a list \<Rightarrow> 'a list" where
  "swap_remove i xs = butlast (xs[i := last xs])"

primrec position :: "'a \<Rightarrow> 'a list \<Rightarrow> nat option" where
  "position x [] = None"
| "position x (y # ys) = (if x = y then Some 0 else map_option Suc (position x ys))"

text \<open>The \<open>expect\<close> panics for a client that is not in the list.\<close>

definition remove_client :: "nat \<Rightarrow> tunnel_server \<Rightarrow> tunnel_server option" where
  "remove_client k server = do {
     index \<leftarrow> position k (ts_clients server);
     Some (server\<lparr>ts_clients := swap_remove index (ts_clients server)\<rparr>) }"

text \<open>The id is taken before the client is created, so a failed creation uses it up.\<close>

definition accept_client :: "poll \<Rightarrow> ((nat \<rightharpoonup> handler) \<Rightarrow> nat) \<Rightarrow> nat io_result \<Rightarrow> relay_ctx
    \<Rightarrow> (unit io_result \<times> relay_ctx) option" where
  "accept_client P vacant accepted = (\<lambda>(rw, s). case accepted of
     Inl e \<Rightarrow> Some (Inl e, rw, s)
   | Inr stream \<Rightarrow> do {
       let server = rw_server rw;
       let client_id = ts_next_client_id server;
       let server = server\<lparr>ts_next_client_id := client_id + 1\<rparr>;
       (r, s) \<leftarrow> client_create P vacant (rw_next rw) client_id stream s;
       case r of
         Inl e \<Rightarrow> Some (Inl e, rw\<lparr>rw_server := server\<rparr>, s)
       | Inr client \<Rightarrow> Some (Inr (), rw\<lparr>
           rw_server := server\<lparr>ts_clients := ts_clients server @ [rw_next rw]\<rparr>,
           rw_clients := (rw_clients rw)(rw_next rw \<mapsto> client), rw_next := rw_next rw + 1\<rparr>, s) })"

text \<open>
  \<open>on_ready\<close> accepts until an error; the list holds what the calls of \<open>accept\<close> return, and at its
  end the queue is empty, which is \<open>WouldBlock\<close>.
\<close>

fun server_on_ready :: "poll \<Rightarrow> ((nat \<rightharpoonup> handler) \<Rightarrow> nat) \<Rightarrow> nat io_result list \<Rightarrow> relay_ctx \<Rightarrow> relay_ctx option" where
  "server_on_ready P vacant [] x = Some x"
| "server_on_ready P vacant (accepted # rest) x = do {
     (r, x) \<leftarrow> accept_client P vacant accepted x;
     case r of
       Inr _ \<Rightarrow> server_on_ready P vacant rest x
     | Inl _ \<Rightarrow> Some x }"

section \<open>A client in the world\<close>

definition client_world_of :: "nat \<Rightarrow> relay_ctx \<Rightarrow> client_world option" where
  "client_world_of k = (\<lambda>(rw, s). map_option (\<lambda>c.
     \<lparr>cw_client = c, cw_store = rw_store rw, cw_selector = s, cw_on_closed = 0\<rparr>) (rw_clients rw k))"

text \<open>New connections belong to this client; the close listener, if called, removes it from the server.\<close>

definition put_client :: "nat \<Rightarrow> client_world \<Rightarrow> relay_ctx \<Rightarrow> relay_ctx option" where
  "put_client k w = (\<lambda>(rw, s). do {
     server \<leftarrow> (if cw_on_closed w = 0 then Some (rw_server rw) else remove_client k (rw_server rw));
     Some (rw\<lparr>rw_server := server, rw_clients := (rw_clients rw)(k \<mapsto> cw_client w), rw_store := cw_store w,
       rw_owner := (\<lambda>r. if st_next (rw_store rw) \<le> r \<and> r < st_next (cw_store w) then Some k else rw_owner rw r)\<rparr>,
       cw_selector w) })"

definition in_client :: "nat \<Rightarrow> (client_world \<Rightarrow> client_world option) \<Rightarrow> relay_ctx \<Rightarrow> relay_ctx option" where
  "in_client k f x = do {
     w \<leftarrow> client_world_of k x;
     w \<leftarrow> f w;
     put_client k w x }"

fun clean_up_clients :: "poll \<Rightarrow> (routes \<Rightarrow> connection_id list) \<Rightarrow> nat \<Rightarrow> nat list \<Rightarrow> relay_ctx \<Rightarrow> relay_ctx option" where
  "clean_up_clients P walk now [] x = Some x"
| "clean_up_clients P walk now (k # ks) x = do {
     x \<leftarrow> in_client k (client_clean_expired P walk now) x;
     clean_up_clients P walk now ks x }"

definition clean_up :: "poll \<Rightarrow> (routes \<Rightarrow> connection_id list) \<Rightarrow> nat \<Rightarrow> relay_ctx \<Rightarrow> relay_ctx option" where
  "clean_up P walk now x = clean_up_clients P walk now (ts_clients (rw_server (fst x))) x"

section \<open>Dispatch\<close>

text \<open>The answers of the system to the handler of one event.\<close>

record event_io =
  ei_poll :: poll
  ei_vacant :: "(nat \<rightharpoonup> handler) \<Rightarrow> nat"
  ei_accepted :: "nat io_result list"
  ei_client :: client_io
  ei_conn :: conn_io

fun dispatch :: "(handler \<Rightarrow> event_io) \<Rightarrow> handler \<Rightarrow> ready \<Rightarrow> relay_ctx \<Rightarrow> relay_ctx option" where
  "dispatch io ServerHandler ready x = server_on_ready (ei_poll (io ServerHandler)) (ei_vacant (io ServerHandler))
     (ei_accepted (io ServerHandler)) x"
| "dispatch io (ClientHandler k) ready x = in_client k (client_on_ready (ei_client (io (ClientHandler k))) ready) x"
| "dispatch io (ConnectionHandler r) ready x = do {
     k \<leftarrow> rw_owner (fst x) r;
     in_client k (conn_event (ei_conn (io (ConnectionHandler r))) ready r) x }"

end
