(* ===== verification/Server_Facts.thy ===== *)
theory Server_Facts
  imports Tunnel_Server "HOL-Library.Multiset"
begin

text \<open>
  Clients side by side: they share the selector and the store of connections, and what one of them
  does leaves every other client, its routes, its connections and their tokens as they were.
\<close>

section \<open>Isolation\<close>

text \<open>Two clients that share nothing: neither tokens nor connections.\<close>

definition apart :: "client_world \<Rightarrow> client_world \<Rightarrow> bool" where
  "apart v w \<longleftrightarrow> cl_token v \<noteq> cl_token w
     \<and> outside (cl_token v) (client_router w) \<and> outside (cl_token w) (client_router v)
     \<and> ran (cl_routes (cw_client v)) \<inter> ran (cl_routes (cw_client w)) = {}
     \<and> (\<forall>r c. r \<in> ran (cl_routes (cw_client v)) \<and> st_conns (cw_store v) r = Some c \<longrightarrow>
          outside (conn_token c) (client_router w))"

definition beside :: "client_world \<Rightarrow> client_world \<Rightarrow> client_world" where
  "beside v w = v\<lparr>cw_store := cw_store w, cw_selector := cw_selector w\<rparr>"

definition shares :: "client_world \<Rightarrow> client_world \<Rightarrow> bool" where
  "shares v w \<longleftrightarrow> cw_store v = cw_store w \<and> cw_selector v = cw_selector w"

lemma beside_shares: "shares v w \<Longrightarrow> beside v w = v"
  by (simp add: beside_def shares_def)

text \<open>An open client's routed connections are live, owned, and its own.\<close>

lemma routed_conn:
  assumes "client_inv w" and "r \<in> ran (cl_routes (cw_client w))"
  shows "\<exists>cid c. cl_routes (cw_client w) cid = Some r \<and> st_conns (cw_store w) r = Some c
    \<and> routed_ok (client_env w) cid c \<and> r < st_next (cw_store w)"
proof -
  obtain cid where cid: "cl_routes (cw_client w) cid = Some r" using assms(2) by (auto simp: ran_def)
  note I = router_invD [OF client_router_inv [OF assms(1)]]
  obtain c where c: "st_conns (cw_store w) r = Some c" "routed_ok (client_env w) cid c" using I(3) [OF cid] by blast
  then show ?thesis using cid I(4) by blast
qed

lemma apart_sym:
  assumes "apart v w" and "shares v w" and w: "client_inv w"
  shows "apart w v"
proof -
  have "outside (conn_token c) (client_router v)"
    if c: "r \<in> ran (cl_routes (cw_client w))" "st_conns (cw_store w) r = Some c" for r c
  proof -
    have live: "live_token (cw_selector w) (conn_token c)" using routed_conn [OF w c(1)] c(2) by (auto simp: routed_ok_def)
    obtain cid where cid: "cl_routes (cw_client w) cid = Some r" using c(1) by (auto simp: ran_def)
    have "conn_token d \<noteq> conn_token c" if d: "cl_routes (cw_client v) cid' = Some r'" "st_conns (cw_store v) r' = Some d" for cid' r' d
    proof -
      have "r' \<in> ran (cl_routes (cw_client v))" using d(1) by (rule ranI)
      then have "outside (conn_token d) (client_router w)" using assms(1) d(2) unfolding apart_def by blast
      then show ?thesis using cid c(2) unfolding outside_def client_router_def prod.case by metis
    qed
    then show ?thesis using live assms(2) by (auto simp: outside_def client_router_def shares_def)
  qed
  then show ?thesis using assms(1) by (auto simp: apart_def)
qed

text \<open>The step of one client, seen from another.\<close>

lemma seen_from:
  assumes v: "client_inv v" and w: "client_step w w'" and sh: "shares v w" and ap: "apart v w"
  shows "r \<in> ran (cl_routes (cw_client v)) \<Longrightarrow>
      st_conns (cw_store w') r = st_conns (cw_store v) r \<and> r \<notin> ran (cl_routes (cw_client w'))"
    and "r \<in> ran (cl_routes (cw_client v)) \<Longrightarrow> st_conns (cw_store v) r = Some c \<Longrightarrow>
      outside (conn_token c) (client_router w')"
    and "outside (cl_token v) (client_router w')"
    and "live_token (cw_selector w') t \<Longrightarrow> outside t (client_router v) \<Longrightarrow> outside t (client_router (beside v w'))"
proof -
  let ?rt = "cl_routes (cw_client v)"
  have eq: "cw_store v = cw_store w" using sh by (simp add: shares_def)
  show kept: "st_conns (cw_store w') r = st_conns (cw_store v) r \<and> r \<notin> ran (cl_routes (cw_client w'))"
    if "r \<in> ran ?rt" for r
  proof -
    have "r < st_next (cw_store w)" "r \<notin> ran (cl_routes (cw_client w))"
      using routed_conn [OF v that] ap that eq by (auto simp: apart_def)
    then show ?thesis using w eq by (simp add: client_step_def)
  qed
  show "outside (conn_token c) (client_router w')" if c: "r \<in> ran ?rt" "st_conns (cw_store v) r = Some c"
  proof -
    have "conn_token c \<noteq> cl_token w" using ap c by (auto simp: apart_def outside_def client_router_def ran_def)
    moreover have "outside (conn_token c) (client_router w)" using ap c unfolding apart_def by blast
    ultimately show ?thesis using w by (simp add: client_step_def)
  qed
  show "outside (cl_token v) (client_router w')" using ap w by (auto simp: apart_def client_step_def)
  have V: "cw_client (beside v w') = cw_client v" "cw_store (beside v w') = cw_store w'"
    "cw_selector (beside v w') = cw_selector w'" by (simp_all add: beside_def)
  show "outside t (client_router (beside v w'))"
    if l: "live_token (cw_selector w') t" and o: "outside t (client_router v)"
  proof -
    have "conn_token c \<noteq> t" if "?rt cid = Some r" "st_conns (cw_store w') r = Some c" for cid r c
    proof -
      have "r \<in> ran ?rt" using that(1) by (rule ranI)
      then have "st_conns (cw_store v) r = Some c" using kept that(2) by simp
      then show ?thesis using o that(1) unfolding outside_def client_router_def prod.case by blast
    qed
    then show ?thesis using l unfolding outside_def client_router_def prod.case V client_env_simps by blast
  qed
qed

lemma outside_live: "outside t (client_router w) \<Longrightarrow> live_token (cw_selector w) t"
  by (simp add: outside_def client_router_def)

lemma beside_simps [simp]:
  "cw_client (beside v w) = cw_client v" "cw_store (beside v w) = cw_store w" "cw_selector (beside v w) = cw_selector w"
  by (simp_all add: beside_def)

lemma client_isolated:
  assumes v: "client_inv v" "\<not> cl_closed (cw_client v)" and w: "client_inv w'" "client_step w w'"
    and sh: "shares v w" and ap: "apart v w"
  shows "client_inv (beside v w') \<and> (\<not> cl_closed (cw_client w') \<longrightarrow> apart (beside v w') w')"
proof -
  let ?v = "beside v w'" and ?rt = "cl_routes (cw_client v)"
  note S = seen_from [OF v(1) w(2) sh ap]
  note I = router_invD [OF client_router_inv [OF v(1)]]
  have conns: "st_conns (cw_store w') r = st_conns (cw_store v) r" if "?rt cid = Some r" for cid r
    using S(1) that by (metis ranI)
  have "router_inv (?rt, cw_store w', client_env ?v)"
  proof (rule router_invI)
    show "env_ok (client_env ?v)"
      using client_sel_inv [OF v(1)] client_sel_inv [OF w(1)] by (simp add: env_ok_def)
    show "finite (dom ?rt)" by (rule I(2))
    show "\<exists>c. st_conns (cw_store w') r = Some c \<and> routed_ok (client_env ?v) cid c" if "?rt cid = Some r" for cid r
    proof -
      obtain c where c: "st_conns (cw_store v) r = Some c" "routed_ok (client_env v) cid c" using I(3) [OF \<open>?rt cid = Some r\<close>] by blast
      have "r \<in> ran ?rt" using that by (rule ranI)
      then have "live_token (cw_selector w') (conn_token c)" using outside_live S(2) c(1) by blast
      then show ?thesis using c conns [OF that] by (simp add: routed_ok_def)
    qed
    show "r < st_next (cw_store w')" if "r \<in> dom (st_conns (cw_store w'))" for r
      using router_invD(4) [OF client_router_inv [OF w(1)]] that by blast
    show "conn_token c \<noteq> conn_token c'" if "?rt cid = Some r" "?rt cid' = Some r'" "cid \<noteq> cid'"
      "st_conns (cw_store w') r = Some c" "st_conns (cw_store w') r' = Some c'" for cid cid' r r' c c'
      using I(5) [OF that(1-3)] that conns by simp
  qed
  moreover have vt: "live_token (cw_selector w') (cl_token v)" using S(3) by (rule outside_live)
  moreover have "outside (cl_token v) (client_router v)" using v by (simp add: client_inv_def)
  ultimately have "client_inv ?v"
    using v(1) S(4) [OF vt] v(2) by (simp add: client_inv_def client_router_def)
  moreover have "apart ?v w'" if op: "\<not> cl_closed (cw_client w')"
  proof -
    have t: "cl_token w' = cl_token w" using w(2) by (simp add: client_step_def ch_frame_def)
    have "live_token (cw_selector w') (cl_token w')" using w(1) op outside_live by (simp add: client_inv_def)
    then have "outside (cl_token w') (client_router ?v)" using S(4) ap t by (simp add: apart_def)
    moreover have "ran ?rt \<inter> ran (cl_routes (cw_client w')) = {}" using S(1) by blast
    moreover have "\<forall>r c. r \<in> ran ?rt \<and> st_conns (cw_store w') r = Some c \<longrightarrow> outside (conn_token c) (client_router w')"
    proof (intro allI impI, elim conjE)
      fix r c assume c: "r \<in> ran ?rt" "st_conns (cw_store w') r = Some c"
      then show "outside (conn_token c) (client_router w')" using S(1) [OF c(1)] S(2) [OF c(1)] by simp
    qed
    ultimately show ?thesis using ap t S(3) by (simp add: apart_def)
  qed
  ultimately show ?thesis by blast
qed

lemma apart_beside:
  assumes a: "apart v u" and vu: "client_inv v" "client_inv u" and w: "client_step w w'"
    and sh: "shares v w" "shares u w" and ap: "apart v w" "apart u w"
  shows "apart (beside v w') (beside u w')"
proof -
  note V = seen_from [OF vu(1) w sh(1) ap(1)] and U = seen_from [OF vu(2) w sh(2) ap(2)]
  have "outside (cl_token v) (client_router (beside u w'))" "outside (cl_token u) (client_router (beside v w'))"
    using U(4) [OF outside_live [OF V(3)]] V(4) [OF outside_live [OF U(3)]] a by (simp_all add: apart_def)
  moreover have "\<forall>r c. r \<in> ran (cl_routes (cw_client v)) \<and> st_conns (cw_store w') r = Some c
      \<longrightarrow> outside (conn_token c) (client_router (beside u w'))"
  proof (intro allI impI, elim conjE)
    fix r c assume c: "r \<in> ran (cl_routes (cw_client v))" "st_conns (cw_store w') r = Some c"
    have c': "st_conns (cw_store v) r = Some c" using V(1) [OF c(1)] c(2) by simp
    have "outside (conn_token c) (client_router u)" using a c(1) c' unfolding apart_def by blast
    then show "outside (conn_token c) (client_router (beside u w'))"
      using U(4) [OF outside_live [OF V(2) [OF c(1) c']]] by blast
  qed
  ultimately show ?thesis using a by (simp add: apart_def)
qed

section \<open>The list of clients\<close>

lemma position_Some: "position x xs = Some i \<Longrightarrow> i < length xs \<and> xs ! i = x"
  by (induction xs arbitrary: i) (auto split: if_splits)

lemma position_None: "position x xs = None \<longleftrightarrow> x \<notin> set xs"
  by (induction xs) auto

lemma mset_swap_remove:
  assumes "i < length xs"
  shows "mset (swap_remove i xs) = mset xs - {#xs ! i#}"
proof -
  let ?ys = "xs[i := last xs]"
  have ne: "xs \<noteq> []" "?ys \<noteq> []" using assms by auto
  have "last ?ys = last xs" using ne(1) by (simp add: last_list_update)
  then have "?ys = butlast ?ys @ [last xs]" using append_butlast_last_id [OF ne(2)] by simp
  then have "mset ?ys = add_mset (last xs) (mset (butlast ?ys))" by (metis mset_append add_mset_add_single mset_single_iff)
  moreover have "mset ?ys = add_mset (last xs) (mset xs - {#xs ! i#})" using assms by (simp add: mset_update)
  ultimately show ?thesis by (simp add: swap_remove_def)
qed

text \<open>\<open>remove_client\<close> takes out exactly the client, and panics on any other.\<close>

lemma remove_client_ok:
  assumes "distinct (ts_clients server)"
  shows "if k \<in> set (ts_clients server)
    then \<exists>server'. remove_client k server = Some server' \<and> distinct (ts_clients server')
      \<and> set (ts_clients server') = set (ts_clients server) - {k}
      \<and> ts_next_client_id server' = ts_next_client_id server
      \<and> length (ts_clients server') = length (ts_clients server) - 1
    else remove_client k server = None"
proof (cases "position k (ts_clients server)")
  case None
  then show ?thesis using position_None by (fastforce simp: remove_client_def)
next
  case (Some i)
  let ?xs = "ts_clients server"
  note i = position_Some [OF Some]
  have m: "mset (swap_remove i ?xs) = mset ?xs - {#k#}" using mset_swap_remove i by blast
  then have e: "mset (swap_remove i ?xs) = mset (remove1 k ?xs)" by simp
  have "distinct (swap_remove i ?xs)"
    using mset_eq_imp_distinct_iff [OF e] assms by simp
  moreover have "set (swap_remove i ?xs) = set ?xs - {k}"
    using mset_eq_setD [OF e] assms by simp
  moreover have "length (swap_remove i ?xs) = length ?xs - 1" by (simp add: swap_remove_def)
  moreover have "k \<in> set ?xs" using i by (metis nth_mem)
  ultimately show ?thesis using Some by (auto simp: remove_client_def)
qed

section \<open>The server\<close>

text \<open>Every client in the list is open and well-formed, and no two of them share anything.\<close>

definition open_client :: "relay_ctx \<Rightarrow> nat \<Rightarrow> client_world \<Rightarrow> bool" where
  "open_client x k w \<longleftrightarrow> client_world_of k x = Some w \<and> client_inv w \<and> \<not> cl_closed (cw_client w)"

definition server_inv :: "relay_ctx \<Rightarrow> bool" where
  "server_inv x \<longleftrightarrow> distinct (ts_clients (rw_server (fst x))) \<and> sel_inv (snd x)
     \<and> (\<forall>r \<in> dom (st_conns (rw_store (fst x))). r < st_next (rw_store (fst x)))
     \<and> (\<forall>k \<in> dom (rw_clients (fst x)). k < rw_next (fst x))
     \<and> (\<forall>k \<in> set (ts_clients (rw_server (fst x))). \<exists>w. open_client x k w)
     \<and> (\<forall>j k v w. j \<in> set (ts_clients (rw_server (fst x))) \<and> k \<in> set (ts_clients (rw_server (fst x))) \<and> j \<noteq> k
          \<and> client_world_of j x = Some v \<and> client_world_of k x = Some w \<longrightarrow> apart v w)"

lemma server_invD:
  assumes "server_inv x"
  shows "distinct (ts_clients (rw_server (fst x)))" "sel_inv (snd x)"
    "r \<in> dom (st_conns (rw_store (fst x))) \<Longrightarrow> r < st_next (rw_store (fst x))"
    "k \<in> dom (rw_clients (fst x)) \<Longrightarrow> k < rw_next (fst x)"
    "k \<in> set (ts_clients (rw_server (fst x))) \<Longrightarrow> \<exists>w. open_client x k w"
    "j \<in> set (ts_clients (rw_server (fst x))) \<Longrightarrow> k \<in> set (ts_clients (rw_server (fst x))) \<Longrightarrow> j \<noteq> k \<Longrightarrow>
      client_world_of j x = Some v \<Longrightarrow> client_world_of k x = Some w \<Longrightarrow> apart v w"
  using assms unfolding server_inv_def by (blast, blast, blast, blast, blast, blast)

lemma server_invI:
  assumes "distinct (ts_clients (rw_server (fst x)))" "sel_inv (snd x)"
    "\<And>r. r \<in> dom (st_conns (rw_store (fst x))) \<Longrightarrow> r < st_next (rw_store (fst x))"
    "\<And>k. k \<in> dom (rw_clients (fst x)) \<Longrightarrow> k < rw_next (fst x)"
    "\<And>k. k \<in> set (ts_clients (rw_server (fst x))) \<Longrightarrow> \<exists>w. open_client x k w"
    "\<And>j k v w. j \<in> set (ts_clients (rw_server (fst x))) \<Longrightarrow> k \<in> set (ts_clients (rw_server (fst x))) \<Longrightarrow> j \<noteq> k \<Longrightarrow>
      client_world_of j x = Some v \<Longrightarrow> client_world_of k x = Some w \<Longrightarrow> apart v w"
  shows "server_inv x"
  using assms unfolding server_inv_def by (intro conjI) blast+

lemma client_world_of_shares:
  "client_world_of k x = Some w \<Longrightarrow> cw_store w = rw_store (fst x) \<and> cw_selector w = snd x \<and> cw_on_closed w = 0
    \<and> rw_clients (fst x) k = Some (cw_client w)"
  by (cases x) (auto simp: client_world_of_def)

text \<open>
  Anything a client may do, done in the relay: the other clients are still well-formed and apart,
  the client itself stays in the list exactly when it stays open, and nothing else changes.
\<close>

lemma in_client_ok:
  assumes inv: "server_inv x" and k: "k \<in> set (ts_clients (rw_server (fst x)))" and w: "client_world_of k x = Some w"
    and f: "f w = Some w'" "client_inv w'" "client_step w w'"
  shows "\<exists>x'. in_client k f x = Some x' \<and> server_inv x'
    \<and> set (ts_clients (rw_server (fst x'))) = set (ts_clients (rw_server (fst x))) - (if cl_closed (cw_client w') then {k} else {})
    \<and> (\<forall>j. j \<noteq> k \<longrightarrow> rw_clients (fst x') j = rw_clients (fst x) j) \<and> rw_next (fst x') = rw_next (fst x)
    \<and> rw_clients (fst x') k = Some (cw_client w') \<and> snd x' = cw_selector w' \<and> rw_store (fst x') = cw_store w'"
proof -
  obtain rw s where x: "x = (rw, s)" by (cases x)
  note I = server_invD [OF inv]
  let ?ks = "ts_clients (rw_server rw)"
  obtain wk where "open_client x k wk" using I(5) [OF k] by blast
  then have wk: "\<not> cl_closed (cw_client w)" using w by (simp add: open_client_def)
  note sw = client_world_of_shares [OF w]
  have oc: "cw_on_closed w' = of_bool (cl_closed (cw_client w'))"
    using f(3) wk sw by (simp add: client_step_def)
  define server where "server = (if cw_on_closed w' = 0 then Some (rw_server rw) else remove_client k (rw_server rw))"
  obtain sv where sv: "server = Some sv" "distinct (ts_clients sv)"
    "set (ts_clients sv) = set ?ks - (if cl_closed (cw_client w') then {k} else {})"
    using remove_client_ok [of "rw_server rw" k] I(1) k oc
    by (cases "cl_closed (cw_client w')") (auto simp: server_def x)
  let ?rw = "rw\<lparr>rw_server := sv, rw_clients := (rw_clients rw)(k \<mapsto> cw_client w'), rw_store := cw_store w',
       rw_owner := (\<lambda>r. if st_next (rw_store rw) \<le> r \<and> r < st_next (cw_store w') then Some k else rw_owner rw r)\<rparr>"
  let ?x = "(?rw, cw_selector w')"
  have run: "in_client k f x = Some ?x"
    using w f(1) sv(1) by (simp add: in_client_def put_client_def x server_def)
  have self: "client_world_of k ?x = Some (w'\<lparr>cw_on_closed := 0\<rparr>)" by (simp add: client_world_of_def)
  have same: "client_inv (u\<lparr>cw_on_closed := 0\<rparr>) = client_inv u" "client_router (u\<lparr>cw_on_closed := 0\<rparr>) = client_router u"
    "apart v (u\<lparr>cw_on_closed := 0\<rparr>) = apart v u" "apart (u\<lparr>cw_on_closed := 0\<rparr>) v = apart u v" for u v
    by (simp_all add: client_inv_def client_router_def client_env_def apart_def)
  have other: "client_world_of j ?x = map_option (\<lambda>v. beside v w') (client_world_of j x)" if "j \<noteq> k" for j
    using that by (simp add: client_world_of_def x option.map_comp comp_def beside_def)
  have iso: "client_inv (beside v w') \<and> \<not> cl_closed (cw_client v) \<and> (\<not> cl_closed (cw_client w') \<longrightarrow> apart (beside v w') w')"
    if j: "j \<in> set ?ks" "j \<noteq> k" "client_world_of j x = Some v" for j v
  proof -
    have v: "client_inv v" "\<not> cl_closed (cw_client v)" using I(5) [of j] j by (auto simp: open_client_def x)
    have "shares v w" using client_world_of_shares [OF j(3)] sw by (simp add: shares_def)
    moreover have "apart v w" using I(6) [of j k v w] j k w by (simp add: x)
    ultimately show ?thesis using client_isolated [OF v f(2,3)] v(2) by blast
  qed
  have dis: "apart (beside v w') (beside u w')"
    if "j \<in> set ?ks" "j \<noteq> k" "client_world_of j x = Some v" "i \<in> set ?ks" "i \<noteq> k" "client_world_of i x = Some u" "i \<noteq> j" for i j u v
  proof -
    have a: "apart v u" using I(6) [of j i v u] that by (simp add: x)
    have v: "client_inv v" "client_inv u" "shares v w" "shares u w" "apart v w" "apart u w"
      using I(5) [of j] I(5) [of i] I(6) [of j k v w] I(6) [of i k u w] that k w client_world_of_shares [OF that(3)]
        client_world_of_shares [OF that(6)] sw by (auto simp: x shares_def open_client_def)
    show ?thesis
      using apart_beside [OF a v(1,2) f(3) v(3-6)] by blast
  qed
  have sub: "set (ts_clients sv) \<subseteq> set ?ks" "cl_closed (cw_client w') \<Longrightarrow> k \<notin> set (ts_clients sv)" using sv(3) by auto
  have opened: "\<exists>u. open_client ?x j u" if j: "j \<in> set (ts_clients sv)" for j
  proof (cases "j = k")
    case True
    then show ?thesis using self f(2) j sub(2) same(1) by (fastforce simp: open_client_def)
  next
    case False
    obtain v where "open_client x j v" using I(5) [of j] j sub(1) by (auto simp: x)
    then show ?thesis using other [OF False] iso [of j v] j sub(1) False by (auto simp: open_client_def)
  qed
  have separate: "apart v u" if j: "j \<in> set (ts_clients sv)" "i \<in> set (ts_clients sv)" "j \<noteq> i"
    "client_world_of j ?x = Some v" "client_world_of i ?x = Some u" for i j v u
  proof -
    have in_ks: "j \<in> set ?ks" "i \<in> set ?ks" using j(1,2) sub(1) by auto
    have sw': "shares (beside v' w') w'" for v' by (simp add: shares_def)
    consider (left) "j = k" "i \<noteq> k" | (right) "j \<noteq> k" "i = k" | (both) "j \<noteq> k" "i \<noteq> k" using j(3) by blast
    then show ?thesis
    proof cases
      case left
      then obtain u' where u': "client_world_of i x = Some u'" "u = beside u' w'" using other j(5) by auto
      have "apart (beside u' w') w'" using iso [OF in_ks(2) left(2) u'(1)] sub(2) left j(1) by blast
      then have "apart w' (beside u' w')" using sw' f(2) by (rule apart_sym)
      then show ?thesis using self same(4) left j(4) u'(2) by auto
    next
      case right
      then obtain v' where v': "client_world_of j x = Some v'" "v = beside v' w'" using other j(4) by auto
      have "apart (beside v' w') w'" using iso [OF in_ks(1) right(1) v'(1)] sub(2) right j(2) by blast
      then show ?thesis using self same(3) right j(5) v'(2) by auto
    next
      case both
      then obtain v' u' where "client_world_of j x = Some v'" "v = beside v' w'" "client_world_of i x = Some u'" "u = beside u' w'"
        using other j(4,5) by auto
      then show ?thesis using dis [of j v' i u'] both in_ks j(3) by blast
    qed
  qed
  have "r < st_next (cw_store w')" if "r \<in> dom (st_conns (cw_store w'))" for r
    using router_invD(4) [OF client_router_inv [OF f(2)]] that by blast
  moreover have "i < rw_next rw" if "i \<in> dom ((rw_clients rw)(k \<mapsto> cw_client w'))" for i
    using I(4) [of i] I(4) [of k] that sw by (auto simp: x split: if_splits)
  moreover have "sel_inv (cw_selector w')" using client_sel_inv [OF f(2)] by simp
  ultimately have "server_inv ?x"
    using sv(2) opened separate by (intro server_invI) simp_all
  then show ?thesis using run sv by (intro exI [of _ ?x]) (simp add: x)
qed

text \<open>Every other client keeps its connections, and all their tokens stay live.\<close>

lemma others_kept:
  assumes inv: "server_inv x" and k: "k \<in> set (ts_clients (rw_server (fst x)))" "client_world_of k x = Some w"
    and j: "j \<in> set (ts_clients (rw_server (fst x)))" "j \<noteq> k" "client_world_of j x = Some v"
    and step: "client_step w w'"
  shows "live_token (cw_selector w') (cl_token v)"
    and "cl_routes (cw_client v) cid = Some r \<Longrightarrow> st_conns (rw_store (fst x)) r = Some c \<Longrightarrow>
      st_conns (cw_store w') r = Some c \<and> live_token (cw_selector w') (conn_token c)"
proof -
  have v: "client_inv v" using server_invD(5) [OF inv j(1)] j(3) by (auto simp: open_client_def)
  have sh: "shares v w" using client_world_of_shares [OF j(3)] client_world_of_shares [OF k(2)] by (simp add: shares_def)
  note S = seen_from [OF v step sh server_invD(6) [OF inv j(1) k(1) j(2,3) k(2)]]
  show "live_token (cw_selector w') (cl_token v)" using S(3) by (rule outside_live)
  show "st_conns (cw_store w') r = Some c \<and> live_token (cw_selector w') (conn_token c)"
    if r: "cl_routes (cw_client v) cid = Some r" "st_conns (rw_store (fst x)) r = Some c"
  proof -
    have c: "r \<in> ran (cl_routes (cw_client v))" "st_conns (cw_store v) r = Some c"
      using r client_world_of_shares [OF j(3)] by (auto intro: ranI)
    then show ?thesis using S(1) [OF c(1)] outside_live [OF S(2) [OF c]] by simp
  qed
qed

section \<open>Accepting clients\<close>

text \<open>A new client, on a token of its own, next to all the others.\<close>

lemma in_client_world: "client_world_of k (rw, s) = Some w \<Longrightarrow> rw_clients rw k = Some (cw_client w)
    \<and> w = \<lparr>cw_client = cw_client w, cw_store = rw_store rw, cw_selector = s, cw_on_closed = 0\<rparr>"
  by (auto simp: client_world_of_def)

text \<open>Only the selector moved, and no live token died.\<close>

lemma client_inv_selector:
  assumes w: "client_inv w" and g: "selector_grows (cw_selector w) s"
  shows "client_inv (w\<lparr>cw_selector := s\<rparr>)"
    and "live_token s t \<Longrightarrow> outside t (client_router w) \<or> (live_token s t \<and> \<not> live_token (cw_selector w) t) \<Longrightarrow>
      outside t (client_router (w\<lparr>cw_selector := s\<rparr>))"
proof -
  let ?w = "w\<lparr>cw_selector := s\<rparr>"
  have e: "env_ok (client_env ?w)" using client_sel_inv [OF w] g by (simp add: env_ok_def selector_grows_def)
  have live: "live_token (cw_selector w) t \<Longrightarrow> live_token s t" for t using g by (simp add: selector_grows_def)
  have r: "router_inv (client_router ?w)"
    using router_inv_env [OF client_router_inv [OF w] e] live by (simp add: client_router_def)
  have "outside t (client_router w) \<Longrightarrow> outside t (client_router ?w)" for t
    using live by (simp add: outside_def client_router_def)
  then show "client_inv ?w" using w r by (simp add: client_inv_def)
  show "outside t (client_router ?w)"
    if l: "live_token s t" and o: "outside t (client_router w) \<or> (live_token s t \<and> \<not> live_token (cw_selector w) t)"
  proof -
    have "conn_token c \<noteq> t" if c: "cl_routes (cw_client w) cid = Some r" "st_conns (cw_store w) r = Some c" for cid r c
    proof -
      have "routed_ok (client_env w) cid c" using router_invD(3) [OF client_router_inv [OF w] c(1)] c(2) by auto
      then have "live_token (cw_selector w) (conn_token c)" by (simp add: routed_ok_def)
      then show ?thesis using o c unfolding outside_def client_router_def prod.case by blast
    qed
    then show ?thesis using l by (auto simp: outside_def client_router_def)
  qed
qed

lemma server_inv_selector:
  assumes inv: "server_inv (rw, s)" and g: "selector_grows s s'"
    and same: "ts_clients (rw_server rw') = ts_clients (rw_server rw)" "rw_store rw' = rw_store rw"
      "rw_clients rw' = rw_clients rw" "rw_next rw' = rw_next rw"
  shows "server_inv (rw', s')"
proof -
  note I = server_invD [OF inv]
  have world: "client_world_of k (rw', s') = map_option (\<lambda>w. w\<lparr>cw_selector := s'\<rparr>) (client_world_of k (rw, s))" for k
    using same by (simp add: client_world_of_def option.map_comp comp_def)
  have ok: "client_inv (w\<lparr>cw_selector := s'\<rparr>)" "\<not> cl_closed (cw_client w)" "cw_selector w = s" "client_inv w"
    if "k \<in> set (ts_clients (rw_server rw))" "client_world_of k (rw, s) = Some w" for k w
    using I(5) [of k] that client_inv_selector(1) [of w s'] g client_world_of_shares [OF that(2)] by (auto simp: open_client_def)
  have ap: "apart (v\<lparr>cw_selector := s'\<rparr>) (w\<lparr>cw_selector := s'\<rparr>)"
    if j: "j \<in> set (ts_clients (rw_server rw))" "client_world_of j (rw, s) = Some v"
      and k: "k \<in> set (ts_clients (rw_server rw))" "client_world_of k (rw, s) = Some w" and ne: "j \<noteq> k" for j k v w
  proof -
    have a: "apart v w" using I(6) [of j k v w] j k ne by simp
    have live: "live_token s t \<Longrightarrow> live_token s' t" for t using g by (simp add: selector_grows_def)
    have out: "outside t (client_router u) \<Longrightarrow> cw_selector u = s \<Longrightarrow> outside t (client_router (u\<lparr>cw_selector := s'\<rparr>))" for t u
      using live by (simp add: outside_def client_router_def)
    show ?thesis using a out ok(3) [OF j] ok(3) [OF k] by (simp add: apart_def)
  qed
  show ?thesis
  proof (rule server_invI)
    show "\<exists>w. open_client (rw', s') k w" if "k \<in> set (ts_clients (rw_server (fst (rw', s'))))" for k
    proof -
      have k: "k \<in> set (ts_clients (rw_server rw))" using that same(1) by simp
      obtain w where "open_client (rw, s) k w" using I(5) [of k] k by auto
      then show ?thesis using ok(1,2) [of k w] k world by (simp add: open_client_def)
    qed
    show "apart v w" if "j \<in> set (ts_clients (rw_server (fst (rw', s'))))" "k \<in> set (ts_clients (rw_server (fst (rw', s'))))"
      "j \<noteq> k" "client_world_of j (rw', s') = Some v" "client_world_of k (rw', s') = Some w" for j k v w
      using ap [of j _ k] that world same(1) by auto
  qed (use I(1-4) same g in \<open>simp_all add: selector_grows_def\<close>)
qed

lemma client_create_routes:
  assumes "client_create P vacant me cid fd s = Some (Inr c, s')"
  shows "cl_routes c = Map.empty"
proof -
  obtain v s1 where "selector_register P vacant fd (ClientHandler me) ready_writable s = Some (v, s1)"
    using assms by (auto simp: client_create_def bind_eq_Some_conv)
  then show ?thesis using assms by (cases v) (auto simp: client_create_def)
qed

lemma accept_client_ok:
  assumes inv: "server_inv (rw, s)" and v: "slab_ok vacant"
  shows "\<exists>r rw' s'. accept_client P vacant accepted (rw, s) = Some (r, rw', s') \<and> server_inv (rw', s')
    \<and> (case r of
        Inl e \<Rightarrow> ts_clients (rw_server rw') = ts_clients (rw_server rw) \<and> rw_clients rw' = rw_clients rw
      | Inr _ \<Rightarrow> ts_clients (rw_server rw') = ts_clients (rw_server rw) @ [rw_next rw]
          \<and> ts_next_client_id (rw_server rw') = ts_next_client_id (rw_server rw) + 1 \<and> rw_next rw' = rw_next rw + 1
          \<and> (\<exists>c. rw_clients rw' = (rw_clients rw)(rw_next rw \<mapsto> c) \<and> cl_id c = ts_next_client_id (rw_server rw)))"
proof (cases accepted)
  case (Inl e)
  then show ?thesis using inv by (simp add: accept_client_def)
next
  case (Inr fd)
  note I = server_invD [OF inv]
  let ?k = "rw_next rw" and ?id = "ts_next_client_id (rw_server rw)" and ?st = "rw_store rw"
  let ?server = "(rw_server rw)\<lparr>ts_next_client_id := ?id + 1\<rparr>"
  have d: "\<forall>r \<in> dom (st_conns ?st). r < st_next ?st" using I(3) by auto
  have si: "sel_inv s" using I(2) by simp
  obtain r s' where r: "client_create P vacant ?k ?id fd s = Some (r, s')" "selector_grows s s'"
    "case r of Inl e \<Rightarrow> True | Inr c \<Rightarrow> client_inv \<lparr>cw_client = c, cw_store = ?st, cw_selector = s', cw_on_closed = 0\<rparr>
        \<and> \<not> cl_closed c \<and> cl_id c = ?id \<and> \<not> live_token s (ch_token (cl_channel c))"
    using client_create_ok [OF si v d] by blast
  show ?thesis
  proof (cases r)
    case r': (Inl e)
    have "server_inv (rw\<lparr>rw_server := ?server\<rparr>, s')" by (rule server_inv_selector [OF inv r(2)]) simp_all
    then show ?thesis using Inr r(1) r' by (simp add: accept_client_def Let_def)
  next
    case r': (Inr c)
    have c: "client_inv \<lparr>cw_client = c, cw_store = ?st, cw_selector = s', cw_on_closed = 0\<rparr>" "\<not> cl_closed c"
      "cl_id c = ?id" "\<not> live_token s (ch_token (cl_channel c))"
      using r(3) r' by simp_all
    let ?rw = "rw\<lparr>rw_server := ?server\<lparr>ts_clients := ts_clients ?server @ [?k]\<rparr>,
      rw_clients := (rw_clients rw)(?k \<mapsto> c), rw_next := ?k + 1\<rparr>"
    have inv1: "server_inv (rw\<lparr>rw_server := ?server\<rparr>, s')" by (rule server_inv_selector [OF inv r(2)]) simp_all
    have fresh: "?k \<notin> set (ts_clients (rw_server rw))" "?k \<notin> dom (rw_clients rw)"
      using I(5) [of ?k] I(4) [of ?k] client_world_of_shares [of ?k "(rw, s)"] by (auto simp: open_client_def)
    let ?new = "\<lparr>cw_client = c, cw_store = ?st, cw_selector = s', cw_on_closed = 0\<rparr>"
    have routes: "cl_routes c = Map.empty" using r(1) r' client_create_routes by blast
    have wk: "client_world_of ?k (?rw, s') = Some ?new" by (simp add: client_world_of_def)
    have wj: "client_world_of j (?rw, s') = client_world_of j (rw\<lparr>rw_server := ?server\<rparr>, s')" if "j \<noteq> ?k" for j
      using that by (simp add: client_world_of_def)
    have ap: "apart ?new w1 \<and> apart w1 ?new"
      if j: "j \<in> set (ts_clients (rw_server rw))" "client_world_of j (rw\<lparr>rw_server := ?server\<rparr>, s') = Some w1" for j w1
    proof -
      obtain w where w: "client_world_of j (rw, s) = Some w" "w1 = w\<lparr>cw_selector := s'\<rparr>" "client_inv w" "\<not> cl_closed (cw_client w)"
        "cw_selector w = s" "cw_store w = ?st"
        using I(5) [of j] j by (auto simp: open_client_def client_world_of_def)
      have lw: "live_token s (cl_token w)" "live_token s' (cl_token w)"
        using w(3-5) outside_live [of "cl_token w" w] r(2) by (auto simp: client_inv_def selector_grows_def)
      have ln: "live_token s' (cl_token ?new)" using c(1,2) outside_live [of "cl_token ?new" ?new] by (simp add: client_inv_def)
      have g: "selector_grows (cw_selector w) s'" using r(2) w(5) by simp
      have o: "outside (cl_token ?new) (client_router w1)"
        using client_inv_selector(2) [OF w(3) g ln] ln c(4) w(2,5) by simp
      have o': "outside (cl_token w1) (client_router ?new)"
        using lw(2) routes w(2) by (simp add: outside_def client_router_def)
      have "cl_token ?new \<noteq> cl_token w1" using lw(1) c(4) w(2) by auto
      then have a: "apart ?new w1" using o o' routes by (simp add: apart_def)
      moreover have "apart w1 ?new"
      proof (rule apart_sym [OF a])
        show "shares ?new w1" using w(2,6) by (simp add: shares_def)
        show "client_inv w1" using client_inv_selector(1) [OF w(3) g] w(2) by simp
      qed
      ultimately show ?thesis by blast
    qed
    have "server_inv (?rw, s')"
    proof (rule server_invI)
      note I1 = server_invD [OF inv1]
      show "distinct (ts_clients (rw_server (fst (?rw, s'))))" using I(1) fresh(1) by simp
      show "sel_inv (snd (?rw, s'))" using I1(2) by simp
      show "r < st_next (rw_store (fst (?rw, s')))" if "r \<in> dom (st_conns (rw_store (fst (?rw, s'))))" for r
        using I(3) that by simp
      show "i < rw_next (fst (?rw, s'))" if "i \<in> dom (rw_clients (fst (?rw, s')))" for i
      proof (cases "i = ?k")
        case False
        then have "i \<in> dom (rw_clients rw)" using that by auto
        then show ?thesis using I(4) [of i] by simp
      qed simp
      show "\<exists>w. open_client (?rw, s') j w" if "j \<in> set (ts_clients (rw_server (fst (?rw, s'))))" for j
        using I1(5) [of j] that wk wj [of j] c(1,2) by (cases "j = ?k") (auto simp: open_client_def)
      show "apart v w" if "j \<in> set (ts_clients (rw_server (fst (?rw, s'))))" "i \<in> set (ts_clients (rw_server (fst (?rw, s'))))"
        "j \<noteq> i" "client_world_of j (?rw, s') = Some v" "client_world_of i (?rw, s') = Some w" for j i v w
      proof -
        let ?ks = "set (ts_clients (rw_server rw))"
        note ne = that(3) and worlds = that(4,5)
        have mem: "j = ?k \<or> j \<in> ?ks" "i = ?k \<or> i \<in> ?ks" using that(1,2) by auto
        consider (l) "j = ?k" "i \<noteq> ?k" "i \<in> ?ks" | (r) "i = ?k" "j \<noteq> ?k" "j \<in> ?ks"
          | (old) "i \<noteq> ?k" "j \<noteq> ?k" "i \<in> ?ks" "j \<in> ?ks" using mem ne by blast
        then show ?thesis
        proof cases
          case l
          have "v = ?new" using worlds(1) wk unfolding l(1) by simp
          then show ?thesis using ap [OF l(3)] worlds(2) wj [OF l(2)] by simp
        next
          case r
          have "w = ?new" using worlds(2) wk unfolding r(1) by simp
          then show ?thesis using ap [OF r(3)] worlds(1) wj [OF r(2)] by simp
        next
          case old
          have js: "j \<in> set (ts_clients (rw_server (fst (rw\<lparr>rw_server := ?server\<rparr>, s'))))"
            "i \<in> set (ts_clients (rw_server (fst (rw\<lparr>rw_server := ?server\<rparr>, s'))))" using old(3,4) by simp_all
          show ?thesis using I1(6) [OF js ne] worlds wj [OF old(1)] wj [OF old(2)] by simp
        qed
      qed
    qed
    then show ?thesis using Inr r(1) r' c(3) by (simp add: accept_client_def Let_def) blast
  qed
qed

text \<open>\<open>on_ready\<close> takes every connection that waits, in order, and numbers them one after another.\<close>

lemma server_on_ready_ok:
  assumes v: "slab_ok vacant"
  shows "server_inv (rw, s) \<Longrightarrow> \<exists>rw' s' m. server_on_ready P vacant accepted (rw, s) = Some (rw', s') \<and> server_inv (rw', s')
    \<and> ts_clients (rw_server rw') = ts_clients (rw_server rw) @ [rw_next rw ..< rw_next rw + m] \<and> m \<le> length accepted
    \<and> (\<forall>i < m. \<exists>c. rw_clients rw' (rw_next rw + i) = Some c \<and> cl_id c = ts_next_client_id (rw_server rw) + of_nat i)
    \<and> (\<forall>k < rw_next rw. rw_clients rw' k = rw_clients rw k)"
proof (induction accepted arbitrary: rw s)
  case Nil
  then show ?case by (intro exI [of _ rw] exI [of _ s] exI [of _ 0]) simp
next
  case (Cons a accepted)
  obtain r rw1 s1 where r: "accept_client P vacant a (rw, s) = Some (r, rw1, s1)" "server_inv (rw1, s1)"
    "case r of
        Inl e \<Rightarrow> ts_clients (rw_server rw1) = ts_clients (rw_server rw) \<and> rw_clients rw1 = rw_clients rw
      | Inr _ \<Rightarrow> ts_clients (rw_server rw1) = ts_clients (rw_server rw) @ [rw_next rw]
          \<and> ts_next_client_id (rw_server rw1) = ts_next_client_id (rw_server rw) + 1 \<and> rw_next rw1 = rw_next rw + 1
          \<and> (\<exists>c. rw_clients rw1 = (rw_clients rw)(rw_next rw \<mapsto> c) \<and> cl_id c = ts_next_client_id (rw_server rw))"
    using accept_client_ok [OF Cons.prems v] by blast
  show ?case
  proof (cases r)
    case (Inl e)
    then show ?thesis using r by (intro exI [of _ rw1] exI [of _ s1] exI [of _ 0]) simp
  next
    case (Inr u)
    obtain c where c: "rw_clients rw1 = (rw_clients rw)(rw_next rw \<mapsto> c)" "cl_id c = ts_next_client_id (rw_server rw)"
      using r(3) Inr by auto
    obtain rw' s' m where k: "server_on_ready P vacant accepted (rw1, s1) = Some (rw', s')" "server_inv (rw', s')"
      "ts_clients (rw_server rw') = ts_clients (rw_server rw1) @ [rw_next rw1 ..< rw_next rw1 + m]" "m \<le> length accepted"
      "\<forall>i < m. \<exists>c. rw_clients rw' (rw_next rw1 + i) = Some c \<and> cl_id c = ts_next_client_id (rw_server rw1) + of_nat i"
      "\<forall>k < rw_next rw1. rw_clients rw' k = rw_clients rw1 k"
      using Cons.IH [OF r(2)] by blast
    have "\<exists>c. rw_clients rw' (rw_next rw + i) = Some c \<and> cl_id c = ts_next_client_id (rw_server rw) + of_nat i"
      if "i < Suc m" for i
      using that k(5,6) r(3) Inr c by (cases i) (auto simp: add.assoc)
    moreover have "[rw_next rw ..< rw_next rw + Suc m] = rw_next rw # [Suc (rw_next rw) ..< Suc (rw_next rw) + m]"
      by (simp add: upt_conv_Cons)
    ultimately show ?thesis
      using r(1,3) Inr k c by (intro exI [of _ rw'] exI [of _ s'] exI [of _ "Suc m"]) simp
  qed
qed

section \<open>Housekeeping and events\<close>

text \<open>\<open>clean_up\<close> reaches every client and keeps them all.\<close>

lemma clean_up_clients_ok:
  assumes P: "poll_works P" and walk: "walk_ok walk"
  shows "server_inv x \<Longrightarrow> set ks \<subseteq> set (ts_clients (rw_server (fst x))) \<Longrightarrow>
    \<exists>x'. clean_up_clients P walk now ks x = Some x' \<and> server_inv x'
      \<and> set (ts_clients (rw_server (fst x'))) = set (ts_clients (rw_server (fst x)))"
proof (induction ks arbitrary: x)
  case Nil
  then show ?case by simp
next
  case (Cons k ks)
  have k: "k \<in> set (ts_clients (rw_server (fst x)))" using Cons.prems(2) by simp
  obtain w where w: "client_world_of k x = Some w" "client_inv w" "\<not> cl_closed (cw_client w)"
    using server_invD(5) [OF Cons.prems(1) k] by (auto simp: open_client_def)
  obtain w' where w': "client_clean_expired P walk now w = Some w'" "client_inv w'" "client_step w w'" "same_client w w'"
    using client_clean_expired_ok [OF P walk w(2,3)] by blast
  obtain x1 where x1: "in_client k (client_clean_expired P walk now) x = Some x1" "server_inv x1"
    "set (ts_clients (rw_server (fst x1))) = set (ts_clients (rw_server (fst x)))"
    using in_client_ok [of x k w "client_clean_expired P walk now" w', OF Cons.prems(1) k w(1) w'(1-3)] w(3) w'(4)
    by (auto simp: same_client_def)
  then show ?case using Cons.IH [OF x1(2)] Cons.prems(2) by auto
qed

lemma clean_up_ok:
  assumes "poll_works P" and "walk_ok walk" and "server_inv x"
  shows "\<exists>x'. clean_up P walk now x = Some x' \<and> server_inv x'
    \<and> set (ts_clients (rw_server (fst x'))) = set (ts_clients (rw_server (fst x)))"
  using clean_up_clients_ok [OF assms, of "ts_clients (rw_server (fst x))" now] by (simp add: clean_up_def)

text \<open>An operation that leaves its client as it was leaves the relay as it was.\<close>

lemma in_client_idle:
  assumes "client_world_of k x = Some w" and "f w = Some w"
  shows "in_client k f x = Some x"
proof -
  obtain rw s where x: "x = (rw, s)" by (cases x)
  then obtain c where c: "rw_clients rw k = Some c"
    "w = \<lparr>cw_client = c, cw_store = rw_store rw, cw_selector = s, cw_on_closed = 0\<rparr>"
    using assms(1) by (auto simp: client_world_of_def)
  have "(rw_clients rw)(k \<mapsto> c) = rw_clients rw" using c(1) by (rule map_upd_triv)
  moreover have "(\<lambda>r. if st_next (rw_store rw) \<le> r \<and> r < st_next (rw_store rw) then Some k else rw_owner rw r) = rw_owner rw"
    by (auto simp: fun_eq_iff)
  ultimately show ?thesis using assms c(2) by (simp add: in_client_def put_client_def x)
qed

lemma client_on_ready_closed: "cl_closed (cw_client w) \<Longrightarrow> client_on_ready io ready w = Some w"
  by (simp add: client_on_ready_def client_process_def)

text \<open>
  Any event of the relay: the listener's, a client's, that of a connection of an open client, or
  the stale event of a client or connection that an earlier event of the batch closed.  The
  answers of the system keep their contracts.
\<close>

inductive event_known :: "event_io \<Rightarrow> relay_ctx \<Rightarrow> handler \<Rightarrow> bool" for io x where
  listener: "slab_ok (ei_vacant io) \<Longrightarrow> event_known io x ServerHandler"
| client: "k \<in> set (ts_clients (rw_server (fst x))) \<Longrightarrow> client_world_of k x = Some w \<Longrightarrow> io_ok (ei_client io) \<Longrightarrow>
    event_known io x (ClientHandler k)"
| connection: "k \<in> set (ts_clients (rw_server (fst x))) \<Longrightarrow> client_world_of k x = Some w \<Longrightarrow>
    rw_owner (fst x) r = Some k \<Longrightarrow> cl_routes (cw_client w) cid = Some r \<Longrightarrow> st_conns (cw_store w) r = Some c \<Longrightarrow>
    poll_works (cn_poll (ei_conn io)) \<Longrightarrow> answers_ok (ei_conn io) c \<Longrightarrow> event_known io x (ConnectionHandler r)"
| stale_client: "client_world_of k x = Some w \<Longrightarrow> cl_closed (cw_client w) \<Longrightarrow> event_known io x (ClientHandler k)"
| stale_connection: "rw_owner (fst x) r = Some k \<Longrightarrow> client_world_of k x = Some w \<Longrightarrow>
    st_conns (cw_store w) r = Some c \<Longrightarrow> conn_closed c \<Longrightarrow> event_known io x (ConnectionHandler r)"

inductive_cases event_known_listener: "event_known io x ServerHandler"
inductive_cases event_known_client: "event_known io x (ClientHandler k)"
inductive_cases event_known_connection: "event_known io x (ConnectionHandler r)"

text \<open>
  The events that the code is not made for: those of \<open>unhandled\<close>, and an event of a client one of whose
  deferred packets lost its source (\<open>process_pending_closed\<close>).
\<close>

fun event_unhandled :: "event_io \<Rightarrow> relay_ctx \<Rightarrow> handler \<Rightarrow> ready \<Rightarrow> bool" where
  "event_unhandled io x ServerHandler ready \<longleftrightarrow> False"
| "event_unhandled io x (ClientHandler k) ready \<longleftrightarrow> (case client_world_of k x of
     None \<Rightarrow> False | Some w \<Rightarrow> \<not> cl_closed (cw_client w) \<and> \<not> pending_ok w)"
| "event_unhandled io x (ConnectionHandler r) ready \<longleftrightarrow> (case st_conns (rw_store (fst x)) r of
     None \<Rightarrow> False | Some c \<Rightarrow> \<not> conn_closed c \<and> unhandled (ei_conn io) ready c)"

lemma dispatch_ok:
  assumes inv: "server_inv x" and ev: "event_known (io h) x h" and un: "\<not> event_unhandled (io h) x h ready"
  shows "\<exists>x'. dispatch io h ready x = Some x' \<and> server_inv x'"
proof (cases h)
  case ServerHandler
  obtain rw s where x: "x = (rw, s)" by (cases x)
  have "slab_ok (ei_vacant (io ServerHandler))" using ev ServerHandler by (auto elim: event_known_listener)
  from server_on_ready_ok [OF this inv [unfolded x], of "ei_poll (io h)" "ei_accepted (io h)"] show ?thesis
    using ServerHandler by (auto simp: x)
next
  case (ClientHandler k)
  consider (1) w where "k \<in> set (ts_clients (rw_server (fst x)))" "client_world_of k x = Some w"
      "io_ok (ei_client (io h))"
    | (2) w where "client_world_of k x = Some w" "cl_closed (cw_client w)"
    using ev unfolding ClientHandler by (rule event_known_client) blast+
  then show ?thesis
  proof cases
    case 1
    have c: "client_inv w" "\<not> cl_closed (cw_client w)"
      using server_invD(5) [OF inv 1(1)] 1(2) by (auto simp: open_client_def)
    moreover have "pending_ok w" using un c(2) 1(2) by (simp add: ClientHandler)
    ultimately obtain w' where "client_on_ready (ei_client (io h)) ready w = Some w'" "client_inv w'" "client_step w w'"
      using client_on_ready_ok [of "ei_client (io h)" w ready] 1(3) ClientHandler by auto
    from in_client_ok [of x k w "client_on_ready (ei_client (io h)) ready" w', OF inv 1(1,2) this] show ?thesis
      using ClientHandler by auto
  next
    case 2
    then have "client_on_ready (ei_client (io h)) ready w = Some w" by (intro client_on_ready_closed)
    from in_client_idle [of k x w "client_on_ready (ei_client (io h)) ready", OF 2(1) this] show ?thesis
      using ClientHandler inv by simp
  qed
next
  case (ConnectionHandler r)
  consider (1) k w cid c where "k \<in> set (ts_clients (rw_server (fst x)))" "client_world_of k x = Some w"
      "rw_owner (fst x) r = Some k" "cl_routes (cw_client w) cid = Some r" "st_conns (cw_store w) r = Some c"
      "poll_works (cn_poll (ei_conn (io h)))" "answers_ok (ei_conn (io h)) c"
    | (2) k w c where "rw_owner (fst x) r = Some k" "client_world_of k x = Some w" "st_conns (cw_store w) r = Some c" "conn_closed c"
    using ev unfolding ConnectionHandler by (rule event_known_connection) blast+
  then show ?thesis
  proof cases
    case 1
    have w: "client_inv w" "\<not> cl_closed (cw_client w)"
      using server_invD(5) [OF inv 1(1)] 1(2) by (auto simp: open_client_def)
    have "\<not> conn_closed c" using router_invD(3) [OF client_router_inv [OF w(1)] 1(4)] 1(5) by (auto simp: routed_ok_def)
    then have "ready_ok (ei_conn (io h)) ready c"
      using un 1(5,7) client_world_of_shares [OF 1(2)] by (simp add: ConnectionHandler ready_ok_def)
    with w obtain w' where "conn_event (ei_conn (io h)) ready r w = Some w'" "client_inv w'" "client_step w w'"
      using conn_event_ok [of "ei_conn (io h)" w cid r c ready] 1(4-6) ConnectionHandler by auto
    from in_client_ok [of x k w "conn_event (ei_conn (io h)) ready r" w', OF inv 1(1,2) this] show ?thesis
      using ConnectionHandler 1(3) by auto
  next
    case 2
    have "conn_event (ei_conn (io h)) ready r w = Some w" using 2(3,4) by (rule conn_event_closed)
    from in_client_idle [of k x w "conn_event (ei_conn (io h)) ready r", OF 2(2) this] show ?thesis
      using ConnectionHandler inv 2(1) by simp
  qed
qed

lemma tunnel_server_create_ok:
  assumes s: "sel_inv s" and v: "slab_ok vacant"
  shows "\<exists>r s'. tunnel_server_create P vacant inherited bind_to port s = Some (r, s') \<and> selector_grows s s'
    \<and> (case r of Inl e \<Rightarrow> True | Inr rw \<Rightarrow> server_inv (rw, s') \<and> ts_clients (rw_server rw) = [])"
proof (cases "start_socket inherited bind_to port")
  case (Inl e)
  then show ?thesis using s by (simp add: tunnel_server_create_def selector_grows_def)
next
  case (Inr fd)
  from s v show ?thesis
  proof (cases rule: selector_register_grows [where P = P and fd = fd and h = ServerHandler and i = ready_readable])
    case (fails e s')
    then show ?thesis using Inr by (simp add: tunnel_server_create_def)
  next
    case (works t s')
    then show ?thesis using Inr by (simp add: tunnel_server_create_def server_inv_def selector_grows_def)
  qed
qed

end
