(* ===== verification/Interrupt.thy ===== *)
theory Interrupt
  imports Prelude
begin

text \<open>
  \<open>relay/interrupt.rs\<close>: the macro \<open>retry_on_intr!\<close>, which evaluates an expression again and again as
  long as the system call in it is interrupted by a signal.
\<close>

text \<open>
  \<open>e k\<close> is what the expression gives at its attempt \<open>k\<close>.  The value is the attempt that was not
  interrupted and the attempts after it; \<open>None\<close> when all those given were.
\<close>

fun retry_on_intr :: "('k \<Rightarrow> 'a io_result) \<Rightarrow> 'k list \<Rightarrow> ('k \<times> 'k list) option" where
  "retry_on_intr e [] = None"
| "retry_on_intr e (k # ks) = (case e k of
     Inl failure \<Rightarrow> if failure = Interrupted then retry_on_intr e ks else Some (k, ks)
   | Inr x \<Rightarrow> Some (k, ks))"

lemma retry_on_intr_Cons:
  "retry_on_intr e (k # ks) = (if e k = Inl Interrupted then retry_on_intr e ks else Some (k, ks))"
  by (cases "e k") simp_all

lemma retry_on_intr_length: "retry_on_intr e ks = Some (k, ks') \<Longrightarrow> length ks' < length ks"
  by (induction ks) (auto simp: retry_on_intr_Cons simp del: retry_on_intr.simps(2) split: if_splits)

text \<open>It returns the first attempt that was not interrupted, and never an interruption.\<close>

lemma retry_on_intr_iff:
  "retry_on_intr e ks = Some (k, ks') \<longleftrightarrow>
     e k \<noteq> Inl Interrupted \<and> (\<exists>js. ks = js @ k # ks' \<and> (\<forall>j \<in> set js. e j = Inl Interrupted))"
proof (induction ks)
  case (Cons i ks)
  show ?case
  proof (cases "e i = Inl Interrupted")
    case True
    have "(\<exists>js. i # ks = js @ k # ks' \<and> (\<forall>j \<in> set js. e j = Inl Interrupted))
        \<longleftrightarrow> (\<exists>js. ks = js @ k # ks' \<and> (\<forall>j \<in> set js. e j = Inl Interrupted))" if "e k \<noteq> Inl Interrupted"
      using True that by (auto simp: Cons_eq_append_conv intro: exI [of _ "i # _"])
    then show ?thesis using Cons True by auto
  next
    case False
    then show ?thesis by (auto simp: retry_on_intr_Cons Cons_eq_append_conv simp del: retry_on_intr.simps(2))
  qed
qed simp

lemma retry_on_intr_None: "retry_on_intr e ks = None \<longleftrightarrow> (\<forall>k \<in> set ks. e k = Inl Interrupted)"
  by (induction ks) (auto simp: retry_on_intr_Cons simp del: retry_on_intr.simps(2))

end
