(* ===== verification/Relay.thy ===== *)
theory Relay
  imports Server_Facts Interrupt
begin

text \<open>
  \<open>relay/relay.rs\<close>: start-up and the polling loop with its two deadlines, and what every state
  the relay can reach satisfies.
\<close>

section \<open>Deadlines\<close>

definition CLEANING_INTERVAL_SECONDS :: int where
  "CLEANING_INTERVAL_SECONDS = 5"

definition STATS_INTERVAL_SECONDS :: int where
  "STATS_INTERVAL_SECONDS = 5 * 60"

record relay_timers =
  next_cleaning_deadline :: int
  next_stats_deadline :: int

definition start_timers :: "int \<Rightarrow> relay_timers" where
  "start_timers start = \<lparr>next_cleaning_deadline = start + CLEANING_INTERVAL_SECONDS,
     next_stats_deadline = start + STATS_INTERVAL_SECONDS\<rparr>"

text \<open>The time-out of a poll that starts when the wall clock shows \<open>now\<close>.\<close>

definition poll_timeout :: "int \<Rightarrow> relay_timers \<Rightarrow> int" where
  "poll_timeout now timers =
     (let next_deadline = min (next_cleaning_deadline timers) (next_stats_deadline timers) in
      max 0 (next_deadline - now))"

section \<open>The loop\<close>

text \<open>
  One return of \<open>poll\<close>: its events or its error, the wall clock and the monotonic clock after it,
  and the answers of the system to the handlers.
\<close>

record wakeup =
  wk_result :: "(nat \<times> ready) list io_result"
  wk_now :: int
  wk_instant :: nat
  wk_poll :: poll
  wk_walk :: "routes \<Rightarrow> connection_id list"
  wk_io :: "handler \<Rightarrow> event_io"

text \<open>The body of the loop after \<open>poll\<close>; \<open>log_stats\<close> only prints.\<close>

definition poll_iteration :: "wakeup \<Rightarrow> (nat \<times> ready) list \<Rightarrow> relay_timers \<times> relay_ctx
    \<Rightarrow> (relay_timers \<times> relay_ctx) option" where
  "poll_iteration k events = (\<lambda>(timers, x). do {
     let now = wk_now k;
     (timers, x) \<leftarrow> (if now \<ge> next_cleaning_deadline timers then do {
         x \<leftarrow> clean_up (wk_poll k) (wk_walk k) (wk_instant k) x;
         Some (timers\<lparr>next_cleaning_deadline := now + CLEANING_INTERVAL_SECONDS\<rparr>, x) }
       else Some (timers, x));
     let timers = (if now \<ge> next_stats_deadline timers
       then timers\<lparr>next_stats_deadline := now + STATS_INTERVAL_SECONDS\<rparr> else timers);
     if events = [] \<and> now < next_cleaning_deadline timers \<and> now < next_stats_deadline timers
     then Some (timers, x)
     else do {
       x \<leftarrow> run_handlers (dispatch (wk_io k)) events x;
       Some (timers, x) } })"

text \<open>
  The loop over any finite number of attempts to poll.  An interrupted one is repeated, any other
  error of \<open>poll\<close> ends the loop.
\<close>

function poll_loop :: "wakeup list \<Rightarrow> relay_timers \<times> relay_ctx \<Rightarrow> (unit io_result \<times> relay_timers \<times> relay_ctx) option" where
  "poll_loop ks st = (case retry_on_intr wk_result ks of
     None \<Rightarrow> Some (Inr (), st)
   | Some (k, ks) \<Rightarrow> (case wk_result k of
       Inl e \<Rightarrow> Some (Inl e, st)
     | Inr events \<Rightarrow> do { st \<leftarrow> poll_iteration k events st; poll_loop ks st }))"
  by pat_completeness auto
termination by (relation "measure (length \<circ> fst)") (auto dest: retry_on_intr_length)

declare poll_loop.simps [simp del]

lemma poll_loop_simps [simp]:
  "poll_loop [] st = Some (Inr (), st)"
  "poll_loop (k # ks) st = (case wk_result k of
     Inl e \<Rightarrow> if e = Interrupted then poll_loop ks st else Some (Inl e, st)
   | Inr events \<Rightarrow> do { st \<leftarrow> poll_iteration k events st; poll_loop ks st })"
proof -
  show "poll_loop [] st = Some (Inr (), st)" by (subst poll_loop.simps) simp
  show "poll_loop (k # ks) st = (case wk_result k of
     Inl e \<Rightarrow> if e = Interrupted then poll_loop ks st else Some (Inl e, st)
   | Inr events \<Rightarrow> do { st \<leftarrow> poll_iteration k events st; poll_loop ks st })"
  proof (cases "wk_result k = Inl Interrupted")
    case True
    then show ?thesis by (subst poll_loop.simps, simp) (subst poll_loop.simps [of ks], simp)
  qed (subst poll_loop.simps, cases "wk_result k", simp_all)
qed

text \<open>An interrupted poll is as if it had not been.\<close>

lemma poll_loop_interrupts: "poll_loop (filter (\<lambda>k. wk_result k \<noteq> Inl Interrupted) ks) st = poll_loop ks st"
proof -
  have "poll_loop (filter (\<lambda>k. wk_result k \<noteq> Inl Interrupted) ks) = poll_loop ks"
  proof (induction ks)
    case (Cons k ks)
    show ?case by (rule ext) (simp add: Cons split: sum.split)
  qed simp
  then show ?thesis by simp
qed

text \<open>\<open>Relay::run\<close>: the selector, the server, the loop.\<close>

definition relay_run :: "poll \<Rightarrow> ((nat \<rightharpoonup> handler) \<Rightarrow> nat) \<Rightarrow> (u16 \<Rightarrow> nat option io_result)
    \<Rightarrow> (socket_addr \<Rightarrow> nat io_result) \<Rightarrow> u16 \<Rightarrow> int \<Rightarrow> wakeup list \<Rightarrow> (unit io_result \<times> selector) option" where
  "relay_run P vacant inherited bind_to port start ks = do {
     (r, s) \<leftarrow> tunnel_server_create P vacant inherited bind_to port selector_create;
     case r of
       Inl e \<Rightarrow> Some (Inl e, s)
     | Inr rw \<Rightarrow> do {
         (r, _, _, s) \<leftarrow> poll_loop ks (start_timers start, rw, s);
         Some (r, s) } }"

section \<open>The deadlines\<close>

definition timers_ok :: "int \<Rightarrow> relay_timers \<Rightarrow> bool" where
  "timers_ok now timers \<longleftrightarrow> now < next_cleaning_deadline timers
     \<and> next_cleaning_deadline timers \<le> now + CLEANING_INTERVAL_SECONDS
     \<and> now < next_stats_deadline timers \<and> next_stats_deadline timers \<le> now + STATS_INTERVAL_SECONDS"

lemmas interval_defs = CLEANING_INTERVAL_SECONDS_def STATS_INTERVAL_SECONDS_def

lemma start_timers_ok: "timers_ok start (start_timers start)"
  by (simp add: timers_ok_def start_timers_def interval_defs)

text \<open>
  The iteration in three parts.  Both deadlines lie in the future once they are passed and reset, so
  the test for a spurious wake-up is whether there are events.
\<close>

definition after_cleaning :: "wakeup \<Rightarrow> relay_timers \<Rightarrow> relay_ctx \<Rightarrow> relay_ctx option" where
  "after_cleaning k timers x = (if next_cleaning_deadline timers \<le> wk_now k
     then clean_up (wk_poll k) (wk_walk k) (wk_instant k) x else Some x)"

definition next_timers :: "int \<Rightarrow> relay_timers \<Rightarrow> relay_timers" where
  "next_timers now timers = \<lparr>
     next_cleaning_deadline = (if next_cleaning_deadline timers \<le> now then now + CLEANING_INTERVAL_SECONDS
       else next_cleaning_deadline timers),
     next_stats_deadline = (if next_stats_deadline timers \<le> now then now + STATS_INTERVAL_SECONDS
       else next_stats_deadline timers)\<rparr>"

lemma poll_iteration_eq:
  "poll_iteration k events (timers, x) = do {
     y \<leftarrow> after_cleaning k timers x;
     x' \<leftarrow> (if events = [] then Some y else run_handlers (dispatch (wk_io k)) events y);
     Some (next_timers (wk_now k) timers, x') }"
proof -
  have z: "z\<lparr>next_cleaning_deadline := a, next_stats_deadline := b\<rparr> =
      \<lparr>next_cleaning_deadline = a, next_stats_deadline = b\<rparr>" for z :: relay_timers and a b
    by (cases z) simp
  have z': "z = \<lparr>next_cleaning_deadline = next_cleaning_deadline z, next_stats_deadline = next_stats_deadline z\<rparr>"
    "z\<lparr>next_cleaning_deadline := a\<rparr> = \<lparr>next_cleaning_deadline = a, next_stats_deadline = next_stats_deadline z\<rparr>"
    "z\<lparr>next_stats_deadline := a\<rparr> = \<lparr>next_cleaning_deadline = next_cleaning_deadline z, next_stats_deadline = a\<rparr>"
    for z :: relay_timers and a
    by (cases z; simp)+
  show ?thesis
    by (cases "next_cleaning_deadline timers \<le> wk_now k"; cases "next_stats_deadline timers \<le> wk_now k";
        cases "clean_up (wk_poll k) (wk_walk k) (wk_instant k) x"; cases "events = []")
      (simp_all add: poll_iteration_def after_cleaning_def next_timers_def Let_def z z'(2,3) interval_defs
        z'(1) [symmetric])
qed

lemma next_timers_ok:
  assumes "timers_ok t timers" and "t \<le> now"
  shows "timers_ok now (next_timers now timers)"
  using assms by (auto simp: timers_ok_def next_timers_def interval_defs)

text \<open>What an iteration does to the deadlines, and when it cleans up.\<close>

lemma poll_iteration_timers:
  assumes "poll_iteration k events (timers, x) = Some (timers', x')"
  shows "timers_ok t timers \<Longrightarrow> t \<le> wk_now k \<Longrightarrow> timers_ok (wk_now k) timers'"
    and "if wk_now k < next_cleaning_deadline timers
      then next_cleaning_deadline timers' = next_cleaning_deadline timers
        \<and> (if events = [] then x' = x else run_handlers (dispatch (wk_io k)) events x = Some x')
      else next_cleaning_deadline timers' = wk_now k + CLEANING_INTERVAL_SECONDS
        \<and> (\<exists>y. clean_up (wk_poll k) (wk_walk k) (wk_instant k) x = Some y
            \<and> (if events = [] then x' = y else run_handlers (dispatch (wk_io k)) events y = Some x'))"
proof -
  obtain y where y: "after_cleaning k timers x = Some y"
    "(if events = [] then Some y else run_handlers (dispatch (wk_io k)) events y) = Some x'"
    "timers' = next_timers (wk_now k) timers"
    using assms by (auto simp: poll_iteration_eq bind_eq_Some_conv)
  show "timers_ok (wk_now k) timers'" if "timers_ok t timers" "t \<le> wk_now k"
    using next_timers_ok [OF that] y(3) by simp
  show "if wk_now k < next_cleaning_deadline timers
      then next_cleaning_deadline timers' = next_cleaning_deadline timers
        \<and> (if events = [] then x' = x else run_handlers (dispatch (wk_io k)) events x = Some x')
      else next_cleaning_deadline timers' = wk_now k + CLEANING_INTERVAL_SECONDS
        \<and> (\<exists>y. clean_up (wk_poll k) (wk_walk k) (wk_instant k) x = Some y
            \<and> (if events = [] then x' = y else run_handlers (dispatch (wk_io k)) events y = Some x'))"
    using y by (auto simp: after_cleaning_def next_timers_def split: if_splits simp del: split_paired_Ex)
qed

lemma poll_timeout_bounds:
  assumes "timers_ok t timers"
  shows "t \<le> now \<Longrightarrow> 0 \<le> poll_timeout now timers \<and> poll_timeout now timers \<le> CLEANING_INTERVAL_SECONDS
      \<and> now + poll_timeout now timers = max now (min (next_cleaning_deadline timers) (next_stats_deadline timers))"
    and "now < t \<Longrightarrow> t - now < poll_timeout now timers"
  using assms by (auto simp: timers_ok_def poll_timeout_def Let_def min_def max_def)

section \<open>Reachable states\<close>

text \<open>The events of a batch, each at its turn: their answers keep the contracts; one is not handled.\<close>

fun batch_known :: "(handler \<Rightarrow> event_io) \<Rightarrow> (nat \<times> ready) list \<Rightarrow> relay_ctx \<Rightarrow> bool" where
  "batch_known io [] x \<longleftrightarrow> True"
| "batch_known io ((token, ready) # events) x \<longleftrightarrow> (case sel_handlers (snd x) token of
     None \<Rightarrow> False
   | Some h \<Rightarrow> event_known (io h) x h \<and> (case dispatch io h ready x of
       None \<Rightarrow> True | Some x' \<Rightarrow> batch_known io events x'))"

fun batch_unhandled :: "(handler \<Rightarrow> event_io) \<Rightarrow> (nat \<times> ready) list \<Rightarrow> relay_ctx \<Rightarrow> bool" where
  "batch_unhandled io [] x \<longleftrightarrow> False"
| "batch_unhandled io ((token, ready) # events) x \<longleftrightarrow> (case sel_handlers (snd x) token of
     None \<Rightarrow> False
   | Some h \<Rightarrow> event_unhandled (io h) x h ready \<or> (case dispatch io h ready x of
       None \<Rightarrow> False | Some x' \<Rightarrow> batch_unhandled io events x'))"

lemma run_events_ok:
  "server_inv x \<Longrightarrow> batch_known io events x \<Longrightarrow> \<not> batch_unhandled io events x \<Longrightarrow>
    \<exists>x'. run_events (dispatch io) events x = Some x' \<and> server_inv x'"
proof (induction events arbitrary: x)
  case Nil
  then show ?case by simp
next
  case (Cons ev events)
  obtain token ready where ev: "ev = (token, ready)" by (cases ev)
  obtain h where h: "sel_handlers (snd x) token = Some h" "event_known (io h) x h" "\<not> event_unhandled (io h) x h ready"
    using Cons.prems(2,3) by (auto simp: ev split: option.splits)
  obtain x1 where x1: "dispatch io h ready x = Some x1" "server_inv x1"
    using dispatch_ok [of x io h ready, OF Cons.prems(1) h(2,3)] by blast
  have "batch_known io events x1" "\<not> batch_unhandled io events x1" using Cons.prems(2,3) h(1) x1(1) by (simp_all add: ev)
  then obtain x' where "run_events (dispatch io) events x1 = Some x'" "server_inv x'"
    using Cons.IH [OF x1(2)] by blast
  then show ?case using h(1) x1(1) by (simp add: ev)
qed

lemma clean_tokens_inv:
  assumes "server_inv (rw, s)"
  shows "\<exists>s'. clean_removed_tokens s = Some s' \<and> server_inv (rw, s')"
proof -
  obtain s' where s': "clean_removed_tokens s = Some s'" "sel_inv s'" "\<forall>t. live_token s' t \<longleftrightarrow> live_token s t"
    using clean_removed_tokens_ok [of s] server_invD(2) [OF assms] by auto
  then have "selector_grows s s'" by (simp add: selector_grows_def)
  then show ?thesis using s'(1) server_inv_selector [OF assms] by blast
qed

lemma run_handlers_ok:
  assumes "server_inv x" and "batch_known io events x" and "\<not> batch_unhandled io events x"
  shows "\<exists>x'. run_handlers (dispatch io) events x = Some x' \<and> server_inv x'"
proof -
  obtain rw s where r: "run_events (dispatch io) events x = Some (rw, s)" "server_inv (rw, s)"
    using run_events_ok [OF assms] by auto
  then show ?thesis using clean_tokens_inv [OF r(2)] by (auto simp: run_handlers_def)
qed

text \<open>One wake-up as a step of the relay.\<close>

inductive relay_step :: "relay_timers \<times> relay_ctx \<Rightarrow> relay_timers \<times> relay_ctx \<Rightarrow> bool" where
  wake: "poll_works (wk_poll k) \<Longrightarrow> walk_ok (wk_walk k) \<Longrightarrow> after_cleaning k timers x = Some y \<Longrightarrow>
    batch_known (wk_io k) events y \<Longrightarrow> \<not> batch_unhandled (wk_io k) events y \<Longrightarrow> poll_iteration k events (timers, x) = Some st \<Longrightarrow> relay_step (timers, x) st"

lemma after_cleaning_ok:
  assumes "poll_works (wk_poll k)" and "walk_ok (wk_walk k)" and "server_inv x"
  shows "\<exists>y. after_cleaning k timers x = Some y \<and> server_inv y"
  using clean_up_ok [OF assms, of "wk_instant k"] assms(3)
  by (cases "next_cleaning_deadline timers \<le> wk_now k") (simp_all add: after_cleaning_def, blast)

lemma poll_iteration_ok:
  assumes P: "poll_works (wk_poll k)" and walk: "walk_ok (wk_walk k)" and inv: "server_inv x"
    and batch: "\<And>y. after_cleaning k timers x = Some y \<Longrightarrow> batch_known (wk_io k) events y \<and> \<not> batch_unhandled (wk_io k) events y"
  shows "\<exists>x'. poll_iteration k events (timers, x) = Some (next_timers (wk_now k) timers, x') \<and> server_inv x'"
proof -
  obtain y where y: "after_cleaning k timers x = Some y" "server_inv y"
    using after_cleaning_ok [OF P walk inv] by blast
  obtain x' where "run_handlers (dispatch (wk_io k)) events y = Some x'" "server_inv x'"
    using run_handlers_ok [OF y(2)] batch [OF y(1)] by blast
  then show ?thesis using y by (cases "events = []") (simp_all add: poll_iteration_eq)
qed

lemma relay_step_inv:
  assumes "relay_step st st'" and "server_inv (snd st)"
  shows "server_inv (snd st')"
  using assms(1)
proof (cases rule: relay_step.cases)
  case (wake k timers x y events)
  then obtain x' where "poll_iteration k events (timers, x) = Some (next_timers (wk_now k) timers, x')" "server_inv x'"
    using poll_iteration_ok [of k x timers events] assms(2) by auto
  then show ?thesis using wake by simp
qed

text \<open>Every state that wake-ups lead to from the start satisfies the invariant of the server.\<close>

lemma reachable_inv:
  assumes "relay_step\<^sup>*\<^sup>* st st'" and "server_inv (snd st)"
  shows "server_inv (snd st')"
  using assms by (induction rule: rtranclp_induct) (auto intro: relay_step_inv)

section \<open>Runs\<close>

text \<open>
  Wake-ups whose answers keep the contracts, each at its turn, with interruptions between them; the
  last one may be an error of \<open>poll\<close>.  Then: one of them brings an event that is not handled.
\<close>

fun wakeups_known :: "wakeup list \<Rightarrow> relay_timers \<times> relay_ctx \<Rightarrow> bool" where
  "wakeups_known [] st \<longleftrightarrow> True"
| "wakeups_known (k # ks) st \<longleftrightarrow> (case wk_result k of
     Inl e \<Rightarrow> e = Interrupted \<longrightarrow> wakeups_known ks st
   | Inr events \<Rightarrow> poll_works (wk_poll k) \<and> walk_ok (wk_walk k)
       \<and> (case after_cleaning k (fst st) (snd st) of None \<Rightarrow> True | Some y \<Rightarrow> batch_known (wk_io k) events y)
       \<and> (case poll_iteration k events st of None \<Rightarrow> True | Some st' \<Rightarrow> wakeups_known ks st'))"

fun wakeups_unhandled :: "wakeup list \<Rightarrow> relay_timers \<times> relay_ctx \<Rightarrow> bool" where
  "wakeups_unhandled [] st \<longleftrightarrow> False"
| "wakeups_unhandled (k # ks) st \<longleftrightarrow> (case wk_result k of
     Inl e \<Rightarrow> e = Interrupted \<and> wakeups_unhandled ks st
   | Inr events \<Rightarrow>
       (case after_cleaning k (fst st) (snd st) of None \<Rightarrow> False | Some y \<Rightarrow> batch_unhandled (wk_io k) events y)
       \<or> (case poll_iteration k events st of None \<Rightarrow> False | Some st' \<Rightarrow> wakeups_unhandled ks st'))"

lemma poll_loop_ok:
  "server_inv (snd st) \<Longrightarrow> wakeups_known ks st \<Longrightarrow> \<not> wakeups_unhandled ks st \<Longrightarrow>
    \<exists>r st'. poll_loop ks st = Some (r, st') \<and> relay_step\<^sup>*\<^sup>* st st' \<and> server_inv (snd st')"
proof (induction ks arbitrary: st)
  case (Cons k ks)
  obtain timers x where st: "st = (timers, x)" by (cases st)
  show ?case
  proof (cases "wk_result k")
    case (Inl e)
    show ?thesis
    proof (cases "e = Interrupted")
      case True
      then show ?thesis using Cons.IH [of st] Cons.prems Inl by simp
    next
      case False
      then show ?thesis using Cons.prems(1) Inl by auto
    qed
  next
    case (Inr events)
    then have k: "poll_works (wk_poll k)" "walk_ok (wk_walk k)" and inv: "server_inv x"
      and b: "\<And>y. after_cleaning k timers x = Some y \<Longrightarrow> batch_known (wk_io k) events y \<and> \<not> batch_unhandled (wk_io k) events y"
      using Cons.prems by (auto simp: st)
    obtain x' where x': "poll_iteration k events (timers, x) = Some (next_timers (wk_now k) timers, x')" "server_inv x'"
      using poll_iteration_ok [of k x timers events, OF k inv b] by blast
    obtain y where y: "after_cleaning k timers x = Some y" using after_cleaning_ok [OF k inv] by blast
    have step: "relay_step st (next_timers (wk_now k) timers, x')"
      using relay_step.wake [OF k y _ _ x'(1)] b [OF y] by (simp add: st)
    have "wakeups_known ks (next_timers (wk_now k) timers, x')" "\<not> wakeups_unhandled ks (next_timers (wk_now k) timers, x')"
      using Cons.prems(2,3) Inr x'(1) by (simp_all add: st)
    then show ?thesis
      using Cons.IH [of "(next_timers (wk_now k) timers, x')"] x' Inr step
      by (auto simp: st intro: converse_rtranclp_into_rtranclp)
  qed
qed auto

lemma relay_run_interrupts:
  "relay_run P vacant adopted bind_to port start (filter (\<lambda>k. wk_result k \<noteq> Inl Interrupted) ks)
    = relay_run P vacant adopted bind_to port start ks"
  unfolding relay_run_def poll_loop_interrupts ..

end
