(* ===== verification/Dns.thy ===== *)
theory Dns
  imports Connection
begin

text \<open>
  \<open>dns.rs\<close>: the resolver that queries to the virtual DNS address are sent to.  A \<open>&str\<close> is the
  list of its Unicode scalar values; the parts of the standard library that the parser uses are
  written out.
\<close>

type_synonym str = "nat list"

abbreviation ascii :: "string \<Rightarrow> str" where
  "ascii \<equiv> map of_char"

section \<open>The standard library on strings\<close>

text \<open>\<open>str::lines\<close>: a line ends at a line feed, and loses a carriage return before it.\<close>

definition strip_cr :: "str \<Rightarrow> str" where
  "strip_cr l = (if l \<noteq> [] \<and> last l = 13 then butlast l else l)"

function str_lines :: "str \<Rightarrow> str list" where
  "str_lines text = (if text = [] then []
     else case dropWhile (\<lambda>c. c \<noteq> 10) text of
       [] \<Rightarrow> [text]
     | _ # rest \<Rightarrow> strip_cr (takeWhile (\<lambda>c. c \<noteq> 10) text) # str_lines rest)"
  by pat_completeness auto
termination
proof (relation "measure length")
  fix t x rest assume "dropWhile (\<lambda>c. c \<noteq> (10 :: nat)) t = x # rest"
  then have "length (x # rest) \<le> length t" by (metis length_dropWhile_le)
  then show "(rest, t) \<in> measure length" by simp
qed simp

declare str_lines.simps [simp del]

text \<open>\<open>char::is_whitespace\<close>, the White_Space property of Unicode.\<close>

definition is_whitespace :: "nat \<Rightarrow> bool" where
  "is_whitespace c \<longleftrightarrow> 9 \<le> c \<and> c \<le> 13 \<or> c \<in> {32, 133, 160, 5760, 8232, 8233, 8239, 8287, 12288}
     \<or> 8192 \<le> c \<and> c \<le> 8202"

function split_whitespace :: "str \<Rightarrow> str list" where
  "split_whitespace text = (let s = dropWhile is_whitespace text in
     if s = [] then [] else takeWhile (\<lambda>c. \<not> is_whitespace c) s # split_whitespace (dropWhile (\<lambda>c. \<not> is_whitespace c) s))"
  by pat_completeness auto
termination
proof (relation "measure length")
  fix t s :: str assume s: "s = dropWhile is_whitespace t" "s \<noteq> []"
  then obtain c u where c: "s = c # u" "\<not> is_whitespace c" by (metis hd_dropWhile list.exhaust_sel)
  have "length (dropWhile (\<lambda>c. \<not> is_whitespace c) s) \<le> length u"
    using c by (simp add: length_dropWhile_le)
  moreover have "length s \<le> length t" using s(1) by (simp add: length_dropWhile_le)
  ultimately show "(dropWhile (\<lambda>c. \<not> is_whitespace c) s, t) \<in> measure length" using c(1) by simp
qed simp

declare split_whitespace.simps [simp del]

text \<open>\<open>Ipv4Addr::from_str\<close>: four decimal octets without leading zeros, and nothing else.\<close>

fun split_on :: "nat \<Rightarrow> str \<Rightarrow> str list" where
  "split_on d [] = [[]]"
| "split_on d (c # s) = (if c = d then [] # split_on d s
     else case split_on d s of [] \<Rightarrow> [[c]] | w # ws \<Rightarrow> (c # w) # ws)"

definition parse_octet :: "str \<Rightarrow> u8 option" where
  "parse_octet s = (let n = foldl (\<lambda>n c. 10 * n + (c - 48)) 0 s in
     if s \<noteq> [] \<and> length s \<le> 3 \<and> (\<forall>c \<in> set s. 48 \<le> c \<and> c \<le> 57) \<and> (length s > 1 \<longrightarrow> hd s \<noteq> 48) \<and> n \<le> 255
     then Some (of_nat n) else None)"

definition parse_ipv4_addr :: "str \<Rightarrow> ipv4_addr option" where
  "parse_ipv4_addr s = (case split_on 46 s of
     [a, b, c, d] \<Rightarrow> do {
       a \<leftarrow> parse_octet a; b \<leftarrow> parse_octet b; c \<leftarrow> parse_octet c; d \<leftarrow> parse_octet d;
       Some (a, b, c, d) }
   | _ \<Rightarrow> None)"

section \<open>The resolver\<close>

fun find_map :: "('a \<Rightarrow> 'b option) \<Rightarrow> 'a list \<Rightarrow> 'b option" where
  "find_map f [] = None"
| "find_map f (x # xs) = (case f x of Some y \<Rightarrow> Some y | None \<Rightarrow> find_map f xs)"

definition resolver_line :: "str \<Rightarrow> ipv4_addr option" where
  "resolver_line line = (case split_whitespace (takeWhile (\<lambda>c. c \<noteq> 35) line) of
     [] \<Rightarrow> None
   | word # words \<Rightarrow>
       if word \<noteq> ascii ''nameserver'' then None
       else (case words of [] \<Rightarrow> None | addr # _ \<Rightarrow> parse_ipv4_addr addr))"

definition parse_resolver :: "str \<Rightarrow> ipv4_addr option" where
  "parse_resolver text = find_map resolver_line (str_lines text)"

text \<open>The version for systems with a \<open>/etc/resolv.conf\<close>.\<close>

definition no_resolver :: io_error where
  "no_resolver = NotFound"

definition system_resolver :: "str io_result \<Rightarrow> ipv4_addr io_result" where
  "system_resolver file = (case file of
     Inl e \<Rightarrow> Inl e
   | Inr text \<Rightarrow> (case parse_resolver text of Some a \<Rightarrow> Inr a | None \<Rightarrow> Inl no_resolver))"

definition is_unspecified :: "ipv4_addr \<Rightarrow> bool" where
  "is_unspecified a \<longleftrightarrow> a = (0, 0, 0, 0)"

definition is_multicast :: "ipv4_addr \<Rightarrow> bool" where
  "is_multicast a \<longleftrightarrow> 224 \<le> fst a \<and> fst a \<le> 239"

definition is_broadcast :: "ipv4_addr \<Rightarrow> bool" where
  "is_broadcast a \<longleftrightarrow> a = (255, 255, 255, 255)"

text \<open>
  The version for Windows.  \<open>GetNetworkParams\<close> asks for a larger buffer, fails, or gives the list of
  servers, each a C string in a fixed array; the code gives up after three requests for more.
  \<open>params n\<close> is the answer when \<open>n\<close> further requests would be made.
\<close>

datatype network_params = BufferOverflow | ParamsError io_error | DnsServers "bytes list"

definition node_address :: "bytes \<Rightarrow> ipv4_addr option" where
  "node_address node = do {
     address \<leftarrow> parse_ipv4_addr (map unat (takeWhile (\<lambda>c. c \<noteq> 0) node));
     if \<not> is_unspecified address \<and> \<not> is_multicast address \<and> \<not> is_broadcast address \<and> addr_u32 address \<noteq> VIRTUAL_DNS
     then Some address else None }"

fun network_resolver :: "nat \<Rightarrow> (nat \<Rightarrow> network_params) \<Rightarrow> ipv4_addr io_result" where
  "network_resolver 0 params = Inl OtherError"
| "network_resolver (Suc n) params = (case params n of
     BufferOverflow \<Rightarrow> network_resolver n params
   | ParamsError e \<Rightarrow> Inl e
   | DnsServers nodes \<Rightarrow> (case find_map node_address nodes of Some a \<Rightarrow> Inr a | None \<Rightarrow> Inl no_resolver))"

definition windows_resolver :: "(nat \<Rightarrow> network_params) \<Rightarrow> ipv4_addr io_result" where
  "windows_resolver params = network_resolver 3 params"

text \<open>\<open>UPSTREAM\<close> is a \<open>OnceLock\<close>: set once, or already set.\<close>

definition configure :: "ipv4_addr option \<Rightarrow> ipv4_addr io_result \<Rightarrow> (ipv4_addr \<times> u16) option
    \<Rightarrow> (ipv4_addr \<times> u16) io_result \<times> (ipv4_addr \<times> u16) option" where
  "configure explicit resolver upstream = (case (case explicit of Some ip \<Rightarrow> Inr ip | None \<Rightarrow> resolver) of
     Inl e \<Rightarrow> (Inl e, upstream)
   | Inr address \<Rightarrow>
       if addr_u32 address = VIRTUAL_DNS \<or> is_unspecified address \<or> is_multicast address \<or> is_broadcast address
       then (Inl InvalidInput, upstream)
       else (case upstream of
         None \<Rightarrow> (Inr (address, 53), Some (address, 53))
       | Some _ \<Rightarrow> (Inl AlreadyExists, upstream)))"

section \<open>What the parser reads\<close>

text \<open>The decimal form of an address, as \<open>Display\<close> writes it.\<close>

definition show_octet :: "u8 \<Rightarrow> str" where
  "show_octet v = (let n = unat v in
     (if 100 \<le> n then [48 + n div 100] else []) @ (if 10 \<le> n then [48 + n div 10 mod 10] else []) @ [48 + n mod 10])"

fun show_addr :: "ipv4_addr \<Rightarrow> str" where
  "show_addr (a, b, c, d) = show_octet a @ 46 # show_octet b @ 46 # show_octet c @ 46 # show_octet d"

lemma unat_u8: "unat (v :: u8) \<le> 255"
proof -
  have "unat v < 2 ^ LENGTH(8)" by (rule unsigned_less)
  then show ?thesis by simp
qed

lemma show_octet_digits: "c \<in> set (show_octet v) \<Longrightarrow> 48 \<le> c \<and> c \<le> 57"
  using unat_u8 [of v] by (auto simp: show_octet_def Let_def split: if_splits)

lemma parse_show_octet: "parse_octet (show_octet v) = Some v"
proof -
  define n where "n = unat v"
  have n: "n \<le> 255" "v = of_nat n" using unat_u8 [of v] by (simp_all add: n_def)
  have "n div 100 = n div 10 div 10" by (simp add: div_mult2_eq [symmetric])
  then have d: "10 * (n div 10) + n mod 10 = n" "10 * (n div 100) + n div 10 mod 10 = n div 10"
    by simp_all
  have d3: "100 * (n div 100) + 10 * (n div 10 mod 10) + n mod 10 = n" using d by linarith
  have val: "foldl (\<lambda>n c. 10 * n + (c - 48)) 0 (show_octet v) = n"
    using d d3 by (auto simp: show_octet_def n_def [symmetric] Let_def)
  have "show_octet v \<noteq> []" "length (show_octet v) \<le> 3" "length (show_octet v) > 1 \<longrightarrow> hd (show_octet v) \<noteq> 48"
    using n(1) by (auto simp: show_octet_def n_def [symmetric] Let_def)
  moreover have "\<forall>c \<in> set (show_octet v). 48 \<le> c \<and> c \<le> 57" using show_octet_digits by blast
  ultimately show ?thesis unfolding parse_octet_def val Let_def using n by simp
qed

lemma split_on_word: "d \<notin> set w \<Longrightarrow> split_on d w = [w]" "d \<notin> set w \<Longrightarrow> split_on d (w @ d # s) = w # split_on d s"
  by (induction w) auto

lemma parse_show_addr: "parse_ipv4_addr (show_addr a) = Some a"
proof -
  obtain p q r t where a: "a = (p, q, r, t)" by (cases a)
  have "46 \<notin> set (show_octet v)" for v using show_octet_digits [of 46 v] by auto
  then show ?thesis by (simp add: a parse_ipv4_addr_def split_on_word parse_show_octet)
qed

lemma show_addr_chars: "c \<in> set (show_addr a) \<Longrightarrow> 46 \<le> c \<and> c \<le> 57"
  using show_octet_digits by (cases a) fastforce

lemma split_whitespace_word:
  assumes "w \<noteq> []" and "\<forall>c \<in> set w. \<not> is_whitespace c" and "s = [] \<or> is_whitespace (hd s)"
  shows "split_whitespace (w @ s) = w # split_whitespace s"
proof -
  have "dropWhile is_whitespace (w @ s) = w @ s" using assms(1,2) by (cases w) simp_all
  moreover have "takeWhile (\<lambda>c. \<not> is_whitespace c) (w @ s) = w" "dropWhile (\<lambda>c. \<not> is_whitespace c) (w @ s) = s"
    using assms(2,3) by (cases s; simp add: takeWhile_append2 dropWhile_append2)+
  ultimately show ?thesis using assms(1) by (subst split_whitespace.simps) simp
qed

lemma split_whitespace_skip: "is_whitespace c \<Longrightarrow> split_whitespace (c # s) = split_whitespace s"
  by (subst (1 2) split_whitespace.simps) simp

lemma resolver_line_nameserver: "resolver_line (ascii ''nameserver'' @ 32 # show_addr a) = Some a"
proof -
  define name where "name = ascii ''nameserver''"
  have name: "name \<noteq> []" "\<forall>c \<in> set name. \<not> is_whitespace c" "35 \<notin> set name"
    by (simp_all add: name_def is_whitespace_def)
  have ws: "46 \<le> c \<Longrightarrow> c \<le> 57 \<Longrightarrow> \<not> is_whitespace c" for c by (auto simp: is_whitespace_def)
  have addr: "\<forall>c \<in> set (show_addr a). \<not> is_whitespace c" using show_addr_chars ws by blast
  have addr': "35 \<notin> set (show_addr a)" using show_addr_chars [of 35 a] by auto
  have addr'': "show_addr a \<noteq> []" by (cases a) simp
  have "35 \<notin> set (name @ 32 # show_addr a)" using name(3) addr' by simp
  then have line: "takeWhile (\<lambda>c. c \<noteq> 35) (name @ 32 # show_addr a) = name @ 32 # show_addr a"
    by (intro takeWhile_eq_all_conv [THEN iffD2] ballI notI) simp
  have "split_whitespace (name @ 32 # show_addr a) = [name, show_addr a]"
  proof -
    have 32: "is_whitespace 32" by (simp add: is_whitespace_def)
    have "split_whitespace (show_addr a @ []) = show_addr a # split_whitespace []"
      using split_whitespace_word [OF addr'' addr, of "[]"] by simp
    moreover have "split_whitespace [] = []" by (subst split_whitespace.simps) simp
    moreover have "split_whitespace (name @ 32 # show_addr a) = name # split_whitespace (32 # show_addr a)"
      by (rule split_whitespace_word [OF name(1,2)]) (simp add: 32)
    ultimately show ?thesis by (simp only: split_whitespace_skip [OF 32] append_Nil2)
  qed
  then show ?thesis unfolding resolver_line_def name_def [symmetric] line by (simp add: parse_show_addr)
qed

lemma parse_resolver_line:
  assumes "10 \<notin> set l" and "13 \<notin> set l" and "resolver_line l = Some a"
  shows "parse_resolver (l @ 10 # rest) = Some a"
proof -
  have "str_lines (l @ 10 # rest) = strip_cr l # str_lines rest"
  proof -
    have "\<forall>c \<in> set l. c \<noteq> 10" using assms(1) by auto
    then show ?thesis by (subst str_lines.simps) (simp add: takeWhile_append2 dropWhile_append2)
  qed
  moreover have "strip_cr l = l" using assms(2) by (auto simp: strip_cr_def dest: last_in_set)
  ultimately show ?thesis using assms(3) by (simp add: parse_resolver_def)
qed

text \<open>Lines before it that name no IPv4 resolver are passed over.\<close>

definition unlines :: "str list \<Rightarrow> str" where
  "unlines ls = concat (map (\<lambda>l. l @ [10]) ls)"

definition other_lines :: "str list \<Rightarrow> bool" where
  "other_lines ls \<longleftrightarrow> (\<forall>l \<in> set ls. 10 \<notin> set l \<and> resolver_line (strip_cr l) = None)"

lemma parse_resolver_skips: "other_lines ls \<Longrightarrow> parse_resolver (unlines ls @ text) = parse_resolver text"
proof (induction ls)
  case (Cons l ls)
  have l: "\<forall>c \<in> set l. c \<noteq> 10" "resolver_line (strip_cr l) = None" using Cons.prems by (auto simp: other_lines_def)
  have "str_lines (l @ 10 # t) = strip_cr l # str_lines t" for t
    using l(1) by (subst str_lines.simps) (simp add: takeWhile_append2 dropWhile_append2)
  then show ?case using Cons l(2) by (simp add: other_lines_def unlines_def parse_resolver_def)
qed (simp add: unlines_def)

text \<open>A comment, another keyword, and a \<open>nameserver\<close> without an IPv4 address are such lines.\<close>

lemma other_line_comment: "resolver_line (35 # l) = None"
  by (simp add: resolver_line_def split_whitespace.simps)

lemma parse_resolver_roundtrip:
  "parse_resolver (ascii ''nameserver'' @ 32 # show_addr a @ 10 # rest) = Some a"
proof -
  have "10 \<notin> set (ascii ''nameserver'' @ 32 # show_addr a)" "13 \<notin> set (ascii ''nameserver'' @ 32 # show_addr a)"
    using show_addr_chars [of 10 a] show_addr_chars [of 13 a] by auto
  from parse_resolver_line [OF this resolver_line_nameserver, of rest] show ?thesis by simp
qed

text \<open>A configured upstream can be used, and the first one stays.\<close>

lemma configure_ok:
  assumes "configure explicit resolver upstream = (r, upstream')"
  shows "upstream \<noteq> None \<Longrightarrow> upstream' = upstream \<and> (\<exists>e. r = Inl e)"
    and "r = Inr u \<Longrightarrow> upstream = None \<and> upstream' = Some u \<and> snd u = 53 \<and> addr_u32 (fst u) \<noteq> VIRTUAL_DNS
      \<and> \<not> is_unspecified (fst u) \<and> \<not> is_multicast (fst u) \<and> \<not> is_broadcast (fst u)"
    and "r = Inl e \<Longrightarrow> upstream' = upstream"
  using assms by (auto simp: configure_def split: sum.split_asm option.split_asm if_split_asm)

text \<open>The Windows resolver only offers what \<open>configure\<close> accepts; the other one takes the first
  \<open>nameserver\<close> line that holds an address, whatever it is.\<close>

lemma find_map_Some: "find_map f xs = Some y \<Longrightarrow> \<exists>x \<in> set xs. f x = Some y"
  by (induction xs) (auto split: option.splits)

lemma node_address_usable:
  assumes "node_address node = Some a"
  shows "configure None (Inr a) None = (Inr (a, 53), Some (a, 53))"
  using assms by (auto simp: node_address_def configure_def bind_eq_Some_conv split: if_splits)

lemma network_resolver_usable:
  "network_resolver n params = Inr a \<Longrightarrow> configure None (network_resolver n params) None = (Inr (a, 53), Some (a, 53))"
proof (induction n)
  case (Suc n)
  show ?case
  proof (cases "params n")
    case (DnsServers nodes)
    then obtain node where "node_address node = Some a"
      using Suc.prems find_map_Some [of node_address nodes a] by (auto split: option.splits)
    from node_address_usable [OF this] show ?thesis using Suc.prems by simp
  qed (use Suc in simp_all)
qed simp

lemma system_resolver_first:
  assumes "other_lines ls"
  shows "system_resolver (Inr (unlines ls @ ascii ''nameserver'' @ 32 # show_addr a @ 10 # rest)) = Inr a"
    and "system_resolver (Inr (unlines ls)) = Inl NotFound"
proof -
  show "system_resolver (Inr (unlines ls @ ascii ''nameserver'' @ 32 # show_addr a @ 10 # rest)) = Inr a"
    unfolding system_resolver_def sum.case parse_resolver_skips [OF assms] parse_resolver_roundtrip by simp
  have "str_lines [] = []" by (subst str_lines.simps) simp
  then show "system_resolver (Inr (unlines ls)) = Inl NotFound"
    using parse_resolver_skips [OF assms, of "[]"] by (simp add: system_resolver_def parse_resolver_def no_resolver_def)
qed

end
