(* ===== verification/Start.thy ===== *)
theory Start
  imports Relay Dns
begin

text \<open>
  \<open>main.rs\<close>, \<open>lib.rs\<close> and \<open>root_listener.rs\<close>: the command line, the listener that a parent process
  hands over, and the exit status.
\<close>

section \<open>Integers\<close>

text \<open>\<open>u16::from_str\<close> and \<open>i32::from_str\<close>: an optional sign, then decimal digits in range.\<close>

definition parse_digits :: "str \<Rightarrow> nat option" where
  "parse_digits s = (if s \<noteq> [] \<and> (\<forall>c \<in> set s. 48 \<le> c \<and> c \<le> 57)
     then Some (foldl (\<lambda>n c. 10 * n + (c - 48)) 0 s) else None)"

definition parse_u16 :: "str \<Rightarrow> u16 option" where
  "parse_u16 s = do {
     n \<leftarrow> parse_digits (case s of c # cs \<Rightarrow> if c = 43 then cs else s | [] \<Rightarrow> []);
     if n < 65536 then Some (of_nat n) else None }"

definition parse_i32 :: "str \<Rightarrow> int option" where
  "parse_i32 s = (case s of
     [] \<Rightarrow> None
   | c # cs \<Rightarrow> do {
       n \<leftarrow> parse_digits (if c = 43 \<or> c = 45 then cs else s);
       let i = (if c = 45 then - int n else int n);
       if - (2 ^ 31) \<le> i \<and> i < 2 ^ 31 then Some i else None })"

section \<open>The command line\<close>

datatype startup = PrintCapabilities | PrintVersion | PrintHelp | Usage | Serve u16 "ipv4_addr option"

fun parse_options :: "str list \<Rightarrow> u16 \<Rightarrow> ipv4_addr option \<Rightarrow> startup" where
  "parse_options [] port dns = Serve port dns"
| "parse_options (arg # args) port dns =
     (if arg = ascii ''--version'' then PrintVersion
      else if arg = ascii ''--port'' then (case args of
          [] \<Rightarrow> Usage
        | value # args \<Rightarrow> (case parse_u16 value of
            Some p \<Rightarrow> if p \<noteq> 0 then parse_options args p dns else Usage
          | None \<Rightarrow> Usage))
      else if arg = ascii ''--dns'' then (case args of
          [] \<Rightarrow> Usage
        | value # args \<Rightarrow> (case parse_ipv4_addr value of
            Some a \<Rightarrow> parse_options args port (Some a)
          | None \<Rightarrow> Usage))
      else if arg = ascii ''--help'' then PrintHelp
      else Usage)"

definition parse_command :: "str list \<Rightarrow> startup" where
  "parse_command args = (case args of
     arg # _ \<Rightarrow> if arg = ascii ''--network-quality-capabilities'' then PrintCapabilities
       else parse_options args 31417 None
   | [] \<Rightarrow> parse_options [] 31417 None)"

text \<open>
  The exit status of the process, \<open>None\<close> when the relay panics; \<open>args\<close> are the arguments without
  the program name, \<open>resolver\<close> the answer of \<open>system_resolver\<close>, \<open>serve\<close> is \<open>relaylib::relay\<close>.
\<close>

definition main_status :: "str list \<Rightarrow> ipv4_addr io_result \<Rightarrow> (u16 \<Rightarrow> unit io_result option) \<Rightarrow> nat option" where
  "main_status args resolver serve = (case parse_command args of
     Serve port dns \<Rightarrow> (case configure dns resolver None of
       (Inl e, _) \<Rightarrow> Some 2
     | (Inr u, _) \<Rightarrow> (case serve port of
         None \<Rightarrow> None
       | Some (Inl e) \<Rightarrow> Some 1
       | Some (Inr _) \<Rightarrow> Some 0))
   | Usage \<Rightarrow> Some 2
   | _ \<Rightarrow> Some 0)"

section \<open>The inherited listener\<close>

text \<open>\<open>std::env::var\<close>, and what the system says of the file descriptor.\<close>

datatype env_var = NotPresent | NotUnicode | Present str

record listener_io =
  li_local_addr :: "int \<Rightarrow> socket_addr io_result"
  li_set_nonblocking :: "int \<Rightarrow> unit io_result"
  li_from_std :: "int \<Rightarrow> nat io_result"

fun is_loopback :: "socket_addr \<Rightarrow> bool" where
  "is_loopback (SocketV4 a port) \<longleftrightarrow> fst a = 127"
| "is_loopback (SocketV6 a port) \<longleftrightarrow> a = replicate 15 0 @ [1]"

fun socket_port :: "socket_addr \<Rightarrow> u16" where
  "socket_port (SocketV4 a port) = port"
| "socket_port (SocketV6 a port) = port"

definition inherited :: "u16 \<Rightarrow> env_var \<Rightarrow> listener_io \<Rightarrow> nat option io_result" where
  "inherited port var io = (case var of
     NotPresent \<Rightarrow> Inr None
   | NotUnicode \<Rightarrow> Inl InvalidInput
   | Present value \<Rightarrow> (case parse_i32 value of
       None \<Rightarrow> Inl InvalidInput
     | Some fd \<Rightarrow>
         if fd < 3 then Inl InvalidInput
         else (case li_local_addr io fd of
           Inl e \<Rightarrow> Inl e
         | Inr address \<Rightarrow>
             if \<not> is_loopback address \<or> socket_port address \<noteq> port then Inl InvalidInput
             else (case li_set_nonblocking io fd of
               Inl e \<Rightarrow> Inl e
             | Inr _ \<Rightarrow> (case li_from_std io fd of
                 Inl e \<Rightarrow> Inl e
               | Inr listener \<Rightarrow> Inr (Some listener))))))"

text \<open>\<open>relaylib::relay\<close>: the relay on this port, for any finite number of wake-ups.\<close>

definition relay_port :: "poll \<Rightarrow> ((nat \<rightharpoonup> handler) \<Rightarrow> nat) \<Rightarrow> env_var \<Rightarrow> listener_io \<Rightarrow> (socket_addr \<Rightarrow> nat io_result)
    \<Rightarrow> int \<Rightarrow> wakeup list \<Rightarrow> u16 \<Rightarrow> unit io_result option" where
  "relay_port P vacant var io bind_to start ks port = map_option fst
     (relay_run P vacant (\<lambda>port. inherited port var io) bind_to port start ks)"

section \<open>What the command line can ask for\<close>

lemma parse_options_port:
  "parse_options args port dns = Serve p d \<Longrightarrow> port \<noteq> 0 \<Longrightarrow> p \<noteq> 0"
  by (induction args port dns rule: parse_options.induct)
    (auto split: if_splits list.splits option.splits)

text \<open>Decimal numbers as \<open>Display\<close> writes them are read back.\<close>

fun show_nat :: "nat \<Rightarrow> str" where
  "show_nat n = (if n < 10 then [48 + n] else show_nat (n div 10) @ [48 + n mod 10])"

declare show_nat.simps [simp del]

lemma show_nat_digits: "show_nat n \<noteq> [] \<and> (\<forall>c \<in> set (show_nat n). 48 \<le> c \<and> c \<le> 57)"
proof (induction n rule: show_nat.induct)
  case (1 n)
  have "48 + n mod 10 \<le> 57" by presburger
  then show ?case using 1 by (subst (1 2) show_nat.simps) auto
qed

lemma show_nat_value: "foldl (\<lambda>n c. 10 * n + (c - 48)) 0 (show_nat n) = n"
proof (induction n rule: show_nat.induct)
  case (1 n)
  then show ?case by (subst show_nat.simps) auto
qed

lemma parse_u16_show: "parse_u16 (show_nat (unat p)) = Some p"
proof -
  have d: "parse_digits (show_nat (unat p)) = Some (unat p)"
    using show_nat_digits [of "unat p"] show_nat_value [of "unat p"] by (simp add: parse_digits_def)
  have "(case show_nat (unat p) of c # cs \<Rightarrow> if c = 43 then cs else show_nat (unat p) | [] \<Rightarrow> []) = show_nat (unat p)"
    using show_nat_digits [of "unat p"] by (cases "show_nat (unat p)") auto
  then show ?thesis using d u16_less [of p] by (simp add: parse_u16_def)
qed

text \<open>A command line with any number of \<open>--port\<close> and \<open>--dns\<close> options: the last of each counts.\<close>

fun command_line :: "(u16 + ipv4_addr) list \<Rightarrow> str list" where
  "command_line [] = []"
| "command_line (Inl p # os) = ascii ''--port'' # show_nat (unat p) # command_line os"
| "command_line (Inr a # os) = ascii ''--dns'' # show_addr a # command_line os"

fun chosen :: "(u16 + ipv4_addr) list \<Rightarrow> u16 \<Rightarrow> ipv4_addr option \<Rightarrow> startup" where
  "chosen [] port dns = Serve port dns"
| "chosen (Inl p # os) port dns = chosen os p dns"
| "chosen (Inr a # os) port dns = chosen os port (Some a)"

lemma parse_options_chosen:
  "Inl 0 \<notin> set os \<Longrightarrow> parse_options (command_line os) port dns = chosen os port dns"
  by (induction os port dns rule: chosen.induct) (auto simp: parse_u16_show parse_show_addr simp del: show_addr.simps)

lemma parse_command_chosen:
  assumes "Inl 0 \<notin> set os"
  shows "parse_command (command_line os) = chosen os 31417 None"
proof -
  have "parse_command (command_line os) = parse_options (command_line os) 31417 None"
    by (cases os rule: command_line.cases) (simp_all add: parse_command_def)
  then show ?thesis using parse_options_chosen [OF assms] by simp
qed

text \<open>The process serves only with a port other than 0 and an upstream that was configured.\<close>

lemma main_status_serves:
  assumes "main_status args resolver serve \<notin> {Some 0, Some 2}"
  shows "\<exists>port dns u. parse_command args = Serve port dns \<and> port \<noteq> 0 \<and> configure dns resolver None = (Inr u, Some u)
    \<and> (case serve port of None \<Rightarrow> True | Some r \<Rightarrow> r \<noteq> Inr ())"
proof -
  obtain port dns where c: "parse_command args = Serve port dns"
    using assms by (cases "parse_command args") (simp_all add: main_status_def)
  have "port \<noteq> 0"
    using c parse_options_port [of args 31417 None] by (auto simp: parse_command_def split: list.splits if_splits)
  moreover obtain u where "configure dns resolver None = (Inr u, Some u)"
    using assms c configure_ok(2) [of dns resolver None]
    by (cases "configure dns resolver None") (auto simp: main_status_def split: sum.splits)
  ultimately show ?thesis using assms c
    by (intro exI [of _ port] exI [of _ dns] exI [of _ u]) (auto simp: main_status_def split: option.splits sum.splits)
qed

text \<open>The listener is bound to the loopback address, or inherited from a parent that bound it there.\<close>

lemma inherited_loopback:
  assumes "inherited port var io = Inr (Some l)"
  shows "\<exists>value fd a. var = Present value \<and> parse_i32 value = Some fd \<and> 3 \<le> fd \<and> li_local_addr io fd = Inr a
    \<and> is_loopback a \<and> socket_port a = port \<and> li_set_nonblocking io fd = Inr () \<and> li_from_std io fd = Inr l"
  using assms by (auto simp: inherited_def split: env_var.splits option.splits if_splits sum.splits)

lemma inherited_none: "inherited port var io = Inr None \<Longrightarrow> var = NotPresent"
  by (auto simp: inherited_def split: env_var.splits option.splits if_splits sum.splits)

text \<open>A listener that the relay serves on.\<close>

lemma start_socket_loopback:
  assumes "start_socket (\<lambda>port. inherited port var io) bind_to port = Inr l"
  shows "var = NotPresent \<and> bind_to (SocketV4 (127, 0, 0, 1) port) = Inr l
    \<or> (\<exists>value fd a. var = Present value \<and> parse_i32 value = Some fd \<and> 3 \<le> fd \<and> li_local_addr io fd = Inr a
      \<and> is_loopback a \<and> socket_port a = port \<and> li_set_nonblocking io fd = Inr () \<and> li_from_std io fd = Inr l)"
proof (cases "inherited port var io")
  case (Inr o_l)
  then show ?thesis
    using assms inherited_none [of port var io] inherited_loopback [of port var io l]
    by (cases o_l) (simp_all add: start_socket_def)
qed (use assms in \<open>simp add: start_socket_def\<close>)

text \<open>The server listens on what \<open>start_socket\<close> returned.\<close>

lemma created_listener:
  assumes "tunnel_server_create P vacant adopted bind_to port s = Some (Inr rw, s')"
  shows "start_socket adopted bind_to port = Inr (ts_tcp_listener (rw_server rw))"
proof (cases "start_socket adopted bind_to port")
  case (Inl e)
  then show ?thesis using assms by (simp add: tunnel_server_create_def)
next
  case (Inr l)
  then obtain r s1 where "selector_register P vacant l ServerHandler ready_readable s = Some (r, s1)"
    using assms by (cases "selector_register P vacant l ServerHandler ready_readable s")
      (auto simp: tunnel_server_create_def)
  then show ?thesis using assms Inr by (cases r) (auto simp: tunnel_server_create_def)
qed

text \<open>The wake-ups of a relay that was started, if it was.\<close>

definition started :: "poll \<Rightarrow> ((nat \<rightharpoonup> handler) \<Rightarrow> nat) \<Rightarrow> env_var \<Rightarrow> listener_io \<Rightarrow> (socket_addr \<Rightarrow> nat io_result)
    \<Rightarrow> int \<Rightarrow> u16 \<Rightarrow> (relay_timers \<times> relay_ctx) option" where
  "started P vacant var io bind_to start port =
     (case tunnel_server_create P vacant (\<lambda>port. inherited port var io) bind_to port selector_create of
        Some (Inr rw, s) \<Rightarrow> Some (start_timers start, rw, s) | _ \<Rightarrow> None)"

lemma relay_port_returns:
  assumes v: "slab_ok vacant"
    and k: "\<And>st. started P vacant var io bind_to start port = Some st \<Longrightarrow> wakeups_known ks st \<and> \<not> wakeups_unhandled ks st"
  shows "relay_port P vacant var io bind_to start ks port \<noteq> None"
proof -
  let ?c = "tunnel_server_create P vacant (\<lambda>port. inherited port var io) bind_to port selector_create"
  obtain r s where c: "?c = Some (r, s)" "case r of Inl e \<Rightarrow> True | Inr rw \<Rightarrow> server_inv (rw, s)"
    using tunnel_server_create_ok [OF selector_create_inv v, of P "\<lambda>port. inherited port var io" bind_to port]
    by (elim exE conjE) (rule that, assumption, simp split: sum.splits)
  show ?thesis
  proof (cases r)
    case (Inl e)
    then show ?thesis using c by (simp add: relay_port_def relay_run_def)
  next
    case (Inr rw)
    then have "wakeups_known ks (start_timers start, rw, s)" "\<not> wakeups_unhandled ks (start_timers start, rw, s)"
      using k c by (simp_all add: started_def)
    then obtain r' st' where "poll_loop ks (start_timers start, rw, s) = Some (r', st')"
      using poll_loop_ok [of "(start_timers start, rw, s)" ks] c Inr by auto
    then show ?thesis using c Inr by (cases st') (simp add: relay_port_def relay_run_def)
  qed
qed

lemma relay_port_interrupts:
  "relay_port P vacant var io bind_to start (filter (\<lambda>k. wk_result k \<noteq> Inl Interrupted) ks)
    = relay_port P vacant var io bind_to start ks"
  by (rule ext) (simp add: relay_port_def relay_run_interrupts)

text \<open>The exit status says what happened.\<close>

lemma main_status_cases:
  "case main_status args resolver serve of
     None \<Rightarrow> \<exists>port dns. parse_command args = Serve port dns \<and> serve port = None
   | Some n \<Rightarrow> n \<le> 2
     \<and> (n = 2 \<longleftrightarrow> parse_command args = Usage
        \<or> (\<exists>port dns e. parse_command args = Serve port dns \<and> fst (configure dns resolver None) = Inl e))
     \<and> (n = 1 \<longleftrightarrow> (\<exists>port dns u e. parse_command args = Serve port dns \<and> port \<noteq> 0
        \<and> configure dns resolver None = (Inr u, Some u) \<and> serve port = Some (Inl e)))"
proof (cases "parse_command args")
  case (Serve port dns)
  have p: "port \<noteq> 0"
    using Serve parse_options_port [of args 31417 None] by (auto simp: parse_command_def split: list.splits if_splits)
  obtain c c' where c: "configure dns resolver None = (c, c')" by fastforce
  show ?thesis
    using Serve p c configure_ok(2) [OF c]
    by (cases c; cases "serve port") (auto simp: main_status_def split: sum.splits)
qed (simp_all add: main_status_def)

end
