(* ===== verification/Sample_Worlds.thy ===== *)
theory Sample_Worlds
  imports Samples Start
begin

text \<open>
  A host whose calls succeed, a client with one TCP connection and a SYN in its input buffer, and a
  relay that serves this client and a second, idle one.  The properties of the router, the client,
  the server and the loop are applied to them.
\<close>

definition sample_host :: host where
  "sample_host = \<lparr>h_poll = sample_poll, h_vacant = (\<lambda>handlers. LEAST t. handlers t = None),
     h_upstream = Some ((192, 168, 1, 1), 53), h_now = 0, h_random = 5, h_tcp_connect = (\<lambda>_. Inr 8),
     h_udp_bind = Inr 9, h_udp_connect = (\<lambda>_ _. Inr ()), h_write = (\<lambda>bs. Inr (length bs))\<rparr>"

lemma sample_slab: "slab_ok (\<lambda>handlers. LEAST t. handlers t = None)"
proof -
  have "handlers (LEAST t. handlers t = None) = None" if f: "finite (dom handlers)" for handlers :: "nat \<rightharpoonup> handler"
  proof -
    obtain t where "t \<notin> dom handlers" using ex_new_if_finite [OF infinite_UNIV_nat f] by blast
    then have "handlers t = None" by (simp add: domIff)
    then show ?thesis by (rule LeastI)
  qed
  then show ?thesis by (simp add: slab_ok_def)
qed

lemma sample_host_ok: "host_ok sample_host"
  using sample_slab sample_poll_works by (simp add: host_ok_def sample_host_def)

lemma sample_host_answers: "host_answers sample_host"
  using sample_host_ok by (simp add: host_answers_def sample_host_def sample_poll_def)

text \<open>The order of a walk: any enumeration of the keys.\<close>

definition sample_walk :: "routes \<Rightarrow> connection_id list" where
  "sample_walk routes = (SOME ids. distinct ids \<and> set ids = dom routes)"

lemma sample_walk_ok: "walk_ok sample_walk"
proof -
  have "distinct (sample_walk routes) \<and> set (sample_walk routes) = dom routes" if "finite (dom routes)" for routes
    unfolding sample_walk_def by (rule someI_ex) (use finite_distinct_list [OF that] in blast)
  then show ?thesis by (simp add: walk_ok_def)
qed

section \<open>A client\<close>

definition sample_selector :: selector where
  "sample_selector = selector_create\<lparr>sel_handlers := [0 \<mapsto> ServerHandler, 2 \<mapsto> ClientHandler 0,
     3 \<mapsto> ConnectionHandler 0, 4 \<mapsto> ClientHandler 1]\<rparr>"

definition sample_client :: "nat \<Rightarrow> u32 \<Rightarrow> bytes \<Rightarrow> routes \<Rightarrow> client" where
  "sample_client token cid input routes = \<lparr>cl_id = cid,
     cl_channel = \<lparr>ch_network_to_client = sb_new (16 * MAX_PACKET_LENGTH), ch_stream = 5,
       ch_token = token, ch_interests = ready_readable\<rparr>,
     cl_client_to_network = \<lparr>bb_buf = input @ replicate (MAX_IP_PACKET_LENGTH - length input) 0, bb_head = length input\<rparr>,
     cl_routes = routes, cl_closed = False, cl_pending_packet_sources = [], cl_pending_id_bytes = 0\<rparr>"

definition sample_store :: "tcp_connection \<Rightarrow> conn_store" where
  "sample_store c = \<lparr>st_conns = [0 \<mapsto> TcpConn c], st_next = 1\<rparr>"

definition sample_world :: "bytes \<Rightarrow> tcp_connection \<Rightarrow> client_world" where
  "sample_world input c = \<lparr>cw_client = sample_client 2 1 input [tc_id c \<mapsto> 0], cw_store = sample_store c,
     cw_selector = sample_selector, cw_on_closed = 0\<rparr>"

lemma sample_selector_inv: "sel_inv sample_selector" "live_token sample_selector t \<longleftrightarrow> t \<in> {0, 2, 3, 4}"
  by (auto simp: sel_inv_def live_token_def sample_selector_def selector_create_def split: if_splits)

lemma sample_channel_inv: "ch_inv (cl_channel (sample_client token cid input routes))"
proof -
  have "length (sb_buf (sb_new c)) = c + 1" for c by (simp add: sb_new_def)
  then show ?thesis by (simp add: ch_inv_def sample_client_def)
qed

text \<open>Any connection of the flow of \<open>sample_syn\<close> will do in the store.\<close>

definition sample_flow :: "tcp_connection \<Rightarrow> bool" where
  "sample_flow c \<longleftrightarrow> tc_inv c \<and> tc_id c = tc_id sample_connection \<and> tc_token c = 3 \<and> \<not> tc_closed c"

lemma sample_connection_flow: "sample_flow sample_connection"
  using sample_ctx_inv by (simp add: sample_flow_def ctx_inv_def sample_connection_def)

lemma sample_world_inv:
  assumes c: "sample_flow c" and len: "length input \<le> MAX_IP_PACKET_LENGTH"
  shows "client_inv (sample_world input c)"
proof -
  have id: "v4_id Tcp (tc_id sample_connection)"
    by (simp add: v4_id_def sample_connection_def connection_id_from_headers_def to_socket_addr_def sample_packet_def
        to_addr_def Let_def)
  have "router_inv (client_router (sample_world input c))"
    using c id sample_selector_inv sample_channel_inv
    by (auto simp: router_inv_def client_router_def sample_world_def sample_client_def sample_store_def client_env_def
        env_ok_def routed_ok_def tcp_own_def sample_flow_def)
  moreover have "outside 2 (client_router (sample_world input c))"
    using c sample_selector_inv(2)
    by (auto simp: outside_def client_router_def sample_world_def sample_client_def sample_store_def client_env_def
        sample_flow_def)
  ultimately show ?thesis
    using len by (simp add: client_inv_def bb_inv_def sample_world_def sample_client_def)
qed

lemma sample_world_open: "\<not> cl_closed (cw_client (sample_world input c))"
  by (simp add: sample_world_def sample_client_def)

lemma sample_world_input: "bb_peek (cl_input (sample_world input c)) = input"
  by (simp add: bb_peek_def sample_world_def sample_client_def)

lemma sample_syn_frames: "frames sample_syn = ([sample_syn], [])"
proof -
  have "front_packet_length sample_syn = ok (Some 40)" "length sample_syn = 40" "front_packet_length [] = ok None"
    by code_simp+
  then show ?thesis by (simp add: frames_step frames.simps [of "[]"])
qed

definition sample_client_io :: client_io where
  "sample_client_io = \<lparr>ci_poll = sample_poll, ci_walk = sample_walk, ci_write = (\<lambda>bs. Inr (length bs)),
     ci_read = (\<lambda>n. Inr []), ci_hosts = (\<lambda>_. sample_host)\<rparr>"

lemma sample_client_io_ok: "io_ok sample_client_io"
  using sample_poll_works sample_walk_ok sample_host_ok
  by (simp add: io_ok_def sample_client_io_def writer_ok_def reader_ok_def)

section \<open>A relay with two clients\<close>

definition sample_relay :: relay_ctx where
  "sample_relay = (\<lparr>rw_server = \<lparr>ts_clients = [0, 1], ts_tcp_listener = 6, ts_next_client_id = 2\<rparr>,
     rw_clients = [0 \<mapsto> cw_client (sample_world sample_syn sample_connection), 1 \<mapsto> sample_client 4 1 [] Map.empty],
     rw_next = 2, rw_store = sample_store sample_connection, rw_owner = [0 \<mapsto> 0]\<rparr>, sample_selector)"

lemma sample_relay_worlds:
  "client_world_of 0 sample_relay = Some (sample_world sample_syn sample_connection)"
  "client_world_of 1 sample_relay = Some \<lparr>cw_client = sample_client 4 1 [] Map.empty,
     cw_store = sample_store sample_connection, cw_selector = sample_selector, cw_on_closed = 0\<rparr>"
  by (simp_all add: client_world_of_def sample_relay_def sample_world_def)

lemma sample_relay_inv: "server_inv sample_relay"
proof (rule server_invI)
  let ?w = "sample_world sample_syn sample_connection"
  let ?v = "\<lparr>cw_client = sample_client 4 1 [] Map.empty, cw_store = sample_store sample_connection,
    cw_selector = sample_selector, cw_on_closed = 0\<rparr>"
  have "length sample_syn = 40" by code_simp
  then have "client_inv ?w"
    by (intro sample_world_inv sample_connection_flow) (simp add: MAX_IP_PACKET_LENGTH_def)
  moreover have "router_inv (client_router ?v)" "outside 4 (client_router ?v)"
    using sample_selector_inv sample_channel_inv
    by (auto simp: router_inv_def outside_def client_router_def client_env_def env_ok_def sample_client_def sample_store_def)
  then have "client_inv ?v"
    by (simp add: client_inv_def bb_inv_def sample_client_def)
  ultimately show "\<exists>w. open_client sample_relay k w" if "k \<in> set (ts_clients (rw_server (fst sample_relay)))" for k
    using that sample_relay_worlds
    by (auto simp: open_client_def sample_relay_def sample_client_def sample_world_def)
  have a: "apart ?w ?v" "apart ?v ?w"
    using sample_selector_inv(2)
    by (auto simp: apart_def outside_def client_router_def client_env_def sample_world_def sample_client_def
        sample_store_def sample_connection_def)
  show "apart v w" if jk: "j \<in> set (ts_clients (rw_server (fst sample_relay)))" "k \<in> set (ts_clients (rw_server (fst sample_relay)))"
      "j \<noteq> k" "client_world_of j sample_relay = Some v" "client_world_of k sample_relay = Some w" for j k v w
    using jk a sample_relay_worlds by (auto simp: sample_relay_def)
qed (use sample_selector_inv in \<open>auto simp: sample_relay_def sample_store_def split: if_splits\<close>)

section \<open>TCP connections of other states\<close>

text \<open>An established connection whose client announced a window, and one that a read deferred.\<close>

definition sample_established :: tcp_connection where
  "sample_established = sample_connection\<lparr>tc_interests := ready_readable,
     tc_tcb := tcb_new\<lparr>tcb_state := Established, tcb_acknowledgement_number := 101, tcb_client_window := 1000\<rparr>\<rparr>"

lemma sample_established_flow: "sample_flow sample_established"
  using sample_connection_flow by (simp add: sample_flow_def sample_established_def tc_inv_def)

lemma sample_established_inv: "ctx_inv (sample_established, sample_env)"
  using sample_ctx_inv by (simp add: ctx_inv_def sample_established_def tc_inv_def)

lemma sample_established_may_read: "may_read sample_established"
proof -
  have "is_connected Established" "\<not> state_is_closed Established" by code_simp+
  then show ?thesis
    by (simp add: may_read_def sample_established_def sample_connection_def tcb_new_def remaining_client_window_def Let_def)
qed

text \<open>A segment of three bytes at the number that \<open>sample_established\<close> expects.\<close>

definition sample_push :: bytes where
  "sample_push = [0x45, 0, 0, 43, 0, 0, 0, 0, 64, 6, 0, 0, 10, 0, 0, 2, 93, 184, 216, 34,
     0xC0, 0, 0, 80, 0, 0, 0, 101, 0, 0, 0, 0, 0x50, 0x18, 0xFF, 0xFF, 0, 0, 0, 0, 7, 8, 9]"

definition sample_push_tcp :: tcp_header_data where
  "sample_push_tcp = \<lparr>th_source_port = 0xC000, th_destination_port = 80, th_sequence_number = 101,
     th_acknowledgement_number = 0, th_header_length = 20, th_flags = 0x18, th_window = 0xFFFF\<rparr>"

definition sample_push_packet :: ipv4_packet where
  "sample_push_packet = \<lparr>ip_raw = sample_push,
     ip_header_data = (ip_header_data sample_packet)\<lparr>ih_total_length := 43\<rparr>,
     ip_transport_data = Some (TcpTransport sample_push_tcp)\<rparr>"

lemma sample_push_facts:
  "tcp_packet sample_push_packet sample_push_tcp" "plain sample_push_tcp" "is_ack sample_push_tcp"
  "ipv4_packet_payload sample_push_packet = Some (Some [7, 8, 9])"
proof -
  have "ip_packet_parse sample_push = ok (Ipv4 sample_push_packet)" by code_simp
  from ip_packet_parse_ok [OF this] show "tcp_packet sample_push_packet sample_push_tcp"
    by (simp add: tcp_packet_def sample_push_packet_def)
  show "plain sample_push_tcp" "is_ack sample_push_tcp"
    "ipv4_packet_payload sample_push_packet = Some (Some [7, 8, 9])"
    by code_simp+
qed

lemma sample_established_stream:
  "tcp_expected sample_established = 101" "sb_contents (tc_client_to_network sample_established) = []"
  "sb_remaining (tc_client_to_network sample_established) = 4 * MAX_PACKET_LENGTH"
  "tcb_state (tc_tcb sample_established) = Established" "tcb_fin_sequence_number (tc_tcb sample_established) = None"
  "tcb_fin_received (tc_tcb sample_established) = False" "tc_closed sample_established = False"
  by (simp_all add: tcp_expected_def sample_established_def sample_connection_def tcb_new_def)

lemma sample_deferred:
  "\<exists>c q. sample_flow c \<and> owes_packet c q \<and> data_segment sample_established [1, 2, 3] q \<and> length (ip_raw q) = 43
    \<and> pk_payload_index (tc_network_to_client c) = 40 \<and> tc_packet_for_client_length c = Some (ipv4_packet_length q)"
proof -
  obtain d where d: "tcp_pk (tc_network_to_client sample_established) d"
    using sample_established_flow by (auto simp: sample_flow_def tc_inv_def)
  obtain p where p: "tcp_pk p (stamped (tc_tcb sample_established) (FLAG_ACK OR FLAG_PSH) d)"
    "pk_ipv4_header_data p = pk_ipv4_header_data sample_pk" "pk_payload_index p = 40"
    using update_headers_ok [OF d flag_values(7)] sample_pk_indices
    by (auto simp: sample_established_def sample_connection_def)
  then have inv: "pk_inv p" by (simp add: tcp_pk_def)
  obtain q p' where q: "packetize_read (\<lambda>n. Inr [1, 2, 3]) (Some 100) p = Some (Inr (Some q), p')" "pk_inv p'"
    "ipv4_sendable q" "ipv4_payload_bytes q = Some [1, 2, 3]"
    "ip_header_data q = (pk_ipv4_header_data p)\<lparr>ih_total_length := of_nat (pk_payload_index p + length [1 :: u8, 2, 3])\<rparr>"
    "ip_transport_data q = Some (pk_transport_header_data p)" "length (ip_raw q) = 43"
    "pk_payload_index p' = 40" "pk_transport_header_data p' = pk_transport_header_data p"
    "packetizer_inflate (ipv4_packet_length q) p' = Some q"
    using packetize_read_ok [OF inv, of "\<lambda>n. Inr [1, 2, 3]" "Some 100" "[1, 2, 3]"] p(3)
    by (auto simp: read_adapter_recv_def pk_capacity_def)
  let ?c = "sample_established\<lparr>tc_network_to_client := p', tc_packet_for_client_length := Some (ipv4_packet_length q)\<rparr>"
  have pk: "tc_network_to_client sample_established = sample_pk" by (simp add: sample_established_def sample_connection_def)
  have "tcp_pk p' (stamped (tc_tcb sample_established) (FLAG_ACK OR FLAG_PSH) d)"
    using p(1) q(2,9) by (simp add: tcp_pk_def)
  then have flow: "sample_flow ?c" using sample_established_flow by (auto simp: sample_flow_def tc_inv_def)
  have "packet_endpoints q = Some (pk_endpoints sample_pk)"
    using p(1,2) q(5,6) d by (simp add: packet_endpoints_def pk_endpoints_def tcp_pk_def stamped_def pk)
  then have "data_segment sample_established [1, 2, 3] q"
    using p(1) q sample_pk_indices by (simp add: data_segment_def pk tcp_pk_def stamped_def)
  moreover have "owes_packet ?c q" using q(10) by (simp add: owes_packet_def tcp_get_def)
  ultimately show ?thesis using flow q(7,8) by (intro exI [of _ ?c]) auto
qed

text \<open>The same segment with a FIN, and a connection that expects it with two bytes of room.\<close>

definition sample_fin_packet :: ipv4_packet where
  "sample_fin_packet = sample_push_packet\<lparr>ip_raw := sample_push[33 := 0x19],
     ip_transport_data := Some (TcpTransport (sample_push_tcp\<lparr>th_flags := 0x19\<rparr>))\<rparr>"

lemma sample_fin_facts:
  "tcp_packet sample_fin_packet (sample_push_tcp\<lparr>th_flags := 0x19\<rparr>)"
  "ipv4_packet_payload sample_fin_packet = Some (Some [7, 8, 9])"
proof -
  have "ip_packet_parse (sample_push[33 := 0x19]) = ok (Ipv4 sample_fin_packet)" by code_simp
  from ip_packet_parse_ok [OF this] show "tcp_packet sample_fin_packet (sample_push_tcp\<lparr>th_flags := 0x19\<rparr>)"
    by (simp add: tcp_packet_def sample_fin_packet_def)
  show "ipv4_packet_payload sample_fin_packet = Some (Some [7, 8, 9])" by code_simp
qed

lemma sample_full:
  "\<exists>c. ctx_inv (c, sample_env) \<and> tcb_state (tc_tcb c) = Established \<and> tcb_fin_sequence_number (tc_tcb c) = None
    \<and> tcp_expected c = 101 \<and> sb_remaining (tc_client_to_network c) = 2 \<and> sb_contents (tc_client_to_network c) \<noteq> []
    \<and> sb_offered (tc_client_to_network c) = sb_contents (tc_client_to_network c)
    \<and> \<not> tc_closed c \<and> tc_packet_for_client_length c = None"
proof -
  let ?b = "tc_client_to_network sample_established"
  have inv: "sb_inv ?b" "length (sb_buf ?b) = 262145"
    using sample_established_flow by (simp_all add: sample_flow_def tc_inv_def MAX_PACKET_LENGTH_def)
  have r: "sb_remaining ?b = 262144" using sample_established_stream(3) by (simp add: MAX_PACKET_LENGTH_def)
  then obtain s where s: "sb_inv s" "sb_contents s = replicate 262142 0" "length (sb_buf s) = 262145"
    "sb_read_from (replicate 262142 0) ?b = Some s"
    using sb_read_from_ok [OF inv(1), of "replicate 262142 0"] inv(2) by (auto simp: sample_established_stream(2))
  have "sb_tail ?b = 0" by (simp add: sample_established_def sample_connection_def sb_new_def)
  then have tail: "sb_tail s = 0" using s(4) sb_read_from_eq [OF inv(1), of "replicate 262142 0"] r by auto
  have size: "sb_size s = 262142" using arg_cong [OF s(2), of length] by simp
  have rem: "sb_remaining s = 2" using sb_remaining_eq [OF s(1)] s(3) size by simp
  let ?c = "sample_established\<lparr>tc_client_to_network := s, tc_tcb := (tc_tcb sample_established)\<lparr>
    tcb_acknowledgement_number := 101 - of_nat 262142\<rparr>\<rparr>"
  have "ctx_inv (?c, sample_env)"
    using sample_established_inv s(1,3) by (simp add: ctx_inv_def tc_inv_def MAX_PACKET_LENGTH_def)
  moreover have "tcp_expected ?c = 101" using size by (simp add: tcp_expected_def)
  moreover have "sb_contents s \<noteq> []" using s(2) by simp
  moreover have "length (sb_offered s) = length (sb_contents s)"
    using sb_offered_prefix(2) [OF s(1)] size s(3) tail by simp
  then have "sb_offered s = sb_contents s" using sb_offered_prefix(1) [OF s(1)] by (metis take_all_iff order_refl)
  moreover have "tc_packet_for_client_length sample_established = None"
    by (simp add: sample_established_def sample_connection_def)
  ultimately show ?thesis using rem by (intro exI [of _ ?c]) (simp add: sample_established_stream)
qed

section \<open>UDP and IPv6 connections\<close>

definition sample_udp_packet :: ipv4_packet where
  "sample_udp_packet = (case ip_packet_parse sample_udp of Some (Inr (Ipv4 q)) \<Rightarrow> q | _ \<Rightarrow> sample_packet)"

definition sample_udp_header :: transport_header_data where
  "sample_udp_header = the (ip_transport_data sample_udp_packet)"

definition sample_udp_connection :: "packetizer \<Rightarrow> datagram_buffer \<Rightarrow> udp_connection" where
  "sample_udp_connection p b = \<lparr>uc_id = connection_id_from_headers (ip_header_data sample_udp_packet) sample_udp_header,
     uc_socket = 8, uc_interests = Ready True True, uc_token = 3, uc_client_to_network = b, uc_network_to_client = p,
     uc_closed = False, uc_idle_since = 0\<rparr>"

lemma sample_udp_pk:
  "\<exists>p. packetizer_new (take 20 sample_udp, ip_header_data sample_udp_packet) (take 8 (drop 20 sample_udp), sample_udp_header) = Some p
    \<and> pk_inv p \<and> pk_payload_index p = 28"
proof -
  let ?d = "ip_header_data sample_udp_packet"
  have p: "ipv4_header_parse (take 20 sample_udp) = Some ?d" by code_simp
  have u: "udp_header_parse (take 8 (drop 20 sample_udp)) = Some \<lparr>uh_source_port = 0xC001, uh_destination_port = 53\<rparr>"
    "sample_udp_header = UdpTransport \<lparr>uh_source_port = 0xC001, uh_destination_port = 53\<rparr>" "ih_protocol ?d = Udp"
    by code_simp+
  have m: "transport_matches (ih_protocol ?d) sample_udp_header (take 8 (drop 20 sample_udp))"
    unfolding u(2,3) transport_matches_protocol using u(1) by simp
  have l: "length (take 20 sample_udp) = unat (ih_header_length ?d)"
    "length (take 8 (drop 20 sample_udp)) = unat (transport_header_length sample_udp_header)"
    "unat (ih_header_length (swapped_ipv4 ?d)) + unat (transport_header_length (swapped_transport sample_udp_header)) = 28"
    by code_simp+
  have c: "drop_bit 4 (take 20 sample_udp ! 0) = 4" "take 20 sample_udp ! 6 AND 0x3f = 0"
    "take 20 sample_udp ! 7 = 0" "20 \<le> length (take 20 sample_udp)"
    by code_simp+
  obtain q where "packetizer_new (take 20 sample_udp, ?d) (take 8 (drop 20 sample_udp), sample_udp_header) = Some q" "pk_inv q"
    "pk_ipv4_header_data q = swapped_ipv4 ?d" "pk_transport_header_data q = swapped_transport sample_udp_header"
    using packetizer_new_ok [OF p l(1) c(4) m l(2) c(1-3)] by blast
  then show ?thesis using l(3) by (auto simp: pk_inv_def)
qed

lemma sample_udp_inv: "pk_inv p \<Longrightarrow> dg_holds b ds \<Longrightarrow> udp_inv (sample_udp_connection p b, sample_env)"
  using sample_ctx_inv
  by (auto simp: udp_inv_def uc_inv_def sample_udp_connection_def ctx_inv_def sample_connection_def)

text \<open>A buffer that holds one datagram.\<close>

lemma sample_datagram: "\<exists>b. dg_holds b [[1, 2 :: u8]]"
proof -
  have "dg_safe [1, 2] (dg_new 8)" "dg_has_enough_space_for (length [1 :: u8, 2]) (dg_new 8)"
    by (simp_all add: dg_safe_def dg_has_enough_space_for_def dg_new_def)
  then show ?thesis using dg_read_from_moves [OF dg_new_holds, of "[1, 2]" 8] by auto
qed

section \<open>A server on a fresh selector\<close>

definition sample_listener_io :: listener_io where
  "sample_listener_io = \<lparr>li_local_addr = (\<lambda>_. Inr (SocketV4 (127, 0, 0, 1) 31417)), li_set_nonblocking = (\<lambda>_. Inr ()),
     li_from_std = (\<lambda>fd. Inr (nat fd))\<rparr>"

lemma sample_created:
  assumes "start_socket adopted bind_to port = Inr l"
  shows "\<exists>rw s. tunnel_server_create sample_poll (\<lambda>handlers. LEAST t. handlers t = None) adopted bind_to port selector_create
      = Some (Inr rw, s) \<and> ts_clients (rw_server rw) = [] \<and> sel_handlers s 0 = Some ServerHandler"
  using assms sample_poll_works
  by (auto simp: tunnel_server_create_def selector_register_def poll_do_def poll_works_def selector_create_def
      Let_def Least_eq_0)

end
