(* ===== verification/Tcp_Traces.thy ===== *)
theory Tcp_Traces
  imports Tcp_Stream
begin

text \<open>
  Whole runs of an established connection in both directions, against two abstract ends: a receiver
  with an expected number and a bounded queue, which the relay is to the client, and a sender that
  numbers its segments one after the other.
\<close>

section \<open>The abstract receiver\<close>

record receiver =
  rcv_next :: u32
  rcv_queue :: bytes
  rcv_capacity :: nat

text \<open>A segment arrives, with its number and its ACK flag; or bytes leave for the network.\<close>

datatype receiver_event = Arrives u32 bool bytes | Leaves nat

definition takes :: "receiver \<Rightarrow> u32 \<Rightarrow> bool \<Rightarrow> bytes \<Rightarrow> bool" where
  "takes r n acked bs \<longleftrightarrow> acked \<and> n = rcv_next r \<and> length (rcv_queue r) + length bs \<le> rcv_capacity r"

fun receiver_step :: "receiver_event \<Rightarrow> receiver \<Rightarrow> receiver" where
  "receiver_step (Arrives n acked bs) r = (if takes r n acked bs
     then r\<lparr>rcv_next := rcv_next r + of_nat (length bs), rcv_queue := rcv_queue r @ bs\<rparr> else r)"
| "receiver_step (Leaves w) r = r\<lparr>rcv_queue := drop w (rcv_queue r)\<rparr>"

fun receiver_run :: "receiver_event list \<Rightarrow> receiver \<Rightarrow> receiver" where
  "receiver_run [] r = r"
| "receiver_run (e # es) r = receiver_run es (receiver_step e r)"

text \<open>What was taken in, and what left.\<close>

fun taken :: "receiver_event list \<Rightarrow> receiver \<Rightarrow> bytes" where
  "taken [] r = []"
| "taken (Arrives n acked bs # es) r = (if takes r n acked bs then bs else [])
     @ taken es (receiver_step (Arrives n acked bs) r)"
| "taken (Leaves w # es) r = taken es (receiver_step (Leaves w) r)"

fun sent :: "receiver_event list \<Rightarrow> receiver \<Rightarrow> bytes" where
  "sent [] r = []"
| "sent (Arrives n acked bs # es) r = sent es (receiver_step (Arrives n acked bs) r)"
| "sent (Leaves w # es) r = take w (rcv_queue r) @ sent es (receiver_step (Leaves w) r)"

text \<open>The receiver forwards exactly what it takes, in order, and numbers exactly that.\<close>

lemma receiver_conserves:
  "sent es r @ rcv_queue (receiver_run es r) = rcv_queue r @ taken es r"
proof (induction es r rule: taken.induct)
  case (3 w es r)
  have "take w (rcv_queue r) @ drop w (rcv_queue r) @ t = rcv_queue r @ t" for t by (simp flip: append_assoc)
  then show ?case using 3 by simp
qed (simp_all flip: append_assoc)

lemma receiver_numbers:
  "rcv_next (receiver_run es r) = rcv_next r + of_nat (length (taken es r))"
  by (induction es r rule: taken.induct) (simp_all add: ac_simps)

section \<open>The relay as a receiver\<close>

text \<open>A packet of the client, or a writable event of the socket, which is told only when bytes wait.\<close>

datatype client_op = Segment ipv4_packet | Drain writer

definition written :: "writer \<Rightarrow> stream_buffer \<Rightarrow> nat" where
  "written W b = (case W (sb_offered b) of Inr w \<Rightarrow> w | Inl _ \<Rightarrow> 0)"

definition arrival :: "ipv4_packet \<Rightarrow> receiver_event" where
  "arrival q = (case (ip_transport_data q, ipv4_packet_payload q) of
     (Some (TcpTransport h), Some (Some bs)) \<Rightarrow> Arrives (th_sequence_number h) (is_ack h) bs
   | _ \<Rightarrow> Leaves 0)"

fun drive :: "poll \<Rightarrow> u32 \<Rightarrow> client_op list \<Rightarrow> tcp_ctx \<Rightarrow> (receiver_event list \<times> tcp_ctx) option" where
  "drive P random [] x = Some ([], x)"
| "drive P random (Segment q # ops) x = do {
     y \<leftarrow> handle_packet P random q x;
     (es, z) \<leftarrow> drive P random ops y;
     Some (arrival q # es, z) }"
| "drive P random (Drain W # ops) x = (if may_write (fst x) then do {
     (r, y) \<leftarrow> tcp_process_send P W x;
     (es, z) \<leftarrow> drive P random ops y;
     Some (Leaves (written W (tc_client_to_network (fst x))) # es, z) }
   else drive P random ops x)"

definition receiver_of :: "tcp_ctx \<Rightarrow> receiver" where
  "receiver_of x = \<lparr>rcv_next = tcp_expected (fst x), rcv_queue = tcp_buffered x, rcv_capacity = 4 * MAX_PACKET_LENGTH\<rparr>"

text \<open>Data flows: the connection is open, established, and neither side has sent a FIN.\<close>

definition flowing :: "tcp_ctx \<Rightarrow> bool" where
  "flowing x \<longleftrightarrow> ctx_inv x \<and> \<not> tc_closed (fst x) \<and> state_of x = Established
     \<and> tcb_fin_sequence_number (tc_tcb (fst x)) = None \<and> \<not> tcb_fin_received (tc_tcb (fst x))"

text \<open>Plain segments of the flow, and sockets that take something or would block.\<close>

fun client_op_ok :: "client_op \<Rightarrow> bool" where
  "client_op_ok (Segment q) \<longleftrightarrow> (\<exists>h. tcp_packet q h \<and> plain h)"
| "client_op_ok (Drain W) \<longleftrightarrow> (\<forall>bs. bs \<noteq> [] \<longrightarrow> W bs = Inl WouldBlock \<or> (\<exists>w. W bs = Inr w \<and> 0 < w \<and> w \<le> length bs))"

lemma flowing_room: "flowing x \<Longrightarrow> length bs \<le> sb_remaining (tc_client_to_network (fst x))
    \<longleftrightarrow> length (tcp_buffered x) + length bs \<le> 4 * MAX_PACKET_LENGTH"
  using length_sb_contents [of "tc_client_to_network (fst x)"] sb_size_remaining [of "tc_client_to_network (fst x)"]
  by (auto simp: flowing_def ctx_inv_def tc_inv_def sb_capacity_def)

lemma segment_refines:
  assumes x: "flowing x" and q: "client_op_ok (Segment q)"
  shows "\<exists>y. handle_packet P random q x = Some y \<and> flowing y
    \<and> receiver_of y = receiver_step (arrival q) (receiver_of x)"
proof -
  obtain h where h: "tcp_packet q h" "plain h" using q by auto
  obtain bs where bs: "ipv4_packet_payload q = Some (Some bs)" using tcp_packet_ok(2) [OF h(1)] by blast
  have a: "arrival q = Arrives (th_sequence_number h) (is_ack h) bs"
    using h(1) bs by (simp add: arrival_def tcp_packet_def)
  let ?took = "is_ack h \<and> th_sequence_number h = tcp_expected (fst x) \<and> length bs \<le> sb_remaining (tc_client_to_network (fst x))"
  obtain y where y: "handle_packet P random q x = Some y"
    "tcp_buffered y = tcp_buffered x @ (if ?took then bs else [])"
    "tcb_acknowledgement_number (tc_tcb (fst y)) = tcb_acknowledgement_number (tc_tcb (fst x))"
    "flowing y"
    using handle_packet_plain [OF _ _ _ h bs, of x] x unfolding flowing_def by blast
  have "tcp_expected (fst y) = tcp_expected (fst x) + of_nat (length (if ?took then bs else []))"
    by (rule tcp_expected_moves [OF y(2,3)])
  moreover have "takes (receiver_of x) (th_sequence_number h) (is_ack h) bs = ?took"
    using flowing_room [OF x, of bs] by (simp add: takes_def receiver_of_def)
  ultimately show ?thesis using y by (intro exI [of _ y]) (auto simp: receiver_of_def a)
qed

lemma drain_refines:
  assumes P: "poll_works P" and x: "flowing x" and W: "client_op_ok (Drain W)" and may: "may_write (fst x)"
  shows "\<exists>r y. tcp_process_send P W x = Some (r, y) \<and> flowing y
    \<and> receiver_of y = receiver_step (Leaves (written W (tc_client_to_network (fst x)))) (receiver_of x)"
proof -
  let ?b = "tc_client_to_network (fst x)"
  have inv: "ctx_inv x" "sb_inv ?b" using x by (simp_all add: flowing_def ctx_inv_def tc_inv_def)
  have ne: "tcp_buffered x \<noteq> []" using may inv(2) by (simp add: may_write_def sb_is_empty_iff)
  then have off: "sb_offered ?b \<noteq> []" using sb_offered_Nil [OF inv(2)] by simp
  consider (blocks) "W (sb_offered ?b) = Inl WouldBlock"
    | (writes) w where "W (sb_offered ?b) = Inr w" "0 < w" "w \<le> length (sb_offered ?b)"
    using W off by (auto simp del: length_greater_0_conv)
  then show ?thesis
  proof cases
    case blocks
    have "sb_write_to W ?b = Some (Inl WouldBlock, ?b)" by (rule sb_write_to_error [where W = W, OF inv(2) ne blocks])
    then show ?thesis using blocks x
      by (intro exI [of _ "Inl WouldBlock"] exI [of _ x])
        (simp add: tcp_process_send_def case_prod_beta written_def receiver_of_def)
  next
    case writes
    obtain y where y: "tcp_process_send P W x = Some (Inr (), y)" "tcp_buffered y = drop w (tcp_buffered x)"
      "tcp_expected (fst y) = tcp_expected (fst x)" "ctx_inv y" "tc_closed (fst y) = tc_closed (fst x)"
      "tc_tcb (fst y) = (tc_tcb (fst x))\<lparr>tcb_acknowledgement_number := tcb_acknowledgement_number (tc_tcb (fst x)) + of_nat w\<rparr>"
      using tcp_process_send_acks [where W = W and x = x, OF P inv(1) ne writes] x unfolding flowing_def by blast
    then have "flowing y" using x by (simp add: flowing_def)
    then show ?thesis using y writes(1)
      by (intro exI [of _ "Inr ()"] exI [of _ y]) (simp add: receiver_of_def written_def)
  qed
qed

text \<open>Any run of segments and writes is a run of the abstract receiver.\<close>

lemma drive_refines:
  assumes P: "poll_works P"
  shows "flowing x \<Longrightarrow> \<forall>op \<in> set ops. client_op_ok op \<Longrightarrow>
    \<exists>es z. drive P random ops x = Some (es, z) \<and> flowing z \<and> receiver_of z = receiver_run es (receiver_of x)
      \<and> filter (\<lambda>e. \<forall>w. e \<noteq> Leaves w) es = map arrival (List.map_filter (\<lambda>op. case op of Segment q \<Rightarrow> Some q | Drain W \<Rightarrow> None) ops)"
proof (induction ops arbitrary: x)
  case Nil
  then show ?case by (simp add: List.map_filter_def)
next
  case (Cons op ops)
  have ok: "client_op_ok op" "\<forall>op \<in> set ops. client_op_ok op" using Cons.prems(2) by simp_all
  show ?case
  proof (cases op)
    case (Segment q)
    obtain y where y: "handle_packet P random q x = Some y" "flowing y"
      "receiver_of y = receiver_step (arrival q) (receiver_of x)"
      using segment_refines [OF Cons.prems(1)] ok(1) Segment by blast
    have "arrival q \<noteq> Leaves w" for w
    proof -
      obtain h where "tcp_packet q h" using ok(1) Segment by auto
      then show ?thesis using tcp_packet_ok(2) [of q h] by (auto simp: arrival_def tcp_packet_def)
    qed
    then show ?thesis using Cons.IH [OF y(2) ok(2)] y Segment by (auto simp: List.map_filter_simps)
  next
    case (Drain W)
    show ?thesis
    proof (cases "may_write (fst x)")
      case True
      obtain r y where y: "tcp_process_send P W x = Some (r, y)" "flowing y"
        "receiver_of y = receiver_step (Leaves (written W (tc_client_to_network (fst x)))) (receiver_of x)"
        using drain_refines [OF P Cons.prems(1) _ True] ok(1) Drain by blast
      then show ?thesis using Cons.IH [OF y(2) ok(2)] True Drain by (auto simp: List.map_filter_simps)
    next
      case False
      then show ?thesis using Cons.IH [OF Cons.prems(1) ok(2)] Drain by (auto simp: List.map_filter_simps)
    qed
  qed
qed

section \<open>The relay as a sender\<close>

text \<open>Segments numbered one after the other from \<open>n\<close>: each starts where the one before ended.\<close>

definition carries :: "ipv4_packet \<Rightarrow> u32 \<Rightarrow> bytes \<Rightarrow> bool" where
  "carries q n bs \<longleftrightarrow> ipv4_sendable q \<and> ipv4_payload_bytes q = Some bs
     \<and> (\<exists>d. ip_transport_data q = Some (TcpTransport d) \<and> th_sequence_number d = n)"

fun numbered :: "u32 \<Rightarrow> bytes list \<Rightarrow> ipv4_packet list \<Rightarrow> bool" where
  "numbered n [] [] \<longleftrightarrow> True"
| "numbered n (bs # bss) (q # qs) \<longleftrightarrow> carries q n bs \<and> numbered (n + of_nat (length bs)) bss qs"
| "numbered n _ _ \<longleftrightarrow> False"

text \<open>A socket that has the bytes \<open>bs\<close> to read.\<close>

definition has_bytes :: "bytes \<Rightarrow> reader" where
  "has_bytes bs = (\<lambda>n. Inr (take n bs))"

text \<open>The most that a read asks for.\<close>

definition asked :: "tcp_ctx \<Rightarrow> nat" where
  "asked x = unat (min (remaining_client_window (tc_tcb (fst x))) MAX_PAYLOAD_LENGTH)"

text \<open>
  Readable events, told only while a read is allowed: \<open>src\<close> is what the peer still has to send, of
  which \<open>k\<close> bytes have arrived at an event.
\<close>

fun read_all :: "poll \<Rightarrow> nat list \<Rightarrow> bytes \<times> tcp_ctx \<Rightarrow> (bytes \<times> tcp_ctx) option" where
  "read_all P [] (src, x) = Some (src, x)"
| "read_all P (k # ks) (src, x) = (if may_read (fst x) \<and> take k src \<noteq> [] then do {
     (r, y) \<leftarrow> tcp_process_receive P (has_bytes (take k src)) x;
     read_all P ks (drop (min (asked x) k) src, y) }
   else read_all P ks (src, x))"

lemma window_shrinks:
  assumes "remaining_client_window t = w" and "n \<le> unat w"
  shows "unat (remaining_client_window (t\<lparr>tcb_sequence_number := tcb_sequence_number t + of_nat n\<rparr>)) = unat w - n"
proof -
  define r where "r = tcb_their_acknowledgement_number t + ucast (tcb_client_window t) - tcb_sequence_number t"
  have u: "unat (ucast v :: u16) = unat v" if "v \<le> ucast (tcb_client_window t)" for v :: u32
  proof -
    have "unat v \<le> unat (tcb_client_window t)" using that by (simp add: word_le_nat_alt)
    then have "unat v < 65536" using u16_less [of "tcb_client_window t"] by linarith
    then show ?thesis by (simp add: unsigned_ucast_eq take_bit_eq_mod)
  qed
  show ?thesis
  proof (cases "r \<le> ucast (tcb_client_window t)")
    case True
    then have w: "unat w = unat r" using assms(1) u [OF True] by (simp add: remaining_client_window_def r_def Let_def)
    have n: "of_nat n \<le> r" "unat (of_nat n :: u32) = n"
      using assms(2) w u32_less [of r] by (simp_all add: word_le_nat_alt unat_of_nat)
    then have sub: "unat (r - of_nat n) = unat r - n" by (simp add: unat_sub)
    then have le: "r - of_nat n \<le> ucast (tcb_client_window t)" using True by (simp add: word_le_nat_alt)
    have "tcb_their_acknowledgement_number t + ucast (tcb_client_window t) - (tcb_sequence_number t + of_nat n) = r - of_nat n"
      by (simp add: r_def)
    moreover have "remaining_client_window (t\<lparr>tcb_sequence_number := m\<rparr>) =
        (if tcb_their_acknowledgement_number t + ucast (tcb_client_window t) - m \<le> ucast (tcb_client_window t)
         then ucast (tcb_their_acknowledgement_number t + ucast (tcb_client_window t) - m) else 0)" for m
      by (simp add: remaining_client_window_def Let_def)
    ultimately show ?thesis using le u [OF le] sub w by (simp only: if_True)
  next
    case False
    then have "w = 0" using assms(1) by (simp add: remaining_client_window_def r_def Let_def)
    then show ?thesis using assms by simp
  qed
qed

lemma tcp_read_sends:
  assumes P: "poll_works P" and inv: "ctx_inv x" and op: "\<not> tc_closed (fst x)" and may: "may_read (fst x)" and ne: "bs \<noteq> []"
    and ds: "ds = take (asked x) bs"
  shows "\<exists>y q. tcp_process_receive P (has_bytes bs) x = Some (Inr (), y) \<and> ctx_inv y \<and> \<not> tc_closed (fst y)
    \<and> carries q (tcb_sequence_number (tc_tcb (fst x))) ds \<and> ds \<noteq> []
    \<and> (if length (ip_raw q) \<le> sb_remaining (ch_network_to_client (en_channel (snd x)))
       then tc_packet_for_client_length (fst y) = None
         \<and> tc_tcb (fst y) = (tc_tcb (fst x))\<lparr>tcb_sequence_number := tcb_sequence_number (tc_tcb (fst x)) + of_nat (length ds)\<rparr>
         \<and> ch_contents (en_channel (snd y)) = ch_contents (en_channel (snd x)) @ ip_raw q
       else tc_packet_for_client_length (fst y) \<noteq> None)"
proof -
  obtain c e where x: "x = (c, e)" by (cases x)
  note M = may_readD [OF may]
  define m where "m = unat (min (remaining_client_window (tc_tcb c)) MAX_PAYLOAD_LENGTH)"
  have "unat MAX_PAYLOAD_LENGTH = 16344" by (simp add: MAX_PAYLOAD_LENGTH_def MTU_def)
  then have m: "m \<le> 16344" "0 < m" using M by (simp_all add: x m_def min_def word_le_nat_alt word_less_nat_alt)
  have d0: "ds = take m bs" using ds by (simp add: x m_def asked_def)
  obtain d where d: "tcp_pk (tc_network_to_client c) d" using inv by (auto simp: x ctx_inv_def tc_inv_def)
  obtain p where p: "update_headers (tc_tcb c) (FLAG_ACK OR FLAG_PSH) (tc_network_to_client c) = Some p"
    "tcp_pk p (stamped (tc_tcb c) (FLAG_ACK OR FLAG_PSH) d)" "pk_ipv4_header_data p = pk_ipv4_header_data (tc_network_to_client c)"
    "pk_payload_index p = pk_payload_index (tc_network_to_client c)"
    using update_headers_ok [OF d flag_values(7)] by blast
  then have pi: "pk_inv p" and td: "pk_transport_header_data p = TcpTransport (stamped (tc_tcb c) (FLAG_ACK OR FLAG_PSH) d)"
    by (simp_all add: tcp_pk_def)
  have idx: "pk_payload_index p \<le> 120" "length (pk_buffer p) = MAX_PACKET_LENGTH"
    using tcp_pk_index [OF p(2)] pi by (simp_all add: pk_inv_def)
  have "min m (pk_room p) = m" using idx m(1) by (simp add: pk_room_def MAX_PACKET_LENGTH_def)
  then have recv: "read_adapter_recv (has_bytes bs) (Some m) (pk_room p) = Inr ds"
    by (simp add: read_adapter_recv_def has_bytes_def d0)
  have "length ds \<le> m" by (simp add: d0)
  then have dn: "ds \<noteq> []" "length ds \<le> pk_capacity p" using ne m idx(1) by (simp_all add: d0 pk_capacity_def)
  obtain q p' where q: "packetize_read (has_bytes bs) (Some m) p = Some (Inr (Some q), p')" "pk_inv p'"
    "ipv4_sendable q" "ipv4_payload_bytes q = Some ds" "ip_transport_data q = Some (pk_transport_header_data p)"
    "pk_transport_header_data p' = pk_transport_header_data p"
    using packetize_read_ok [OF pi recv dn(2,1)] by blast
  have car: "carries q (tcb_sequence_number (tc_tcb c)) ds" using q(3-5) td by (simp add: carries_def stamped_def)
  have pay: "ipv4_packet_payload q = Some (Some ds)"
    using q(4) by (cases "ipv4_packet_payload q") (simp_all add: ipv4_payload_bytes_def)
  let ?c = "c\<lparr>tc_network_to_client := p'\<rparr>"
  have "\<exists>d'. tcp_pk p' d'" using p(2) q(2,6) by (auto simp: tcp_pk_def)
  then have i: "ctx_inv (?c, e)" using inv by (auto simp: x ctx_inv_def tc_inv_def)
  have ch: "ch_inv (en_channel e)" using inv by (simp add: x ctx_inv_def)
  obtain e' where e': "send_through P (ip_raw q) e = Some
      (if length (ip_raw q) \<le> sb_remaining (ch_network_to_client (en_channel e)) then Inr () else Inl WouldBlock, e')"
    "offered e (ip_raw q) e'"
    using send_through_ok [OF P ch] by blast
  have i': "ctx_inv (?c\<lparr>tc_packet_for_client_length := l, tc_tcb := t\<rparr>, e'\<lparr>en_requests := rs\<rparr>)" for l t rs
    using i e'(2) same_tokens_inv by (auto simp: ctx_inv_def tc_inv_def offered_def)
  let ?t = "(tc_tcb c)\<lparr>tcb_sequence_number := tcb_sequence_number (tc_tcb c) + of_nat (length ds)\<rparr>"
  show ?thesis
  proof (cases "length (ip_raw q) \<le> sb_remaining (ch_network_to_client (en_channel e))")
    case True
    have "tcp_process_receive P (has_bytes bs) x = Some (Inr (), ?c\<lparr>tc_tcb := ?t\<rparr>, e')"
      using M p(1) q(1) e'(1) True pay by (simp add: x tcp_process_receive_def m_def Let_def tcb_update_def)
    moreover have "ctx_inv (?c\<lparr>tc_tcb := ?t\<rparr>, e')"
      using i' [where l = "tc_packet_for_client_length c" and t = ?t and rs = "en_requests e'"] by (simp add: ctx_inv_def tc_inv_def)
    ultimately show ?thesis
      using True car dn(1) op M e'(2) by (intro exI [of _ "(?c\<lparr>tc_tcb := ?t\<rparr>, e')"] exI [of _ q]) (simp add: x offered_def)
  next
    case False
    let ?y = "(?c\<lparr>tc_packet_for_client_length := Some (ipv4_packet_length q)\<rparr>, request RegisterPendingSource e')"
    have "tcp_process_receive P (has_bytes bs) x = Some (Inr (), ?y)"
      using M p(1) q(1) e'(1) False by (simp add: x tcp_process_receive_def m_def Let_def)
    moreover have "ctx_inv ?y"
      using i' [where l = "Some (ipv4_packet_length q)" and t = "tc_tcb c" and rs = "en_requests e' @ [RegisterPendingSource]"]
      by (simp add: request_def ctx_inv_def tc_inv_def)
    ultimately show ?thesis using False car dn(1) op by (intro exI [of _ ?y] exI [of _ q]) (simp add: x)
  qed
qed

lemma read_all_deferred: "tc_packet_for_client_length (fst x) \<noteq> None \<Longrightarrow> read_all P ks (src, x) = Some (src, x)"
  by (induction ks) (simp_all add: may_read_def)

text \<open>What the client gets, as long as nothing is deferred: the stream of the peer, cut into segments
  that are numbered without gap and stay within the window it announced.\<close>

definition relayed :: "tcp_ctx \<Rightarrow> bytes \<Rightarrow> tcp_ctx \<Rightarrow> bytes \<Rightarrow> bool" where
  "relayed x src z rest \<longleftrightarrow> (\<exists>ds qs. numbered (tcb_sequence_number (tc_tcb (fst x))) ds qs \<and> concat ds @ rest = src
     \<and> ch_contents (en_channel (snd z)) = ch_contents (en_channel (snd x)) @ concat (map ip_raw qs)
     \<and> tcb_sequence_number (tc_tcb (fst z)) = tcb_sequence_number (tc_tcb (fst x)) + of_nat (length (concat ds))
     \<and> length (concat ds) \<le> unat (remaining_client_window (tc_tcb (fst x))))"

lemma relayed_refl: "relayed x src x src"
  unfolding relayed_def by (intro exI [of _ "[]"]) simp

lemma relayed_step:
  assumes q: "carries q (tcb_sequence_number (tc_tcb (fst x))) ds" and src: "src = ds @ src'"
    and t: "tc_tcb (fst y) = (tc_tcb (fst x))\<lparr>tcb_sequence_number := tcb_sequence_number (tc_tcb (fst x)) + of_nat (length ds)\<rparr>"
    and out: "ch_contents (en_channel (snd y)) = ch_contents (en_channel (snd x)) @ ip_raw q"
    and le: "length ds \<le> unat (remaining_client_window (tc_tcb (fst x)))" and r: "relayed y src' z rest"
  shows "relayed x src z rest"
proof -
  have win: "unat (remaining_client_window (tc_tcb (fst y))) = unat (remaining_client_window (tc_tcb (fst x))) - length ds"
    unfolding t by (rule window_shrinks [OF refl le])
  obtain ds' qs where d: "numbered (tcb_sequence_number (tc_tcb (fst y))) ds' qs" "concat ds' @ rest = src'"
    "ch_contents (en_channel (snd z)) = ch_contents (en_channel (snd y)) @ concat (map ip_raw qs)"
    "tcb_sequence_number (tc_tcb (fst z)) = tcb_sequence_number (tc_tcb (fst y)) + of_nat (length (concat ds'))"
    "length (concat ds') \<le> unat (remaining_client_window (tc_tcb (fst y)))"
    using r unfolding relayed_def by blast
  show ?thesis unfolding relayed_def
    by (rule exI [of _ "ds # ds'"], rule exI [of _ "q # qs"]) (use d q t out win le src in \<open>simp add: ac_simps\<close>)
qed

lemma read_all_relays:
  assumes P: "poll_works P"
  shows "ctx_inv x \<Longrightarrow> \<not> tc_closed (fst x) \<Longrightarrow>
    \<exists>rest z. read_all P ks (src, x) = Some (rest, z) \<and> ctx_inv z \<and> \<not> tc_closed (fst z)
      \<and> (tc_packet_for_client_length (fst z) = None \<longrightarrow> relayed x src z rest)"
proof (induction ks arbitrary: x src)
  case Nil
  then show ?case by (simp add: relayed_refl)
next
  case (Cons k ks)
  show ?case
  proof (cases "may_read (fst x) \<and> take k src \<noteq> []")
    case False
    then show ?thesis using Cons.IH [OF Cons.prems, of src] by auto
  next
    case True
    define ds where "ds = take (asked x) (take k src)"
    let ?src = "drop (min (asked x) k) src"
    have src: "src = ds @ ?src" by (simp add: ds_def)
    obtain y q where y: "tcp_process_receive P (has_bytes (take k src)) x = Some (Inr (), y)" "ctx_inv y" "\<not> tc_closed (fst y)"
      "carries q (tcb_sequence_number (tc_tcb (fst x))) ds"
      "if length (ip_raw q) \<le> sb_remaining (ch_network_to_client (en_channel (snd x)))
       then tc_packet_for_client_length (fst y) = None
         \<and> tc_tcb (fst y) = (tc_tcb (fst x))\<lparr>tcb_sequence_number := tcb_sequence_number (tc_tcb (fst x)) + of_nat (length ds)\<rparr>
         \<and> ch_contents (en_channel (snd y)) = ch_contents (en_channel (snd x)) @ ip_raw q
       else tc_packet_for_client_length (fst y) \<noteq> None"
      using tcp_read_sends [OF P Cons.prems conjunct1 [OF True] conjunct2 [OF True] ds_def] by blast
    show ?thesis
    proof (cases "length (ip_raw q) \<le> sb_remaining (ch_network_to_client (en_channel (snd x)))")
      case False
      then show ?thesis using True y read_all_deferred [of y P ks ?src]
        by (intro exI [of _ ?src] exI [of _ y]) auto
    next
      case room: True
      obtain rest z where z: "read_all P ks (?src, y) = Some (rest, z) \<and> ctx_inv z \<and> \<not> tc_closed (fst z)
          \<and> (tc_packet_for_client_length (fst z) = None \<longrightarrow> relayed y ?src z rest)"
        using Cons.IH [OF y(2,3), of ?src] by (auto simp del: split_paired_Ex)
      have le: "length ds \<le> unat (remaining_client_window (tc_tcb (fst x)))"
        by (simp add: ds_def asked_def min_def word_le_nat_alt)
      have t: "tc_tcb (fst y) = (tc_tcb (fst x))\<lparr>tcb_sequence_number := tcb_sequence_number (tc_tcb (fst x)) + of_nat (length ds)\<rparr>"
        and out: "ch_contents (en_channel (snd y)) = ch_contents (en_channel (snd x)) @ ip_raw q"
        using y(5) room by simp_all
      have "relayed x src z rest" if "relayed y ?src z rest" using y(4) src t out le that by (rule relayed_step)
      then show ?thesis using True y(1) z by (intro exI [of _ rest] exI [of _ z]) simp
    qed
  qed
qed

end
