(* ===== verification/Header_Tests.thy ===== *)
theory Header_Tests
  imports Ipv4_Packet Dns
begin

text \<open>
  The unit tests of the header, packet, identity and resolver modules, run on the model.  A test is
  the sequence of its calls and assertions, \<open>None\<close> when it would panic; that it passes is checked
  by evaluation.
\<close>

section \<open>\<open>ipv4_header.rs\<close>\<close>

definition create_ipv4_header :: bytes where
  "create_ipv4_header = [push_bit 4 4 OR 5, 0] @ enc16 28 @ enc32 0 @ [0, 17] @ enc16 0
     @ enc32 0x12345678 @ enc32 0x42424242"

definition test_ipv4_parse_header :: "unit option" where
  "test_ipv4_parse_header = do {
     data \<leftarrow> ipv4_header_parse create_ipv4_header;
     assert_that (4 = ih_version data);
     assert_that (20 = ih_header_length data);
     assert_that (28 = ih_total_length data);
     assert_that (Udp = ih_protocol data);
     assert_that (0x12345678 = ih_source data);
     assert_that (0x42424242 = ih_destination data) }"

definition test_ipv4_edit_header :: "unit option" where
  "test_ipv4_edit_header = do {
     header_data \<leftarrow> ipv4_header_parse create_ipv4_header;
     header \<leftarrow> ipv4_set_source 0x87654321 (create_ipv4_header, header_data);
     header \<leftarrow> ipv4_set_destination 0x24242424 header;
     header \<leftarrow> ipv4_set_total_length 42 header;
     assert_that (0x87654321 = ih_source (snd header));
     assert_that (0x24242424 = ih_destination (snd header));
     assert_that (42 = ih_total_length (snd header));
     raw_source \<leftarrow> read_u32 (fst header) 12;
     raw_destination \<leftarrow> read_u32 (fst header) 16;
     raw_total_length \<leftarrow> read_u16 (fst header) 2;
     assert_that (0x87654321 = raw_source);
     assert_that (0x24242424 = raw_destination);
     assert_that (42 = raw_total_length);
     header \<leftarrow> ipv4_swap_source_and_destination header;
     assert_that (0x24242424 = ih_source (snd header));
     assert_that (0x87654321 = ih_destination (snd header));
     raw_source \<leftarrow> read_u32 (fst header) 12;
     raw_destination \<leftarrow> read_u32 (fst header) 16;
     assert_that (0x24242424 = raw_source);
     assert_that (0x87654321 = raw_destination) }"

definition test_ipv4_compute_checksum :: "unit option" where
  "test_ipv4_compute_checksum = do {
     header_data \<leftarrow> ipv4_header_parse create_ipv4_header;
     header \<leftarrow> ipv4_set_checksum 0x79 (create_ipv4_header, header_data);
     header \<leftarrow> ipv4_update_checksum header;
     let total = 0x4500 + 0x001C + 0x0000 + 0x0000 + 0x0011 + 0x0000 + 0x1234 + 0x5678 + 0x4242 + 0x4242;
     let total = not_u16 (fold_carry total);
     checksum \<leftarrow> read_u16 (fst header) 10;
     assert_that (total = checksum) }"

definition test_peek_version_length_unavailable :: "unit option" where
  "test_peek_version_length_unavailable = do {
     assert_that (peek_version_length [] = None);
     assert_that (peek_version_length [0x40, 2] = None) }"

definition test_peek_version_length_available :: "unit option" where
  "test_peek_version_length_available = do {
     (version, len) \<leftarrow> peek_version_length [push_bit 4 4 OR 5, 0, 0x01, 0x23];
     assert_that (4 = version);
     assert_that (0x123 = len) }"

lemma ipv4_header_tests:
  "test_ipv4_parse_header = Some ()" "test_ipv4_edit_header = Some ()" "test_ipv4_compute_checksum = Some ()"
  "test_peek_version_length_unavailable = Some ()" "test_peek_version_length_available = Some ()"
  by code_simp+

section \<open>\<open>udp_header.rs\<close>\<close>

definition create_udp_header :: bytes where
  "create_udp_header = enc16 1234 @ enc16 5678 @ enc16 42 @ enc16 0"

definition test_udp_parse_header :: "unit option" where
  "test_udp_parse_header = do {
     data \<leftarrow> udp_header_parse create_udp_header;
     assert_that (1234 = uh_source_port data);
     assert_that (5678 = uh_destination_port data) }"

definition test_udp_edit_header :: "unit option" where
  "test_udp_edit_header = do {
     header_data \<leftarrow> udp_header_parse create_udp_header;
     header \<leftarrow> udp_set_source_port 1111 (create_udp_header, header_data);
     header \<leftarrow> udp_set_destination_port 2222 header;
     header \<leftarrow> udp_set_payload_length 34 header;
     assert_that (1111 = uh_source_port (snd header));
     assert_that (2222 = uh_destination_port (snd header));
     raw_source_port \<leftarrow> read_u16 (fst header) 0;
     raw_destination_port \<leftarrow> read_u16 (fst header) 2;
     raw_total_length \<leftarrow> read_u16 (fst header) 4;
     assert_that (1111 = raw_source_port);
     assert_that (2222 = raw_destination_port);
     assert_that (34 + 8 = raw_total_length);
     header \<leftarrow> udp_swap_source_and_destination header;
     assert_that (2222 = uh_source_port (snd header));
     assert_that (1111 = uh_destination_port (snd header));
     raw_source_port \<leftarrow> read_u16 (fst header) 0;
     raw_destination_port \<leftarrow> read_u16 (fst header) 2;
     assert_that (2222 = raw_source_port);
     assert_that (1111 = raw_destination_port) }"

lemma udp_header_tests: "test_udp_parse_header = Some ()" "test_udp_edit_header = Some ()"
  by code_simp+

section \<open>\<open>tcp_header.rs\<close>\<close>

definition create_tcp_header :: bytes where
  "create_tcp_header = enc16 0x1234 @ enc16 0x5678 @ enc32 0x111 @ enc32 0x222 @ enc16 (push_bit 12 5)
     @ enc16 0 @ enc16 0 @ enc16 0"

definition create_tcp_packet :: bytes where
  "create_tcp_packet = [push_bit 4 4 OR 5, 0] @ enc16 44 @ enc32 0 @ [0, 6] @ enc16 0
     @ enc32 0x12345678 @ enc32 0xA2A24242
     @ enc16 0x1234 @ enc16 0x5678 @ enc32 0x111 @ enc32 0x222 @ enc16 (push_bit 12 5)
     @ enc16 0 @ enc16 0 @ enc16 0
     @ enc32 0x1122EEFF"

definition create_odd_packet :: bytes where
  "create_odd_packet = [push_bit 4 4 OR 5, 0] @ enc16 45 @ enc32 0 @ [0, 6] @ enc16 0
     @ enc32 0x12345678 @ enc32 0xA2A24242
     @ enc16 0x1234 @ enc16 0x5678 @ enc32 0x111 @ enc32 0x222 @ enc16 (push_bit 12 5)
     @ enc16 0 @ enc16 0 @ enc16 0
     @ enc32 0x1122EEFF @ [0x88]"

definition create_empty_packet :: bytes where
  "create_empty_packet = [push_bit 4 4 OR 5, 0] @ enc16 40 @ enc32 0 @ [0, 6] @ enc16 0
     @ enc32 0x12345678 @ enc32 0xA2A24242
     @ enc16 0x1234 @ enc16 0x5678 @ enc32 0x111 @ enc32 0x222 @ enc16 (push_bit 12 5)
     @ enc16 0 @ enc16 0 @ enc16 0"

definition test_tcp_edit_header :: "unit option" where
  "test_tcp_edit_header = do {
     header_data \<leftarrow> tcp_header_parse create_tcp_header;
     header \<leftarrow> tcp_set_source_port 1111 (create_tcp_header, header_data);
     header \<leftarrow> tcp_set_destination_port 2222 header;
     header \<leftarrow> tcp_set_sequence_number 300 header;
     header \<leftarrow> tcp_set_acknowledgement_number 101 header;
     header \<leftarrow> tcp_set_flags (FLAG_FIN OR FLAG_ACK) header;
     assert_that (1111 = th_source_port (snd header));
     assert_that (2222 = th_destination_port (snd header));
     assert_that (300 = th_sequence_number (snd header));
     assert_that (101 = th_acknowledgement_number (snd header));
     assert_that (FLAG_FIN OR FLAG_ACK = th_flags (snd header));
     raw_source_port \<leftarrow> read_u16 (fst header) 0;
     raw_destination_port \<leftarrow> read_u16 (fst header) 2;
     raw_sequence_number \<leftarrow> read_u32 (fst header) 4;
     raw_acknowledgement_number \<leftarrow> read_u32 (fst header) 8;
     raw_data_offset_and_flags \<leftarrow> read_u16 (fst header) 12;
     assert_that (1111 = raw_source_port);
     assert_that (2222 = raw_destination_port);
     assert_that (300 = raw_sequence_number);
     assert_that (101 = raw_acknowledgement_number);
     assert_that (0x5011 = raw_data_offset_and_flags);
     header \<leftarrow> tcp_swap_source_and_destination header;
     assert_that (2222 = th_source_port (snd header));
     assert_that (1111 = th_destination_port (snd header));
     raw_source_port \<leftarrow> read_u16 (fst header) 0;
     raw_destination_port \<leftarrow> read_u16 (fst header) 2;
     assert_that (2222 = raw_source_port);
     assert_that (1111 = raw_destination_port) }"

text \<open>The three checksum tests share their steps; \<open>expected\<close> is the sum each writes out.\<close>

definition tcp_checksum_of :: "bytes \<Rightarrow> u16 option" where
  "tcp_checksum_of raw = do {
     ipv4_packet \<leftarrow> ipv4_packet_parse raw;
     (ipv4_header, transport) \<leftarrow> ipv4_packet_split ipv4_packet;
     case transport of
       Some ((tcp_raw, TcpTransport tcp_data), payload) \<Rightarrow> do {
         tcp_header \<leftarrow> tcp_set_checksum 0x79 (tcp_raw, tcp_data);
         tcp_header \<leftarrow> tcp_update_checksum (snd ipv4_header) payload tcp_header;
         read_u16 (fst tcp_header) 16 }
     | _ \<Rightarrow> None }"

definition test_tcp_compute_checksum :: "unit option" where
  "test_tcp_compute_checksum = do {
     checksum \<leftarrow> tcp_checksum_of create_tcp_packet;
     let total = 0x1234 + 0x5678 + 0xA2A2 + 0x4242 + 0x0006 + 0x0018;
     let total = total + (0x1234 + 0x5678 + 0x0000 + 0x0111 + 0x0000 + 0x0222 + 0x5000 + 0x0000 + 0x0000 + 0x0000);
     let total = total + (0x1122 + 0xEEFF);
     assert_that (not_u16 (fold_carry total) = checksum) }"

definition test_tcp_compute_checksum_odd :: "unit option" where
  "test_tcp_compute_checksum_odd = do {
     checksum \<leftarrow> tcp_checksum_of create_odd_packet;
     let total = 0x1234 + 0x5678 + 0xA2A2 + 0x4242 + 0x0006 + 0x0019;
     let total = total + (0x1234 + 0x5678 + 0x0000 + 0x0111 + 0x0000 + 0x0222 + 0x5000 + 0x0000 + 0x0000 + 0x0000);
     let total = total + (0x1122 + 0xEEFF + 0x8800);
     assert_that (not_u16 (fold_carry total) = checksum) }"

definition test_tcp_compute_checksum_empty_payload :: "unit option" where
  "test_tcp_compute_checksum_empty_payload = do {
     checksum \<leftarrow> tcp_checksum_of create_empty_packet;
     let total = 0x1234 + 0x5678 + 0xA2A2 + 0x4242 + 0x0006 + 0x0014;
     let total = total + (0x1234 + 0x5678 + 0x0000 + 0x0111 + 0x0000 + 0x0222 + 0x5000 + 0x0000 + 0x0000 + 0x0000);
     assert_that (not_u16 (fold_carry total) = checksum) }"

lemma tcp_header_tests:
  "test_tcp_edit_header = Some ()" "test_tcp_compute_checksum = Some ()" "test_tcp_compute_checksum_odd = Some ()"
  "test_tcp_compute_checksum_empty_payload = Some ()"
  by code_simp+

section \<open>\<open>ipv4_packet.rs\<close>\<close>

text \<open>Its UDP length field is 4, which \<open>Ipv4Packet::parse\<close> does not look at.\<close>

definition create_short_udp_packet :: bytes where
  "create_short_udp_packet = [push_bit 4 4 OR 5, 0] @ enc16 32 @ enc32 0 @ [0, 17] @ enc16 0
     @ enc32 0x12345678 @ enc32 0x42424242
     @ enc16 1234 @ enc16 5678 @ enc16 4 @ enc16 0
     @ enc32 0x11223344"

definition test_ipv4_parse_headers :: "unit option" where
  "test_ipv4_parse_headers = do {
     ipv4_packet \<leftarrow> ipv4_packet_parse create_short_udp_packet;
     let ipv4_header = ip_header_data ipv4_packet;
     assert_that (20 = ih_header_length ipv4_header);
     assert_that (32 = ih_total_length ipv4_header);
     assert_that (Udp = ih_protocol ipv4_header);
     assert_that (0x12345678 = ih_source ipv4_header);
     assert_that (0x42424242 = ih_destination ipv4_header);
     case ip_transport_data ipv4_packet of
       Some (UdpTransport udp_header) \<Rightarrow> do {
         assert_that (1234 = uh_source_port udp_header);
         assert_that (5678 = uh_destination_port udp_header) }
     | _ \<Rightarrow> None }"

definition test_ipv4_payload :: "unit option" where
  "test_ipv4_payload = do {
     ipv4_packet \<leftarrow> ipv4_packet_parse create_short_udp_packet;
     payload \<leftarrow> ipv4_packet_payload ipv4_packet;
     payload \<leftarrow> payload;
     assert_that ([0x11, 0x22, 0x33, 0x44] = payload) }"

lemma ipv4_packet_tests: "test_ipv4_parse_headers = Some ()" "test_ipv4_payload = Some ()"
  by code_simp+

section \<open>\<open>connection.rs\<close> and \<open>dns.rs\<close>\<close>

text \<open>\<open>HashSet\<close> as a list without duplicates.\<close>

definition test_connection_ids_distinct :: "unit option" where
  "test_connection_ids_distinct = do {
     let source_port = 40000;
     let destination_port = 443;
     let ipv4 = \<lparr>cid_protocol = Tcp, cid_source = SocketV4 (192, 0, 2, 1) source_port,
       cid_destination = SocketV4 (198, 51, 100, 2) destination_port\<rparr>;
     let localhost = replicate 15 0 @ [1];
     let ipv6 = \<lparr>cid_protocol = Tcp, cid_source = SocketV6 localhost source_port,
       cid_destination = SocketV6 localhost destination_port\<rparr>;
     assert_that (ipv4 \<noteq> ipv6);
     let ids = List.insert ipv6 (List.insert ipv4 []);
     assert_that (2 = length ids) }"

definition test_system_resolver :: "unit option" where
  "test_system_resolver = do {
     assert_that (parse_resolver (ascii ''# nameserver 1.1.1.1'' @ [10] @ ascii ''search local'' @ [10]
       @ ascii ''nameserver ::1'' @ [10] @ ascii ''nameserver 127.0.0.53 # stub'' @ [10]) = Some (127, 0, 0, 53));
     assert_that (parse_resolver (ascii ''nameserver garbage'' @ [10]) = None);
     assert_that (parse_resolver (ascii ''nameserver 192.0.2.53'' @ [10] @ ascii ''nameserver 198.51.100.53'')
       = Some (192, 0, 2, 53)) }"

lemma connection_tests: "test_connection_ids_distinct = Some ()"
  by code_simp

lemma dns_tests: "test_system_resolver = Some ()"
  by (simp add: test_system_resolver_def assert_that_def parse_resolver_def str_lines.simps resolver_line_def
      split_whitespace.simps strip_cr_def is_whitespace_def parse_ipv4_addr_def parse_octet_def Let_def)

end
