(* ===== verification/Receiver_Checks.thy ===== *)
theory Receiver_Checks
  imports Ipv6_Packetizer
begin

text \<open>
  The checks that the unit tests make as the receiver of a packet (\<open>ipv6_packetizer.rs\<close>,
  \<open>ipv4_packet_buffer.rs\<close>), and that the packets of the relay pass them: not the ones of the tests
  alone, but all.
\<close>

section \<open>Folding a sum that completes\<close>

lemma fold_carry_nonzero: "s \<noteq> 0 \<Longrightarrow> fold_carry s \<noteq> 0"
proof (induction s rule: fold_carry.induct)
  case (1 s)
  show ?case
  proof (cases "s AND NOT 0xFFFF \<noteq> 0")
    case True
    let ?t = "(s AND 0xFFFF) + drop_bit 16 s"
    have "65536 \<le> unat s" using True high_part_iff [of s] by simp
    then have "unat ?t \<noteq> 0" unfolding unat_fold_step by (simp add: div_eq_0_iff)
    then have "?t \<noteq> 0" by (metis unat_0)
    then show ?thesis using "1.IH" [OF True] True by (subst fold_carry.simps) simp
  next
    case False
    then show ?thesis using "1.prems" by (subst fold_carry.simps) simp
  qed
qed

lemma fold_all_ones:
  assumes "checksum_ok n" and "0 < n" and "n < 4294967296"
  shows "(ucast (fold_high (of_nat n)) :: u16) = 0xFFFF"
proof -
  let ?f = "fold_carry (of_nat n)"
  have u: "unat (of_nat n :: u32) = n" using assms(3) by (rule unat_of_nat_u32)
  have f: "unat ?f < 65536" "unat ?f mod 65535 = 0"
    using unat_fold_carry [of "of_nat n"] u assms(1) by (simp_all add: checksum_ok_def)
  have "(of_nat n :: u32) \<noteq> 0" using u assms(2) by (metis unat_0 less_irrefl)
  then have nz: "unat ?f \<noteq> 0" using fold_carry_nonzero by (simp add: unat_eq_zero)
  from f(2) obtain k where k: "unat ?f = 65535 * k" by (auto simp: mod_eq_0_iff_dvd elim: dvdE)
  then have "k = 1" using f(1) nz by (cases k) simp_all
  then have "unat ?f = 65535" using k by simp
  then have "unat (ucast ?f :: u16) = unat (0xFFFF :: u16)" by (simp add: unsigned_ucast_eq take_bit_eq_mod)
  then show ?thesis unfolding fold_high_eq by (simp only: unsigned_word_eqI)
qed

section \<open>A packet of the IPv6 packetizer\<close>

definition verify :: "bytes \<Rightarrow> u8 \<Rightarrow> u16 option" where
  "verify raw next_header = do {
     addresses \<leftarrow> sum_words raw [4..<20] 0;
     transport \<leftarrow> slice IPV6_HEADER_LENGTH (length raw) raw;
     let total = addresses + of_nat (length transport) + ucast next_header;
     Some (ucast (fold_high (sum_chunks transport total))) }"

definition checksum_words :: "bytes \<Rightarrow> bytes \<Rightarrow> bytes \<Rightarrow> u16" where
  "checksum_words source destination transport =
     (let total = sum_chunks destination (sum_chunks source 0);
          len = of_nat (length transport);
          total = total + drop_bit 16 len + (len AND 0xFFFF) + 17
      in ucast (fold_high (sum_chunks transport total)))"

lemma ipv6_sum:
  assumes "even (length addrs)" and "length xs < 65536"
  shows "words_sum (ipv6_pseudo_header addrs (length xs) nh @ xs)
    = words_sum addrs + length xs + unat nh + words_sum xs"
proof -
  have "even (length (ipv6_pseudo_header addrs (length xs) nh))" using assms(1) by (simp add: ipv6_pseudo_header_def)
  then show ?thesis
    using words_sum_pseudo6 [OF assms(1), of "length xs" nh] assms(2) by (simp add: words_sum_append unat_of_nat_u32)
qed

lemma sum_below:
  assumes "length addrs = 32" and "length xs < 65536"
  shows "words_sum addrs + length xs + unat (nh :: u8) + words_sum xs < 4294967296"
proof -
  have "words_sum addrs \<le> 65535 * 16" using words_sum_le [of addrs] assms(1) by simp
  moreover have "words_sum xs \<le> 65535 * 32768"
  proof -
    have "(length xs + 1) div 2 \<le> 32768" using assms(2) by linarith
    then show ?thesis using words_sum_le [of xs] by (meson le_trans mult_le_mono2)
  qed
  ultimately show ?thesis using assms(2) u8_less [of nh] by linarith
qed

lemma verify_valid:
  assumes v: "ipv6_checksum_valid q" and len: "40 \<le> length (i6p_raw q)" "length (i6p_raw q) < 65576"
    and nh: "i6_next_header (i6p_header_data q) = nh" "nh \<noteq> 0"
  shows "verify (i6p_raw q) nh = Some 0xFFFF"
proof -
  let ?A = "take 32 (drop 8 (i6p_raw q))" and ?T = "drop 40 (i6p_raw q)"
  let ?n = "words_sum ?A + length ?T + unat nh + words_sum ?T"
  have l: "length ?A = 32" "length ?T < 65536" using len by simp_all
  have "words_sum (ipv6_pseudo_header ?A (length ?T) nh @ ?T) = ?n" by (rule ipv6_sum) (use l in simp_all)
  then have ok: "checksum_ok ?n" using v nh(1) by (simp add: ipv6_checksum_valid_def)
  have "0 < unat nh" using nh(2) by (simp add: unat_gt_0)
  then have pos: "0 < ?n" by simp
  have s: "sum_words (i6p_raw q) [4..<20] 0 = Some (of_nat (words_sum ?A))"
    using sum_words_range [of 20 "i6p_raw q" 4 0] len(1) by simp
  have sl: "slice IPV6_HEADER_LENGTH (length (i6p_raw q)) (i6p_raw q) = Some ?T"
    using len(1) by (simp add: slice_def IPV6_HEADER_LENGTH_def)
  have t: "sum_chunks ?T (of_nat (words_sum ?A) + of_nat (length ?T) + ucast nh) = of_nat ?n"
    unfolding sum_chunks_words by simp
  show ?thesis
    unfolding verify_def s sl bind.bind_lunit Let_def t fold_all_ones [OF ok pos sum_below [OF l]] ..
qed

lemma checksum_words_valid:
  assumes v: "ipv6_checksum_valid q" and len: "40 \<le> length (i6p_raw q)" "length (i6p_raw q) < 65576"
    and nh: "i6_next_header (i6p_header_data q) = 17"
  shows "checksum_words (take 16 (drop 8 (i6p_raw q))) (take 16 (drop 24 (i6p_raw q))) (drop 40 (i6p_raw q)) = 0xFFFF"
proof -
  let ?S = "take 16 (drop 8 (i6p_raw q))" and ?D = "take 16 (drop 24 (i6p_raw q))" and ?T = "drop 40 (i6p_raw q)"
  have A: "take 32 (drop 8 (i6p_raw q)) = ?S @ ?D"
    using take_add [of 16 16 "drop 8 (i6p_raw q)"] by simp
  let ?n = "words_sum (?S @ ?D) + length ?T + unat (17 :: u8) + words_sum ?T"
  have l: "length (?S @ ?D) = 32" "length ?T < 65536" "even (length ?S)" using len by simp_all
  have "words_sum (ipv6_pseudo_header (?S @ ?D) (length ?T) 17 @ ?T) = ?n" by (rule ipv6_sum) (use l in simp_all)
  then have ok: "checksum_ok ?n" using v nh A by (simp add: ipv6_checksum_valid_def)
  have hl: "drop_bit 16 (of_nat (length ?T) :: u32) = of_nat (length ?T div 65536)"
    "(of_nat (length ?T) :: u32) AND 0xFFFF = of_nat (length ?T mod 65536)"
    using l(2) by (simp_all add: of_nat_high_low unat_of_nat_u32)
  have dm: "length ?T div 65536 = 0" "length ?T mod 65536 = length ?T" using l(2) by simp_all
  have t: "sum_chunks ?T (sum_chunks ?D (sum_chunks ?S 0) + drop_bit 16 (of_nat (length ?T))
      + (of_nat (length ?T) AND 0xFFFF) + 17) = of_nat ?n"
    unfolding sum_chunks_words hl dm words_sum_append [OF l(3)] by simp
  show ?thesis
    unfolding checksum_words_def Let_def t by (rule fold_all_ones [OF ok _ sum_below [OF l(1,2)]]) simp
qed

section \<open>ICMPv6 errors\<close>

text \<open>
  The checksum rule of the application (\<open>icmpv6.cpp\<close>), which a test repeats: addresses, length, next
  header 58 and the message, folded.
\<close>

fun sum_pairs :: "bytes \<Rightarrow> bytes \<Rightarrow> nat list \<Rightarrow> u32 \<Rightarrow> u32 option" where
  "sum_pairs source destination [] acc = Some acc"
| "sum_pairs source destination (i # is) acc = do {
     a \<leftarrow> read_u16 source (2 * i);
     b \<leftarrow> read_u16 destination (2 * i);
     sum_pairs source destination is (acc + ucast a + ucast b) }"

definition icmpv6_sum :: "bytes \<Rightarrow> bytes \<Rightarrow> bytes \<Rightarrow> u32 option" where
  "icmpv6_sum source destination payload = do {
     addresses \<leftarrow> sum_pairs source destination [0..<8] 0;
     let total = addresses + of_nat (length payload) + 58;
     Some (fold_high (sum_chunks payload total)) }"

definition icmpv6_checksum :: "bytes \<Rightarrow> bytes \<Rightarrow> bytes \<Rightarrow> u16 option" where
  "icmpv6_checksum source destination payload =
     map_option (\<lambda>total. NOT (ucast total)) (icmpv6_sum source destination payload)"

lemma sum_pairs_words:
  "sum_pairs s d is acc = do { a \<leftarrow> sum_words s is acc0; b \<leftarrow> sum_words d is (acc - acc0); Some (a + b) }"
proof (induction "is" arbitrary: acc acc0)
  case (Cons i "is")
  show ?case
  proof (cases "read_u16 s (2 * i)"; cases "read_u16 d (2 * i)")
    fix a b assume "read_u16 s (2 * i) = Some a" "read_u16 d (2 * i) = Some b"
    then show ?thesis using Cons [of "acc + ucast a + ucast b" "acc0 + ucast a"] by (simp add: algebra_simps)
  qed (auto simp: bind_eq_None_conv)
qed simp

lemma icmpv6_sum_eq:
  assumes "length s = 16" and "length d = 16"
  shows "icmpv6_sum s d p = Some (fold_high (of_nat (words_sum s + words_sum d + length p + 58 + words_sum p)))"
proof -
  have "sum_words s [0..<8] 0 = Some (of_nat (words_sum s))" "sum_words d [0..<8] 0 = Some (of_nat (words_sum d))"
    using sum_words_range [of 8 s 0 0] sum_words_range [of 8 d 0 0] assms by simp_all
  then have "sum_pairs s d [0..<8] 0 = Some (of_nat (words_sum s) + of_nat (words_sum d))"
    by (simp add: sum_pairs_words [where ?acc0.0 = 0])
  then show ?thesis by (simp add: icmpv6_sum_def sum_chunks_words ac_simps)
qed

text \<open>Writing the checksum into the message makes the receiver's sum all ones.\<close>

lemma icmpv6_checksum_completes:
  assumes "length s = 16" and "length d = 16" and "4 \<le> length p" and "length p < 65536"
  shows "\<exists>c. icmpv6_checksum s d (take 2 p @ enc16 0 @ drop 4 p) = Some c
    \<and> map_option ucast (icmpv6_sum s d (take 2 p @ enc16 c @ drop 4 p)) = Some (0xFFFF :: u16)"
proof -
  let ?p = "\<lambda>c. take 2 p @ enc16 c @ drop 4 p"
  let ?n = "\<lambda>c. words_sum s + words_sum d + length p + 58 + words_sum (?p c)"
  have len: "length (?p c) = length p" for c using assms(3) by simp
  have w: "words_sum (?p c) = words_sum (?p 0) + unat c" for c
    using assms(3) by (simp add: words_sum_append)
  define c where "c = not_u16 (fold_carry (of_nat (?n 0)))"
  have small: "?n c < 4294967296" for c
    using sum_below [of "s @ d" "?p c" 58] assms len words_sum_append [of s d] by simp
  have e: "icmpv6_sum s d (?p c) = Some (fold_high (of_nat (?n c)))" for c
    using icmpv6_sum_eq [OF assms(1,2), of "?p c"] unfolding len .
  have "icmpv6_checksum s d (?p 0) = Some c"
    unfolding icmpv6_checksum_def e option.map fold_high_eq not_ucast_eq c_def ..
  moreover have u: "unat (of_nat (?n 0) :: u32) = ?n 0" by (rule unat_of_nat_u32 [OF small])
  have "?n c = ?n 0 + unat c" using w [of c] by simp
  then have "checksum_ok (?n c)"
    using checksum_completes [of "of_nat (?n 0)"] unfolding u c_def [symmetric] by (simp only:)
  then have "(ucast (fold_high (of_nat (?n c))) :: u16) = 0xFFFF" by (rule fold_all_ones) (use small in simp_all)
  ultimately show ?thesis using e [of c] by (intro exI [of _ c]) simp
qed

end
