(* ===== verification/Ipv4_Packet_Buffer.thy ===== *)
theory Ipv4_Packet_Buffer
  imports Ip_Packet
begin

text \<open>
  \<open>relay/ipv4_packet_buffer.rs\<close>: the framing of the time when the tunnel carried IPv4 alone, kept in
  the repository as the reference of the tests.  It validates the packet at the front as
  \<open>IpPacket\<close> does.
\<close>

definition v4b_new :: byte_buffer where
  "v4b_new = bb_new MAX_PACKET_LENGTH"

definition v4b_read_from :: "reader \<Rightarrow> byte_buffer \<Rightarrow> (bool io_result \<times> byte_buffer) option" where
  "v4b_read_from source b = bb_read_from source b"

definition available_packet_length :: "byte_buffer \<Rightarrow> u16 option option" where
  "available_packet_length b = (let data = bb_peek b in
     case peek_version_length data of
       Some (version, len) \<Rightarrow> do {
         assert_that (version = 4);
         Some (if unat len \<le> length data then Some len else None) }
     | None \<Rightarrow> Some None)"

definition is_fragmented :: "byte_buffer \<Rightarrow> bool option" where
  "is_fragmented buf = (let b = bb_peek buf in
     if length b \<ge> 20 then do {
       available \<leftarrow> available_packet_length buf;
       if available \<noteq> None then do {
         b6 \<leftarrow> index b 6;
         b7 \<leftarrow> index b 7;
         Some (b6 AND 0x3f \<noteq> 0 \<or> b7 \<noteq> 0) }
       else Some False }
     else Some False)"

definition validate_front :: "byte_buffer \<Rightarrow> (io_error, unit) fallible" where
  "validate_front buf = (let b = bb_peek buf in
     if length b < 4 then ok ()
     else do {
       b0 \<leftarrow> index b 0;
       b2 \<leftarrow> index b 2;
       b3 \<leftarrow> index b 3;
       let header = unat (b0 AND 15) * 4;
       let len = unat (be16 b2 b3);
       if drop_bit 4 b0 \<noteq> 4 \<or> header < 20 \<or> len < header then err InvalidData
       else if length b < len then ok ()
       else do {
         fragmented \<leftarrow> is_fragmented buf;
         if fragmented then ok ()
         else do {
           let payload = len - header;
           b9 \<leftarrow> index b 9;
           if b9 = 6 then
             (if payload < 20 then err InvalidData
              else do {
                offset \<leftarrow> index b (header + 12);
                let tcp_header = unat (drop_bit 4 offset) * 4;
                if tcp_header < 20 \<or> tcp_header > payload then err InvalidData else ok () })
           else if b9 = 17 then
             (if payload < 8 then err InvalidData
              else do {
                hi \<leftarrow> index b (header + 4);
                lo \<leftarrow> index b (header + 5);
                if unat (be16 hi lo) \<noteq> payload then err InvalidData else ok () })
           else ok () } } })"

definition as_ipv4_packet :: "byte_buffer \<Rightarrow> ipv4_packet option option" where
  "as_ipv4_packet b = do {
     available \<leftarrow> available_packet_length b;
     if available \<noteq> None then do { p \<leftarrow> ipv4_packet_parse (bb_peek b); Some (Some p) } else Some None }"

definition v4b_next :: "byte_buffer \<Rightarrow> byte_buffer option" where
  "v4b_next b = do {
     available \<leftarrow> available_packet_length b;
     len \<leftarrow> available;
     bb_consume (unat len) b }"

section \<open>Agreement with the framing of the relay\<close>

lemma fragment_bits: "(b :: u8) AND 0x3f = 0 \<longleftrightarrow> b AND 0x20 = 0 \<and> b AND 0x1f = 0"
proof -
  have split: "(0x3f :: u8) = 0x20 OR 0x1f" by simp
  have "b AND 0x20 = (b AND 0x3f) AND 0x20" "b AND 0x1f = (b AND 0x3f) AND 0x1f" by (simp_all add: and.assoc)
  then show ?thesis unfolding split bit.conj_disj_distrib by auto
qed

lemma is_fragmented_frame:
  assumes "20 \<le> length raw" and "bb_peek b = raw" and "drop_bit 4 (raw ! 0) = 4" and "unat (be16 (raw ! 2) (raw ! 3)) \<le> length raw"
  shows "is_fragmented b = Some (raw ! 6 AND 0x3f \<noteq> 0 \<or> raw ! 7 \<noteq> 0)"
  using assms by (simp add: is_fragmented_def available_packet_length_def peek_version_length_def index_def Let_def)

lemma validate_ipv4_frame:
  assumes "H = unat (raw ! 0 AND 15) * 4" and "20 \<le> H" and "H \<le> L" and "L \<le> length raw"
    and "L = unat (be16 (raw ! 2) (raw ! 3))"
  shows "validate_ipv4 (take L raw) = (if raw ! 6 AND 0x3f \<noteq> 0 \<or> raw ! 7 \<noteq> 0 then err (Unsupported Ipv4Fragment)
    else validate_transport (protocol_of (raw ! 9)) (take (L - H) (drop H raw)))"
  using assms by (auto simp: validate_ipv4_def index_def slice_def Let_def fragment_bits drop_take)

text \<open>The transport checks of the two versions, on the payload \<open>p\<close>.\<close>

definition transport_front :: "u8 \<Rightarrow> bytes \<Rightarrow> (io_error, unit) fallible" where
  "transport_front b9 p = (if b9 = 6 then
       (if length p < 20 \<or> unat (drop_bit 4 (p ! 12)) * 4 < 20 \<or> unat (drop_bit 4 (p ! 12)) * 4 > length p
        then err InvalidData else ok ())
     else if b9 = 17 then
       (if length p < 8 \<or> unat (be16 (p ! 4) (p ! 5)) \<noteq> length p then err InvalidData else ok ())
     else ok ())"

lemma transport_front_agrees:
  "transport_front b9 p = (case validate_transport (protocol_of b9) p of
     Some (Inl (Malformed m)) \<Rightarrow> err InvalidData | _ \<Rightarrow> ok ())"
  by (simp add: transport_front_def validate_transport_def protocol_of_def index_def Let_def)

lemma validate_front_frame:
  assumes inv: "bb_inv b" and raw: "bb_peek b = raw" and v4: "drop_bit 4 (raw ! 0) = 4"
    and H: "H = unat (raw ! 0 AND 15) * 4" "20 \<le> H" "H \<le> L" "L \<le> length raw" "L = unat (be16 (raw ! 2) (raw ! 3))"
  shows "validate_front b = (if raw ! 6 AND 0x3f \<noteq> 0 \<or> raw ! 7 \<noteq> 0 then ok ()
    else transport_front (raw ! 9) (take (L - H) (drop H raw)))"
proof -
  have l: "20 \<le> length raw" using H by simp
  have f: "is_fragmented b = Some (raw ! 6 AND 0x3f \<noteq> 0 \<or> raw ! 7 \<noteq> 0)"
    using is_fragmented_frame [OF l raw v4] H by simp
  have i: "index raw 0 = Some (raw ! 0)" "index raw 2 = Some (raw ! 2)" "index raw 3 = Some (raw ! 3)"
    "index raw 9 = Some (raw ! 9)" using l by (auto simp: index_def)
  have g: "\<not> length raw < 4" "\<not> (drop_bit 4 (raw ! 0) \<noteq> 4 \<or> H < 20 \<or> L < H)" "\<not> length raw < L"
    using l v4 H(2-4) by auto
  have p: "index raw (H + k) = Some (take (L - H) (drop H raw) ! k)" if "k < L - H" for k
    using that H by (simp add: index_def)
  have n: "length (take (L - H) (drop H raw)) = L - H" using H by simp
  have e: "validate_front b = (if raw ! 6 AND 0x3f \<noteq> 0 \<or> raw ! 7 \<noteq> 0 then ok ()
    else if raw ! 9 = 6 then
      (if L - H < 20 then err InvalidData
       else do {
         offset \<leftarrow> index raw (H + 12);
         if unat (drop_bit 4 offset) * 4 < 20 \<or> unat (drop_bit 4 offset) * 4 > L - H then err InvalidData else ok () })
    else if raw ! 9 = 17 then
      (if L - H < 8 then err InvalidData
       else do {
         hi \<leftarrow> index raw (H + 4);
         lo \<leftarrow> index raw (H + 5);
         if unat (be16 hi lo) \<noteq> L - H then err InvalidData else ok () })
    else ok ())"
    unfolding validate_front_def raw Let_def i f by (simp only: bind.bind_lunit H(1,5) [symmetric] g if_False)
  have p12: "20 \<le> L - H \<Longrightarrow> index raw (H + 12) = Some (take (L - H) (drop H raw) ! 12)"
    and p4: "8 \<le> L - H \<Longrightarrow> index raw (H + 4) = Some (take (L - H) (drop H raw) ! 4)"
    and p5: "8 \<le> L - H \<Longrightarrow> index raw (H + 5) = Some (take (L - H) (drop H raw) ! 5)"
    using p by simp_all
  show ?thesis unfolding e transport_front_def n
    by (cases "L - H < 20"; cases "L - H < 8") (simp_all add: p12 p4 p5 del: nth_take nth_drop)
qed

lemma ip_packet_parse_frame_malformed:
  assumes "raw \<noteq> []" and "drop_bit 4 (raw ! 0) = 4"
  shows "(\<exists>m. ip_packet_parse raw = err (Malformed m)) \<longleftrightarrow> (\<exists>m. validate_ipv4 raw = err (Malformed m))"
proof (cases "validate_ipv4 raw")
  case None
  then show ?thesis using validate_ipv4_total by simp
next
  case (Some r)
  show ?thesis
  proof (cases r)
    case (Inl e)
    then show ?thesis using Some assms by (cases raw) (simp_all add: ip_packet_parse_def)
  next
    case (Inr u)
    then have "validate_ipv4 raw = ok ()" using Some by simp
    then show ?thesis using ipv4_packet_parse_validated [of raw] assms
      by (cases raw) (auto simp: ip_packet_parse_def)
  qed
qed

lemma validate_front_early:
  assumes raw: "bb_peek b = raw" and v4: "drop_bit 4 (raw ! 0) = 4"
    and H: "H = unat (raw ! 0 AND 15) * 4" and L: "L = unat (be16 (raw ! 2) (raw ! 3))"
    and early: "\<not> (4 \<le> length raw \<and> 20 \<le> H \<and> H \<le> L \<and> L \<le> length raw)"
  shows "validate_front b = (if 4 \<le> length raw \<and> (H < 20 \<or> L < H) then err InvalidData else ok ())"
proof (cases "length raw < 4")
  case True
  then show ?thesis by (simp add: validate_front_def raw)
next
  case False
  then have i: "index raw 0 = Some (raw ! 0)" "index raw 2 = Some (raw ! 2)" "index raw 3 = Some (raw ! 3)"
    by (auto simp: index_def)
  have g: "(drop_bit 4 (raw ! 0) \<noteq> 4 \<or> H < 20 \<or> L < H) = (H < 20 \<or> L < H)" using v4 by simp
  have r: "\<not> (H < 20 \<or> L < H) \<Longrightarrow> length raw < L" using early False by auto
  show ?thesis
    unfolding validate_front_def raw Let_def i
    unfolding bind.bind_lunit H [symmetric] L [symmetric] g using False r by auto
qed

text \<open>On a stream of IPv4 packets the two agree on what is malformed.\<close>

lemma validate_front_agrees:
  assumes inv: "bb_inv b" and raw: "bb_peek b = raw" "raw \<noteq> []" and v4: "drop_bit 4 (raw ! 0) = 4"
  shows "validate_front b = (if (\<exists>m. front_packet_length raw = err m)
      \<or> (\<exists>n m. front_packet_length raw = ok (Some n) \<and> ip_packet_parse (take n raw) = err (Malformed m))
    then err InvalidData else ok ())"
proof -
  define H where "H = unat (raw ! 0 AND 15) * 4"
  define L where "L = unat (be16 (raw ! 2) (raw ! 3))"
  note D = H_def [symmetric] L_def [symmetric]
  have front: "front_packet_length raw = (if length raw < 4 then ok None
      else if H < 20 \<or> L < H then err (Malformed ''invalid IPv4 packet length'')
      else if length raw < L then ok None else ok (Some L))"
    using raw(2) v4 by (simp add: front_packet_length_eq D)
  show ?thesis
  proof (cases "4 \<le> length raw \<and> 20 \<le> H \<and> H \<le> L \<and> L \<le> length raw")
    case False
    show ?thesis unfolding front validate_front_early [OF raw(1) v4 H_def L_def False] using False by auto
  next
    case True
    let ?frag = "raw ! 6 AND 0x3f \<noteq> 0 \<or> raw ! 7 \<noteq> 0"
    let ?T = "validate_transport (protocol_of (raw ! 9)) (take (L - H) (drop H raw))"
    have vf: "validate_front b = (if ?frag then ok () else transport_front (raw ! 9) (take (L - H) (drop H raw)))"
      using validate_front_frame [OF inv raw(1) v4 H_def] True L_def by blast
    have vi: "validate_ipv4 (take L raw) = (if ?frag then err (Unsupported Ipv4Fragment) else ?T)"
      using validate_ipv4_frame [OF H_def] True L_def by blast
    have "(\<exists>m. ip_packet_parse (take L raw) = err (Malformed m)) \<longleftrightarrow> (\<exists>m. validate_ipv4 (take L raw) = err (Malformed m))"
      using ip_packet_parse_frame_malformed [of "take L raw"] True v4 by (cases raw; cases L) auto
    then show ?thesis
      unfolding vf vi transport_front_agrees using True
      by (cases ?frag) (auto simp: front split: option.splits sum.splits packet_parse_error.splits)
  qed
qed

end
