(* ===== verification/Buffer_Tests.thy ===== *)
theory Buffer_Tests
  imports Stream_Buffer Datagram_Buffer Packetizer
begin

text \<open>
  The unit tests of the three buffers and of the datagram adapters, run on the model, with the mock
  socket and the cursors they use.
\<close>

section \<open>Test doubles\<close>

text \<open>\<open>unwrap\<close>; a \<open>Cursor\<close> that is read delivers what is left of its bytes.\<close>

definition unwrap :: "'a io_result \<Rightarrow> 'a option" where
  "unwrap r = (case r of Inl e \<Rightarrow> None | Inr x \<Rightarrow> Some x)"

lemma unwrap_simps [simp]: "unwrap (Inr x) = Some x" "unwrap (Inl e) = None"
  by (simp_all add: unwrap_def)

definition cursor :: "bytes \<Rightarrow> reader" where
  "cursor bs = (\<lambda>n. Inr (take n bs))"

record mock_datagram_socket =
  mock_buf :: bytes
  mock_len :: nat

definition mock_new :: mock_datagram_socket where
  "mock_new = \<lparr>mock_buf = replicate max_datagram_length 0, mock_len = 0\<rparr>"

definition mock_send :: "bytes \<Rightarrow> mock_datagram_socket \<Rightarrow> (nat io_result \<times> mock_datagram_socket) option" where
  "mock_send buf mock = do {
     let len = min (length (mock_buf mock)) (length buf);
     mbuf \<leftarrow> splice 0 (take len buf) (mock_buf mock);
     Some (Inr len, \<lparr>mock_buf = mbuf, mock_len = len\<rparr>) }"

definition mock_from_data :: "bytes \<Rightarrow> mock_datagram_socket option" where
  "mock_from_data data = do { (r, mock) \<leftarrow> mock_send data mock_new; _ \<leftarrow> unwrap r; Some mock }"

definition mock_data :: "mock_datagram_socket \<Rightarrow> bytes" where
  "mock_data mock = take (mock_len mock) (mock_buf mock)"

text \<open>What it delivers for \<open>n\<close> bytes of room.\<close>

definition mock_recv :: "mock_datagram_socket \<Rightarrow> reader" where
  "mock_recv mock = (\<lambda>n. Inr (take (min (mock_len mock) n) (mock_buf mock)))"

lemma mock_send_ok:
  assumes "length (mock_buf mock) = max_datagram_length" and "length bs \<le> max_datagram_length"
  shows "\<exists>mock'. mock_send bs mock = Some (Inr (length bs), mock') \<and> mock_data mock' = bs
    \<and> mock_recv mock' = cursor bs \<and> length (mock_buf mock') = max_datagram_length"
proof -
  let ?mock = "\<lparr>mock_buf = bs @ drop (length bs) (mock_buf mock), mock_len = length bs\<rparr>"
  have "mock_send bs mock = Some (Inr (length bs), ?mock)" using assms by (simp add: mock_send_def splice_def Let_def)
  moreover have "mock_recv ?mock = cursor bs" by (auto simp: mock_recv_def cursor_def fun_eq_iff min_def)
  ultimately show ?thesis using assms by (intro exI [of _ ?mock]) (simp add: mock_data_def)
qed

lemma mock_from_data_ok:
  "length bs \<le> max_datagram_length \<Longrightarrow> \<exists>mock. mock_from_data bs = Some mock \<and> mock_data mock = bs \<and> mock_recv mock = cursor bs"
  using mock_send_ok [of mock_new bs] by (auto simp: mock_from_data_def mock_new_def)

section \<open>\<open>byte_buffer.rs\<close>\<close>

definition test_produce_consume_byte_buffer :: "unit option" where
  "test_produce_consume_byte_buffer = do {
     let raw = map of_char ''hello, world!'';
     (r, byte_buffer) \<leftarrow> bb_read_from (cursor raw) (bb_new 64);
     _ \<leftarrow> unwrap r;
     assert_that (map of_char ''hello, world!'' = bb_peek byte_buffer);
     byte_buffer \<leftarrow> bb_consume 7 byte_buffer;
     assert_that (map of_char ''world!'' = bb_peek byte_buffer);
     (r, byte_buffer) \<leftarrow> bb_read_from (cursor (take 5 raw)) byte_buffer;
     _ \<leftarrow> unwrap r;
     assert_that (map of_char ''world!hello'' = bb_peek byte_buffer) }"

lemma byte_buffer_tests: "test_produce_consume_byte_buffer = Some ()"
  by code_simp

section \<open>\<open>stream_buffer.rs\<close>\<close>

text \<open>A write into a \<open>Vec\<close> takes all that is offered, one into \<open>n\<close> bytes at most \<open>n\<close>.\<close>

definition read_some :: "nat \<Rightarrow> stream_buffer \<Rightarrow> (bytes \<times> stream_buffer) option" where
  "read_some n s = sb_drain (\<lambda>bs. Inr (min n (length bs))) s"

definition read_vec :: "stream_buffer \<Rightarrow> (bytes \<times> stream_buffer) option" where
  "read_vec s = sb_drain (\<lambda>bs. Inr (length bs)) s"

definition test_bufferize_data :: "unit option" where
  "test_bufferize_data = do {
     let data = [0, 1, 2, 3, 4, 5];
     s \<leftarrow> sb_read_from data (sb_new 9);
     (cur, s) \<leftarrow> read_vec s;
     assert_that (cur = data) }"

definition test_stream_circular :: "unit option" where
  "test_stream_circular = do {
     let data = [0, 1, 2, 3, 4, 5];
     s \<leftarrow> sb_read_from data (sb_new 9);
     (_, s) \<leftarrow> read_some 3 s;
     s \<leftarrow> sb_read_from data s;
     (_, s) \<leftarrow> read_some 3 s;
     (result, s) \<leftarrow> read_vec s;
     assert_that ([0, 1, 2, 3] = result);
     (result, s) \<leftarrow> read_vec s;
     assert_that ([4, 5] = result) }"

definition test_just_enough_space :: "unit option" where
  "test_just_enough_space = do {
     let data = [0, 1, 2, 3, 4, 5];
     s \<leftarrow> sb_read_from data (sb_new 9);
     assert_that (3 = sb_remaining s);
     s \<leftarrow> sb_read_from [0, 1, 2] s;
     (result, s) \<leftarrow> read_vec s;
     assert_that ([0, 1, 2, 3, 4, 5, 0, 1, 2] = result) }"

lemma stream_buffer_tests:
  "test_bufferize_data = Some ()" "test_stream_circular = Some ()" "test_just_enough_space = Some ()"
  by code_simp+

section \<open>\<open>datagram.rs\<close>\<close>

definition test_mock_send :: "unit option" where
  "test_mock_send = do {
     (r, mock) \<leftarrow> mock_send [1, 2, 3, 4, 5] mock_new;
     n \<leftarrow> unwrap r;
     assert_that (5 = n);
     assert_that ([1, 2, 3, 4, 5] = mock_data mock) }"

definition test_mock_recv :: "unit option" where
  "test_mock_recv = do {
     mock \<leftarrow> mock_from_data [1, 2, 3, 4, 5];
     got \<leftarrow> unwrap (mock_recv mock 10);
     assert_that (5 = length got);
     assert_that ([1, 2, 3, 4, 5] = got) }"

definition test_read_adapter :: "unit option" where
  "test_read_adapter = do {
     got \<leftarrow> unwrap (read_adapter_recv (cursor [1, 2, 3, 4, 5]) None 10);
     assert_that (5 = length got);
     assert_that ([1, 2, 3, 4, 5] = got) }"

definition test_read_adapter_chunks :: "unit option" where
  "test_read_adapter_chunks = do {
     let bs = [1, 2, 3, 4, 5];
     got \<leftarrow> unwrap (read_adapter_recv (cursor bs) (Some 2) 10);
     assert_that (2 = length got);
     assert_that ([1, 2] = got);
     let bs = drop (length got) bs;
     got \<leftarrow> unwrap (read_adapter_recv (cursor bs) (Some 1) 10);
     assert_that (1 = length got);
     assert_that ([3] = got);
     let bs = drop (length got) bs;
     got \<leftarrow> unwrap (read_adapter_recv (cursor bs) None 10);
     assert_that (2 = length got);
     assert_that ([4, 5] = got) }"

lemma datagram_tests:
  "test_mock_send = Some ()" "test_mock_recv = Some ()" "test_read_adapter = Some ()" "test_read_adapter_chunks = Some ()"
proof -
  show "test_mock_send = Some ()"
    using mock_send_ok [of mock_new "[1, 2, 3, 4, 5]"]
    by (auto simp: test_mock_send_def mock_new_def max_datagram_length_def assert_that_def)
  show "test_mock_recv = Some ()"
    using mock_from_data_ok [of "[1, 2, 3, 4, 5]"]
    by (auto simp: test_mock_recv_def max_datagram_length_def assert_that_def cursor_def)
  show "test_read_adapter = Some ()" "test_read_adapter_chunks = Some ()" by code_simp+
qed

section \<open>\<open>datagram_buffer.rs\<close>\<close>

definition create_datagram :: "u8 \<Rightarrow> bytes" where
  "create_datagram n = map of_nat [0 ..< unat n]"

text \<open>
  \<open>read_datagram\<close> compared with a datagram: the mock takes the whole of it, and the sender of the model
  checks what it is handed.
\<close>

definition expect_datagram :: "bytes \<Rightarrow> datagram_buffer \<Rightarrow> datagram_buffer option" where
  "expect_datagram datagram b = do {
     (r, b) \<leftarrow> dg_write_to (\<lambda>bs. if bs = datagram then Inr (length bs) else Inl OtherError) b;
     _ \<leftarrow> unwrap r;
     Some b }"

definition store_datagram :: "bytes \<Rightarrow> datagram_buffer \<Rightarrow> datagram_buffer option" where
  "store_datagram datagram b = do { (r, b) \<leftarrow> dg_read_from datagram b; _ \<leftarrow> unwrap r; Some b }"

definition test_bufferize_datagram :: "unit option" where
  "test_bufferize_datagram = do {
     b \<leftarrow> store_datagram (create_datagram 5) (dg_new 9);
     _ \<leftarrow> expect_datagram (create_datagram 5) b;
     Some () }"

definition test_split_datagrams_at_boundaries :: "unit option" where
  "test_split_datagrams_at_boundaries = do {
     b \<leftarrow> store_datagram (create_datagram 5) (dg_new 32);
     b \<leftarrow> store_datagram (create_datagram 0) b;
     b \<leftarrow> store_datagram (create_datagram 3) b;
     b \<leftarrow> store_datagram (create_datagram 4) b;
     b \<leftarrow> expect_datagram (create_datagram 5) b;
     b \<leftarrow> expect_datagram (create_datagram 0) b;
     b \<leftarrow> expect_datagram (create_datagram 3) b;
     _ \<leftarrow> expect_datagram (create_datagram 4) b;
     Some () }"

text \<open>The first datagram is written and forgotten.\<close>

definition test_datagram_circular :: "unit option" where
  "test_datagram_circular = do {
     b \<leftarrow> store_datagram (create_datagram 10) (dg_new 14);
     (r, b) \<leftarrow> dg_write_to (\<lambda>bs. Inr (length bs)) b;
     _ \<leftarrow> unwrap r;
     b \<leftarrow> store_datagram (create_datagram 5) b;
     b \<leftarrow> store_datagram (create_datagram 3) b;
     b \<leftarrow> expect_datagram (create_datagram 5) b;
     _ \<leftarrow> expect_datagram (create_datagram 3) b;
     Some () }"

lemma create_datagram_simps:
  "create_datagram 10 = [0, 1, 2, 3, 4, 5, 6, 7, 8, 9]" "create_datagram 5 = [0, 1, 2, 3, 4]"
  "create_datagram 4 = [0, 1, 2, 3]" "create_datagram 3 = [0, 1, 2]" "create_datagram 0 = []"
  by code_simp+

lemmas datagram_eval = store_datagram_def expect_datagram_def dg_read_from_def dg_write_to_def dg_new_def
  dg_is_empty_def dg_has_enough_space_for_def dg_read_length_def dg_write_length_def read_u16_def write_u16_def
  splice_def slice_def enc16_def be16_def max_block_length_def max_datagram_length_def dg_header_length_def
  create_datagram_simps assert_that_def

lemma datagram_buffer_tests:
  "test_bufferize_datagram = Some ()" "test_split_datagrams_at_boundaries = Some ()" "test_datagram_circular = Some ()"
  by (simp_all add: test_bufferize_datagram_def test_split_datagrams_at_boundaries_def test_datagram_circular_def
      datagram_eval Let_def)

end
