(* ===== verification/Packet_Tests.thy ===== *)
theory Packet_Tests
  imports Receiver_Checks Ipv4_Packet_Buffer Buffer_Tests
begin

text \<open>
  The unit tests of framing, parsing and packet building (\<open>ipv4_packet_buffer.rs\<close>, \<open>packetizer.rs\<close>,
  \<open>ipv6_packetizer.rs\<close>), run on the model.  The buffers have 65536 bytes and more; a test on a buffer
  is evaluated on what \<open>peek\<close> shows of it, a test on a packetizer follows from what \<open>build\<close> makes.
\<close>

section \<open>Buffers by what they show\<close>

definition holds :: "byte_buffer \<Rightarrow> nat \<Rightarrow> bytes \<Rightarrow> bool" where
  "holds b n raw \<longleftrightarrow> bb_inv b \<and> bb_peek b = raw \<and> length (bb_buf b) = n"

definition full :: "bytes \<Rightarrow> byte_buffer" where
  "full raw = \<lparr>bb_buf = raw, bb_head = length raw\<rparr>"

lemma full_peek [simp]: "bb_peek (full raw) = raw"
  by (simp add: full_def bb_peek_def)

lemma holds_new: "holds (bb_new n) n []"
  by (simp add: holds_def bb_new_def bb_inv_def bb_peek_def)

lemma holds_read:
  assumes "holds b n raw" and "length raw + length bs \<le> n"
  shows "\<exists>b'. bb_read_from (cursor bs) b = Some (Inr (bs \<noteq> []), b') \<and> holds b' n (raw @ bs)"
proof -
  have r: "bb_room b + length raw = n" using assms(1) by (auto simp: holds_def bb_room_def bb_inv_def bb_peek_def)
  then have "cursor bs (bb_room b) = Inr bs" "length bs \<le> bb_room b" using assms(2) by (simp_all add: cursor_def)
  then show ?thesis using bb_read_from_ok [of b "cursor bs" bs] assms(1) by (auto simp: holds_def)
qed

lemma holds_consume:
  assumes "holds b n raw" and "k \<le> length raw"
  shows "\<exists>b'. bb_consume k b = Some b' \<and> holds b' n (drop k raw)"
  using bb_consume_ok [of b k] assms by (auto simp: holds_def bb_inv_def bb_peek_def)

lemma holds_eval:
  assumes "holds b n raw"
  shows "validate_front b = validate_front (full raw)" "is_fragmented b = is_fragmented (full raw)"
    "as_ipv4_packet b = as_ipv4_packet (full raw)" "available_packet_length b = available_packet_length (full raw)"
    "ipb_packet b = ipb_packet (full raw)"
proof -
  have p: "bb_peek b = bb_peek (full raw)" using assms by (simp add: holds_def)
  show a: "available_packet_length b = available_packet_length (full raw)"
    unfolding available_packet_length_def p ..
  show f: "is_fragmented b = is_fragmented (full raw)" unfolding is_fragmented_def p a ..
  show "validate_front b = validate_front (full raw)" unfolding validate_front_def p f ..
  show "as_ipv4_packet b = as_ipv4_packet (full raw)" unfolding as_ipv4_packet_def p a ..
  show "ipb_packet b = ipb_packet (full raw)" unfolding ipb_packet_def p ..
qed

lemma holds_next:
  assumes "holds b n raw" and "available_packet_length (full raw) = Some (Some k)"
  shows "\<exists>b'. v4b_next b = Some b' \<and> holds b' n (drop (unat k) raw)"
proof -
  have a: "available_packet_length b = Some (Some k)" using holds_eval(4) [OF assms(1)] assms(2) by simp
  have "unat k \<le> length raw"
    using assms(2) by (auto simp: available_packet_length_def bind_eq_Some_conv Let_def split: option.splits if_splits)
  then show ?thesis using holds_consume [OF assms(1)] a by (simp add: v4b_next_def)
qed

section \<open>\<open>ipv4_packet_buffer.rs\<close>\<close>

definition create_udp_packet :: bytes where
  "create_udp_packet = [push_bit 4 4 OR 5, 0] @ enc16 32 @ enc32 0 @ [0, 17] @ enc16 0
     @ enc32 0x12345678 @ enc32 0x42424242
     @ enc16 1234 @ enc16 5678 @ enc16 12 @ enc16 0
     @ enc32 0x11223344"

definition create_another_packet :: bytes where
  "create_another_packet = [push_bit 4 4 OR 5, 0] @ enc16 29 @ enc32 0 @ [0, 17] @ enc16 0
     @ enc32 0x11111111 @ enc32 0x22222222
     @ enc16 1111 @ enc16 2222 @ enc16 9 @ enc16 0
     @ [0x99]"

definition create_multi_packets :: bytes where
  "create_multi_packets = create_udp_packet @ create_another_packet @ create_udp_packet"

definition check_packet_headers :: "ipv4_packet \<Rightarrow> unit option" where
  "check_packet_headers ipv4_packet = do {
     let ipv4_header = ip_header_data ipv4_packet;
     assert_that (20 = ih_header_length ipv4_header);
     assert_that (32 = ih_total_length ipv4_header);
     assert_that (Udp = ih_protocol ipv4_header);
     assert_that (0x12345678 = ih_source ipv4_header);
     assert_that (0x42424242 = ih_destination ipv4_header);
     case ip_transport_data ipv4_packet of
       Some (UdpTransport udp_header) \<Rightarrow> do {
         assert_that (1234 = uh_source_port udp_header);
         assert_that (5678 = uh_destination_port udp_header) }
     | _ \<Rightarrow> None }"

definition check_another_packet_headers :: "ipv4_packet \<Rightarrow> unit option" where
  "check_another_packet_headers ipv4_packet = do {
     let ipv4_header = ip_header_data ipv4_packet;
     assert_that (20 = ih_header_length ipv4_header);
     assert_that (29 = ih_total_length ipv4_header);
     assert_that (Udp = ih_protocol ipv4_header);
     assert_that (0x11111111 = ih_source ipv4_header);
     assert_that (0x22222222 = ih_destination ipv4_header);
     case ip_transport_data ipv4_packet of
       Some (UdpTransport udp_header) \<Rightarrow> do {
         assert_that (1111 = uh_source_port udp_header);
         assert_that (2222 = uh_destination_port udp_header) }
     | _ \<Rightarrow> None }"

text \<open>\<open>read_from(&mut Cursor::new(raw)).unwrap()\<close>.\<close>

definition feed :: "bytes \<Rightarrow> byte_buffer \<Rightarrow> byte_buffer option" where
  "feed raw b = do { (r, b) \<leftarrow> v4b_read_from (cursor raw) b; _ \<leftarrow> unwrap r; Some b }"

lemma feed_holds:
  "holds b n raw \<Longrightarrow> length raw + length bs \<le> n \<Longrightarrow> \<exists>b'. feed bs b = Some b' \<and> holds b' n (raw @ bs)"
  using holds_read [of b n raw bs] by (auto simp: feed_def v4b_read_from_def)

lemma feed_new:
  assumes "length bs \<le> 65536"
  shows "\<exists>b. feed bs v4b_new = Some b \<and> holds b 65536 bs"
  using feed_holds [OF holds_new [of 65536], of bs] assms by (simp add: v4b_new_def MAX_PACKET_LENGTH_def)

definition is_err :: "('e, 'a) fallible \<Rightarrow> bool option" where
  "is_err r = map_option (\<lambda>x. case x of Inl e \<Rightarrow> True | Inr y \<Rightarrow> False) r"

definition rejects :: "bytes \<Rightarrow> unit option" where
  "rejects raw = do {
     buffer \<leftarrow> feed raw v4b_new;
     failed \<leftarrow> is_err (validate_front buffer);
     assert_that failed }"

definition test_malformed_stream :: "unit option" where
  "test_malformed_stream = do {
     rejects [0x60, 0, 0, 20];
     rejects [0x45, 0, 0, 0];
     rejects [0x4f, 0, 0, 20];
     rejects (create_udp_packet[24 := 0, 25 := 7]) }"

definition test_validates_next_frame :: "unit option" where
  "test_validates_next_frame = do {
     buffer \<leftarrow> feed (create_udp_packet[6 := 0x20] @ [0x45, 0, 0, 0]) v4b_new;
     failed \<leftarrow> is_err (validate_front buffer);
     assert_that (\<not> failed);
     fragmented \<leftarrow> is_fragmented buffer;
     assert_that fragmented;
     buffer \<leftarrow> v4b_next buffer;
     failed \<leftarrow> is_err (validate_front buffer);
     assert_that failed }"

definition test_parse_ipv4_packet_buffer :: "unit option" where
  "test_parse_ipv4_packet_buffer = do {
     packet_buffer \<leftarrow> feed create_udp_packet v4b_new;
     packet \<leftarrow> as_ipv4_packet packet_buffer;
     packet \<leftarrow> packet;
     check_packet_headers packet }"

definition test_parse_fragmented_ipv4_packet_buffer :: "unit option" where
  "test_parse_fragmented_ipv4_packet_buffer = do {
     packet_buffer \<leftarrow> feed (take 14 create_udp_packet) v4b_new;
     packet \<leftarrow> as_ipv4_packet packet_buffer;
     assert_that (packet = None);
     packet_buffer \<leftarrow> feed (drop 14 create_udp_packet) packet_buffer;
     packet \<leftarrow> as_ipv4_packet packet_buffer;
     packet \<leftarrow> packet;
     check_packet_headers packet }"

definition test_parse_multi_packets :: "unit option" where
  "test_parse_multi_packets = do {
     packet_buffer \<leftarrow> feed create_multi_packets v4b_new;
     packet \<leftarrow> as_ipv4_packet packet_buffer;
     packet \<leftarrow> packet;
     check_packet_headers packet;
     packet_buffer \<leftarrow> v4b_next packet_buffer;
     packet \<leftarrow> as_ipv4_packet packet_buffer;
     packet \<leftarrow> packet;
     check_another_packet_headers packet;
     packet_buffer \<leftarrow> v4b_next packet_buffer;
     packet \<leftarrow> as_ipv4_packet packet_buffer;
     packet \<leftarrow> packet;
     check_packet_headers packet;
     packet_buffer \<leftarrow> v4b_next packet_buffer;
     packet \<leftarrow> as_ipv4_packet packet_buffer;
     assert_that (packet = None) }"

lemma rejects_eval:
  assumes "length raw \<le> 65536" and "is_err (validate_front (full raw)) = Some True"
  shows "rejects raw = Some ()"
proof -
  obtain b where "feed raw v4b_new = Some b" "holds b 65536 raw" using feed_new [OF assms(1)] by blast
  then show ?thesis using holds_eval(1) assms(2) by (simp add: rejects_def assert_that_def)
qed

lemma front_tests: "test_malformed_stream = Some ()" "test_validates_next_frame = Some ()"
proof -
  have len: "length create_udp_packet = 32" by code_simp
  have "rejects [0x60, 0, 0, 20] = Some ()" "rejects [0x45, 0, 0, 0] = Some ()" "rejects [0x4f, 0, 0, 20] = Some ()"
    "rejects (create_udp_packet[24 := 0, 25 := 7]) = Some ()"
    by (rule rejects_eval; (simp add: len | code_simp))+
  then show "test_malformed_stream = Some ()" by (simp add: test_malformed_stream_def)
  let ?raw = "create_udp_packet[6 := 0x20] @ [0x45, 0, 0, 0]"
  obtain b where b: "feed ?raw v4b_new = Some b" "holds b 65536 ?raw" using feed_new [of ?raw] len by auto
  have "available_packet_length (full ?raw) = Some (Some 32)" by code_simp
  then obtain b' where b': "v4b_next b = Some b'" "holds b' 65536 (drop (unat (32 :: u16)) ?raw)"
    using holds_next [OF b(2)] by blast
  have e: "is_err (validate_front (full ?raw)) = Some False" "is_fragmented (full ?raw) = Some True"
    "is_err (validate_front (full (drop (unat (32 :: u16)) ?raw))) = Some True"
    by code_simp+
  show "test_validates_next_frame = Some ()"
    unfolding test_validates_next_frame_def b(1) b'(1) bind.bind_lunit holds_eval(1,2) [OF b(2)] holds_eval(1) [OF b'(2)] e
    by (simp add: assert_that_def)
qed

lemma parse_buffer_tests:
  "test_parse_ipv4_packet_buffer = Some ()" "test_parse_fragmented_ipv4_packet_buffer = Some ()"
  "test_parse_multi_packets = Some ()"
proof -
  have len: "length create_udp_packet = 32" "length create_another_packet = 29" by code_simp+
  have whole: "Option.bind (as_ipv4_packet (full create_udp_packet)) (\<lambda>p. Option.bind p check_packet_headers) = Some ()"
    by code_simp
  obtain b where b: "feed create_udp_packet v4b_new = Some b" "holds b 65536 create_udp_packet"
    using feed_new [of create_udp_packet] len by auto
  show "test_parse_ipv4_packet_buffer = Some ()"
    unfolding test_parse_ipv4_packet_buffer_def b(1) bind.bind_lunit holds_eval(3) [OF b(2)] by (rule whole)
  obtain b1 where b1: "feed (take 14 create_udp_packet) v4b_new = Some b1" "holds b1 65536 (take 14 create_udp_packet)"
    using feed_new [of "take 14 create_udp_packet"] len by auto
  obtain b2 where b2: "feed (drop 14 create_udp_packet) b1 = Some b2" "holds b2 65536 create_udp_packet"
    using feed_holds [OF b1(2), of "drop 14 create_udp_packet"] len by auto
  have part: "as_ipv4_packet (full (take 14 create_udp_packet)) = Some None" by code_simp
  show "test_parse_fragmented_ipv4_packet_buffer = Some ()"
    unfolding test_parse_fragmented_ipv4_packet_buffer_def b1(1) bind.bind_lunit holds_eval(3) [OF b1(2)] part
      b2(1) holds_eval(3) [OF b2(2)]
    using whole by (simp add: assert_that_def)
  let ?raw = "create_multi_packets" and ?r1 = "drop 32 create_multi_packets" and ?r2 = "drop 29 (drop 32 create_multi_packets)"
  let ?r3 = "drop 32 (drop 29 (drop 32 create_multi_packets))"
  obtain c where c: "feed ?raw v4b_new = Some c" "holds c 65536 ?raw"
    using feed_new [of ?raw] len by (auto simp: create_multi_packets_def)
  have a: "available_packet_length (full ?raw) = Some (Some 32)" "available_packet_length (full ?r1) = Some (Some 29)"
    "available_packet_length (full ?r2) = Some (Some 32)" by code_simp+
  obtain c1 where c1: "v4b_next c = Some c1" "holds c1 65536 ?r1" using holds_next [OF c(2) a(1)] by auto
  obtain c2 where c2: "v4b_next c1 = Some c2" "holds c2 65536 ?r2" using holds_next [OF c1(2) a(2)] by auto
  obtain c3 where c3: "v4b_next c2 = Some c3" "holds c3 65536 ?r3" using holds_next [OF c2(2) a(3)] by auto
  have checks: "Option.bind (as_ipv4_packet (full ?raw)) (\<lambda>p. Option.bind p check_packet_headers) = Some ()"
    "Option.bind (as_ipv4_packet (full ?r1)) (\<lambda>p. Option.bind p check_another_packet_headers) = Some ()"
    "Option.bind (as_ipv4_packet (full ?r2)) (\<lambda>p. Option.bind p check_packet_headers) = Some ()"
    "as_ipv4_packet (full ?r3) = Some None"
    by code_simp+
  have "test_parse_multi_packets = do {
      Option.bind (as_ipv4_packet (full ?raw)) (\<lambda>p. Option.bind p check_packet_headers);
      Option.bind (as_ipv4_packet (full ?r1)) (\<lambda>p. Option.bind p check_another_packet_headers);
      Option.bind (as_ipv4_packet (full ?r2)) (\<lambda>p. Option.bind p check_packet_headers);
      packet \<leftarrow> as_ipv4_packet (full ?r3);
      assert_that (packet = None) }"
    unfolding test_parse_multi_packets_def c(1) bind.bind_lunit c1(1) c2(1) c3(1)
      holds_eval(3) [OF c(2)] holds_eval(3) [OF c1(2)] holds_eval(3) [OF c2(2)] holds_eval(3) [OF c3(2)]
    by (simp add: bind_assoc)
  then show "test_parse_multi_packets = Some ()" unfolding checks by (simp add: assert_that_def)
qed

end
