(* ===== verification/Frame_Tests.thy ===== *)
theory Frame_Tests
  imports Packet_Tests
begin

text \<open>
  The \<open>unified_*\<close> tests of \<open>ipv4_packet_buffer.rs\<close>: framing and parsing of both versions with
  \<open>IpPacketBuffer\<close>, up to the largest IPv6 packet that is not a jumbogram.
\<close>

definition feed_ip :: "bytes \<Rightarrow> ip_packet_buffer \<Rightarrow> ip_packet_buffer option" where
  "feed_ip raw b = do { (r, b) \<leftarrow> bb_read_from (cursor raw) b; _ \<leftarrow> unwrap r; Some b }"

lemma feed_ip_holds:
  "holds b n raw \<Longrightarrow> length raw + length bs \<le> n \<Longrightarrow> \<exists>b'. feed_ip bs b = Some b' \<and> holds b' n (raw @ bs)"
  using holds_read [of b n raw bs] by (auto simp: feed_ip_def)

lemma feed_ip_new:
  assumes "length bs \<le> 65575"
  shows "\<exists>b. feed_ip bs ipb_new = Some b \<and> holds b 65575 bs"
  using feed_ip_holds [OF holds_new [of 65575], of bs] assms by (simp add: ipb_new_def MAX_IP_PACKET_LENGTH_def IPV6_HEADER_LENGTH_def)

lemma holds_ip_next:
  assumes "holds b n raw" and "front_packet_length raw = ok (Some k)"
  shows "\<exists>b'. ipb_next b = Some (Inr True, b') \<and> holds b' n (drop k raw)"
proof -
  have p: "front_packet_length (bb_peek b) = ok (Some k)" using assms by (simp add: holds_def)
  have "k \<le> length raw" using front_packet_length_Some [OF assms(2)] by simp
  then show ?thesis using holds_consume [OF assms(1), of k] p by (auto simp: ipb_next_def)
qed

section \<open>The tests\<close>

definition ipv6_test_packet :: "u8 \<Rightarrow> bytes \<Rightarrow> bytes" where
  "ipv6_test_packet next_header transport = [0x60, 0, 0, 0] @ enc16 (of_nat (length transport)) @ [next_header] @ [64]
     @ [0x20, 0x01, 0x0d, 0xb8, 0, 0, 0, 0, 0, 0, 0, 0, 0, 0, 0, 1]
     @ [0, 0, 0, 0, 0, 0, 0, 0, 0, 0, 0, 0, 0, 0, 0, 1]
     @ transport"

definition test_fragmented_ipv6_udp :: "unit option" where
  "test_fragmented_ipv6_udp = do {
     let udp = [0x04, 0xd2, 0x16, 0x2e, 0, 12, 0, 0, 0x11, 0x22, 0x33, 0x44];
     let raw = ipv6_test_packet 17 udp;
     buffer \<leftarrow> feed_ip (take 40 raw) ipb_new;
     packet \<leftarrow> expect (ipb_packet buffer);
     assert_that (packet = None);
     buffer \<leftarrow> feed_ip (drop 40 raw) buffer;
     packet \<leftarrow> expect (ipb_packet buffer);
     packet \<leftarrow> packet;
     case packet of
       Ipv6 p \<Rightarrow> do {
         let header = i6p_header_data p;
         assert_that (52 = length (i6p_raw p));
         assert_that (17 = i6_next_header header);
         prefix \<leftarrow> slice 0 4 (i6_source header);
         v \<leftarrow> read_u32 prefix 0;
         assert_that (0x20010db8 = v);
         payload \<leftarrow> ipv6_packet_payload p;
         assert_that ([0x11, 0x22, 0x33, 0x44] = payload) }
     | Ipv4 p \<Rightarrow> None }"

definition test_ipv6_tcp :: "unit option" where
  "test_ipv6_tcp = do {
     let tcp = replicate 20 0;
     tcp \<leftarrow> splice 0 [0x04, 0xd2, 0x16, 0x2e] tcp;
     let tcp = tcp[12 := 0x50];
     let raw = ipv6_test_packet 6 tcp;
     buffer \<leftarrow> feed_ip raw ipb_new;
     packet \<leftarrow> expect (ipb_packet buffer);
     packet \<leftarrow> packet;
     case packet of
       Ipv6 p \<Rightarrow> do {
         assert_that (60 = length (i6p_raw p));
         transport \<leftarrow> ipv6_packet_transport_header p;
         assert_that (1234 = transport_source_port (snd transport));
         assert_that (5678 = transport_destination_port (snd transport));
         payload \<leftarrow> ipv6_packet_payload p;
         assert_that ([] = payload) }
     | Ipv4 p \<Rightarrow> None }"

definition test_dont_fragment :: "unit option" where
  "test_dont_fragment = do {
     let raw = create_udp_packet[6 := 0x40];
     buffer \<leftarrow> feed_ip raw ipb_new;
     packet \<leftarrow> expect (ipb_packet buffer);
     packet \<leftarrow> packet;
     case packet of
       Ipv4 p \<Rightarrow> assert_that (32 = ipv4_packet_length p)
     | Ipv6 p \<Rightarrow> None }"

definition test_largest_ipv6_udp :: "unit option" where
  "test_largest_ipv6_udp = do {
     let udp = replicate 65535 0;
     udp \<leftarrow> splice 4 (enc16 65535) udp;
     let raw = ipv6_test_packet 17 udp;
     buffer \<leftarrow> feed_ip raw ipb_new;
     packet \<leftarrow> expect (ipb_packet buffer);
     packet \<leftarrow> packet;
     case packet of
       Ipv6 p \<Rightarrow> assert_that (40 + 65535 = length (i6p_raw p))
     | Ipv4 p \<Rightarrow> None }"

definition reports_unsupported :: "u8 \<Rightarrow> unsupported_packet \<Rightarrow> unit option" where
  "reports_unsupported next_header expected = do {
     let raw = ipv6_test_packet next_header (replicate 8 0);
     buffer \<leftarrow> feed_ip raw ipb_new;
     packet \<leftarrow> ipb_packet buffer;
     assert_that (packet = Inl (Unsupported expected));
     (advanced, buffer) \<leftarrow> ipb_next buffer;
     assert_that (advanced = Inr True) }"

definition test_unsupported_ipv6 :: "unit option" where
  "test_unsupported_ipv6 = do {
     reports_unsupported 0 (Ipv6ExtensionHeader 0);
     reports_unsupported 44 Ipv6FragmentHeader }"

definition test_malformed_ipv6_transport :: "unit option" where
  "test_malformed_ipv6_transport = do {
     let raw = ipv6_test_packet 6 (replicate 8 0);
     buffer \<leftarrow> feed_ip raw ipb_new;
     packet \<leftarrow> ipb_packet buffer;
     assert_that (packet = Inl (Malformed ''truncated TCP header'')) }"

definition test_short_ipv4_input :: "unit option" where
  "test_short_ipv4_input = do {
     result \<leftarrow> ip_packet_parse [0x45, 0];
     assert_that (result = Inl (Malformed ''truncated IPv4 packet'')) }"

section \<open>They pass\<close>

lemma framed:
  assumes "length raw \<le> 65575"
  obtains b where "feed_ip raw ipb_new = Some b" "holds b 65575 raw" "ipb_packet b = ipb_packet (full raw)"
  using feed_ip_new [OF assms] holds_eval(5) by blast

lemma fragmented_ipv6_udp_passes: "test_fragmented_ipv6_udp = Some ()"
proof -
  let ?raw = "ipv6_test_packet 17 [0x04, 0xd2, 0x16, 0x2e, 0, 12, 0, 0, 0x11, 0x22, 0x33, 0x44]"
  have len: "length ?raw = 52" by code_simp
  obtain b where b: "feed_ip (take 40 ?raw) ipb_new = Some b" "holds b 65575 (take 40 ?raw)"
    using framed [of "take 40 ?raw"] len by auto
  obtain b' where b': "feed_ip (drop 40 ?raw) b = Some b'" "holds b' 65575 ?raw"
    using feed_ip_holds [OF b(2), of "drop 40 ?raw"] len by auto
  have e: "ipb_packet (full (take 40 ?raw)) = ok None" by code_simp
  have p: "Option.bind (Option.bind (expect (ipb_packet (full ?raw))) id) (case_ip_packet (\<lambda>p. None) (\<lambda>p. do {
         let header = i6p_header_data p;
         assert_that (52 = length (i6p_raw p));
         assert_that (17 = i6_next_header header);
         prefix \<leftarrow> slice 0 4 (i6_source header);
         v \<leftarrow> read_u32 prefix 0;
         assert_that (0x20010db8 = v);
         payload \<leftarrow> ipv6_packet_payload p;
         assert_that ([0x11, 0x22, 0x33, 0x44] = payload) })) = Some ()" by code_simp
  show ?thesis
    unfolding test_fragmented_ipv6_udp_def Let_def b(1) b'(1) bind.bind_lunit holds_eval(5) [OF b(2)] holds_eval(5) [OF b'(2)]
    using p e by (simp add: expect_def assert_that_def Let_def bind_assoc)
qed

lemma ipv6_tcp_passes: "test_ipv6_tcp = Some ()"
proof -
  let ?tcp = "([0x04, 0xd2, 0x16, 0x2e] @ replicate 16 0)[12 := 0x50]"
  let ?raw = "ipv6_test_packet 6 ?tcp"
  have s: "splice 0 [0x04, 0xd2, 0x16, 0x2e] (replicate 20 (0 :: u8)) = Some ([0x04, 0xd2, 0x16, 0x2e] @ replicate 16 0)"
    by code_simp
  have len: "length ?raw = 60" by code_simp
  obtain b where b: "feed_ip ?raw ipb_new = Some b" "holds b 65575 ?raw" using framed [of ?raw] len by auto
  have "Option.bind (Option.bind (expect (ipb_packet (full ?raw))) id) (case_ip_packet (\<lambda>p. None) (\<lambda>p. do {
         assert_that (60 = length (i6p_raw p));
         transport \<leftarrow> ipv6_packet_transport_header p;
         assert_that (1234 = transport_source_port (snd transport));
         assert_that (5678 = transport_destination_port (snd transport));
         payload \<leftarrow> ipv6_packet_payload p;
         assert_that ([] = payload) })) = Some ()" by code_simp
  then show ?thesis
    unfolding test_ipv6_tcp_def Let_def s bind.bind_lunit b(1) holds_eval(5) [OF b(2)] by (simp add: bind_assoc)
qed

lemma dont_fragment_passes: "test_dont_fragment = Some ()"
proof -
  let ?raw = "create_udp_packet[6 := 0x40]"
  have len: "length ?raw = 32" by code_simp
  obtain b where b: "feed_ip ?raw ipb_new = Some b" "holds b 65575 ?raw" using framed [of ?raw] len by auto
  have "Option.bind (Option.bind (expect (ipb_packet (full ?raw))) id)
    (case_ip_packet (\<lambda>p. assert_that (32 = ipv4_packet_length p)) (\<lambda>p. None)) = Some ()" by code_simp
  then show ?thesis
    unfolding test_dont_fragment_def Let_def bind.bind_lunit b(1) holds_eval(5) [OF b(2)] by (simp add: bind_assoc)
qed

lemma reports_unsupported_eval:
  assumes "raw = ipv6_test_packet next_header (replicate 8 0)" and "length raw = 48"
    and "front_packet_length raw = ok (Some 48)" and "ipb_packet (full raw) = err (Unsupported expected)"
  shows "reports_unsupported next_header expected = Some ()"
proof -
  obtain b where b: "feed_ip raw ipb_new = Some b" "holds b 65575 raw" using framed [of raw] assms(2) by auto
  obtain b' where "ipb_next b = Some (Inr True, b')" using holds_ip_next [OF b(2) assms(3)] by blast
  then show ?thesis
    using b(1) holds_eval(5) [OF b(2)] assms(4)
    unfolding reports_unsupported_def Let_def assms(1) [symmetric] by (simp add: assert_that_def)
qed

lemma unsupported_ipv6_passes: "test_unsupported_ipv6 = Some ()"
proof -
  have "reports_unsupported 0 (Ipv6ExtensionHeader 0) = Some ()" "reports_unsupported 44 Ipv6FragmentHeader = Some ()"
    by (rule reports_unsupported_eval [OF refl]; code_simp)+
  then show ?thesis by (simp add: test_unsupported_ipv6_def)
qed

lemma malformed_ipv6_transport_passes: "test_malformed_ipv6_transport = Some ()"
proof -
  let ?raw = "ipv6_test_packet 6 (replicate 8 0)"
  have len: "length ?raw = 48" by code_simp
  obtain b where b: "feed_ip ?raw ipb_new = Some b" "holds b 65575 ?raw" using framed [of ?raw] len by auto
  have "ipb_packet (full ?raw) = err (Malformed ''truncated TCP header'')" by code_simp
  then show ?thesis
    unfolding test_malformed_ipv6_transport_def Let_def bind.bind_lunit b(1) holds_eval(5) [OF b(2)]
    by (simp add: assert_that_def)
qed

lemma short_ipv4_input_passes: "test_short_ipv4_input = Some ()"
  by code_simp

text \<open>The largest packet is parsed by what its header says, not by evaluation.\<close>

lemma ipv6_test_packet_cells:
  "ipv6_test_packet n t ! 0 = 0x60" "ipv6_test_packet n t ! 6 = n" "drop 40 (ipv6_test_packet n t) = t"
  "be16 (ipv6_test_packet n t ! 4) (ipv6_test_packet n t ! 5) = of_nat (length t)"
  "length (ipv6_test_packet n t) = 40 + length t"
  by (simp_all add: ipv6_test_packet_def enc16_def)

lemma largest_ipv6_udp_passes: "test_largest_ipv6_udp = Some ()"
proof -
  define udp :: bytes where "udp = replicate 4 0 @ enc16 65535 @ replicate 65529 0"
  let ?raw = "ipv6_test_packet 17 udp"
  have s: "splice 4 (enc16 65535) (replicate 65535 (0 :: u8)) = Some udp"
    by (simp add: splice_def udp_def drop_replicate take_replicate)
  have l: "length udp = 65535" by (simp add: udp_def)
  note c = ipv6_test_packet_cells [of 17 udp, unfolded l]
  have six: "drop_bit 4 (?raw ! 0) = 6" by (simp add: c)
  have len: "length ?raw = 40 + unat (be16 (?raw ! 4) (?raw ! 5))" by (simp add: c)
  have q: "ipv6_protocol (?raw ! 6) = Inr Udp" by (simp add: c ipv6_protocol_def)
  have "enc16 65535 = [255, 255]" "be16 255 255 = 65535" by code_simp+
  then have "be16 (udp ! 4) (udp ! 5) = 65535" by (simp add: udp_def nth_append)
  then have v: "validate_transport Udp (drop 40 ?raw) = ok ()"
    using l by (simp add: c validate_transport_def index_def)
  obtain t where t: "transport_header_parse Udp (drop 40 ?raw) = Some (Some t)"
    using validate_transport_ok [OF v] by (auto split: option.splits)
  obtain p where p: "ipv6_packet_parse ?raw = ok p" "i6p_raw p = ?raw"
    using ipv6_packet_parse_exact [OF len six q v t] by auto
  have ne: "?raw \<noteq> []" using c(5) by auto
  have f: "front_packet_length ?raw = ok (Some 65575)"
    using six len ne by (simp add: front_packet_length_eq c)
  obtain b where b: "feed_ip ?raw ipb_new = Some b" "holds b 65575 ?raw" using framed [of ?raw] c(5) by auto
  have "ip_packet_parse ?raw = ok (Ipv6 p)"
    using p(1) six ne by (cases ?raw) (simp_all add: ip_packet_parse_def)
  then have "ipb_packet (full ?raw) = ok (Some (Ipv6 p))"
    using f c(5) by (simp add: ipb_packet_def slice_def question_def)
  then show ?thesis
    unfolding test_largest_ipv6_udp_def Let_def s bind.bind_lunit b(1) holds_eval(5) [OF b(2)]
    using p(2) c(5) by (simp add: expect_def assert_that_def)
qed

end
