(* ===== verification/Packetizer_Tests.thy ===== *)
theory Packetizer_Tests
  imports Frame_Tests Router
begin

text \<open>
  The unit tests of the two packetizers (\<open>packetizer.rs\<close>, \<open>ipv6_packetizer.rs\<close>, the last one of
  \<open>ipv4_packet_buffer.rs\<close>) and of connection creation (\<open>router.rs\<close>).  They follow from what
  \<open>build\<close> guarantees of every packet.
\<close>

section \<open>\<open>packetizer.rs\<close>\<close>

definition create_packet :: bytes where
  "create_packet = [push_bit 4 4 OR 5, 0] @ enc16 32 @ enc32 0 @ [0, 17] @ enc16 0
     @ enc32 0x12345678 @ enc32 0x42424242
     @ enc16 1234 @ enc16 5678 @ enc16 12 @ enc16 0
     @ enc32 0x11223344"

definition packetizer_for :: "bytes \<Rightarrow> packetizer option" where
  "packetizer_for raw = do {
     reference_packet \<leftarrow> ipv4_packet_parse raw;
     let d = ip_header_data reference_packet;
     ipv4_header \<leftarrow> slice 0 (unat (ih_header_length d)) (ip_raw reference_packet);
     transport_header \<leftarrow> ipv4_packet_transport_header reference_packet;
     transport_header \<leftarrow> transport_header;
     packetizer_new (ipv4_header, d) transport_header }"

definition test_data :: bytes where
  "test_data = [0x11, 0x22, 0x33, 0x44, 0x55, 0x66, 0x77, 0x88]"

definition test_merge_headers_and_payload :: "unit option" where
  "test_merge_headers_and_payload = do {
     p \<leftarrow> packetizer_for create_packet;
     mock \<leftarrow> mock_from_data test_data;
     (r, p) \<leftarrow> packetize (mock_recv mock) p;
     packet \<leftarrow> unwrap r;
     assert_that (36 = ih_total_length (ip_header_data packet));
     part \<leftarrow> slice 28 36 (ip_raw packet);
     assert_that (test_data = part) }"

definition test_last_packet :: "unit option" where
  "test_last_packet = do {
     p \<leftarrow> packetizer_for create_packet;
     mock \<leftarrow> mock_from_data test_data;
     (r, p) \<leftarrow> packetize (mock_recv mock) p;
     packet \<leftarrow> unwrap r;
     let packet_length = ipv4_packet_length packet;
     packet \<leftarrow> packetizer_inflate packet_length p;
     assert_that (36 = ih_total_length (ip_header_data packet));
     part \<leftarrow> slice 28 36 (ip_raw packet);
     assert_that (test_data = part) }"

text \<open>One \<open>packetize_read\<close> of a cursor that has \<open>bs\<close> left, with the checks made on the packet.\<close>

definition expect_chunk :: "bytes \<Rightarrow> nat \<Rightarrow> u16 \<Rightarrow> bytes \<Rightarrow> packetizer \<Rightarrow> packetizer option" where
  "expect_chunk bs m len expected p = do {
     (r, p) \<leftarrow> packetize_read (cursor bs) (Some m) p;
     packet \<leftarrow> unwrap r;
     packet \<leftarrow> packet;
     assert_that (len = ih_total_length (ip_header_data packet));
     payload \<leftarrow> ipv4_packet_payload packet;
     payload \<leftarrow> payload;
     assert_that (expected = payload);
     Some p }"

definition test_packetize_chunks :: "unit option" where
  "test_packetize_chunks = do {
     p \<leftarrow> packetizer_for create_packet;
     p \<leftarrow> expect_chunk test_data 2 30 [0x11, 0x22] p;
     p \<leftarrow> expect_chunk (drop 2 test_data) 3 31 [0x33, 0x44, 0x55] p;
     p \<leftarrow> expect_chunk (drop 5 test_data) 1024 31 [0x66, 0x77, 0x88] p;
     Some () }"

text \<open>The reference packet is accepted, so its headers are what a packetizer is made from.\<close>

definition ready4 :: "packetizer \<Rightarrow> bool" where
  "ready4 p \<longleftrightarrow> pk_inv p \<and> pk_payload_index p = 28 \<and> ih_header_length (pk_ipv4_header_data p) = 20
     \<and> (\<exists>d. pk_transport_header_data p = UdpTransport d)"

lemma packetizer_for_ok: "\<exists>p. packetizer_for create_packet = Some p \<and> ready4 p"
proof -
  obtain q t where q: "ipv4_packet_parse create_packet = Some q" "ipv4_accepted q"
    "ih_header_length (ip_header_data q) = 20" "ip_transport_data q = Some (UdpTransport t)"
  proof -
    have "\<exists>q t. ipv4_packet_parse create_packet = Some q \<and> validate_ipv4 create_packet = ok ()
      \<and> ih_header_length (ip_header_data q) = 20 \<and> ip_transport_data q = Some (UdpTransport t)
      \<and> drop_bit 4 (create_packet ! 0) = 4"
    proof -
      have "case ipv4_packet_parse create_packet of None \<Rightarrow> False | Some q \<Rightarrow> ih_header_length (ip_header_data q) = 20
        \<and> (case ip_transport_data q of Some (UdpTransport t) \<Rightarrow> True | _ \<Rightarrow> False)"
        "validate_ipv4 create_packet = ok ()" "drop_bit 4 (create_packet ! 0) = 4" by code_simp+
      then show ?thesis by (auto split: option.splits transport_header_data.splits)
    qed
    then show thesis using that ipv4_packet_parse_accepted [of create_packet] by blast
  qed
  obtain iraw traw where H: "ipv4_packet_headers q = Some ((iraw, ip_header_data q), Some (traw, UdpTransport t))"
    "ipv4_header_parse iraw = Some (ip_header_data q)" "length iraw = unat (ih_header_length (ip_header_data q))"
    "20 \<le> length iraw" "transport_matches (ih_protocol (ip_header_data q)) (UdpTransport t) traw"
    "length traw = unat (transport_header_length (UdpTransport t))"
    "drop_bit 4 (iraw ! 0) = 4" "iraw ! 6 AND 0x3f = 0" "iraw ! 7 = 0"
    using accepted_headers [OF q(2,4)] by blast
  obtain p where p: "packetizer_new (iraw, ip_header_data q) (traw, UdpTransport t) = Some p" "pk_inv p"
    "pk_ipv4_header_data p = swapped_ipv4 (ip_header_data q)"
    "pk_transport_header_data p = swapped_transport (UdpTransport t)"
    using packetizer_new_ok [OF H(2-9)] by blast
  have "packetizer_for create_packet = Some p"
    using q(1,4) H(1) p(1)
    by (auto simp: packetizer_for_def ipv4_packet_headers_def ipv4_packet_transport_header_def bind_eq_Some_conv
        slice_eq_Some Let_def)
  moreover have "pk_payload_index p = 28"
    using pk_invD(1-3) [OF p(2)] p(2-4) q(3) by (simp add: pk_inv_def swapped_ipv4_def udp_header_length_def)
  ultimately show ?thesis using p q(3) by (auto simp: ready4_def swapped_ipv4_def)
qed

lemma ready4_build:
  assumes p: "ready4 p" and src: "source (pk_room p) = Inr bs" and len: "length bs \<le> 1024"
  shows "\<exists>p1 packet p'. pk_recv source p = Some (Inr (length bs), p1)
    \<and> packetizer_build (of_nat (length bs)) p1 = Some (packet, p') \<and> ready4 p'
    \<and> ih_total_length (ip_header_data packet) = of_nat (28 + length bs)
    \<and> slice 28 (28 + length bs) (ip_raw packet) = Some bs
    \<and> ipv4_packet_payload packet = Some (Some bs)
    \<and> packetizer_inflate (ipv4_packet_length packet) p' = Some packet"
proof -
  have P: "pk_inv p" "pk_payload_index p = 28" "ih_header_length (pk_ipv4_header_data p) = 20"
    using p by (simp_all add: ready4_def)
  obtain d where d: "pk_transport_header_data p = UdpTransport d" using p by (auto simp: ready4_def)
  have fits: "length bs \<le> pk_capacity p" using P(2) len by (simp add: pk_capacity_def)
  obtain p1 packet p' where k: "pk_recv source p = Some (Inr (length bs), p1)"
    "packetizer_build (of_nat (length bs)) p1 = Some (packet, p')" "pk_inv p'"
    "ipv4_packet_payload packet = Some (Some bs)"
    "ip_header_data packet = (pk_ipv4_header_data p)\<lparr>ih_total_length := of_nat (28 + length bs)\<rparr>"
    "ip_transport_data packet = Some (UdpTransport d)" "length (ip_raw packet) = 28 + length bs"
    "pk_payload_index p' = 28" "pk_transport_header_data p' = UdpTransport d"
    "pk_ipv4_header_data p' = ip_header_data packet"
    "packetizer_inflate (ipv4_packet_length packet) p' = Some packet"
    using pk_recv_build [of p source bs, OF P(1) src fits] unfolding P(2) d by blast
  have "slice 28 (28 + length bs) (ip_raw packet) = Some bs"
    using k(4-7) P(3) by (simp add: ipv4_packet_payload_def udp_header_length_def bind_eq_Some_conv)
  moreover have "ready4 p'" using k(3,5,8-10) P(3) by (simp add: ready4_def)
  ultimately show ?thesis using k by auto
qed

lemma expect_chunk_ok:
  assumes "ready4 p" and "m \<le> 1024" and "take m bs \<noteq> []" and "len = of_nat (28 + length (take m bs))"
  shows "\<exists>p'. expect_chunk bs m len (take m bs) p = Some p' \<and> ready4 p'"
proof -
  have "m \<le> pk_room p" using assms(1,2) pk_invD(1) [of p] by (simp add: ready4_def pk_room_def)
  then have src: "read_adapter_recv (cursor bs) (Some m) (pk_room p) = Inr (take m bs)"
    by (simp add: read_adapter_recv_def cursor_def)
  define cs where "cs = take m bs"
  have cs: "0 < length cs" "length cs \<le> 1024" using assms(2,3) by (auto simp: cs_def)
  obtain p1 packet p' where "pk_recv (read_adapter_recv (cursor bs) (Some m)) p = Some (Inr (length cs), p1)"
    "packetizer_build (of_nat (length cs)) p1 = Some (packet, p')" "ready4 p'"
    "ih_total_length (ip_header_data packet) = len" "ipv4_packet_payload packet = Some (Some cs)"
    using ready4_build [of p "read_adapter_recv (cursor bs) (Some m)" cs, OF assms(1) src [folded cs_def] cs(2)]
      assms(4) [folded cs_def] by metis
  then show ?thesis
    unfolding cs_def [symmetric] using cs(1)
    by (intro exI [of _ p']) (simp add: expect_chunk_def packetize_read_def assert_that_def)
qed

lemma packetizer_tests:
  "test_merge_headers_and_payload = Some ()" "test_last_packet = Some ()" "test_packetize_chunks = Some ()"
proof -
  obtain p where p: "packetizer_for create_packet = Some p" "ready4 p" using packetizer_for_ok by blast
  have n: "length test_data = 8" by (simp add: test_data_def)
  obtain mock where mock: "mock_from_data test_data = Some mock" "mock_recv mock = cursor test_data"
    using mock_from_data_ok [of test_data] n by (auto simp: max_datagram_length_def)
  have "8 \<le> pk_room p" using p(2) pk_invD(1) [of p] by (simp add: ready4_def pk_room_def)
  then have "cursor test_data (pk_room p) = Inr test_data" using n by (simp add: cursor_def)
  then obtain p1 packet p' where k: "pk_recv (cursor test_data) p = Some (Inr 8, p1)"
    "packetizer_build 8 p1 = Some (packet, p')" "ih_total_length (ip_header_data packet) = 36"
    "slice 28 36 (ip_raw packet) = Some test_data" "packetizer_inflate (ipv4_packet_length packet) p' = Some packet"
    using ready4_build [OF p(2), of "cursor test_data" test_data] n by auto
  show "test_merge_headers_and_payload = Some ()" "test_last_packet = Some ()"
    using p(1) mock k
    by (simp_all add: test_merge_headers_and_payload_def test_last_packet_def packetize_def assert_that_def)
  obtain p2 where p2: "expect_chunk test_data 2 30 [0x11, 0x22] p = Some p2" "ready4 p2"
    using expect_chunk_ok [OF p(2), of 2 test_data 30] by (auto simp: test_data_def)
  obtain p3 where p3: "expect_chunk (drop 2 test_data) 3 31 [0x33, 0x44, 0x55] p2 = Some p3" "ready4 p3"
    using expect_chunk_ok [OF p2(2), of 3 "drop 2 test_data" 31] by (auto simp: test_data_def)
  obtain p4 where p4: "expect_chunk (drop 5 test_data) 1024 31 [0x66, 0x77, 0x88] p3 = Some p4"
    using expect_chunk_ok [OF p3(2), of 1024 "drop 5 test_data" 31] by (auto simp: test_data_def)
  show "test_packetize_chunks = Some ()"
    using p(1) p2(1) p3(1) p4 by (simp add: test_packetize_chunks_def)
qed

section \<open>\<open>ipv6_packetizer.rs\<close>\<close>

definition reference :: "u8 \<Rightarrow> bytes \<Rightarrow> bytes" where
  "reference next_header transport = [0x60, 0, 0, 0] @ enc16 (of_nat (length transport)) @ [next_header] @ [64]
     @ [0x20, 0x01, 0x0d, 0xb8, 0, 0, 0, 0, 0, 0, 0, 0, 0, 0, 0, 1]
     @ [0x20, 0x01, 0x0d, 0xb8, 0, 0, 0, 0, 0, 0, 0, 0, 0, 0, 0, 2]
     @ transport"

text \<open>The reference packet and the packetizer made from its headers; one datagram sent through it.\<close>

definition packetizer6_for :: "bytes \<Rightarrow> (ipv6_packet \<times> ipv6_packetizer) option" where
  "packetizer6_for input = do {
     packet \<leftarrow> expect (ip_packet_parse input);
     case packet of
       Ipv6 packet \<Rightarrow> do {
         header \<leftarrow> slice 0 IPV6_HEADER_LENGTH (i6p_raw packet);
         transport_header \<leftarrow> ipv6_packet_transport_header packet;
         packetizer \<leftarrow> ipv6_packetizer_new (header, i6p_header_data packet) transport_header;
         Some (packet, packetizer) }
     | Ipv4 p \<Rightarrow> None }"

definition respond6 :: "bytes \<Rightarrow> ipv6_packetizer \<Rightarrow> (ipv6_packet \<times> ipv6_packetizer) option" where
  "respond6 payload packetizer = do {
     host \<leftarrow> mock_from_data payload;
     (r, packetizer) \<leftarrow> ipv6_packetize (mock_recv host) packetizer;
     packet \<leftarrow> unwrap r;
     Some (packet, packetizer) }"

definition packetize6 :: "u8 \<Rightarrow> bytes \<Rightarrow> bytes \<Rightarrow> bytes option" where
  "packetize6 next_header transport payload = do {
     (packet, packetizer) \<leftarrow> packetizer6_for (reference next_header transport);
     (packet, packetizer) \<leftarrow> respond6 payload packetizer;
     Some (i6p_raw packet) }"

definition test_tcp :: bytes where
  "test_tcp = [0x04, 0xd2, 0x16, 0x2e, 0, 0, 0, 1, 0, 0, 0, 0, 0x50, 0x10, 0x20, 0x00, 0, 0, 0, 0]"

definition test_udp :: bytes where
  "test_udp = [0x04, 0xd2, 0x16, 0x2e, 0, 8, 0, 0]"

definition test_tcp_response :: "unit option" where
  "test_tcp_response = do {
     raw \<leftarrow> packetize6 6 test_tcp [0xde, 0xad, 0xbe, 0xef];
     v \<leftarrow> verify raw 6;
     assert_that (0xFFFF = v);
     c \<leftarrow> read_u16 raw (IPV6_HEADER_LENGTH + 16);
     assert_that (0 \<noteq> c) }"

definition test_odd_length_payload :: "unit option" where
  "test_odd_length_payload = do {
     raw \<leftarrow> packetize6 17 test_udp [0x01, 0x02, 0x03];
     v \<leftarrow> verify raw 17;
     assert_that (0xFFFF = v);
     len \<leftarrow> read_u16 raw 4;
     assert_that (11 = len) }"

definition test_payload_length_rewritten :: "unit option" where
  "test_payload_length_rewritten = do {
     (packet, packetizer) \<leftarrow> packetizer6_for (reference 17 test_udp);
     (long, packetizer) \<leftarrow> respond6 (replicate 40 0x11) packetizer;
     len \<leftarrow> read_u16 (i6p_raw long) 4;
     assert_that (48 = len);
     v \<leftarrow> verify (i6p_raw long) 17;
     assert_that (0xFFFF = v);
     (short, packetizer) \<leftarrow> respond6 [0x22] packetizer;
     len \<leftarrow> read_u16 (i6p_raw short) 4;
     assert_that (9 = len);
     v \<leftarrow> verify (i6p_raw short) 17;
     assert_that (0xFFFF = v) }"

definition test_endpoints_swapped :: "unit option" where
  "test_endpoints_swapped = do {
     raw \<leftarrow> packetize6 17 test_udp [0xaa];
     source \<leftarrow> slice 8 24 raw;
     destination \<leftarrow> slice 24 40 raw;
     ref_source \<leftarrow> slice 8 24 (reference 17 test_udp);
     ref_destination \<leftarrow> slice 24 40 (reference 17 test_udp);
     assert_that (source = ref_destination);
     assert_that (destination = ref_source);
     port \<leftarrow> read_u16 raw IPV6_HEADER_LENGTH;
     assert_that (0x162e = port);
     port \<leftarrow> read_u16 raw (IPV6_HEADER_LENGTH + 2);
     assert_that (0x04d2 = port) }"

text \<open>The one in \<open>ipv4_packet_buffer.rs\<close>.\<close>

definition test_udp_endpoints_and_checksum :: "unit option" where
  "test_udp_endpoints_and_checksum = do {
     (packet, packetizer) \<leftarrow> packetizer6_for (ipv6_test_packet 17 test_udp);
     (response, packetizer) \<leftarrow> respond6 [0xaa, 0xbb] packetizer;
     assert_that (i6_destination (i6p_header_data packet) = i6_source (i6p_header_data response));
     assert_that (i6_source (i6p_header_data packet) = i6_destination (i6p_header_data response));
     payload \<leftarrow> ipv6_packet_payload response;
     assert_that ([0xaa, 0xbb] = payload);
     let raw = i6p_raw response;
     len \<leftarrow> read_u16 raw 44;
     assert_that (10 = len);
     c \<leftarrow> read_u16 raw 46;
     assert_that (0 \<noteq> c);
     source \<leftarrow> slice 8 24 raw;
     destination \<leftarrow> slice 24 40 raw;
     transport \<leftarrow> slice 40 (length raw) raw;
     assert_that (0xFFFF = checksum_words source destination transport) }"

definition test_icmpv6_checksum :: "unit option" where
  "test_icmpv6_checksum = do {
     let source = [0x20, 0x01, 0x0d, 0xb8, 0, 0, 0, 0, 0, 0, 0, 0, 0, 0, 0, 2];
     let destination = [0x20, 0x01, 0x0d, 0xb8, 0, 0, 0, 0, 0, 0, 0, 0, 0, 0, 0, 1];
     let icmp = [1, 1, 0, 0, 0, 0, 0, 0, 0x60, 0x11, 0x22];
     checksum \<leftarrow> icmpv6_checksum source destination icmp;
     let icmp = icmp[2 := ucast (drop_bit 8 checksum)];
     let icmp = icmp[3 := ucast (checksum AND 0xff)];
     v \<leftarrow> icmpv6_sum source destination icmp;
     assert_that (0xFFFF = (ucast v :: u16)) }"

section \<open>They pass\<close>

lemma icmpv6_checksum_passes: "test_icmpv6_checksum = Some ()"
  by code_simp

text \<open>What a packetizer keeps of its reference packet, and what a response is.\<close>

definition mirrors :: "ipv6_packetizer \<Rightarrow> ipv6_packet \<Rightarrow> bool" where
  "mirrors p ref \<longleftrightarrow> p6_inv p \<and> take 16 (drop 8 (p6_buffer p)) = i6_destination (i6p_header_data ref)
     \<and> take 16 (drop 24 (p6_buffer p)) = i6_source (i6p_header_data ref)
     \<and> p6_transport_header_data p = swapped_transport (i6p_transport_data ref)"

definition response6 :: "ipv6_packet \<Rightarrow> bytes \<Rightarrow> ipv6_packet \<Rightarrow> bool" where
  "response6 ref bs q \<longleftrightarrow> ipv6_sendable q \<and> ipv6_packet_payload q = Some bs
     \<and> i6_source (i6p_header_data q) = i6_destination (i6p_header_data ref)
     \<and> i6_destination (i6p_header_data q) = i6_source (i6p_header_data ref)
     \<and> i6p_transport_data q = swapped_transport (i6p_transport_data ref)
     \<and> length (i6p_raw q) = 40 + unat (transport_header_length (i6p_transport_data ref)) + length bs"

lemma packetizer6_for_ok:
  assumes "ip_packet_parse input = ok (Ipv6 ref)"
  shows "\<exists>p R. packetizer6_for input = Some (ref, p) \<and> mirrors p ref
    \<and> (let S = take (unat (transport_header_length (i6p_transport_data ref))) (drop 40 (i6p_raw ref)) in
        p6_buffer p = take 8 (i6p_raw ref) @ i6_destination (i6p_header_data ref) @ i6_source (i6p_header_data ref)
          @ take 2 (drop 2 S) @ take 2 S @ drop 4 S @ R)"
proof -
  have ok: "ipv6_packet_ok ref" using ip_packet_parse_ok [OF assms] by simp
  then have len: "40 + unat (transport_header_length (i6p_transport_data ref)) \<le> length (i6p_raw ref)"
    by (simp add: ipv6_packet_ok_def)
  obtain th where th: "ipv6_packet_transport_header ref = Some th"
    using len by (auto simp: ipv6_packet_transport_header_def slice_Some IPV6_HEADER_LENGTH_def Let_def)
  have h: "slice 0 40 (i6p_raw ref) = Some (take 40 (i6p_raw ref))" using len by (simp add: slice_def)
  obtain p where "ipv6_packetizer_new (take 40 (i6p_raw ref), i6p_header_data ref) th = Some p" "mirrors p ref"
    "\<exists>R. let S = take (unat (transport_header_length (i6p_transport_data ref))) (drop 40 (i6p_raw ref)) in
        p6_buffer p = take 8 (i6p_raw ref) @ i6_destination (i6p_header_data ref) @ i6_source (i6p_header_data ref)
          @ take 2 (drop 2 S) @ take 2 S @ drop 4 S @ R"
    using ipv6_packetizer_new_ok [OF ok th] unfolding mirrors_def Let_def by blast
  then show ?thesis
    using assms th h by (auto simp: packetizer6_for_def expect_def IPV6_HEADER_LENGTH_def)
qed

lemma respond6_ok:
  assumes m: "mirrors p ref" and len: "length bs \<le> 1024"
  shows "\<exists>q p'. respond6 bs p = Some (q, p') \<and> mirrors p' ref \<and> response6 ref bs q
    \<and> (\<exists>c. i6p_raw q = headers6 p (length bs) c @ bs)"
proof -
  have inv: "p6_inv p" using m by (simp add: mirrors_def)
  note b = p6_inv_bounds [OF inv]
  have room: "length bs \<le> p6_room p" using len b unfolding p6_room_def by linarith
  obtain mock where mock: "mock_from_data bs = Some mock" "mock_recv mock = cursor bs"
    using mock_from_data_ok [of bs] len by (auto simp: max_datagram_length_def)
  have src: "cursor bs (p6_room p) = Inr bs" using room by (simp add: cursor_def)
  have ix: "p6_payload_index p = 40 + unat (transport_header_length (i6p_transport_data ref))"
    using m by (simp add: mirrors_def p6_inv_def)
  obtain p1 q p' where k: "p6_recv (cursor bs) p = Some (Inr (length bs), p1)"
    "ipv6_build (of_nat (length bs)) p1 = Some (q, p')" "p6_inv p'" "ipv6_sendable q"
    "ipv6_packet_payload q = Some bs"
    "i6_source (i6p_header_data q) = take 16 (drop 8 (p6_buffer p))"
    "i6_destination (i6p_header_data q) = take 16 (drop 24 (p6_buffer p))"
    "i6p_transport_data q = p6_transport_header_data p" "length (i6p_raw q) = p6_payload_index p + length bs"
    "p6_transport_header_data p' = p6_transport_header_data p"
    "take 16 (drop 8 (p6_buffer p')) = take 16 (drop 8 (p6_buffer p))"
    "take 16 (drop 24 (p6_buffer p')) = take 16 (drop 24 (p6_buffer p))"
    "\<exists>c. i6p_raw q = headers6 p (length bs) c @ bs"
    using p6_recv_build [of p "cursor bs" bs, OF inv src room] by blast
  have "respond6 bs p = Some (q, p')" using mock k(1,2) by (simp add: respond6_def ipv6_packetize_def)
  moreover have "mirrors p' ref" using m k(3,10-12) by (simp add: mirrors_def)
  moreover have "response6 ref bs q" using m k(4-9) ix by (simp add: response6_def mirrors_def)
  ultimately show ?thesis using k(13) by blast
qed

text \<open>What the receiver reads in a response, and the repository's own check of its checksum.\<close>

lemma response6_reads:
  assumes r: "response6 ref bs q" and len: "length bs \<le> 1024"
  shows "slice 8 24 (i6p_raw q) = Some (i6_destination (i6p_header_data ref))"
    and "slice 24 40 (i6p_raw q) = Some (i6_source (i6p_header_data ref))"
    and "read_u16 (i6p_raw q) 4 = Some (of_nat (unat (transport_header_length (i6p_transport_data ref)) + length bs))"
    and "verify (i6p_raw q) (case i6p_transport_data ref of TcpTransport d \<Rightarrow> 6 | UdpTransport d \<Rightarrow> 17) = Some 0xFFFF"
    and "ipv6_packet_ok q" and "ipv6_checksum_valid q" and "length (i6p_raw q) < 65576"
proof -
  let ?n = "unat (transport_header_length (i6p_transport_data ref))"
  have s: "ip_packet_parse (i6p_raw q) = ok (Ipv6 q)" "ipv6_checksum_valid q"
    using r by (simp_all add: response6_def ipv6_sendable_def)
  have ok: "ipv6_packet_ok q" using ip_packet_parse_ok [OF s(1)] by simp
  have h: "ipv6_header_parse (i6p_raw q) = ok (i6p_header_data q)" using ok by (simp add: ipv6_packet_ok_def)
  note D = ipv6_header_parse_ok [OF h]
  have l: "length (i6p_raw q) = 40 + ?n + length bs" using r by (simp add: response6_def)
  have n: "?n < 256" using u8_less [of "transport_header_length (i6p_transport_data ref)"] by simp
  show "slice 8 24 (i6p_raw q) = Some (i6_destination (i6p_header_data ref))"
    "slice 24 40 (i6p_raw q) = Some (i6_source (i6p_header_data ref))"
    using D r l by (simp_all add: slice_def response6_def)
  have "length (i6p_raw q) = 40 + unat (i6_payload_length (i6p_header_data q))"
    using ok by (simp add: ipv6_packet_ok_def ipv6_total_length_def IPV6_HEADER_LENGTH_def)
  then have u: "unat (be16 (i6p_raw q ! 4) (i6p_raw q ! 5)) = ?n + length bs" using D l by simp
  have "be16 (i6p_raw q ! 4) (i6p_raw q ! 5) = of_nat (?n + length bs)" unfolding u [symmetric] by simp
  then show "read_u16 (i6p_raw q) 4 = Some (of_nat (?n + length bs))" using l by (simp add: read_u16_def)
  show "length (i6p_raw q) < 65576" using l n len by simp
  have nh: "i6_next_header (i6p_header_data q) = (case i6p_transport_data ref of TcpTransport d \<Rightarrow> 6 | UdpTransport d \<Rightarrow> 17)"
    using ok r by (cases "i6p_transport_data ref") (simp_all add: ipv6_packet_ok_def response6_def)
  show "verify (i6p_raw q) (case i6p_transport_data ref of TcpTransport d \<Rightarrow> 6 | UdpTransport d \<Rightarrow> 17) = Some 0xFFFF"
    by (rule verify_valid [OF s(2) _ _ nh]) (use l n len in \<open>simp_all split: transport_header_data.split\<close>)
  show "ipv6_packet_ok q" "ipv6_checksum_valid q" by (fact ok, fact s(2))
qed

lemma packetize6_ok:
  assumes "ip_packet_parse (reference nh tr) = ok (Ipv6 ref)" and "length bs \<le> 1024"
  shows "\<exists>q. packetize6 nh tr bs = Some (i6p_raw q) \<and> response6 ref bs q"
proof -
  obtain p where p: "packetizer6_for (reference nh tr) = Some (ref, p)" "mirrors p ref"
    using packetizer6_for_ok [OF assms(1)] by blast
  obtain q p' where "respond6 bs p = Some (q, p')" "response6 ref bs q"
    using respond6_ok [OF p(2) assms(2)] by blast
  then show ?thesis using p(1) by (intro exI [of _ q]) (simp add: packetize6_def)
qed

definition udp_reference :: "bytes \<Rightarrow> ipv6_packet" where
  "udp_reference raw = \<lparr>i6p_raw = raw, i6p_header_data =
     \<lparr>i6_payload_length = 8, i6_next_header = 17, i6_source = take 16 (drop 8 raw), i6_destination = take 16 (drop 24 raw)\<rparr>,
     i6p_transport_data = UdpTransport \<lparr>uh_source_port = 1234, uh_destination_port = 5678\<rparr>\<rparr>"

lemma udp_reference_parse:
  "ip_packet_parse (reference 17 test_udp) = ok (Ipv6 (udp_reference (reference 17 test_udp)))"
  "ip_packet_parse (ipv6_test_packet 17 test_udp) = ok (Ipv6 (udp_reference (ipv6_test_packet 17 test_udp)))"
  by code_simp+

lemma udp_reference_simps [simp]:
  "i6p_transport_data (udp_reference raw) = UdpTransport \<lparr>uh_source_port = 1234, uh_destination_port = 5678\<rparr>"
  "i6_source (i6p_header_data (udp_reference raw)) = take 16 (drop 8 raw)"
  "i6_destination (i6p_header_data (udp_reference raw)) = take 16 (drop 24 raw)"
  by (simp_all add: udp_reference_def)

lemma odd_length_payload_passes: "test_odd_length_payload = Some ()"
proof -
  obtain q where q: "packetize6 17 test_udp [1, 2, 3] = Some (i6p_raw q)"
    "response6 (udp_reference (reference 17 test_udp)) [1, 2, 3] q"
    using packetize6_ok [OF udp_reference_parse(1), of "[1, 2, 3]"] by auto
  show ?thesis
    using q(1) response6_reads(3,4) [OF q(2)]
    by (simp add: test_odd_length_payload_def assert_that_def udp_header_length_def)
qed

lemma payload_length_rewritten_passes: "test_payload_length_rewritten = Some ()"
proof -
  let ?ref = "udp_reference (reference 17 test_udp)" and ?long = "replicate 40 0x11 :: bytes"
  obtain p where p: "packetizer6_for (reference 17 test_udp) = Some (?ref, p)" "mirrors p ?ref"
    using packetizer6_for_ok [OF udp_reference_parse(1)] by blast
  have ll: "length ?long = 40" by simp
  obtain q p' where q: "respond6 ?long p = Some (q, p')" "mirrors p' ?ref" "response6 ?ref ?long q"
    using respond6_ok [OF p(2), of ?long] ll by auto
  obtain r p'' where r: "respond6 [0x22] p' = Some (r, p'')" "response6 ?ref [0x22] r"
    using respond6_ok [OF q(2), of "[0x22]"] by auto
  have "read_u16 (i6p_raw q) 4 = Some 48" "verify (i6p_raw q) 17 = Some 0xFFFF"
    "read_u16 (i6p_raw r) 4 = Some 9" "verify (i6p_raw r) 17 = Some 0xFFFF"
    using response6_reads(3,4) [OF q(3)] response6_reads(3,4) [OF r(2)] unfolding ll
    by (simp_all add: udp_header_length_def)
  then show ?thesis
    unfolding test_payload_length_rewritten_def using p(1) q(1) r(1) by (simp add: assert_that_def)
qed

lemma response6_ports:
  assumes "response6 (udp_reference raw) bs q"
  shows "read_u16 (i6p_raw q) 40 = Some 5678" and "read_u16 (i6p_raw q) 42 = Some 1234"
proof -
  have ok: "ipv6_packet_ok q"
    using ip_packet_parse_ok [of "i6p_raw q" "Ipv6 q"] assms by (simp add: response6_def ipv6_sendable_def)
  have "udp_header_parse (drop 40 (i6p_raw q)) = Some \<lparr>uh_source_port = 5678, uh_destination_port = 1234\<rparr>"
    using ok assms by (simp add: ipv6_packet_ok_def response6_def)
  then have "read_u16 (drop 40 (i6p_raw q)) 0 = Some 5678" "read_u16 (drop 40 (i6p_raw q)) 2 = Some 1234"
    by (auto simp: udp_header_parse_def bind_eq_Some_conv)
  then show "read_u16 (i6p_raw q) 40 = Some 5678" "read_u16 (i6p_raw q) 42 = Some 1234"
    by (auto simp: read_u16_def split: if_splits)
qed

lemma endpoints_swapped_passes: "test_endpoints_swapped = Some ()"
proof -
  let ?raw = "reference 17 test_udp"
  have len: "length ?raw = 48" by code_simp
  obtain q where q: "packetize6 17 test_udp [0xaa] = Some (i6p_raw q)" "response6 (udp_reference ?raw) [0xaa] q"
    using packetize6_ok [OF udp_reference_parse(1), of "[0xaa]"] by auto
  have s: "slice 8 24 ?raw = Some (take 16 (drop 8 ?raw))" "slice 24 40 ?raw = Some (take 16 (drop 24 ?raw))"
    using len by (simp_all add: slice_def)
  have r: "slice 8 24 (i6p_raw q) = Some (take 16 (drop 24 ?raw))" "slice 24 40 (i6p_raw q) = Some (take 16 (drop 8 ?raw))"
    using response6_reads(1,2) [OF q(2)] by simp_all
  show ?thesis
    unfolding test_endpoints_swapped_def q(1) bind.bind_lunit s r
    using response6_ports [OF q(2)] by (simp add: assert_that_def IPV6_HEADER_LENGTH_def)
qed

lemma udp_endpoints_and_checksum_passes: "test_udp_endpoints_and_checksum = Some ()"
proof -
  let ?raw = "ipv6_test_packet 17 test_udp" and ?bs = "[0xaa, 0xbb] :: bytes"
  let ?ref = "udp_reference ?raw"
  obtain p where p: "packetizer6_for ?raw = Some (?ref, p)" "mirrors p ?ref"
    using packetizer6_for_ok [OF udp_reference_parse(2)] by blast
  obtain q p' where q: "respond6 ?bs p = Some (q, p')" "response6 ?ref ?bs q"
    using respond6_ok [OF p(2), of ?bs] by auto
  have R: "i6_source (i6p_header_data q) = i6_destination (i6p_header_data ?ref)"
    "i6_destination (i6p_header_data q) = i6_source (i6p_header_data ?ref)"
    "ipv6_packet_payload q = Some ?bs" "length (i6p_raw q) = 50"
    "\<exists>d. i6p_transport_data q = UdpTransport d"
    using q(2) by (auto simp: response6_def udp_header_length_def)
  note reads = response6_reads [OF q(2)]
  have ok: "ipv6_packet_ok q" and v: "ipv6_checksum_valid q" using reads(5,6) by simp_all
  have h: "ipv6_header_parse (i6p_raw q) = ok (i6p_header_data q)" using ok by (simp add: ipv6_packet_ok_def)
  note D = ipv6_header_parse_ok [OF h]
  have nh: "i6_next_header (i6p_header_data q) = 17" and u: "read_u16 (drop 40 (i6p_raw q)) 4 = Some (i6_payload_length (i6p_header_data q))"
    using ok R(5) by (auto simp: ipv6_packet_ok_def)
  have "i6_payload_length (i6p_header_data q) = 10"
    using reads(3) D R(4) by (simp add: read_u16_def udp_header_length_def)
  then have l44: "read_u16 (i6p_raw q) 44 = Some 10" using u R(4) by (simp add: read_u16_def)
  obtain c where c: "read_u16 (i6p_raw q) 46 = Some c" "c \<noteq> 0"
    using v R(4,5) by (auto simp: ipv6_checksum_valid_def read_u16_def)
  have sl: "slice 8 24 (i6p_raw q) = Some (take 16 (drop 8 (i6p_raw q)))"
    "slice 24 40 (i6p_raw q) = Some (take 16 (drop 24 (i6p_raw q)))"
    "slice 40 (length (i6p_raw q)) (i6p_raw q) = Some (drop 40 (i6p_raw q))"
    using R(4) by (simp_all add: slice_def)
  have "checksum_words (take 16 (drop 8 (i6p_raw q))) (take 16 (drop 24 (i6p_raw q))) (drop 40 (i6p_raw q)) = 0xFFFF"
    by (rule checksum_words_valid [OF v _ _ nh]) (simp_all add: R(4))
  then show ?thesis
    unfolding test_udp_endpoints_and_checksum_def p(1) q(1) bind.bind_lunit prod.case Let_def l44 c(1) sl R(1-3)
    using c(2) by (simp add: assert_that_def)
qed

text \<open>A TCP checksum may be 0 in general; this one is not, by the bytes of the whole segment.\<close>

lemma tcp_response_passes: "test_tcp_response = Some ()"
proof -
  let ?raw = "reference 6 test_tcp" and ?bs = "[0xde, 0xad, 0xbe, 0xef] :: bytes"
  define ref where "ref = \<lparr>i6p_raw = ?raw, i6p_header_data =
     \<lparr>i6_payload_length = 20, i6_next_header = 6, i6_source = take 16 (drop 8 ?raw), i6_destination = take 16 (drop 24 ?raw)\<rparr>,
     i6p_transport_data = TcpTransport \<lparr>th_source_port = 1234, th_destination_port = 5678, th_sequence_number = 1,
       th_acknowledgement_number = 0, th_header_length = 20, th_flags = 16, th_window = 8192\<rparr>\<rparr>"
  have parse: "ip_packet_parse ?raw = ok (Ipv6 ref)" unfolding ref_def by code_simp
  define H where "H = take 8 ?raw"
  define A where "A = take 16 (drop 24 ?raw) @ take 16 (drop 8 ?raw)"
  define T where "T = (let S = take 20 (drop 40 ?raw) in take 2 (drop 2 S) @ take 2 S @ drop 4 S)"
  have len: "length H = 8" "length A = 32" "length T = 20" unfolding H_def A_def T_def by code_simp+
  obtain p R where p: "packetizer6_for ?raw = Some (ref, p)" "mirrors p ref" "p6_buffer p = H @ A @ T @ R"
    using packetizer6_for_ok [OF parse] by (auto simp: ref_def Let_def H_def A_def T_def)
  have l4: "length ?bs = 4" by simp
  obtain q p' c where q: "respond6 ?bs p = Some (q, p')" "response6 ref ?bs q" "i6p_raw q = headers6 p 4 c @ ?bs"
    using respond6_ok [OF p(2), of ?bs] unfolding l4 by auto
  have ix: "p6_payload_index p = 60" "\<exists>d. p6_transport_header_data p = TcpTransport d"
    using p(2) by (auto simp: mirrors_def p6_inv_def ref_def)
  define front where "front = take 4 (p6_buffer p) @ enc16 24 @ take 34 (drop 6 (p6_buffer p))"
  have fl: "length front = 40" using len by (simp add: front_def p(3))
  have S: "take 20 (drop 40 (p6_buffer p)) = T" using len by (simp add: p(3))
  have raw: "i6p_raw q = front @ take 16 T @ enc16 c @ drop 18 T @ ?bs"
  proof -
    have "headers6 p 4 c = front @ take 16 T @ enc16 c @ drop 18 T"
      using ix S len(3) by (auto simp: headers6_def Let_def front_def)
    then show ?thesis using q(3) by simp
  qed
  note reads = response6_reads [OF q(2)]
  have v: "verify (i6p_raw q) 6 = Some 0xFFFF" using reads(4) by (simp add: ref_def)
  have c: "read_u16 (i6p_raw q) 56 = Some c"
    using fl len(3) unfolding raw by (simp add: read_u16_def nth_append enc16_def)
  have "c \<noteq> 0"
  proof
    assume z: "c = 0"
    have lr: "length (i6p_raw q) = 64" using fl len(3) unfolding raw by simp
    have "take 32 (drop 8 (i6p_raw q)) = take 16 (drop 8 (i6p_raw q)) @ take 16 (drop 24 (i6p_raw q))"
      using take_add [of 16 16 "drop 8 (i6p_raw q)"] by simp
    moreover have "take 16 (drop 8 (i6p_raw q)) = take 16 (drop 24 ?raw)" "take 16 (drop 24 (i6p_raw q)) = take 16 (drop 8 ?raw)"
      using reads(1,2) lr by (simp_all add: slice_def ref_def)
    ultimately have A: "take 32 (drop 8 (i6p_raw q)) = A" unfolding A_def by simp
    have T: "drop 40 (i6p_raw q) = take 16 T @ enc16 0 @ drop 18 T @ ?bs" using fl unfolding raw z by simp
    have "i6_next_header (i6p_header_data q) = 6"
      using reads(5) q(2) by (simp add: ipv6_packet_ok_def response6_def ref_def)
    then have "checksum_ok (words_sum (ipv6_pseudo_header A 24 6 @ take 16 T @ enc16 0 @ drop 18 T @ ?bs))"
      using reads(6) lr unfolding ipv6_checksum_valid_def A T by simp
    moreover have "\<not> checksum_ok (words_sum (ipv6_pseudo_header A 24 6 @ take 16 T @ enc16 0 @ drop 18 T @ ?bs))"
    proof -
      have e: "ipv6_pseudo_header A 24 6 @ take 16 T @ enc16 0 @ drop 18 T @ ?bs
        = [0x20, 0x01, 0x0d, 0xb8, 0, 0, 0, 0, 0, 0, 0, 0, 0, 0, 0, 2,
           0x20, 0x01, 0x0d, 0xb8, 0, 0, 0, 0, 0, 0, 0, 0, 0, 0, 0, 1, 0, 0, 0, 24, 0, 0, 0, 6,
           0x16, 0x2e, 0x04, 0xd2, 0, 0, 0, 1, 0, 0, 0, 0, 0x50, 0x10, 0x20, 0, 0, 0, 0, 0, 0xde, 0xad, 0xbe, 0xef]"
        unfolding A_def T_def by code_simp
      show ?thesis unfolding e by (simp add: checksum_ok_def)
    qed
    ultimately show False by blast
  qed
  then show ?thesis
    using p(1) q(1) v c
    by (simp add: test_tcp_response_def packetize6_def assert_that_def IPV6_HEADER_LENGTH_def)
qed

section \<open>\<open>router.rs\<close>\<close>

definition ipv6_udp_packet :: bytes where
  "ipv6_udp_packet = [0x60, 0, 0, 0, 0, 8, 17, 64]
     @ [0, 0, 0, 0, 0, 0, 0, 0, 0, 0, 0, 0, 0, 0, 0, 1]
     @ [0, 0, 0, 0, 0, 0, 0, 0, 0, 0, 0, 0, 0, 0, 0, 1]
     @ [0x9c, 0x40, 0x00, 0x09, 0, 8, 0, 0]"

definition ipv6_tcp_packet :: bytes where
  "ipv6_tcp_packet = [0x60, 0, 0, 0, 0, 20, 6, 64]
     @ [0, 0, 0, 0, 0, 0, 0, 0, 0, 0, 0, 0, 0, 0, 0, 1]
     @ [0, 0, 0, 0, 0, 0, 0, 0, 0, 0, 0, 0, 0, 0, 0, 1]
     @ [0x9c, 0x40, 0x00, 0x09]
     @ [0, 0, 0, 0, 0, 0, 0, 0]
     @ [0x50, 0x02, 0, 0, 0, 0, 0, 0]"

text \<open>The two tests, on the host \<open>h\<close>; \<open>close\<close> uses the selector of \<open>e\<close> alone.\<close>

definition creates_and_closes :: "host \<Rightarrow> conn_env \<Rightarrow> bytes \<Rightarrow> unit option" where
  "creates_and_closes h e raw = do {
     packet \<leftarrow> expect (ip_packet_parse raw);
     cid \<leftarrow> connection_id_from_packet packet;
     (v, st, s) \<leftarrow> router_create_connection h cid packet \<lparr>st_conns = Map.empty, st_next = 0\<rparr> selector_create;
     r \<leftarrow> unwrap v;
     c \<leftarrow> st_conns st r;
     assert_that (cid = conn_id c);
     let (c, e) = conn_close (h_poll h) (c, e\<lparr>en_selector := s\<rparr>);
     Some () }"

definition test_creates_udp_connection :: "host \<Rightarrow> conn_env \<Rightarrow> unit option" where
  "test_creates_udp_connection h e = creates_and_closes h e ipv6_udp_packet"

definition test_creates_tcp_connection :: "host \<Rightarrow> conn_env \<Rightarrow> unit option" where
  "test_creates_tcp_connection h e = creates_and_closes h e ipv6_tcp_packet"

lemma router_tests:
  assumes "host_answers h"
  shows "test_creates_udp_connection h e = Some ()" and "test_creates_tcp_connection h e = Some ()"
proof -
  have *: "creates_and_closes h e raw = Some ()"
    if raw: "ip_packet_parse raw = ok p" "connection_id_from_packet p = Some cid" for raw p cid
  proof -
    have "ip_packet_ok p" using ip_packet_parse_ok [OF raw(1)] by simp
    from router_opens [OF assms selector_create_inv this raw(2), of "\<lparr>st_conns = Map.empty, st_next = 0\<rparr>"]
    show ?thesis
      using raw by (auto simp: creates_and_closes_def expect_def assert_that_def created_def split: prod.split)
  qed
  have "case ip_packet_parse ipv6_udp_packet of Some (Inr p) \<Rightarrow> connection_id_from_packet p \<noteq> None | _ \<Rightarrow> False"
    "case ip_packet_parse ipv6_tcp_packet of Some (Inr p) \<Rightarrow> connection_id_from_packet p \<noteq> None | _ \<Rightarrow> False"
    by code_simp+
  then show "test_creates_udp_connection h e = Some ()" "test_creates_tcp_connection h e = Some ()"
    using * by (auto simp: test_creates_udp_connection_def test_creates_tcp_connection_def split: option.splits sum.splits)
qed

end
