(* ===== verification/Unit_Tests.thy ===== *)
theory Unit_Tests
  imports Header_Tests Packetizer_Tests
begin

text \<open>
  Every unit test of the crate (\<open>cargo test\<close>; the ignored benchmark of \<open>tcp_header.rs\<close> apart), each
  \<open>Some ()\<close> if it passes on the model and \<open>None\<close> if it panics.  The two of the router run on a host.
\<close>

definition unit_tests :: "host \<Rightarrow> conn_env \<Rightarrow> unit option list" where
  "unit_tests h e = [
    test_produce_consume_byte_buffer, test_bufferize_data, test_stream_circular, test_just_enough_space,
    test_mock_send, test_mock_recv, test_read_adapter, test_read_adapter_chunks, test_bufferize_datagram,
    test_split_datagrams_at_boundaries, test_datagram_circular,
    test_ipv4_parse_header, test_ipv4_edit_header, test_ipv4_compute_checksum,
    test_peek_version_length_unavailable, test_peek_version_length_available, test_udp_parse_header,
    test_udp_edit_header, test_tcp_edit_header, test_tcp_compute_checksum, test_tcp_compute_checksum_odd,
    test_tcp_compute_checksum_empty_payload, test_ipv4_parse_headers, test_ipv4_payload,
    test_connection_ids_distinct, test_system_resolver,
    test_malformed_stream, test_validates_next_frame, test_parse_ipv4_packet_buffer,
    test_parse_fragmented_ipv4_packet_buffer, test_parse_multi_packets,
    test_fragmented_ipv6_udp, test_ipv6_tcp, test_dont_fragment, test_largest_ipv6_udp,
    test_unsupported_ipv6, test_malformed_ipv6_transport, test_short_ipv4_input,
    test_udp_endpoints_and_checksum, test_merge_headers_and_payload, test_last_packet, test_packetize_chunks,
    test_tcp_response, test_odd_length_payload, test_payload_length_rewritten, test_endpoints_swapped,
    test_icmpv6_checksum,
    test_creates_udp_connection h e, test_creates_tcp_connection h e]"

lemmas tests_pass = byte_buffer_tests stream_buffer_tests datagram_tests datagram_buffer_tests
  ipv4_header_tests udp_header_tests tcp_header_tests ipv4_packet_tests connection_tests dns_tests
  front_tests parse_buffer_tests fragmented_ipv6_udp_passes ipv6_tcp_passes dont_fragment_passes
  largest_ipv6_udp_passes unsupported_ipv6_passes malformed_ipv6_transport_passes short_ipv4_input_passes
  udp_endpoints_and_checksum_passes packetizer_tests tcp_response_passes odd_length_payload_passes
  payload_length_rewritten_passes endpoints_swapped_passes icmpv6_checksum_passes

lemma unit_tests_eq:
  assumes "host_answers h"
  shows "unit_tests h e = replicate 49 (Some ())"
  unfolding unit_tests_def tests_pass router_tests [OF assms] by (simp add: numeral_eq_Suc)

end
