(* ===== verification/Log.thy ===== *)
theory Log
  imports Prelude
begin

text \<open>
  \<open>logger.rs\<close> and the packet dumps of \<open>relay/binary.rs\<close> that the messages carry.  A line goes to the
  standard output or, for an error, to the standard error.
\<close>

section \<open>The logger\<close>

datatype level = LevelError | LevelWarn | LevelInfo | LevelDebug | LevelTrace

fun severity :: "level \<Rightarrow> nat" where
  "severity LevelError = 1"
| "severity LevelWarn = 2"
| "severity LevelInfo = 3"
| "severity LevelDebug = 4"
| "severity LevelTrace = 5"

definition THRESHOLD :: level where
  "THRESHOLD = LevelInfo"

fun show_level :: "level \<Rightarrow> string" where
  "show_level LevelError = ''ERROR''"
| "show_level LevelWarn = ''WARN''"
| "show_level LevelInfo = ''INFO''"
| "show_level LevelDebug = ''DEBUG''"
| "show_level LevelTrace = ''TRACE''"

record log_record =
  rec_level :: level
  rec_target :: string
  rec_args :: string

datatype console_line = Stdout string | Stderr string

definition log_enabled :: "level \<Rightarrow> bool" where
  "log_enabled l \<longleftrightarrow> severity l \<le> severity THRESHOLD"

text \<open>\<open>date\<close> is the formatted local time; the console is the lines written so far.\<close>

definition log_write :: "string \<Rightarrow> log_record \<Rightarrow> console_line list \<Rightarrow> console_line list" where
  "log_write date r console =
     (if log_enabled (rec_level r) then
        let msg = date @ '' '' @ show_level (rec_level r) @ '' '' @ rec_target r @ '': '' @ rec_args r in
        console @ [if rec_level r = LevelError then Stderr msg else Stdout msg]
      else console)"

text \<open>\<open>set_logger\<close> succeeds once in a process.\<close>

record log_state =
  log_max_level :: level
  log_installed :: bool

definition log_init :: "log_state \<Rightarrow> (unit + unit) \<times> log_state" where
  "log_init s = (let s = s\<lparr>log_max_level := THRESHOLD\<rparr> in
     if log_installed s then (Inl (), s) else (Inr (), s\<lparr>log_installed := True\<rparr>))"

lemma log_enabled_iff: "log_enabled l \<longleftrightarrow> l \<in> {LevelError, LevelWarn, LevelInfo}"
  by (cases l) (simp_all add: log_enabled_def THRESHOLD_def)

section \<open>Packet dumps\<close>

definition MAX_STRING_PACKET_SIZE :: nat where
  "MAX_STRING_PACKET_SIZE = 20"

definition hex_digit :: "nat \<Rightarrow> char" where
  "hex_digit n = ''0123456789ABCDEF'' ! n"

definition hex_byte :: "u8 \<Rightarrow> string" where
  "hex_byte b = [hex_digit (unat b div 16), hex_digit (unat b mod 16)]"

fun dump_bytes :: "nat \<Rightarrow> bytes \<Rightarrow> string" where
  "dump_bytes i [] = []"
| "dump_bytes i (b # bs) =
     (if i \<noteq> 0 then (if i mod 4 = 0 then ''  '' else '' '') else []) @ hex_byte b @ dump_bytes (i + 1) bs"

fun show_decimal :: "nat \<Rightarrow> string" where
  "show_decimal n = (if n < 10 then [hex_digit n] else show_decimal (n div 10) @ [hex_digit (n mod 10)])"

definition build_packet_string :: "bytes \<Rightarrow> string" where
  "build_packet_string data = (let limit = min MAX_STRING_PACKET_SIZE (length data) in
     dump_bytes 0 (take limit data)
     @ (if limit < length data then ''  ... +'' @ show_decimal (length data - limit) @ '' bytes'' else []))"

declare show_decimal.simps [simp del]

lemma hex_digit_inject: "m < 16 \<Longrightarrow> n < 16 \<Longrightarrow> hex_digit m = hex_digit n \<longleftrightarrow> m = n"
  unfolding hex_digit_def by (subst nth_eq_iff_index_eq) simp_all

lemma hex_byte_inject: "hex_byte a = hex_byte b \<longleftrightarrow> a = b"
proof
  assume "hex_byte a = hex_byte b"
  moreover have "unat a div 16 < 16" "unat b div 16 < 16" using u8_less [of a] u8_less [of b] by simp_all
  ultimately have "unat a div 16 = unat b div 16" "unat a mod 16 = unat b mod 16"
    by (simp_all add: hex_byte_def hex_digit_inject)
  then have "unat a = unat b" by (metis div_mult_mod_eq)
  then show "a = b" by (rule unsigned_word_eqI)
qed simp

text \<open>A separator and the ellipsis cannot be taken for a byte.\<close>

lemma hex_digit_plain: "n < 16 \<Longrightarrow> hex_digit n \<notin> {CHR '' '', CHR ''.''}"
proof -
  assume "n < 16"
  then have "hex_digit n \<in> set ''0123456789ABCDEF''" unfolding hex_digit_def by (intro nth_mem) simp
  then show ?thesis by auto
qed

lemma dump_bytes_inject:
  assumes "length xs = length ys"
  shows "dump_bytes i xs @ s = dump_bytes i ys @ t \<longleftrightarrow> xs = ys \<and> s = t"
  using assms
proof (induction xs ys arbitrary: i rule: list_induct2)
  case (Cons x xs y ys)
  have "hex_byte x @ u = hex_byte y @ v \<longleftrightarrow> hex_byte x = hex_byte y \<and> u = v" for u v
    by (simp add: hex_byte_def)
  then show ?case using Cons.IH [of "i + 1"] by (simp add: hex_byte_inject)
qed simp

lemma show_decimal_digits: "show_decimal n \<noteq> [] \<and> (\<forall>c \<in> set (show_decimal n). c \<noteq> CHR '' '')"
proof (induction n rule: show_decimal.induct)
  case (1 n)
  have "hex_digit (n mod 10) \<noteq> CHR '' ''" using hex_digit_plain [of "n mod 10"] by simp
  moreover have "n < 10 \<Longrightarrow> hex_digit n \<noteq> CHR '' ''" using hex_digit_plain [of n] by simp
  ultimately show ?case using 1 by (subst (1 2) show_decimal.simps) auto
qed

lemma show_decimal_inject: "show_decimal m = show_decimal n \<longleftrightarrow> m = n"
proof (induction m arbitrary: n rule: show_decimal.induct)
  case (1 m)
  have mn: "hex_digit (m mod 10) = hex_digit (n mod 10) \<longleftrightarrow> m mod 10 = n mod 10"
    by (rule hex_digit_inject) simp_all
  have ne: "show_decimal k \<noteq> []" for k using show_decimal_digits by blast
  have small: "k < 10 \<Longrightarrow> show_decimal k = [hex_digit k]"
    and large: "10 \<le> k \<Longrightarrow> show_decimal k = show_decimal (k div 10) @ [hex_digit (k mod 10)]" for k
    by (subst show_decimal.simps, simp)+
  consider "m < 10" "n < 10" | "m < 10" "10 \<le> n" | "10 \<le> m" "n < 10" | "10 \<le> m" "10 \<le> n" by linarith
  then show ?case
  proof cases
    case 4
    have "show_decimal m = show_decimal n \<longleftrightarrow> m div 10 = n div 10 \<and> m mod 10 = n mod 10"
      using 1 4 mn large [of m] large [of n] by simp
    also have "\<dots> \<longleftrightarrow> m = n" by (metis div_mult_mod_eq)
    finally show ?thesis .
  qed (use ne small [of m] small [of n] large [of m] large [of n] in \<open>auto simp: hex_digit_inject dest: sym\<close>)
qed

lemma dump_bytes_append: "dump_bytes i (xs @ ys) = dump_bytes i xs @ dump_bytes (i + length xs) ys"
  by (induction xs arbitrary: i) simp_all

text \<open>A dump tells packets apart by their first 20 bytes and their length, and by nothing else.\<close>

lemma dump_prefix_longer:
  assumes "dump_bytes 0 xs = dump_bytes 0 ys @ t" and "length xs < length ys"
  shows False
proof -
  let ?n = "length xs"
  have "dump_bytes 0 ys = dump_bytes 0 (take ?n ys) @ dump_bytes ?n (drop ?n ys)"
    using dump_bytes_append [of 0 "take ?n ys" "drop ?n ys"] assms(2) by simp
  then have "dump_bytes 0 xs @ [] = dump_bytes 0 (take ?n ys) @ dump_bytes ?n (drop ?n ys) @ t"
    using assms(1) by simp
  moreover have "length xs = length (take ?n ys)" using assms(2) by simp
  ultimately have "dump_bytes ?n (drop ?n ys) = []"
    using dump_bytes_inject [of xs "take ?n ys" 0 "[]" "dump_bytes ?n (drop ?n ys) @ t"] by simp
  moreover have "drop ?n ys \<noteq> []" using assms(2) by simp
  ultimately show False by (cases "drop ?n ys") (simp_all add: hex_byte_def)
qed

lemma build_packet_string_iff:
  "build_packet_string xs = build_packet_string ys \<longleftrightarrow> take 20 xs = take 20 ys \<and> length xs = length ys"
proof
  assume eq: "build_packet_string xs = build_packet_string ys"
  define tail where "tail zs = (if 20 < length zs then ''  ... +'' @ show_decimal (length zs - 20) @ '' bytes'' else [])"
    for zs :: bytes
  have b: "build_packet_string zs = dump_bytes 0 (take 20 zs) @ tail zs" for zs
    by (auto simp: build_packet_string_def MAX_STRING_PACKET_SIZE_def tail_def Let_def min_def)
  consider "min 20 (length xs) = min 20 (length ys)" | "min 20 (length xs) < min 20 (length ys)"
    | "min 20 (length ys) < min 20 (length xs)" by linarith
  then show "take 20 xs = take 20 ys \<and> length xs = length ys"
  proof cases
    case 1
    then have "take 20 xs = take 20 ys \<and> tail xs = tail ys"
      using eq unfolding b by (subst (asm) dump_bytes_inject) (simp_all add: min.commute)
    moreover from this have "length xs = length ys"
      using 1 by (auto simp: tail_def show_decimal_inject split: if_splits)
    ultimately show ?thesis by blast
  next
    case 2
    then have "tail xs = []" by (auto simp: tail_def)
    then have "dump_bytes 0 (take 20 xs) = dump_bytes 0 (take 20 ys) @ tail ys" using eq unfolding b by simp
    then show ?thesis by (rule dump_prefix_longer [THEN FalseE]) (use 2 in \<open>simp add: min.commute\<close>)
  next
    case 3
    then have "tail ys = []" by (auto simp: tail_def)
    then have "dump_bytes 0 (take 20 ys) = dump_bytes 0 (take 20 xs) @ tail xs" using eq unfolding b by simp
    then show ?thesis by (rule dump_prefix_longer [THEN FalseE]) (use 3 in \<open>simp add: min.commute\<close>)
  qed
next
  assume "take 20 xs = take 20 ys \<and> length xs = length ys"
  then show "build_packet_string xs = build_packet_string ys"
    by (auto simp: build_packet_string_def MAX_STRING_PACKET_SIZE_def Let_def min_def)
qed

end
