(* ===== verification/Spec2Isabelle.thy ===== *)
theory Spec2Isabelle
  imports Sample_Worlds Tcp_Traces Start Unit_Tests Log
begin

text \<open>
  A model of the Rust relay of HarmonyOS-Reverse-Tether (\<open>relay/src\<close>), with its correctness properties.

  \<^bold>\<open>The program.\<close>  A phone sends the IP packets of its VPN through one TCP stream (the tunnel) to the
  relay.  The relay ends the phone's TCP and UDP flows, opens sockets of its own for them, and makes
  up the packets that go back.  It is one thread around \<open>mio::Poll\<close>: each event calls the handler of
  its token, and every five seconds expired flows are closed.

  \<^bold>\<open>Theories and sources\<close> (files of \<open>relay/src/relay\<close> unless said otherwise), callees first:

  \<^item> \<open>Prelude\<close>: types, byte access, ones' complement sums, checked slices.
  \<^item> \<open>Byte_Buffer\<close>, \<open>Stream_Buffer\<close>, \<open>Datagram_Buffer\<close>: the three buffers.  \<open>Byte_Queue\<close> is the contract
    of the first two, a locale: what leaves is what came in, in order; \<open>Datagram_Buffer\<close> has the one of a
    queue of datagrams.
  \<^item> \<open>Ipv4_Header\<close>, \<open>Udp_Header\<close>, \<open>Tcp_Header\<close>, \<open>Transport_Header\<close>: header data, the setters of the mutable
    views, checksums.  A mutable view is a pair of bytes and data; a locale states that setters keep
    the two in step.
  \<^item> \<open>Ipv4_Packet\<close>, \<open>Ipv6_Packet\<close> (\<open>ipv6_header.rs\<close>, \<open>ipv6_packet.rs\<close>), \<open>Ip_Packet\<close> (\<open>ip_packet.rs\<close>,
    \<open>ip_packet_buffer.rs\<close>): parsing, validation, framing of the stream.
  \<^item> \<open>Packetizer\<close>, \<open>Ipv6_Packetizer\<close>: packets made from a reference packet and a payload.
  \<^item> \<open>Selector\<close>: the slab of handlers and its deferred removal.
  \<^item> \<open>Client_Channel\<close>, \<open>Conn_Env\<close>: how a connection reaches its client (\<open>ClientChannel\<close> of \<open>client.rs\<close>).
  \<^item> \<open>Connection\<close>: identities, \<open>rewritten_destination\<close> (\<open>connection.rs\<close>, \<open>binary.rs\<close>, \<open>net.rs\<close>).
  \<^item> \<open>Tcp_Connection\<close> with \<open>Tcp_Facts\<close> (packets), \<open>Tcp_Events\<close> (socket events), \<open>Tcp_Stream\<close> (one segment,
    one write), \<open>Tcp_Traces\<close> (whole runs, against an abstract receiver and sender); \<open>Udp_Connection\<close> with \<open>Udp_Facts\<close>; \<open>Ipv6_Connection\<close>.
  \<^item> \<open>Flow\<close>: the trait \<open>Connection\<close> as a locale, with an interpretation for each of the three connections
    and for their sum.
  \<^item> \<open>Router\<close>: the map from identities to connections.
  \<^item> \<open>Client\<close> with \<open>Client_Facts\<close>; \<open>Conn_Event\<close>: an event of a connection seen from its client.
  \<^item> \<open>Tunnel_Server\<close> with \<open>Server_Facts\<close>: the listener, the list of clients, dispatch of an event.
  \<^item> \<open>Interrupt\<close> (the macro \<open>retry_on_intr!\<close>), \<open>Relay\<close>: deadlines, the polling loop, the step relation of the
    whole relay.
  \<^item> \<open>Dns\<close> (\<open>dns.rs\<close>): the resolvers of Unix and of Windows and the configuration of the upstream.
  \<^item> \<open>Start\<close> (\<open>main.rs\<close>, \<open>lib.rs\<close>, \<open>root_listener.rs\<close>): command line, inherited listener, exit status.
  \<^item> \<open>Log\<close> (\<open>logger.rs\<close>, the dumps of \<open>binary.rs\<close>): which line goes where, and what a dump tells apart.
  \<^item> \<open>Ipv4_Packet_Buffer\<close>: the framing of the IPv4-only version, which the tests keep as a reference.
  \<^item> \<open>Receiver_Checks\<close>: the checksum checks of the tests (\<open>verify\<close>, \<open>checksum_words\<close>, \<open>icmpv6_checksum\<close>),
    proved for every packet the IPv6 packetizer makes.
  \<^item> \<open>Buffer_Tests\<close>, \<open>Header_Tests\<close>, \<open>Packet_Tests\<close>, \<open>Frame_Tests\<close>, \<open>Packetizer_Tests\<close>, \<open>Unit_Tests\<close>: the unit
    tests (the \<open>tests\<close> modules of the same files), as definitions that are \<open>Some ()\<close> when the test passes.
    Where a buffer has 65536 bytes, a test follows from the lemmas of its component, not by evaluation.
  \<^item> \<open>Samples\<close>, \<open>Sample_Worlds\<close>: concrete packets and states to which the properties are applied.

  \<^bold>\<open>How the code is rendered.\<close>  A function returns an \<open>option\<close>; \<open>None\<close> is a panic (failed assertion,
  \<open>expect\<close>, slice or index out of range).  \<open>io::Result\<close> is a sum.  Fixed-width fields are words and wrap
  as in a release build; \<open>usize\<close> is \<open>nat\<close>.  What the system answers is an argument: results of socket
  calls (\<open>reader\<close>, \<open>writer\<close>), of the poll registrations (\<open>poll\<close>), the next key of the slab (\<open>vacant\<close>), the
  clocks, the random sequence number, the order in which a hash map is walked.  Assumptions on them
  are named: \<open>reader_ok\<close> and \<open>writer_ok\<close> (no more bytes than offered), \<open>poll_works\<close> (registrations of open
  sockets succeed; the code panics on some failures), \<open>slab_ok\<close> (a vacant key is vacant), \<open>walk_ok\<close>
  (every key once), \<open>host_ok\<close>.  Shared objects (\<open>Rc<RefCell<_>>\<close>) live in stores and are named by numbers;
  calls that a connection makes on its borrowed client are recorded as requests and served when the
  handler returns.

  \<^bold>\<open>Termination and bounds.\<close>  Every definition is total, so every loop is proved to end: the loop over the
  packets of a read by the bytes left in the buffer (\<open>push_fuel\<close> counts its iterations: one for every 20
  bytes buffered and one more are enough), framing by the length of the stream, checksum loops by the
  offset.  \<open>poll_loop\<close> and \<open>relay_step\<close> speak of any finite number of wake-ups, interrupted polls included.

  \<^bold>\<open>What is shown.\<close>  The relay listens on the loopback address only.  From the start, every reachable state
  satisfies the invariant of the server, and a wake-up is handled without a panic and leads to such a
  state, unless its batch holds an event that the code is not made for: \<open>event_unhandled\<close>, with
  \<open>unhandled\<close> for the connections, lists the five kinds, \<open>batch_unhandled\<close> and \<open>wakeups_unhandled\<close> say that
  one comes up in a batch or a run, and the error properties show that each of them can panic.  The
  other condition, \<open>event_known\<close> (\<open>batch_known\<close>, \<open>wakeups_known\<close>), is that an event concerns a registered
  object and that the system's answers to its handler keep the contracts above.  Below that: clients do not disturb each other, flows do not disturb each
  other, the loop of a client refines the routing of its frames in order, a connection refines a TCP
  receiver towards its client (data in order, acknowledged when written) and numbers the stream of
  its peer without gap, every packet the relay makes is accepted by its own parser with valid
  checksums, and no flow is refused while the system calls succeed.

  \<^bold>\<open>Not modelled.\<close>  The calls of the logger and the texts they print, display strings and statistics
  output; accessors that hand out a field; \<open>CloseListener\<close>, a closure call; the ignored benchmark among
  the tests; the ArkTS and C++ parts of the repository and its scripts.
\<close>

section \<open>Buffers\<close>

text \<open>C23. The circular \<open>StreamBuffer\<close> is a FIFO towards any destinations that keep the contract of
  \<open>io::Write\<close>: over any sequence of \<open>read_from\<close> and \<open>write_to\<close> calls, the bytes the destinations accepted
  of the slices they were handed, followed by the bytes still stored, are the bytes stored at first
  followed by the bytes that came in; room and contents still add up to the capacity; and a
  panic means that more bytes came in than there was room for at first.\<close>

theorem stream_buffer_fifo:
  assumes "sb_inv s" and "sbq.honest_ops ops"
  shows "case sb_run ops [] s of None \<Rightarrow> sb_remaining s < length (pushed ops)
    | Some (out, s') \<Rightarrow> sb_inv s' \<and> sb_contents s @ pushed ops = out @ sb_contents s'
        \<and> sb_remaining s' + sb_size s' = sb_remaining s + sb_size s"
proof (cases "sbq.run ops s")
  case None
  then show ?thesis using sbq.run_panics [OF assms None] by (simp add: sb_run_queue)
next
  case (Some a)
  obtain out s' where a: "sbq.run ops s = Some (out, s')" using Some by (cases a) auto
  then show ?thesis
    using sbq.run_fifo [OF assms a] sbq.run_room [OF assms a] by (simp add: sb_run_queue)
qed

theorem stream_buffer_fifo_witness:
  "\<exists>s'. sb_run [Push [1, 2, 3], Pop (\<lambda>bs. Inr (min 2 (length bs))), Push [4, 5], Pop (\<lambda>_. Inl WouldBlock),
      Pop (\<lambda>bs. Inr (length bs)), Push [6, 7]] [] (sb_new 4) = Some ([1, 2, 3, 4, 5], s') \<and> sb_contents s' = [6, 7]"
proof -
  let ?ops = "[Push [1, 2, 3], Pop (\<lambda>bs. Inr (min 2 (length bs))), Push [4, 5], Pop (\<lambda>_. Inl WouldBlock),
      Pop (\<lambda>bs. Inr (length bs)), Push [6, 7]] :: writer queue_op list"
  obtain s' where r: "sb_run ?ops [] (sb_new 4) = Some ([1, 2, 3, 4, 5], s')"
    by (simp add: sb_new_def sb_read_from_def sb_write_into_def recording_def sb_remaining_def sb_capacity_def sb_size_def
        splice_def slice_def sb_optimize_def sb_is_empty_def Let_def)
  have h: "sbq.honest_ops ?ops" by (simp add: writer_ok_def)
  have "sb_contents s' = [6, 7]"
    using stream_buffer_fifo [OF sb_new_inv(1) h, of 4, unfolded r] by simp
  then show ?thesis using r by blast
qed

text \<open>\<open>StreamBuffer::read_from\<close> accepts a slice exactly when \<open>remaining\<close> says there is
  room, appends all of it, and panics otherwise.\<close>

theorem stream_buffer_accepts:
  assumes "sb_inv s"
  shows "if length source \<le> sb_remaining s
    then (\<exists>s'. sb_read_from source s = Some s' \<and> sb_inv s' \<and> sb_contents s' = sb_contents s @ source
      \<and> sb_remaining s' = sb_remaining s - length source)
    else sb_read_from source s = None"
proof (cases "length source \<le> sb_remaining s")
  case True
  obtain s' where "sb_read_from source s = Some s'" "sb_inv s'" "sb_contents s' = sb_contents s @ source"
    "length (sb_buf s') = length (sb_buf s)"
    using sb_read_from_ok [OF assms True] by blast
  then show ?thesis using True assms by (simp add: sb_remaining_eq)
qed (simp add: sb_read_from_panics)

theorem stream_buffer_accepts_witness:
  "(\<exists>s'. sb_read_from [1, 2, 3] (sb_new 4) = Some s' \<and> sb_remaining s' = 1)
    \<and> sb_read_from [1, 2, 3, 4, 5] (sb_new 4) = None"
  using stream_buffer_accepts [of "sb_new 4" "[1, 2, 3]"]
    stream_buffer_accepts [of "sb_new 4" "[1, 2, 3, 4, 5]"]
  by auto

text \<open>C24. The circular \<open>DatagramBuffer\<close> is a FIFO of datagrams, through any number of wraps: from any
  state that stores datagrams \<open>ds\<close>, the empty one included, any interleaving of \<open>read_from\<close> and
  \<open>write_to\<close> calls ends without a panic; each \<open>write_to\<close> hands over the oldest datagram, whole, and
  reports what the sender did with it; each \<open>read_from\<close> appends its datagram, or reports an error and
  leaves the buffer, which happens only when the blocks would exceed the capacity.  The calls excluded
  are a \<open>write_to\<close> of an empty buffer, which is an assertion of the code, a datagram above 65535 bytes,
  and one whose block would bring the head back onto a tail at 0 (\<open>dg_safe\<close>).\<close>

theorem datagrams_fifo:
  assumes "dg_holds b ds" and "dgq.careful ops b"
  shows "(\<exists>rs b' q. dgq.run ops b = Some (rs, b') \<and> fifo (dg_capacity b) ops rs ds = Some q
      \<and> dg_holds b' q \<and> dg_capacity b' = dg_capacity b \<and> (dg_is_empty b' \<longleftrightarrow> q = []))
    \<and> dg_holds (dg_new c) [] \<and> dg_capacity (dg_new c) = c"
proof -
  obtain rs b' q where "dgq.run ops b = Some (rs, b')" "fifo (dg_capacity b) ops rs ds = Some q" "dg_holds b' q"
    "dg_capacity b' = dg_capacity b"
    using dgq.run_fifo [OF assms] by blast
  then show ?thesis using dg_holds_empty [of b' q] dg_new_holds by (simp add: dg_capacity_def dg_new_def)
qed

theorem datagrams_fifo_witness:
  "\<exists>b. dgq.run [Enqueue [1, 2, 3], Dequeue (\<lambda>d. Inr (length d)), Enqueue [4, 5], Enqueue [], Enqueue [6, 7, 8],
        Dequeue (\<lambda>_. Inl WouldBlock), Dequeue (\<lambda>_. Inr 7), Enqueue [9]] (dg_new 8)
      = Some ([Inr (), Inr (), Inr (), Inr (), Inl OtherError, Inl WouldBlock, Inl OtherError, Inr ()], b) \<and> dg_holds b [[9]]"
proof -
  let ?ops = "[Enqueue [1, 2, 3], Dequeue (\<lambda>d. Inr (length d)), Enqueue [4, 5], Enqueue [], Enqueue [6, 7, 8],
        Dequeue (\<lambda>_. Inl WouldBlock), Dequeue (\<lambda>_. Inr 7), Enqueue [9]]"
  note defs = dg_safe_def dg_has_enough_space_for_def dg_header_length_def dg_is_empty_def Let_def
  obtain b1 where 1: "dg_read_from [1, 2, 3] (dg_new 8) = Some (Inr (), b1)" "dg_holds b1 [[1, 2, 3]]"
    "dg_tail b1 = 0" "dg_circular_length b1 = 9" "dg_head b1 = 5"
    using dg_read_from_moves [OF dg_new_holds, of "[1, 2, 3]" 8] by (auto simp: defs dg_new_def)
  obtain b2 where 2: "dg_write_to (\<lambda>d. Inr (length d)) b1 = Some (Inr (), b2)" "dg_holds b2 []"
    "dg_tail b2 = 5" "dg_circular_length b2 = 9" "dg_head b2 = 5"
    using dg_write_to_moves [OF 1(2), of "\<lambda>d. Inr (length d)"] 1(3-5) by (auto simp: send_outcome_def)
  obtain b3 where 3: "dg_read_from [4, 5] b2 = Some (Inr (), b3)" "dg_holds b3 [[4, 5]]"
    "dg_tail b3 = 5" "dg_circular_length b3 = 9" "dg_head b3 = 0"
    using dg_read_from_moves [OF 2(2), of "[4, 5]"] 2(3-5) by (auto simp: defs)
  obtain b4 where 4: "dg_read_from [] b3 = Some (Inr (), b4)" "dg_holds b4 [[4, 5], []]"
    "dg_tail b4 = 5" "dg_circular_length b4 = 9" "dg_head b4 = 2"
    using dg_read_from_moves [OF 3(2), of "[]"] 3(3-5) by (auto simp: defs)
  have 5: "dg_read_from [6, 7, 8] b4 = Some (Inl OtherError, b4)"
    by (rule dg_read_from_full) (simp_all add: defs 4(3-5))
  obtain b5 where 6: "dg_write_to (\<lambda>_. Inl WouldBlock) b4 = Some (Inl WouldBlock, b5)" "dg_holds b5 [[]]"
    "dg_tail b5 = 0" "dg_circular_length b5 = 9" "dg_head b5 = 2"
    using dg_write_to_moves [OF 4(2), of "\<lambda>_. Inl WouldBlock"] 4(3-5) by (auto simp: send_outcome_def)
  obtain b6 where 7: "dg_write_to (\<lambda>_. Inr 7) b5 = Some (Inl OtherError, b6)" "dg_holds b6 []"
    "dg_tail b6 = 2" "dg_circular_length b6 = 9" "dg_head b6 = 2"
    using dg_write_to_moves [OF 6(2), of "\<lambda>_. Inr 7"] 6(3-5) by (auto simp: send_outcome_def)
  obtain b7 where 8: "dg_read_from [9] b6 = Some (Inr (), b7)"
    using dg_read_from_moves [OF 7(2), of "[9]"] 7(3-5) by (auto simp: defs)
  have s: "dg_safe [1, 2, 3] (dg_new 8)" "dg_safe [4, 5] b2" "dg_safe [] b3" "dg_safe [6, 7, 8] b4" "dg_safe [9] b6"
    "\<not> dg_is_empty b1" "\<not> dg_is_empty b4" "\<not> dg_is_empty b5"
    using 1 2 3 4 6 7 by (simp_all add: dg_safe_def dg_new_def dg_is_empty_def)
  have r: "dgq.run ?ops (dg_new 8) = Some ([Inr (), Inr (), Inr (), Inr (), Inl OtherError, Inl WouldBlock, Inl OtherError, Inr ()], b7)"
    by (simp add: 1(1) 2(1) 3(1) 4(1) 5 6(1) 7(1) 8)
  have "dgq.careful ?ops (dg_new 8)" by (simp add: 1(1) 2(1) 3(1) 4(1) 5 6(1) 7(1) 8 s)
  from datagrams_fifo [OF dg_new_holds this, of 8, unfolded r] obtain q where
    "fifo (dg_capacity (dg_new 8)) ?ops [Inr (), Inr (), Inr (), Inr (), Inl OtherError, Inl WouldBlock, Inl OtherError, Inr ()] [] = Some q"
    "dg_holds b7 q" by blast
  then have "dg_holds b7 [[9]]" by (simp add: send_outcome_def dg_capacity_def dg_new_def blocks_length_def dg_header_length_def)
  then show ?thesis using r by blast
qed

text \<open>C39. A datagram whose block ends at or after the circular length while the tail is at 0 brings
  the head back onto the tail: \<open>read_from\<close> reports success and the buffer is empty, so that
  datagram and all that were stored before it are lost.\<close>

theorem datagram_buffer_forgets:
  assumes "dg_holds b ds" and "length d \<le> 65535"
    and "dg_tail b = 0" and "dg_circular_length b \<le> dg_head b + 2 + length d"
  shows "\<exists>b'. dg_read_from d b = Some (Inr (), b') \<and> dg_is_empty b'"
  using dg_read_from_forgets [OF assms] by blast

theorem datagram_buffer_forgets_witness:
  "\<exists>b b'. dg_read_from [1, 2] (dg_new 8) = Some (Inr (), b) \<and> dg_holds b [[1, 2]]
    \<and> dg_read_from [3, 4, 5] b = Some (Inr (), b') \<and> dg_is_empty b'"
proof -
  obtain b where 1: "dg_read_from [1, 2] (dg_new 8) = Some (Inr (), b)" "dg_holds b [[1, 2]]"
    "dg_tail b = 0" "dg_circular_length b = 9" "dg_head b = 4"
    using dg_read_from_moves [OF dg_new_holds, of "[1, 2]" 8]
    by (auto simp: dg_safe_def dg_has_enough_space_for_def dg_new_def)
  have "\<exists>b'. dg_read_from [3, 4, 5] b = Some (Inr (), b') \<and> dg_is_empty b'"
    by (rule datagram_buffer_forgets [OF 1(2)]) (simp_all add: 1(3-5))
  then show ?thesis using 1(1,2) by blast
qed

text \<open>The assertion of \<open>DatagramBuffer::read_from\<close> admits a datagram of 65536 bytes, whose length
  does not fit the two-byte block header: the next \<open>write_to\<close> sends an empty datagram in its place.\<close>

theorem datagram_of_65536_bytes_lost:
  assumes "length d = 65536" and "65538 \<le> c"
  shows "\<exists>b. dg_read_from d (dg_new c) = Some (Inr (), b)
    \<and> (\<forall>S. \<exists>b'. dg_write_to S b = Some (send_outcome S [], b'))"
  using dg_read_from_truncates [OF assms] .

theorem datagram_of_65536_bytes_lost_witness:
  "\<exists>b. dg_read_from (replicate 65536 7) (dg_new 70000) = Some (Inr (), b)
    \<and> (\<forall>S. \<exists>b'. dg_write_to S b = Some (send_outcome S [], b'))"
  by (rule datagram_of_65536_bytes_lost) simp_all

section \<open>Headers\<close>

text \<open>The mutable IPv4 header keeps its parsed data and its bytes in step: after any sequence of
  its setters, parsing the bytes gives the data beside them, and no setter panics or changes the
  length of the slice.\<close>

theorem ipv4_header_edits:
  assumes "set fs \<subseteq> ipv4_setters" and "20 \<le> length raw" and "ipv4_header_parse raw = Some d"
  shows "\<exists>raw' d'. ipv4_view.edit fs (raw, d) = Some (raw', d') \<and> length raw' = length raw
    \<and> ipv4_header_parse raw' = Some d'"
  using assms by (rule ipv4_view.edit_coherent)

theorem ipv4_header_edits_witness:
  "\<exists>raw d. ipv4_view.edit [ipv4_set_total_length 80, ipv4_swap_source_and_destination]
      (take 20 sample_syn, ip_header_data sample_packet) = Some (raw, d)
    \<and> ipv4_header_parse raw = Some d"
proof -
  have "ipv4_header_parse (take 20 sample_syn) = Some (ip_header_data sample_packet)"
    "20 \<le> length (take 20 sample_syn)" by code_simp+
  moreover have "set [ipv4_set_total_length 80, ipv4_swap_source_and_destination] \<subseteq> ipv4_setters"
    by (simp add: ipv4_setters_def)
  ultimately show ?thesis using ipv4_header_edits by blast
qed

text \<open>The same for the mutable TCP header, whose flags share a 16-bit word with the data offset;
  \<open>set_flags\<close> is called with the nine flag bits only.\<close>

theorem tcp_header_edits:
  assumes "set fs \<subseteq> tcp_setters" and "20 \<le> length raw" and "tcp_header_parse raw = Some d"
  shows "\<exists>raw' d'. tcp_view.edit fs (raw, d) = Some (raw', d') \<and> length raw' = length raw
    \<and> tcp_header_parse raw' = Some d'"
  using assms by (rule tcp_view.edit_coherent)

theorem tcp_header_edits_witness:
  "\<exists>raw d. tcp_view.edit [tcp_set_flags FLAG_RST, tcp_shrink_options, tcp_set_sequence_number 9]
      (drop 20 sample_syn, sample_tcp) = Some (raw, d) \<and> tcp_header_parse raw = Some d"
proof -
  have "tcp_header_parse (drop 20 sample_syn) = Some sample_tcp"
    "20 \<le> length (drop 20 sample_syn)" by code_simp+
  moreover have "set [tcp_set_flags FLAG_RST, tcp_shrink_options, tcp_set_sequence_number 9] \<subseteq> tcp_setters"
    using flag_values(3) by (simp add: tcp_setters_def)
  ultimately show ?thesis using tcp_header_edits by blast
qed

text \<open>\<open>Ipv4HeaderMut::update_checksum\<close> changes only the checksum field, and leaves a header whose
  16-bit words sum to zero in ones' complement, as RFC 791 asks, for every even header length.\<close>

theorem ipv4_checksum_correct:
  assumes "unat (ih_header_length d) = hl" and "even hl" and "20 \<le> hl" and "hl \<le> length raw"
  shows "\<exists>c. ipv4_update_checksum (raw, d) = Some (take 10 raw @ enc16 c @ drop 12 raw, d)
    \<and> checksum_ok (words_sum (take hl (take 10 raw @ enc16 c @ drop 12 raw)))"
  using ipv4_update_checksum_ok [OF assms] .

theorem ipv4_checksum_correct_witness:
  "\<exists>c. ipv4_update_checksum (take 20 sample_syn, ip_header_data sample_packet)
    = Some (take 10 sample_syn @ enc16 c @ drop 12 (take 20 sample_syn), ip_header_data sample_packet)"
  using ipv4_checksum_correct [of "ip_header_data sample_packet" 20 "take 20 sample_syn"]
  by (auto simp: sample_packet_def sample_syn_def)

text \<open>C8. \<open>TcpHeaderMut::update_checksum\<close>, which sums high and low bytes apart in 32 bits, computes
  the checksum of RFC 793: the segment under its pseudo header sums to zero in ones' complement,
  for payloads of even and odd length and with no overflow up to the largest packet.\<close>

theorem tcp_checksum_correct:
  assumes "unat (th_header_length data) = hl" and "even hl" and "20 \<le> hl" and "hl \<le> length raw"
    and "unat (ih_total_length ip) = unat (ih_header_length ip) + hl + length payload"
  shows "\<exists>c. tcp_update_checksum ip payload (raw, data) = Some (take 16 raw @ enc16 c @ drop 18 raw, data)
    \<and> checksum_ok (words_sum (tcp_pseudo_header (ih_source ip) (ih_destination ip)
        (of_nat (hl + length payload)) @ take hl (take 16 raw @ enc16 c @ drop 18 raw) @ payload))"
  using tcp_update_checksum_ok [OF assms] .

theorem tcp_checksum_correct_witness:
  "\<exists>c. tcp_update_checksum ((ip_header_data sample_packet)\<lparr>ih_total_length := 43\<rparr>) [1, 2, 3]
      (drop 20 sample_syn, sample_tcp)
    = Some (take 16 (drop 20 sample_syn) @ enc16 c @ drop 18 (drop 20 sample_syn), sample_tcp)"
  using tcp_checksum_correct [of sample_tcp 20 "drop 20 sample_syn"
      "(ip_header_data sample_packet)\<lparr>ih_total_length := 43\<rparr>" "[1, 2, 3]"]
  by (auto simp: sample_packet_def sample_tcp_def sample_syn_def)

section \<open>Parsing\<close>

text \<open>C21. \<open>IpPacket::parse\<close> never panics, whatever the bytes; what it accepts is well formed, both
  header lengths lying inside the packet and the lengths agreeing, and it is the slice that the
  length field announces.\<close>

theorem parse_total_and_sound:
  "case ip_packet_parse raw of None \<Rightarrow> False | Some (Inl e) \<Rightarrow> True
    | Some (Inr p) \<Rightarrow> ip_packet_ok p \<and> ip_packet_raw p = take (ip_packet_length p) raw"
  using ip_packet_parse_total [of raw] ip_packet_parse_ok [of raw]
  by (auto split: option.splits sum.splits)

text \<open>C22. A well-formed IPv4 packet is what the parser returns for its own bytes.\<close>

theorem ipv4_roundtrip:
  assumes "ipv4_accepted p"
  shows "ip_packet_parse (ip_raw p) = ok (Ipv4 p)"
  using ipv4_accepted_parses [OF assms] .

theorem ipv4_roundtrip_witness: "ip_packet_parse (ip_raw sample_packet) = ok (Ipv4 sample_packet)"
  by (rule ipv4_roundtrip [OF sample_packet_accepted])

text \<open>C26. Framing does not depend on how the stream was cut: the frames of \<open>xs @ ys\<close> are those found
  in \<open>xs\<close> followed by those found once \<open>ys\<close> arrives behind the rest; no byte is lost or invented.\<close>

theorem framing_chunks:
  "fst (frames (xs @ ys)) = fst (frames xs) @ fst (frames (snd (frames xs) @ ys))
    \<and> snd (frames (xs @ ys)) = snd (frames (snd (frames xs) @ ys))
    \<and> concat (fst (frames xs)) @ snd (frames xs) = xs"
  using frames_append [of xs ys] frames_concat [of xs] by simp

text \<open>\<open>IpPacketBuffer::next\<close> removes exactly the frame at the front, when there is one, and else
  leaves the buffer alone; it never panics.\<close>

theorem packet_buffer_next:
  assumes "bb_inv b"
  shows "\<exists>r b'. ipb_next b = Some (r, b') \<and> bb_inv b'
    \<and> (if r = Inr True then bb_peek b = hd (fst (frames (bb_peek b))) @ bb_peek b'
         \<and> frames (bb_peek b') = (tl (fst (frames (bb_peek b))), snd (frames (bb_peek b)))
       else b' = b \<and> fst (frames (bb_peek b)) = [])"
  using ipb_next_ok [OF assms] by (auto split: if_splits)

theorem packet_buffer_next_witness:
  "\<exists>r b'. ipb_next \<lparr>bb_buf = sample_syn @ [0x45, 0], bb_head = 42\<rparr> = Some (r, b') \<and> bb_inv b'"
proof -
  have "bb_inv \<lparr>bb_buf = sample_syn @ [0x45, 0], bb_head = 42\<rparr>" by code_simp
  from packet_buffer_next [OF this] show ?thesis by blast
qed

text \<open>C28. The packet buffer cannot fill up and wait: when no packet is complete and no error is
  pending, there is room for the next read.\<close>

theorem packet_buffer_room:
  assumes "bb_inv b" and "length (bb_buf b) = MAX_IP_PACKET_LENGTH"
    and "front_packet_length (bb_peek b) = ok None"
  shows "0 < bb_room b"
  using ipb_room [OF assms] .

theorem packet_buffer_room_witness: "0 < bb_room ipb_new"
  by (rule packet_buffer_room)
    (simp_all add: ipb_new_def bb_new_def bb_peek_def bb_inv_def front_packet_length_def)

text \<open>C27. The framing of the IPv4-only version, kept in the repository as the reference of the tests, and the
  framing of today agree on IPv4 packets: \<open>validate_front\<close> reports an error exactly when the length
  at the front is malformed or the packet is.\<close>

theorem ipv4_framing_agrees:
  assumes "bb_inv b" and "bb_peek b \<noteq> []" and "drop_bit 4 (bb_peek b ! 0) = 4"
  shows "validate_front b = (if (\<exists>m. front_packet_length (bb_peek b) = err m)
      \<or> (\<exists>n m. front_packet_length (bb_peek b) = ok (Some n) \<and> ip_packet_parse (take n (bb_peek b)) = err (Malformed m))
    then err InvalidData else ok ())"
  by (rule validate_front_agrees [OF assms(1) refl assms(2,3)])

theorem ipv4_framing_agrees_witness:
  "validate_front \<lparr>bb_buf = [0x45, 0, 0, 0, 0], bb_head = 4\<rparr> = err InvalidData
    \<and> (\<exists>m. front_packet_length [0x45, 0, 0, 0] = err m)"
proof -
  have p: "bb_peek \<lparr>bb_buf = [0x45, 0, 0, 0, 0], bb_head = 4\<rparr> = [0x45, 0, 0, 0]" and i: "bb_inv \<lparr>bb_buf = [0x45, 0, 0, 0, 0], bb_head = 4\<rparr>"
    by (simp_all add: bb_peek_def bb_inv_def)
  have v: "drop_bit 4 ([0x45 :: u8, 0, 0, 0] ! 0) = 4" by code_simp
  have e: "front_packet_length [0x45, 0, 0, 0] = err (Malformed ''invalid IPv4 packet length'')" by code_simp
  show ?thesis using ipv4_framing_agrees [OF i] by (simp add: p v e)
qed

section \<open>Building packets\<close>

text \<open>C7. \<open>Packetizer::packetize_read\<close> turns what the socket returned into a packet that the relay's
  own parser accepts, with both checksums valid, exactly those bytes as payload, the endpoints of
  the packetizer, and the length the payload has; \<open>inflate\<close> rebuilds the same packet later.\<close>

theorem packetize_read_correct:
  assumes "pk_inv p" and "read_adapter_recv source m (pk_room p) = Inr bs"
    and "length bs \<le> pk_capacity p" and "bs \<noteq> []"
  shows "\<exists>q p'. packetize_read source m p = Some (Inr (Some q), p') \<and> pk_inv p'
    \<and> ip_packet_parse (ip_raw q) = ok (Ipv4 q) \<and> ipv4_checksum_valid q \<and> transport_checksum_valid q
    \<and> ipv4_packet_payload q = Some (Some bs) \<and> packet_endpoints q = Some (pk_endpoints p)
    \<and> length (ip_raw q) = pk_payload_index p + length bs
    \<and> packetizer_inflate (ipv4_packet_length q) p' = Some q"
proof -
  obtain q p' where q: "packetize_read source m p = Some (Inr (Some q), p')" "pk_inv p'"
    "ipv4_sendable q" "ipv4_payload_bytes q = Some bs" "length (ip_raw q) = pk_payload_index p + length bs"
    "ip_header_data q = (pk_ipv4_header_data p)\<lparr>ih_total_length := of_nat (pk_payload_index p + length bs)\<rparr>"
    "ip_transport_data q = Some (pk_transport_header_data p)"
    "packetizer_inflate (ipv4_packet_length q) p' = Some q"
    using packetize_read_ok [of p source m bs, OF assms] by blast
  then have "packet_endpoints q = Some (pk_endpoints p)" by (simp add: packet_endpoints_def pk_endpoints_def)
  moreover have "ip_packet_parse (ip_raw q) = ok (Ipv4 q)"
    using q(3) ipv4_accepted_parses by (simp add: ipv4_sendable_def)
  moreover have "ipv4_packet_payload q = Some (Some bs)"
    using q(4) by (cases "ipv4_packet_payload q") (simp_all add: ipv4_payload_bytes_def)
  ultimately show ?thesis using q by (auto simp: ipv4_sendable_def)
qed

theorem packetize_read_correct_witness:
  "\<exists>q p'. packetize_read (\<lambda>n. Inr [1, 2, 3]) (Some 100) sample_pk = Some (Inr (Some q), p')
    \<and> ip_packet_parse (ip_raw q) = ok (Ipv4 q)"
  using packetize_read_correct [OF sample_pk_inv, of "\<lambda>n. Inr [1, 2, 3]" "Some 100" "[1, 2, 3]"]
  by (auto simp: read_adapter_recv_def pk_capacity_def sample_pk_indices)

text \<open>A payload that fills the buffer to its last byte makes a packet of 65536 bytes, whose
  length wraps to 0 in the \<open>u16\<close> total length: \<open>build\<close> panics.\<close>

theorem packetizer_overflow_panics:
  assumes "pk_inv p" and "pk_payload_index p + n = 65536"
  shows "packetizer_build (of_nat n) p = None"
  using packetizer_build_overflow [OF assms] .

theorem packetizer_overflow_panics_witness: "packetizer_build (of_nat 65496) sample_pk = None"
  by (rule packetizer_overflow_panics [OF sample_pk_inv]) (simp add: sample_pk_indices)

text \<open>A packetizer is reusable: payload after payload, each packet carries its own payload and is
  fit to be sent, with nothing left over from the packet before.\<close>

theorem packetizer_reusable:
  assumes "pk_inv p" and "\<forall>bs \<in> set bss. length bs \<le> pk_capacity p"
  shows "\<exists>qs p'. ipv4_builder.build_all bss p = Some (qs, p') \<and> pk_inv p'
    \<and> map ipv4_payload_bytes qs = map Some bss \<and> (\<forall>q \<in> set qs. ipv4_sendable q)"
  using ipv4_builder.build_all_payloads [OF assms] .

theorem packetizer_reusable_witness:
  "\<exists>qs p'. ipv4_builder.build_all [[1, 2, 3], [4]] sample_pk = Some (qs, p')
    \<and> map ipv4_payload_bytes qs = [Some [1, 2, 3], Some [4]]"
  using packetizer_reusable [OF sample_pk_inv, of "[[1, 2, 3], [4]]"]
  by (auto simp: pk_capacity_def sample_pk_indices)

text \<open>C20. \<open>Ipv6Packetizer::build\<close> makes a packet that the relay's parser accepts, with the payload,
  and a TCP or UDP checksum that is valid under the IPv6 pseudo header (and not 0 for UDP): the check
  of a receiver, as the tests of the repository write it, gives 0xFFFF.  In front of the payload are
  the reference headers, changed in the cells of the two lengths and of the checksum only.\<close>

theorem ipv6_build_correct:
  assumes "p6_inv p" and "p6_payload_index p + n \<le> 65536"
  shows "\<exists>q p' c. ipv6_build (of_nat n) p = Some (q, p') \<and> p6_inv p'
    \<and> ip_packet_parse (i6p_raw q) = ok (Ipv6 q) \<and> ipv6_checksum_valid q
    \<and> verify (i6p_raw q) (i6_next_header (i6p_header_data q)) = Some 0xFFFF
    \<and> ipv6_packet_payload q = Some (take n (drop (p6_payload_index p) (p6_buffer p)))
    \<and> i6p_raw q = headers6 p n c @ take n (drop (p6_payload_index p) (p6_buffer p))"
proof -
  obtain q p' c where q: "ipv6_build (of_nat n) p = Some (q, p')" "p6_inv p'" "built6 p n q"
    "i6p_raw q = headers6 p n c @ take n (drop (p6_payload_index p) (p6_buffer p))"
    using ipv6_build_ok [OF assms] by blast
  note B = q(3) [unfolded built6_def]
  have v: "ipv6_checksum_valid q" "length (i6p_raw q) = p6_payload_index p + n" using B by simp_all
  have "ipv6_packet_ok q" using ip_packet_parse_ok [of "i6p_raw q" "Ipv6 q"] B by simp
  then have "i6_next_header (i6p_header_data q) \<noteq> 0"
    by (cases "i6p_transport_data q") (simp_all add: ipv6_packet_ok_def)
  then have "verify (i6p_raw q) (i6_next_header (i6p_header_data q)) = Some 0xFFFF"
    using verify_valid [OF v(1) _ _ refl] v(2) p6_inv_bounds [OF assms(1)] assms(2) by simp
  then show ?thesis using q B by blast
qed

theorem ipv6_build_correct_witness:
  "\<exists>p q p'. ipv6_packetizer_new (take 40 sample_v6, i6p_header_data sample_v6_packet)
      (drop 40 (take 48 sample_v6), i6p_transport_data sample_v6_packet) = Some p
    \<and> ipv6_build (of_nat 5) p = Some (q, p') \<and> ipv6_checksum_valid q"
proof -
  obtain p where p: "ipv6_packetizer_new (take 40 sample_v6, i6p_header_data sample_v6_packet)
      (drop 40 (take 48 sample_v6), i6p_transport_data sample_v6_packet) = Some p" "p6_inv p"
    "p6_payload_index p = 48"
    using sample_v6_new by blast
  then show ?thesis using ipv6_build_correct [OF p(2), of 5] by fastforce
qed

section \<open>Identities\<close>

text \<open>Two IPv4 packets get the same \<open>ConnectionId\<close> exactly when their protocol, addresses and
  ports are the same: no two flows share an identity.\<close>

theorem connection_id_injective:
  "connection_id_from_headers d t = connection_id_from_headers d' t' \<longleftrightarrow>
    ih_protocol d = ih_protocol d' \<and> ih_source d = ih_source d' \<and> ih_destination d = ih_destination d'
    \<and> transport_source_port t = transport_source_port t'
    \<and> transport_destination_port t = transport_destination_port t'"
  by (rule connection_id_from_headers_eq)

text \<open>\<open>rewritten_destination\<close> sends port 53 of the virtual resolver to the configured upstream,
  every port of 10.0.2.2 to the loopback address, and leaves every other address alone; it panics
  only for the resolver when no upstream is configured.\<close>

theorem rewritten_destination_cases:
  "rewritten_destination upstream \<lparr>cid_protocol = q, cid_source = a, cid_destination = to_socket_addr v port\<rparr> =
    (if v = VIRTUAL_DNS \<and> port = 53 then map_option (\<lambda>(ip, p). SocketV4 ip p) upstream
     else if v = 0x0A000202 then Some (SocketV4 (127, 0, 0, 1) port)
     else Some (to_socket_addr v port))"
proof -
  have "to_addr LOCALHOST = (127, 0, 0, 1)" by code_simp
  then show ?thesis by (simp add: rewritten_destination_def to_socket_addr_def LOCALHOST_FORWARD_def)
qed

section \<open>The selector and the channel of the client\<close>

text \<open>When every token was deregistered at most once, \<open>clean_removed_tokens\<close> removes exactly the
  deregistered handlers and does not panic.\<close>

theorem clean_removes_deregistered:
  assumes "sel_inv s"
  shows "\<exists>s'. clean_removed_tokens s = Some s' \<and> sel_inv s' \<and> sel_tokens_to_remove s' = []
    \<and> (\<forall>t. live_token s' t \<longleftrightarrow> live_token s t)"
  using clean_removed_tokens_ok [OF assms] by blast

theorem clean_removes_deregistered_witness:
  "\<exists>s'. clean_removed_tokens (snd (selector_deregister sample_poll 7 3 (en_selector sample_env))) = Some s'
    \<and> \<not> live_token s' 3 \<and> live_token s' 2"
proof -
  let ?s = "en_selector sample_env"
  have i: "sel_inv ?s" "live_token ?s 3" "live_token ?s 2"
    by (simp_all add: sample_env_def sel_inv_def live_token_def selector_create_def)
  then have d: "sel_inv (snd (selector_deregister sample_poll 7 3 ?s))"
    "\<not> live_token (snd (selector_deregister sample_poll 7 3 ?s)) 3"
    "live_token (snd (selector_deregister sample_poll 7 3 ?s)) 2"
    by (simp_all add: selector_deregister_ok)
  then show ?thesis using clean_removes_deregistered [OF d(1)] by auto
qed

text \<open>A token deregistered twice before the clean-up makes it panic: the slab no longer holds the
  key the second time.\<close>

theorem double_deregistration_panics:
  "clean_removed_tokens (snd (selector_deregister P h t (snd (selector_deregister P h t s)))) = None"
  by (rule clean_removed_tokens_twice [of _ "sel_tokens_to_remove s"]) simp

text \<open>\<open>ClientChannel::send_raw_to_client\<close> queues the whole packet behind what waits, or queues
  nothing and reports \<open>WouldBlock\<close>: the client never receives part of a packet.\<close>

theorem send_all_or_nothing:
  assumes "poll_works P" and "ch_inv ch"
  shows "\<exists>r ch' s'. send_raw_to_client P raw (ch, s) = Some (r, ch', s') \<and> ch_inv ch'
    \<and> (if length raw \<le> sb_remaining (ch_network_to_client ch)
       then r = Inr () \<and> ch_contents ch' = ch_contents ch @ raw
       else r = Inl WouldBlock \<and> ch' = ch \<and> s' = s)"
  using send_raw_to_client_ok [OF assms] by blast

theorem send_all_or_nothing_witness:
  "\<exists>ch' s'. send_raw_to_client sample_poll sample_syn (en_channel sample_env, en_selector sample_env)
      = Some (Inr (), ch', s') \<and> ch_contents ch' = sample_syn"
proof -
  have "ch_inv (en_channel sample_env)" using sample_ctx_inv by (simp add: ctx_inv_def)
  from send_all_or_nothing [OF sample_poll_works this, of sample_syn "en_selector sample_env"]
  show ?thesis by (auto simp: sample_env_def sample_syn_def MAX_PACKET_LENGTH_def)
qed

section \<open>The TCP connection\<close>

text \<open>The window left to the client is never more than the window it announced, and it is 0
  once the relay has sent to its end.\<close>

theorem remaining_window_bounded:
  "remaining_client_window t \<le> tcb_client_window t
    \<and> (tcb_sequence_number t = tcb_their_acknowledgement_number t + ucast (tcb_client_window t) \<longrightarrow>
        remaining_client_window t = 0)"
proof -
  have u: "unat (ucast (r :: u32) :: u16) = unat r" if "r \<le> ucast (w :: u16)" for r w
  proof -
    have "unat r \<le> unat w" using that by (simp add: word_le_nat_alt)
    then have "unat r < 65536" using u16_less [of w] by linarith
    then show ?thesis by (simp add: unsigned_ucast_eq take_bit_eq_mod)
  qed
  show ?thesis
    by (auto simp: remaining_client_window_def Let_def word_le_nat_alt u)
qed

theorem remaining_window_bounded_witness:
  "remaining_client_window (tcb_new\<lparr>tcb_client_window := 5, tcb_sequence_number := 5\<rparr>) = 0"
  using remaining_window_bounded [of "tcb_new\<lparr>tcb_client_window := 5, tcb_sequence_number := 5\<rparr>"]
  by (simp add: tcb_new_def)

text \<open>C4. A packet of the flow never panics the connection: whatever its flags and numbers, an open
  connection in its invariant handles it and keeps the invariant, its state moves only along the
  edges of the state machine, and the endpoints of its answers stay the same.\<close>

theorem tcp_packet_safe:
  assumes "poll_works P" and "ctx_inv x" and "\<not> tc_closed (fst x)" and "tcp_packet q h"
  shows "\<exists>y. tcp_send_to_network P now random (Ipv4 q) x = Some y \<and> ctx_inv y
    \<and> tcp_edge\<^sup>*\<^sup>* (state_of x) (state_of y)
    \<and> pk_endpoints (tc_network_to_client (fst y)) = pk_endpoints (tc_network_to_client (fst x))
    \<and> (\<not> tc_closed (fst y) \<longrightarrow> tc_interests (fst y) = tcp_wanted (fst y))"
  using tcp_send_to_network_ok [of P x q h now random, OF assms]
  by (auto simp: step_ok_def tcp_frame_def simp del: split_paired_Ex)

theorem tcp_packet_safe_witness:
  "\<exists>y. tcp_send_to_network sample_poll 0 5 (Ipv4 sample_packet) (sample_connection, sample_env) = Some y
    \<and> ctx_inv y"
  using tcp_packet_safe [OF sample_poll_works sample_ctx_inv _ sample_tcp_packet, of 0 5]
  by (auto simp: sample_connection_def)

text \<open>C14. The handshake: on the SYN of a new connection the relay picks its own initial number, expects
  the byte after the client's, and waits for the socket; once the socket is connected it answers
  with one SYN/ACK that carries these numbers, queued whole when there is room.\<close>

theorem tcp_handshake:
  assumes "poll_works P" and "ctx_inv x" and "\<not> tc_closed (fst x)" and "state_of x = Init"
    and "tcp_packet q h" and "is_syn h" and "io_take_error sock = Inr None"
  shows "\<exists>y z a. tcp_send_to_network P now random (Ipv4 q) x = Some y \<and> state_of y = SynSent
    \<and> tcb_sequence_number (tc_tcb (fst y)) = random
    \<and> tcb_acknowledgement_number (tc_tcb (fst y)) = th_sequence_number h + 1
    \<and> tcp_on_ready P now sock ready_writable y = Some z \<and> ctx_inv z \<and> state_of z = SynReceived
    \<and> tcb_sequence_number (tc_tcb (fst z)) = random + 1
    \<and> control_segment (fst y) (FLAG_SYN OR FLAG_ACK) a
    \<and> ch_contents (en_channel (snd z)) = ch_contents (en_channel (snd x))
        @ (if length (ip_raw a) \<le> sb_remaining (ch_network_to_client (en_channel (snd x))) then ip_raw a else [])"
proof -
  obtain y where y: "tcp_send_to_network P now random (Ipv4 q) x = Some y" "ctx_inv y" "\<not> tc_closed (fst y)"
    "state_of y = SynSent" "tcb_sequence_number (tc_tcb (fst y)) = random"
    "tcb_acknowledgement_number (tc_tcb (fst y)) = th_sequence_number h + 1" "en_channel (snd y) = en_channel (snd x)"
    using tcp_send_syn [OF assms(1-6), of now random] by blast
  obtain z a where "tcp_on_ready P now sock ready_writable y = Some z" "ctx_inv z" "state_of z = SynReceived"
    "tcb_sequence_number (tc_tcb (fst z)) = tcb_sequence_number (tc_tcb (fst y)) + 1"
    "control_segment (fst y) (FLAG_SYN OR FLAG_ACK) a"
    "ch_contents (en_channel (snd z)) =
        (if length (ip_raw a) \<le> sb_remaining (ch_network_to_client (en_channel (snd y)))
         then ch_contents (en_channel (snd y)) @ ip_raw a else ch_contents (en_channel (snd y)))"
    using tcp_on_ready_connected [OF assms(1) y(2-4) assms(7), of now] by blast
  then show ?thesis using y by (intro exI [of _ y] exI [of _ z] exI [of _ a]) simp
qed

theorem tcp_handshake_witness:
  "\<exists>y z. tcp_send_to_network sample_poll 0 5 (Ipv4 sample_packet) (sample_connection, sample_env) = Some y
    \<and> tcp_on_ready sample_poll 0 \<lparr>io_read = (\<lambda>_. Inl WouldBlock), io_write = (\<lambda>_. Inl WouldBlock), io_take_error = Inr None\<rparr>
        ready_writable y = Some z \<and> tcb_sequence_number (tc_tcb (fst z)) = 6
    \<and> tcb_acknowledgement_number (tc_tcb (fst y)) = 101"
proof -
  have "is_syn sample_tcp" "th_sequence_number sample_tcp = 100" by code_simp+
  moreover have "\<not> tc_closed sample_connection" "tcb_state (tc_tcb sample_connection) = Init"
    by (simp_all add: sample_connection_def tcb_new_def)
  ultimately show ?thesis
    using tcp_handshake [OF sample_poll_works sample_ctx_inv _ _ sample_tcp_packet, of
        "\<lparr>io_read = \<lambda>_. Inl WouldBlock, io_write = \<lambda>_. Inl WouldBlock, io_take_error = Inr None\<rparr>" 0 5]
    by (auto simp del: split_paired_Ex)
qed

text \<open>In-order delivery: an established connection takes the payload of a plain segment whole exactly
  when the segment is acknowledged, starts at the byte the relay expects and fits in the buffer;
  then the expected number moves by its length, and else the stream to the network is unchanged:
  no byte is lost, repeated or reordered.\<close>

theorem tcp_in_order:
  assumes "ctx_inv x" and "state_of x = Established" and "tcb_fin_sequence_number (tc_tcb (fst x)) = None"
    and "tcp_packet q h" and "plain h" and "ipv4_packet_payload q = Some (Some bs)"
  shows "\<exists>y took. handle_packet P random q x = Some y
    \<and> took = (is_ack h \<and> th_sequence_number h = tcp_expected (fst x)
        \<and> length bs \<le> sb_remaining (tc_client_to_network (fst x)))
    \<and> tcp_buffered y = tcp_buffered x @ (if took then bs else [])
    \<and> tcp_expected (fst y) = tcp_expected (fst x) + of_nat (if took then length bs else 0)
    \<and> state_of y = Established"
proof -
  let ?took = "is_ack h \<and> th_sequence_number h = tcp_expected (fst x) \<and> length bs \<le> sb_remaining (tc_client_to_network (fst x))"
  obtain y where y: "handle_packet P random q x = Some y"
    "tcp_buffered y = tcp_buffered x @ (if ?took then bs else [])"
    "tcb_acknowledgement_number (tc_tcb (fst y)) = tcb_acknowledgement_number (tc_tcb (fst x))"
    "state_of y = Established"
    using handle_packet_plain [OF assms] by blast
  have "tcp_expected (fst y) = tcp_expected (fst x) + of_nat (length (if ?took then bs else []))"
    by (rule tcp_expected_moves [OF y(2,3)])
  then show ?thesis using y(1,2,4) by (intro exI [of _ y] exI [of _ ?took]) auto
qed

theorem tcp_in_order_witness:
  "\<exists>y. handle_packet sample_poll 0 sample_push_packet (sample_established, sample_env) = Some y
    \<and> tcp_buffered y = [7, 8, 9] \<and> tcp_expected (fst y) = 104"
  using tcp_in_order [OF sample_established_inv _ _ sample_push_facts(1,2,4), of sample_poll 0] sample_push_facts(3)
  by (auto simp: sample_established_stream MAX_PACKET_LENGTH_def sample_push_tcp_def simp del: split_paired_Ex)

text \<open>C16. Until the client finishes, its bytes are acknowledged when the socket has taken them: a write of \<open>w\<close> bytes removes
  exactly the first \<open>w\<close> bytes of the buffer, leaves the expected number where it was, and offers
  the client one empty ACK.\<close>

theorem tcp_acks_written:
  assumes "poll_works P" and "ctx_inv x" and "tcp_buffered x \<noteq> []" and "\<not> tcb_fin_received (tc_tcb (fst x))"
    and "W (sb_offered (tc_client_to_network (fst x))) = Inr w" and "0 < w"
    and "w \<le> length (sb_offered (tc_client_to_network (fst x)))"
  shows "\<exists>y q. tcp_process_send P W x = Some (Inr (), y) \<and> tcp_buffered y = drop w (tcp_buffered x)
    \<and> tcp_expected (fst y) = tcp_expected (fst x)
    \<and> control_segment (fst y) FLAG_ACK q \<and> offered (snd x) (ip_raw q) (snd y)"
  using tcp_process_send_acks [where W = W and x = x, OF assms(1-3,5-7,4)] by blast

theorem tcp_acks_written_witness:
  "\<exists>s y. sb_read_from [7, 8, 9] (tc_client_to_network sample_established) = Some s
    \<and> tcp_process_send sample_poll (\<lambda>_. Inr 1) (sample_established\<lparr>tc_client_to_network := s\<rparr>, sample_env) = Some (Inr (), y)
    \<and> tcp_buffered y = [8, 9]"
proof -
  have inv: "sb_inv (tc_client_to_network sample_established)"
    using sample_established_flow by (simp add: sample_flow_def tc_inv_def)
  obtain s where s: "sb_read_from [7, 8, 9] (tc_client_to_network sample_established) = Some s" "sb_inv s"
    "sb_contents s = [7, 8, 9]" "length (sb_buf s) = length (sb_buf (tc_client_to_network sample_established))"
    using sb_read_from_ok [OF inv, of "[7, 8, 9]"] by (auto simp: sample_established_stream MAX_PACKET_LENGTH_def)
  have "Suc 0 \<le> length (sb_offered s)"
    using sb_offered_prefix(2) [OF s(2)] length_sb_contents [of s] s(2,3) by (auto simp: sb_inv_def)
  moreover have "ctx_inv (sample_established\<lparr>tc_client_to_network := s\<rparr>, sample_env)"
    using sample_established_inv s(2,4) by (simp add: ctx_inv_def tc_inv_def)
  ultimately show ?thesis
    using tcp_acks_written [OF sample_poll_works, of "(sample_established\<lparr>tc_client_to_network := s\<rparr>, sample_env)"
        "\<lambda>_. Inr 1" 1] s(1,3)
    by (auto simp: sample_established_stream simp del: split_paired_Ex)
qed

text \<open>C5. An established connection is a TCP receiver for its client: whatever plain segments arrive, in
  whatever order, and however the socket takes bytes in between, it does what an abstract receiver
  with a bounded queue does.  So the bytes that left for the network and those still queued are
  exactly the payloads taken, in order; the number it expects counts exactly these; nothing is lost,
  repeated or reordered.\<close>

theorem tcp_stream_refines:
  assumes "poll_works P" and "flowing x" and "\<forall>op \<in> set ops. client_op_ok op"
  shows "\<exists>es z. drive P random ops x = Some (es, z) \<and> flowing z \<and> receiver_of z = receiver_run es (receiver_of x)
    \<and> filter (\<lambda>e. \<forall>w. e \<noteq> Leaves w) es
        = map arrival (List.map_filter (\<lambda>op. case op of Segment q \<Rightarrow> Some q | Drain W \<Rightarrow> None) ops)
    \<and> sent es (receiver_of x) @ tcp_buffered z = tcp_buffered x @ taken es (receiver_of x)
    \<and> tcp_expected (fst z) = tcp_expected (fst x) + of_nat (length (taken es (receiver_of x)))"
proof -
  obtain es z where z: "drive P random ops x = Some (es, z)" "flowing z" "receiver_of z = receiver_run es (receiver_of x)"
    "filter (\<lambda>e. \<forall>w. e \<noteq> Leaves w) es
        = map arrival (List.map_filter (\<lambda>op. case op of Segment q \<Rightarrow> Some q | Drain W \<Rightarrow> None) ops)"
    using drive_refines [OF assms] by blast
  have "rcv_queue (receiver_of y) = tcp_buffered y" "rcv_next (receiver_of y) = tcp_expected (fst y)" for y
    by (simp_all add: receiver_of_def)
  with z receiver_conserves [of es "receiver_of x"] receiver_numbers [of es "receiver_of x"] show ?thesis
    by (intro exI [of _ es] exI [of _ z]) (simp flip: z(3))
qed

theorem tcp_stream_refines_witness:
  "\<exists>z. drive sample_poll 0 [Segment sample_push_packet] (sample_established, sample_env)
      = Some ([Arrives 101 True [7, 8, 9]], z) \<and> tcp_buffered z = [7, 8, 9] \<and> tcp_expected (fst z) = 104"
proof -
  have f: "flowing (sample_established, sample_env)"
    using sample_established_inv by (simp add: flowing_def sample_established_stream)
  have a: "arrival sample_push_packet = Arrives 101 True [7, 8, 9]"
    using sample_push_facts by (simp add: arrival_def tcp_packet_def sample_push_tcp_def)
  have ops: "\<forall>op \<in> set [Segment sample_push_packet]. client_op_ok op" using sample_push_facts(1,2) by auto
  obtain es z where z: "drive sample_poll 0 [Segment sample_push_packet] (sample_established, sample_env) = Some (es, z)"
    "sent es (receiver_of (sample_established, sample_env)) @ tcp_buffered z = taken es (receiver_of (sample_established, sample_env))"
    "tcp_expected (fst z) = 101 + of_nat (length (taken es (receiver_of (sample_established, sample_env))))"
    using tcp_stream_refines [OF sample_poll_works f ops, of 0] by (auto simp: sample_established_stream simp del: split_paired_Ex)
  then have "es = [Arrives 101 True [7, 8, 9]]" by (auto simp: a bind_eq_Some_conv)
  with z show ?thesis by (auto simp: receiver_of_def takes_def sample_established_stream MAX_PACKET_LENGTH_def)
qed

text \<open>C6. And it is a TCP sender: over any sequence of reads, as long as no packet is deferred, the client gets
  the stream of the peer in order and without gap, cut into valid segments that are numbered one
  after the other, and never more than the window it announced.\<close>

theorem tcp_stream_relayed_back:
  assumes "poll_works P" and "ctx_inv x" and "\<not> tc_closed (fst x)"
  shows "\<exists>rest z. read_all P ks (src, x) = Some (rest, z) \<and> ctx_inv z \<and> \<not> tc_closed (fst z)
    \<and> (tc_packet_for_client_length (fst z) = None \<longrightarrow> (\<exists>ds qs.
        numbered (tcb_sequence_number (tc_tcb (fst x))) ds qs \<and> concat ds @ rest = src
        \<and> ch_contents (en_channel (snd z)) = ch_contents (en_channel (snd x)) @ concat (map ip_raw qs)
        \<and> tcb_sequence_number (tc_tcb (fst z)) = tcb_sequence_number (tc_tcb (fst x)) + of_nat (length (concat ds))
        \<and> length (concat ds) \<le> unat (remaining_client_window (tc_tcb (fst x)))))"
  using read_all_relays [OF assms] unfolding relayed_def .

theorem tcp_stream_relayed_back_witness:
  "\<exists>rest z. read_all sample_poll [2, 3] ([1, 2, 3, 4, 5], sample_established, sample_env) = Some (rest, z)
    \<and> \<not> tc_closed (fst z)"
  using tcp_stream_relayed_back [OF sample_poll_works sample_established_inv, of "[2, 3]" "[1, 2, 3, 4, 5]"]
  by (auto simp: sample_established_stream simp del: split_paired_Ex)

text \<open>C15. An event on the socket of a connection does not panic it, whatever the socket answers, if a read is
  reported only while the connection may read, and not together with a write once the client has
  finished (the panics that this leaves out are \<open>tcp_stale_read_panics\<close> and
  \<open>tcp_fin_read_panics\<close>): the invariant is kept, the state
  moves along the edges of the machine, the endpoints stay, and a registration for reads that is held
  only while a read is allowed stays so.\<close>

theorem tcp_event_safe:
  assumes "poll_works P" and "ctx_inv x" and "sock_ok sock"
    and "is_readable ready \<Longrightarrow> may_read (fst x)"
    and "is_readable ready \<Longrightarrow> is_writable ready \<Longrightarrow> \<not> tcb_fin_received (tc_tcb (fst x))"
  shows "\<exists>y. tcp_on_ready P now sock ready x = Some y \<and> ctx_inv y \<and> tcp_edge\<^sup>*\<^sup>* (state_of x) (state_of y)
    \<and> pk_endpoints (tc_network_to_client (fst y)) = pk_endpoints (tc_network_to_client (fst x))
    \<and> ((is_readable (tc_interests (fst x)) \<longrightarrow> may_read (fst x)) \<and> \<not> tc_closed (fst y) \<longrightarrow>
        is_readable (tc_interests (fst y)) \<longrightarrow> may_read (fst y))"
proof -
  have "event_ok (fst x) ready" using assms(4,5) by (simp add: event_ok_def)
  then show ?thesis
    using tcp_on_ready_ok [OF assms(1-3), of ready now]
    by (auto simp: event_done_def step_ok_def tcp_frame_def interest_ok_def simp del: split_paired_Ex)
qed

theorem tcp_event_safe_witness:
  "\<exists>y. tcp_on_ready sample_poll 0 \<lparr>io_read = (\<lambda>n. Inr (take n [1, 2, 3])), io_write = (\<lambda>bs. Inr (length bs)),
      io_take_error = Inr None\<rparr> ready_readable (sample_established, sample_env) = Some y \<and> ctx_inv y"
  using tcp_event_safe [OF sample_poll_works sample_established_inv, of
      "\<lparr>io_read = \<lambda>n. Inr (take n [1, 2, 3]), io_write = \<lambda>bs. Inr (length bs), io_take_error = Inr None\<rparr>"
      ready_readable 0] sample_established_may_read
  by (auto simp: sock_ok_def reader_ok_def writer_ok_def ready_defs simp del: split_paired_Ex)

text \<open>C17. What becomes of a read, by the answer of the socket.  Nothing yet: nothing is sent, and the connection
  may read again.  An error: the connection is closed, with one RST.  The end of the stream: one
  FIN|ACK, and the state moves on.  Data: one packet with exactly these bytes, which joins the
  client's channel whole when there is room, and the sequence number moves on by as many; when there
  is no room, nothing joins it, the packet is deferred, can be rebuilt, and its source is registered
  once.\<close>

theorem tcp_read_outcome:
  assumes "poll_works P" and "ctx_inv x" and "\<not> tc_closed (fst x)" and "reader_ok R" and "may_read (fst x)"
  shows "\<exists>r y. tcp_process_receive P R x = Some (r, y) \<and> ctx_inv y
    \<and> (case R (unat (min (remaining_client_window (tc_tcb (fst x))) MAX_PAYLOAD_LENGTH)) of
        Inl f \<Rightarrow> if f = WouldBlock
          then r = Inl WouldBlock \<and> snd y = snd x \<and> tc_closed (fst y) = tc_closed (fst x) \<and> may_read (fst y)
          else r = Inr () \<and> tc_closed (fst y) \<and> (\<exists>q. control_segment (fst x) FLAG_RST q \<and> delivered x q y)
      | Inr bs \<Rightarrow> r = Inr () \<and> (if bs = []
          then state_of y = (if state_of x = CloseWait then LastAck else FinWait1) \<and> \<not> tc_closed (fst y)
            \<and> (\<exists>q. control_segment (fst x) (FLAG_FIN OR FLAG_ACK) q \<and> delivered x q y)
          else \<not> tc_closed (fst y) \<and> (\<exists>q. data_segment (fst x) bs q \<and>
            (if length (ip_raw q) \<le> sb_remaining (ch_network_to_client (en_channel (snd x)))
             then ch_contents (en_channel (snd y)) = ch_contents (en_channel (snd x)) @ ip_raw q
               \<and> en_requests (snd y) = en_requests (snd x) \<and> tc_packet_for_client_length (fst y) = None
               \<and> tcb_sequence_number (tc_tcb (fst y)) = tcb_sequence_number (tc_tcb (fst x)) + of_nat (length bs)
             else ch_contents (en_channel (snd y)) = ch_contents (en_channel (snd x))
               \<and> en_requests (snd y) = en_requests (snd x) @ [RegisterPendingSource]
               \<and> owes_packet (fst y) q \<and> tc_tcb (fst y) = tc_tcb (fst x)))))"
proof -
  obtain r y where y: "tcp_process_receive P R x = Some (r, y)" "ctx_inv y"
    "case R (read_limit (fst x)) of
      Inl f \<Rightarrow> if f = WouldBlock
        then r = Inl WouldBlock \<and> snd y = snd x \<and> tc_closed (fst y) = tc_closed (fst x) \<and> may_read (fst y)
        else r = Inr () \<and> tc_closed (fst y) \<and> (\<exists>q. control_segment (fst x) FLAG_RST q \<and> delivered x q y)
    | Inr bs \<Rightarrow> r = Inr () \<and> (if bs = []
        then state_of y = (if state_of x = CloseWait then LastAck else FinWait1) \<and> \<not> tc_closed (fst y)
          \<and> (\<exists>q. control_segment (fst x) (FLAG_FIN OR FLAG_ACK) q \<and> delivered x q y)
        else data_outcome x bs y)"
    using tcp_receive_outcome [OF assms] by blast
  show ?thesis
    by (rule exI [of _ r], rule exI [of _ y], intro conjI y(1,2))
      (use y(3) in \<open>auto simp: read_limit_def data_outcome_def split: sum.split_asm sum.split if_split_asm\<close>)
qed

theorem tcp_read_outcome_witness:
  "\<exists>y q. tcp_process_receive sample_poll (\<lambda>n. Inr (take n [1, 2, 3])) (sample_established, sample_env) = Some (Inr (), y)
    \<and> data_segment sample_established [1, 2, 3] q \<and> \<not> tc_closed (fst y)"
proof -
  have "3 \<le> unat (min (remaining_client_window (tc_tcb sample_established)) MAX_PAYLOAD_LENGTH)"
    by (simp add: sample_established_def sample_connection_def tcb_new_def remaining_client_window_def Let_def
        MAX_PAYLOAD_LENGTH_def MTU_def)
  then have "take (unat (min (remaining_client_window (tc_tcb sample_established)) MAX_PAYLOAD_LENGTH)) [1, 2, 3 :: u8] = [1, 2, 3]"
    by simp
  then show ?thesis
    using tcp_read_outcome [OF sample_poll_works sample_established_inv, of "\<lambda>n. Inr (take n [1, 2, 3])"]
      sample_established_may_read
    by (fastforce simp: sample_established_stream reader_ok_def simp del: split_paired_Ex split: if_split_asm)
qed

text \<open>C40. An event that the connection asked for can panic it: the client has finished, its last bytes wait in the
  buffer, and one byte of its window is left, so the connection is registered for reads and writes;
  when both are reported in one event and the write drains the buffer, the FIN of the relay uses up
  the window and the read meets the assertion that there is some.\<close>

theorem tcp_registered_event_panics:
  assumes "ctx_inv x" and "\<not> tc_closed (fst x)" and "state_of x = Established" and "tcb_fin_received (tc_tcb (fst x))"
    and "remaining_client_window (tc_tcb (fst x)) = 1" and "tc_packet_for_client_length (fst x) = None"
    and "tcp_buffered x \<noteq> []" and "sb_offered (tc_client_to_network (fst x)) = tcp_buffered x"
    and "io_write sock (tcp_buffered x) = Inr (length (tcp_buffered x))"
  shows "tcp_wanted (fst x) = Ready True True \<and> tcp_on_ready P now sock (Ready True True) x = None"
proof -
  have sb: "sb_inv (tc_client_to_network (fst x))" using assms(1) by (simp add: ctx_inv_def tc_inv_def)
  then obtain b where b: "sb_write_to (io_write sock) (tc_client_to_network (fst x)) = Some (Inr (length (tcp_buffered x)), b)"
    "sb_inv b" "sb_contents b = []"
    using sb_write_to_ok [of "tc_client_to_network (fst x)" "io_write sock" "length (tcp_buffered x)"] assms(7-9) by auto
  have "is_connected Established" "\<not> state_is_closed Established" by code_simp+
  then have "tcp_wanted (fst x) = Ready True True"
    using assms(3,5-7) sb by (simp add: tcp_wanted_def may_read_def may_write_def sb_is_empty_iff ready_defs)
  moreover have "0 < length (tcp_buffered x)" using assms(7) by (cases "tcp_buffered x") simp_all
  ultimately show ?thesis
    using tcp_fin_read_panics [OF assms(2-5) _ _ b(1), of "Ready True True" P now] b(2,3) by (simp add: sb_is_empty_iff)
qed

theorem tcp_registered_event_panics_witness:
  "\<exists>c. ctx_inv (c, sample_env) \<and> tcp_on_ready sample_poll 0 \<lparr>io_read = (\<lambda>n. Inr (take n [1])), io_write = (\<lambda>bs. Inr (length bs)),
      io_take_error = Inr None\<rparr> (tcp_wanted c) (c, sample_env) = None"
proof -
  obtain c where c: "ctx_inv (c, sample_env)" "tcb_state (tc_tcb c) = Established"
    "sb_contents (tc_client_to_network c) \<noteq> []" "sb_offered (tc_client_to_network c) = sb_contents (tc_client_to_network c)"
    "\<not> tc_closed c" "tc_packet_for_client_length c = None"
    using sample_full by blast
  let ?c = "c\<lparr>tc_tcb := (tc_tcb c)\<lparr>tcb_fin_received := True, tcb_client_window := 1,
    tcb_their_acknowledgement_number := tcb_sequence_number (tc_tcb c)\<rparr>\<rparr>"
  have "ctx_inv (?c, sample_env)" using c(1) by (simp add: ctx_inv_def tc_inv_def)
  moreover have "remaining_client_window (tc_tcb ?c) = 1" by (simp add: remaining_client_window_def)
  ultimately show ?thesis
    using tcp_registered_event_panics [of "(?c, sample_env)" "\<lparr>io_read = \<lambda>n. Inr (take n [1]), io_write = \<lambda>bs. Inr (length bs),
      io_take_error = Inr None\<rparr>" sample_poll 0] c(2-)
    by (intro exI [of _ ?c]) simp
qed

text \<open>So does a read that was collected in a batch before an earlier handler of the batch deferred a packet of
  the connection, or before the client closed its window: it meets the assertion of the read.\<close>

theorem tcp_stale_read:
  assumes "\<not> tc_closed (fst x)" and "is_readable ready" and "\<not> is_writable ready"
    and "tc_packet_for_client_length (fst x) \<noteq> None \<or> remaining_client_window (tc_tcb (fst x)) = 0"
  shows "tcp_on_ready P now sock ready x = None"
  by (rule tcp_stale_read_panics [OF assms])

theorem tcp_stale_read_witness:
  "\<exists>c. ctx_inv (c, sample_env) \<and> tcp_on_ready sample_poll 0 sock ready_readable (c, sample_env) = None"
proof -
  obtain c q where c: "sample_flow c" "owes_packet c q" "length (ip_raw q) = 43"
    using sample_deferred by blast
  have "ctx_inv (c, sample_env)" "\<not> tc_closed c" using c(1) sample_ctx_inv by (auto simp: ctx_inv_def sample_flow_def sample_connection_def)
  moreover have "tc_packet_for_client_length c \<noteq> None" using c(2) by (auto simp: owes_packet_def)
  ultimately show ?thesis
    using tcp_stale_read [of "(c, sample_env)" ready_readable] by (auto simp: ready_defs)
qed

section \<open>Deferred packets\<close>

text \<open>C35. When the deferred packet has been delivered, \<open>next\<close> moves the sequence number by the length of the
  whole IP packet, headers included, and not by the bytes the client received: the connection is out
  of step by the length of the headers from then on.\<close>

theorem next_counts_headers:
  assumes "poll_works P" and "ctx_inv x" and "\<not> tc_closed (fst x)" and "data_segment c bs q"
    and "tc_packet_for_client_length (fst x) = Some (ipv4_packet_length q)"
  shows "\<exists>y. tcp_next P x = Some y \<and> tc_packet_for_client_length (fst y) = None
    \<and> tcb_sequence_number (tc_tcb (fst y)) = tcb_sequence_number (tc_tcb (fst x))
        + of_nat (pk_payload_index (tc_network_to_client c) + length bs)"
  using tcp_next_counts_headers [OF assms] .

theorem next_counts_headers_witness:
  "\<exists>c y. tcp_next sample_poll (c, sample_env) = Some y
    \<and> tcb_sequence_number (tc_tcb (fst y)) = tcb_sequence_number (tc_tcb c) + 43"
proof -
  obtain c q where c: "sample_flow c" "data_segment sample_established [1, 2, 3] q"
    "tc_packet_for_client_length c = Some (ipv4_packet_length q)"
    using sample_deferred by blast
  have "ctx_inv (c, sample_env)" "\<not> tc_closed c" using c(1) sample_ctx_inv by (auto simp: ctx_inv_def sample_flow_def sample_connection_def)
  moreover have "pk_payload_index (tc_network_to_client sample_established) = 40"
    by (simp add: sample_established_def sample_connection_def sample_pk_indices)
  ultimately show ?thesis
    using next_counts_headers [OF sample_poll_works, of "(c, sample_env)"] c(2,3)
    by (fastforce simp del: split_paired_Ex)
qed

text \<open>C34. A control segment sent while a packet is deferred is built in the buffer of that packet: the packet
  that the client gets later has the deferred length, but the length field at its front announces
  the bare headers, so the client's framing goes out of step.\<close>

theorem deferred_packet_corrupted:
  assumes "poll_works P" and "ctx_inv (c, e)" and "owes_packet c q"
    and "pk_payload_index (tc_network_to_client c) \<le> length (ip_raw q)" and "flags AND 0x1FF = flags"
  shows "\<exists>c' e' q'. reply_empty_packet_to_client P flags (c, e) = Some (c', e')
    \<and> tcp_get c' = Some (Some q') \<and> length (ip_raw q') = length (ip_raw q)
    \<and> front_packet_length (ip_raw q') = ok (Some (pk_payload_index (tc_network_to_client c)))"
  using tcp_reply_corrupts_deferred [OF assms] .

theorem deferred_packet_corrupted_witness:
  "\<exists>c c' e' q'. reply_empty_packet_to_client sample_poll FLAG_ACK (c, sample_env) = Some (c', e')
    \<and> tcp_get c' = Some (Some q') \<and> length (ip_raw q') = 43 \<and> front_packet_length (ip_raw q') = ok (Some 40)"
proof -
  obtain c q where c: "sample_flow c" "owes_packet c q" "length (ip_raw q) = 43"
    "pk_payload_index (tc_network_to_client c) = 40"
    using sample_deferred by blast
  have "ctx_inv (c, sample_env)" using c(1) sample_ctx_inv by (auto simp: ctx_inv_def sample_flow_def sample_connection_def)
  from deferred_packet_corrupted [OF sample_poll_works this c(2), of FLAG_ACK] show ?thesis
    using c(3,4) flag_values by auto
qed

text \<open>C33. A connection that was closed while its packet waited still stands in the client's list; when there
  is room for the packet, \<open>process_pending\<close> panics, and the relay with it.\<close>

theorem pending_closed_panics:
  assumes "poll_works P" and "client_inv w" and "cl_pending_packet_sources (cw_client w) = r # rs"
    and "st_conns (cw_store w) r = Some (TcpConn c)" and "tc_closed c" and "tcp_get c = Some (Some q)"
    and "length (ip_raw q) \<le> cl_room w"
  shows "process_pending P w = None"
  using process_pending_closed [OF assms] .

theorem pending_closed_panics_witness:
  "\<exists>w. client_inv w \<and> process_pending sample_poll w = None"
proof -
  obtain c q where c: "sample_flow c" "owes_packet c q" "length (ip_raw q) = 43"
    using sample_deferred by blast
  let ?c = "c\<lparr>tc_closed := True\<rparr>"
  let ?w = "\<lparr>cw_client = (sample_client 2 1 [] Map.empty)\<lparr>cl_pending_packet_sources := [0]\<rparr>, cw_store = sample_store ?c,
    cw_selector = sample_selector, cw_on_closed = 0\<rparr>"
  have "router_inv (client_router ?w)" "outside 2 (client_router ?w)"
    using sample_selector_inv sample_channel_inv
    by (auto simp: router_inv_def outside_def client_router_def client_env_def env_ok_def sample_client_def sample_store_def)
  then have "client_inv ?w" by (simp add: client_inv_def bb_inv_def sample_client_def)
  moreover have "tcp_get ?c = Some (Some q)"
    using c(2) by (cases "tc_packet_for_client_length c") (simp_all add: owes_packet_def tcp_get_def)
  ultimately have "process_pending sample_poll ?w = None"
    using pending_closed_panics [OF sample_poll_works, of ?w 0 "[]" ?c q] c(3)
    by (simp add: sample_client_def sample_store_def MAX_PACKET_LENGTH_def)
  with \<open>client_inv ?w\<close> show ?thesis by blast
qed

text \<open>C36. A segment with data and FIN that comes when the buffer is full: its data is dropped, yet its FIN is
  taken as received.  When the socket then takes what is buffered before the client sends the segment
  again, the relay finishes the stream with one FIN|ACK that acknowledges the number after the
  expected one, so past the first byte that it dropped; from then on every segment that starts at the
  old number, the same one again included, is ignored, and that byte never reaches the network.\<close>

theorem fin_accepted_without_data:
  assumes "poll_works P" and "ctx_inv x" and "state_of x = Established"
    and "tcb_fin_sequence_number (tc_tcb (fst x)) = None"
    and "tcp_packet q h" and "is_ack h" "is_fin h" "\<not> is_syn h" "\<not> is_rst h"
      "th_sequence_number h = tcp_expected (fst x)"
    and "ipv4_packet_payload q = Some (Some bs)" "bs \<noteq> []"
    and "sb_remaining (tc_client_to_network (fst x)) < length bs"
    and "tcp_buffered x \<noteq> []" and "sb_offered (tc_client_to_network (fst x)) = tcp_buffered x"
    and "W (tcp_buffered x) = Inr (length (tcp_buffered x))"
  shows "\<exists>y z (s :: ipv4_packet) d. handle_packet P random q x = Some y \<and> tcp_buffered y = tcp_buffered x
    \<and> tcb_fin_received (tc_tcb (fst y)) \<and> tcp_expected (fst y) = tcp_expected (fst x) \<and> snd y = snd x
    \<and> tcp_process_send P W y = Some (Inr (), z) \<and> tcp_buffered z = [] \<and> state_of z = LastAck
    \<and> ip_transport_data s = Some (TcpTransport d) \<and> th_flags d = FLAG_FIN OR FLAG_ACK
    \<and> th_acknowledgement_number d = th_sequence_number h + 1 \<and> offered (snd x) (ip_raw s) (snd z)
    \<and> (\<forall>q' h' random'. tcp_packet q' h' \<and> \<not> is_syn h' \<and> th_sequence_number h' = th_sequence_number h \<longrightarrow>
        handle_packet P random' q' z = Some z)"
proof -
  obtain y where y: "handle_packet P random q x = Some y" "tcp_buffered y = tcp_buffered x"
    "tcb_fin_received (tc_tcb (fst y))" "tcp_expected (fst y) = tcp_expected (fst x)" "ctx_inv y" "state_of y = Established"
    "tc_client_to_network (fst y) = tc_client_to_network (fst x)" "snd y = snd x"
    using handle_packet_fin_without_data [OF assms(1-14)] by blast
  obtain z and s :: ipv4_packet and d where z: "tcp_process_send P W y = Some (Inr (), z)" "tcp_buffered z = []"
    "state_of z = LastAck" "tcp_expected (fst z) = tcp_expected (fst y) + 1" "ip_transport_data s = Some (TcpTransport d)"
    "th_flags d = FLAG_FIN OR FLAG_ACK" "th_acknowledgement_number d = tcp_expected (fst y) + 1"
    "offered (snd y) (ip_raw s) (snd z)"
    using tcp_drained_after_fin [OF assms(1) y(5,6,3), of W] assms(14-16) by (auto simp: y(7))
  have "handle_packet P random' q' z = Some z"
    if "tcp_packet q' h'" "\<not> is_syn h'" "th_sequence_number h' = th_sequence_number h" for q' h' random'
    by (rule handle_packet_unexpected [OF that(1,2)]) (simp_all add: z(3,4) y(4) that(3) assms(10))
  then show ?thesis
    using y(1-4,8) z assms(10) by - (rule exI [of _ y], rule exI [of _ z], rule exI [of _ s], rule exI [of _ d], simp, blast)
qed

theorem fin_accepted_without_data_witness:
  "\<exists>x y z (s :: ipv4_packet) d. state_of x = Established \<and> handle_packet sample_poll 0 sample_fin_packet x = Some y
    \<and> tcp_process_send sample_poll (\<lambda>bs. Inr (length bs)) y = Some (Inr (), z) \<and> ip_transport_data s = Some (TcpTransport d)
    \<and> th_acknowledgement_number d = 102 \<and> offered (snd x) (ip_raw (s :: ipv4_packet)) (snd z)
    \<and> handle_packet sample_poll 0 sample_fin_packet z = Some z"
proof -
  obtain c where c: "ctx_inv (c, sample_env)" "tcb_state (tc_tcb c) = Established" "tcb_fin_sequence_number (tc_tcb c) = None"
    "tcp_expected c = 101" "sb_remaining (tc_client_to_network c) = 2" "sb_contents (tc_client_to_network c) \<noteq> []"
    "sb_offered (tc_client_to_network c) = sb_contents (tc_client_to_network c)"
    using sample_full by blast
  let ?h = "sample_push_tcp\<lparr>th_flags := 0x19\<rparr>"
  have h: "is_ack ?h" "is_fin ?h" "\<not> is_syn ?h" "\<not> is_rst ?h" and n: "th_sequence_number ?h = 101"
    by code_simp+
  have p: "state_of (c, sample_env) = Established" "tcb_fin_sequence_number (tc_tcb (fst (c, sample_env))) = None"
    "th_sequence_number ?h = tcp_expected (fst (c, sample_env))" "[7, 8, 9 :: u8] \<noteq> []"
    "sb_remaining (tc_client_to_network (fst (c, sample_env))) < length [7, 8, 9 :: u8]"
    "tcp_buffered (c, sample_env) \<noteq> []"
    "sb_offered (tc_client_to_network (fst (c, sample_env))) = tcp_buffered (c, sample_env)"
    by (simp_all only: c(2-7) n fst_conv) simp_all
  obtain y z and s :: ipv4_packet and d where y: "handle_packet sample_poll 0 sample_fin_packet (c, sample_env) = Some y"
    "tcp_process_send sample_poll (\<lambda>bs. Inr (length bs)) y = Some (Inr (), z)" "ip_transport_data s = Some (TcpTransport d)"
    "th_acknowledgement_number d = th_sequence_number ?h + 1" "offered sample_env (ip_raw s) (snd z)"
    "\<forall>q' h' random'. tcp_packet q' h' \<and> \<not> is_syn h' \<and> th_sequence_number h' = th_sequence_number ?h \<longrightarrow>
        handle_packet sample_poll random' q' z = Some z"
    using fin_accepted_without_data [OF sample_poll_works c(1) p(1,2) sample_fin_facts(1) h p(3) sample_fin_facts(2) p(4-7),
        of "\<lambda>bs. Inr (length bs)" 0] by (simp del: split_paired_Ex) blast
  have "handle_packet sample_poll 0 sample_fin_packet z = Some z"
    using y(6) sample_fin_facts(1) h(3) by blast
  then show ?thesis using y c(2) n
    by - (rule exI [of _ "(c, sample_env)"], rule exI [of _ y], rule exI [of _ z], rule exI [of _ s], rule exI [of _ d], simp)
qed

section \<open>UDP and IPv6\<close>

text \<open>C30. An event on a UDP socket does not panic when a write is reported only while a datagram waits and what
  the socket returns leaves at least one byte of the buffer free.  Every datagram does when the client's
  packets have no IP options; with them, one that fills the buffer panics (\<open>udp_full_datagram_panics\<close>).
  The invariant is kept, no other token is touched, and a registration for writes that is held only
  while a datagram waits stays so, unless the event was both a read and a write.\<close>

theorem udp_event_safe:
  assumes "poll_works P" and "udp_inv x" and "reader_ok (uio_recv sock)"
    and "\<And>bs. uio_recv sock (pk_room (uc_network_to_client (fst x))) = Inr bs \<Longrightarrow>
      length bs < pk_room (uc_network_to_client (fst x))"
    and "is_writable ready \<Longrightarrow> \<not> dg_is_empty (uc_client_to_network (fst x))"
  shows "\<exists>y. udp_on_ready P now sock ready x = Some y \<and> udp_inv y \<and> uc_id (fst y) = uc_id (fst x)
    \<and> (\<forall>t. live_token (en_selector (snd x)) t \<and> t \<noteq> uc_token (fst x) \<longrightarrow> live_token (en_selector (snd y)) t)
    \<and> (udp_interest_ok (fst x) \<and> \<not> (is_readable ready \<and> is_writable ready) \<longrightarrow> uc_closed (fst y) \<or> udp_interest_ok (fst y))"
proof -
  have "udp_recv_ok (fst x) (uio_recv sock)" using assms(3,4) by (simp add: udp_recv_ok_def)
  then obtain y where "udp_on_ready P now sock ready x = Some y" "udp_step x y"
    "udp_interest_ok (fst x) \<longrightarrow> uc_closed (fst y) \<or> udp_interest_ok (fst y) \<or> is_readable ready \<and> is_writable ready"
    using udp_on_ready_ok [OF assms(1,2), of sock ready now] assms(5) by blast
  then show ?thesis by (auto simp: udp_step_def)
qed

theorem udp_event_safe_witness:
  "\<exists>p b y. dg_holds b [[1, 2]] \<and> udp_on_ready sample_poll 0 \<lparr>uio_recv = (\<lambda>n. Inr (take n [1, 2, 3])), uio_send = (\<lambda>d. Inr (length d))\<rparr>
      (Ready True True) (sample_udp_connection p b, sample_env) = Some y \<and> udp_inv y"
proof -
  obtain p b where p: "pk_inv p" "pk_payload_index p = 28" and b: "dg_holds b [[1, 2]]"
    using sample_udp_pk sample_datagram by blast
  then have "\<not> dg_is_empty b" using dg_holds_empty [OF b] by simp
  moreover have "length (take n [1, 2, 3 :: u8]) < pk_room p" for n using p by (simp add: pk_room_eq min_def)
  ultimately have "\<exists>y. udp_on_ready sample_poll 0 \<lparr>uio_recv = (\<lambda>n. Inr (take n [1, 2, 3])), uio_send = (\<lambda>d. Inr (length d))\<rparr>
      (Ready True True) (sample_udp_connection p b, sample_env) = Some y \<and> udp_inv y"
    using udp_event_safe [OF sample_poll_works sample_udp_inv [OF p(1) b], of
        "\<lparr>uio_recv = \<lambda>n. Inr (take n [1, 2, 3]), uio_send = \<lambda>d. Inr (length d)\<rparr>" "Ready True True" 0]
    by (auto simp: reader_ok_def sample_udp_connection_def simp del: split_paired_Ex)
  then show ?thesis using b by blast
qed

text \<open>The other side of it: a datagram that fills the buffer to its last byte makes a packet whose \<open>u16\<close>
  length wraps, and the assertion of \<open>build\<close> panics.\<close>

theorem udp_full_datagram:
  assumes "udp_inv x" and "\<not> uc_closed (fst x)" and "is_readable ready" and "\<not> is_writable ready"
    and "uio_recv sock (pk_room (uc_network_to_client (fst x))) = Inr bs"
    and "length bs = pk_room (uc_network_to_client (fst x))"
  shows "udp_on_ready P now sock ready x = None"
  by (rule udp_full_datagram_panics [OF assms])

theorem udp_full_datagram_witness:
  "\<exists>p b. pk_inv p \<and> udp_on_ready sample_poll 0 \<lparr>uio_recv = (\<lambda>n. Inr (replicate n 7)), uio_send = (\<lambda>d. Inr (length d))\<rparr>
      ready_readable (sample_udp_connection p b, sample_env) = None"
proof -
  obtain p b where p: "pk_inv p" and b: "dg_holds b [[1, 2]]" using sample_udp_pk sample_datagram by blast
  have "\<not> uc_closed (sample_udp_connection p b)" by (simp add: sample_udp_connection_def)
  then have "udp_on_ready sample_poll 0 \<lparr>uio_recv = (\<lambda>n. Inr (replicate n 7)), uio_send = (\<lambda>d. Inr (length d))\<rparr>
      ready_readable (sample_udp_connection p b, sample_env) = None"
    by (intro udp_full_datagram [OF sample_udp_inv [OF p b],
          where bs = "replicate (pk_room (uc_network_to_client (sample_udp_connection p b))) 7"]) (simp_all add: ready_defs)
  then show ?thesis using p by blast
qed

text \<open>C38. A spurious readable event (the socket has nothing) that comes with a write leaves the write interest
  behind although the buffer has been emptied; the next writable event then panics on the assertion
  of \<open>write_to\<close>.\<close>

theorem udp_spurious_read_panics:
  assumes "udp_inv x" and "\<not> uc_closed (fst x)" and "dg_holds (uc_client_to_network (fst x)) [d]"
    and "uio_send sock d = Inr (length d)" and "uio_recv sock (pk_room (uc_network_to_client (fst x))) = Inl WouldBlock"
    and "is_readable ready" and "is_writable ready" and "is_writable ready'"
  shows "\<exists>y. udp_on_ready P now sock ready x = Some y \<and> uc_interests (fst y) = uc_interests (fst x)
    \<and> udp_on_ready P' now' sock' ready' y = None"
proof -
  obtain y where y: "udp_on_ready P now sock ready x = Some y" "dg_is_empty (uc_client_to_network (fst y))"
    "uc_interests (fst y) = uc_interests (fst x)" "\<not> uc_closed (fst y)"
    using udp_spurious_read [of x d sock ready P now, OF assms(1-7)] by blast
  then show ?thesis using udp_writable_empty_panics [OF y(4) assms(8) y(2)] by blast
qed

theorem udp_spurious_read_panics_witness:
  "\<exists>p b y. let sock = \<lparr>uio_recv = (\<lambda>n. Inl WouldBlock), uio_send = (\<lambda>d. Inr (length d))\<rparr> in
    udp_on_ready sample_poll 0 sock (Ready True True) (sample_udp_connection p b, sample_env) = Some y
    \<and> is_writable (uc_interests (fst y)) \<and> udp_on_ready sample_poll 0 sock ready_writable y = None"
proof -
  obtain p b where p: "pk_inv p" and b: "dg_holds b [[1, 2]]" using sample_udp_pk sample_datagram by blast
  let ?sock = "\<lparr>uio_recv = (\<lambda>n. Inl WouldBlock), uio_send = (\<lambda>d. Inr (length d))\<rparr>"
  have "uc_interests (sample_udp_connection p b) = Ready True True" "\<not> uc_closed (sample_udp_connection p b)"
    "uc_client_to_network (sample_udp_connection p b) = b"
    by (simp_all add: sample_udp_connection_def)
  then have "\<exists>y. udp_on_ready sample_poll 0 ?sock (Ready True True) (sample_udp_connection p b, sample_env) = Some y
    \<and> is_writable (uc_interests (fst y)) \<and> udp_on_ready sample_poll 0 ?sock ready_writable y = None"
    using udp_spurious_read_panics [OF sample_udp_inv [OF p b], where d = "[1, 2]" and sock = ?sock and ready = "Ready True True"
        and ready' = ready_writable and P = sample_poll and now = 0 and P' = sample_poll and now' = 0 and sock' = ?sock] b
    by (fastforce simp: ready_defs simp del: split_paired_Ex)
  then show ?thesis unfolding Let_def by blast
qed

text \<open>C31. A read of an IPv6 flow: an error changes nothing, the end of a TCP stream closes the connection, and
  everything else becomes one IPv6 packet with exactly these bytes, offered to the client whole.\<close>

theorem v6_read_outcome:
  assumes "poll_works P" and "v6_inv x" and "reader_ok R"
  shows "\<exists>r y. v6_read P now R x = Some (r, y) \<and> v6_inv y
    \<and> (case R (p6_room (vc_network_to_client (fst x))) of
        Inl f \<Rightarrow> r = Inl f \<and> y = x
      | Inr bs \<Rightarrow> r = Inr () \<and> (if (\<exists>n. vc_socket (fst x) = V6Tcp n) \<and> bs = [] then vc_closed (fst y)
          else vc_closed (fst y) = vc_closed (fst x)
            \<and> (\<exists>q. v6_data_packet (fst x) bs q \<and> offered (snd x) (i6p_raw q) (snd y))))"
proof -
  obtain r y where y: "v6_read P now R x = Some (r, y)" "v6_step x y"
    "case R (p6_room (vc_network_to_client (fst x))) of
        Inl f \<Rightarrow> r = Inl f \<and> y = x
      | Inr bs \<Rightarrow> r = Inr () \<and> (if (\<exists>n. vc_socket (fst x) = V6Tcp n) \<and> bs = [] then vc_closed (fst y)
          else vc_closed (fst y) = vc_closed (fst x)
            \<and> (\<exists>q. v6_data_packet (fst x) bs q \<and> offered (snd x) (i6p_raw q) (snd y)))"
    using v6_read_ok [OF assms, of now] by blast
  have "v6_inv y" using y(2) by (simp add: v6_step_def)
  with y(1,3) show ?thesis by (intro exI [of _ r] exI [of _ y] conjI)
qed

theorem v6_read_outcome_witness:
  "\<exists>c y q. v6_read sample_poll 0 (\<lambda>n. Inr (take n [1, 2, 3])) (c, sample_env) = Some (Inr (), y)
    \<and> v6_data_packet c [1, 2, 3] q \<and> offered sample_env (i6p_raw q) (snd y)"
proof -
  obtain p where p: "p6_inv p" "p6_payload_index p = 48" using sample_v6_new by blast
  let ?c = "\<lparr>vc_id = tc_id sample_connection, vc_socket = V6Udp 9, vc_network_to_client = p, vc_token = 3,
    vc_closed = False, vc_idle_since = 0\<rparr>"
  have "v6_inv (?c, sample_env)" using sample_ctx_inv p(1) by (auto simp: v6_inv_def ctx_inv_def sample_connection_def)
  moreover have "take (p6_room p) [1, 2, 3 :: u8] = [1, 2, 3]" using p by (simp add: p6_room_def p6_inv_def MAX_PACKET_LENGTH_def)
  ultimately show ?thesis
    using v6_read_outcome [OF sample_poll_works, of "(?c, sample_env)" "\<lambda>n. Inr (take n [1, 2, 3])" 0]
    by (fastforce simp: reader_ok_def simp del: split_paired_Ex)
qed



section \<open>The router and the client\<close>

text \<open>C11. A packet concerns its own flow only: the router handles every well-formed packet without a panic,
  keeps its invariant, makes no request on the client, and leaves the route and the connection of
  every other flow exactly as they were.\<close>

theorem router_isolates_flows:
  assumes "host_ok h" and "router_inv (routes, st, e)" and "ip_packet_ok p"
  shows "\<exists>routes' st' e'. router_send_to_network h p (routes, st, e) = Some (routes', st', e')
    \<and> router_inv (routes', st', e') \<and> en_requests e' = en_requests e
    \<and> (\<forall>cid. connection_id_from_packet p \<noteq> Some cid \<longrightarrow> routes' cid = routes cid
        \<and> (\<forall>r. routes cid = Some r \<longrightarrow> st_conns st' r = st_conns st r))"
proof -
  obtain routes' st' e' where r: "router_send_to_network h p (routes, st, e) = Some (routes', st', e')"
    "router_inv (routes', st', e')" "router_step (routes, st, e) (routes', st', e')"
    "\<forall>cid. connection_id_from_packet p \<noteq> Some cid \<longrightarrow> routes' cid = routes cid
        \<and> (\<forall>r. routes cid = Some r \<longrightarrow> st_conns st' r = st_conns st r)"
    using router_send_ok [OF assms] by blast
  then show ?thesis using router_step_requests [OF r(3)] by blast
qed

theorem router_isolates_flows_witness:
  "\<exists>routes st e. router_send_to_network sample_host (Ipv6 sample_v6_packet)
      (client_router (sample_world [] sample_connection)) = Some (routes, st, e)
    \<and> routes (tc_id sample_connection) = Some 0 \<and> st_conns st 0 = Some (TcpConn sample_connection)"
proof -
  have "router_inv (client_router (sample_world [] sample_connection))"
    using sample_world_inv [OF sample_connection_flow, of "[]"] by (simp add: client_inv_def)
  moreover have "ip_packet_ok (Ipv6 sample_v6_packet)" using ip_packet_parse_ok [OF sample_v6_parse] by simp
  moreover have "connection_id_from_packet (Ipv6 sample_v6_packet) \<noteq> Some (tc_id sample_connection)"
    by (auto simp: sample_connection_def connection_id_from_headers_def to_socket_addr_def Let_def split: if_splits)
  ultimately show ?thesis
    using router_isolates_flows [OF sample_host_ok, of "[tc_id sample_connection \<mapsto> 0]" "sample_store sample_connection"
        "client_env (sample_world [] sample_connection)" "Ipv6 sample_v6_packet"]
    by (auto simp: client_router_def sample_world_def sample_client_def sample_store_def)
qed

text \<open>C12. No flow is refused: when the calls of the operating system succeed, every packet that the parser
  accepts and that has an identity opens a connection of that identity on a fresh token, over TCP and
  UDP, IPv4 and IPv6, and no other registration is touched.\<close>

theorem router_opens_flows:
  assumes "host_answers h" and "sel_inv s" and "ip_packet_parse raw = ok p" and "connection_id_from_packet p = Some cid"
  shows "\<exists>c st' s'. router_create_connection h cid p st s = Some (Inr (st_next st), st', s')
    \<and> st_conns st' (st_next st) = Some c \<and> conn_id c = cid \<and> \<not> conn_closed c
    \<and> live_token s' (conn_token c) \<and> \<not> live_token s (conn_token c) \<and> (\<forall>t. live_token s t \<longrightarrow> live_token s' t)"
proof -
  have "ip_packet_ok p" using ip_packet_parse_ok [OF assms(3)] by simp
  then show ?thesis
    using router_opens [OF assms(1,2) _ assms(4), of st] unfolding created_def selector_grows_def by blast
qed

theorem router_opens_flows_witness:
  "\<exists>cid c st' s'. connection_id_from_packet (Ipv4 sample_packet) = Some cid
    \<and> router_create_connection sample_host cid (Ipv4 sample_packet) \<lparr>st_conns = Map.empty, st_next = 0\<rparr> selector_create
      = Some (Inr 0, st', s') \<and> st_conns st' 0 = Some c \<and> conn_id c = cid"
proof -
  obtain cid where cid: "connection_id_from_packet (Ipv4 sample_packet) = Some cid"
    by (simp add: sample_packet_def)
  from router_opens_flows [OF sample_host_answers selector_create_inv sample_packet_parse cid,
      of "\<lparr>st_conns = Map.empty, st_next = 0\<rparr>"]
  show ?thesis using cid by auto
qed

text \<open>C25. The clean-up of a router removes exactly the expired flows, each of them closed and its token
  deregistered, and leaves the others and their connections as they were, whatever the order in
  which the map is walked.\<close>

theorem router_expiry:
  assumes "poll_works P" and "router_inv (routes, st, e)" and "set order = dom routes"
  shows "\<exists>routes' st' e'. router_clean_expired P now order (routes, st, e) = Some (routes', st', e')
    \<and> router_inv (routes', st', e')
    \<and> (\<forall>cid. routes' cid = (if route_expired now routes st cid then None else routes cid))
    \<and> (\<forall>cid r. routes' cid = Some r \<longrightarrow> st_conns st' r = st_conns st r)
    \<and> (\<forall>cid r c. route_expired now routes st cid \<and> routes cid = Some r \<and> st_conns st r = Some c \<longrightarrow>
        (\<exists>c'. st_conns st' r = Some c' \<and> conn_closed c') \<and> \<not> live_token (en_selector e') (conn_token c))"
  using router_clean_expired_ok [OF assms(2,1,3), of now] unfolding shut_def by blast

theorem router_expiry_witness:
  "\<exists>routes st e. router_clean_expired sample_poll 1000000000000000 [tc_id sample_connection]
      (client_router (sample_world [] sample_connection)) = Some (routes, st, e) \<and> routes = Map.empty
    \<and> (\<exists>c. st_conns st 0 = Some c \<and> conn_closed c) \<and> \<not> live_token (en_selector e) (tc_token sample_connection)"
proof -
  let ?w = "sample_world [] sample_connection"
  have r: "client_router ?w = ([tc_id sample_connection \<mapsto> 0], sample_store sample_connection, client_env ?w)"
    by (simp add: client_router_def sample_world_def sample_client_def)
  have inv: "router_inv ([tc_id sample_connection \<mapsto> 0], sample_store sample_connection, client_env ?w)"
    using sample_world_inv [OF sample_connection_flow, of "[]"] by (simp add: client_inv_def r)
  have x: "route_expired 1000000000000000 [tc_id sample_connection \<mapsto> 0] (sample_store sample_connection) (tc_id sample_connection)"
    by (simp add: route_expired_def sample_store_def tcp_is_expired_def sample_connection_def tcb_new_def
        elapsed_secs_def TCP_IDLE_TIMEOUT_SECONDS_def CONNECT_TIMEOUT_SECONDS_def)
  obtain routes st e where y: "router_clean_expired sample_poll 1000000000000000 [tc_id sample_connection]
      ([tc_id sample_connection \<mapsto> 0], sample_store sample_connection, client_env ?w) = Some (routes, st, e)"
    "\<forall>cid. routes cid = (if route_expired 1000000000000000 [tc_id sample_connection \<mapsto> 0] (sample_store sample_connection) cid
      then None else [tc_id sample_connection \<mapsto> 0] cid)"
    "\<forall>cid r c. route_expired 1000000000000000 [tc_id sample_connection \<mapsto> 0] (sample_store sample_connection) cid
        \<and> [tc_id sample_connection \<mapsto> 0] cid = Some r \<and> st_conns (sample_store sample_connection) r = Some c \<longrightarrow>
      (\<exists>c'. st_conns st r = Some c' \<and> conn_closed c') \<and> \<not> live_token (en_selector e) (conn_token c)"
    using router_expiry [OF sample_poll_works inv, of "[tc_id sample_connection]" 1000000000000000] by auto
  have "(\<exists>c. st_conns st 0 = Some c \<and> conn_closed c) \<and> \<not> live_token (en_selector e) (tc_token sample_connection)"
    using y(3) [rule_format, of "tc_id sample_connection" 0 "TcpConn sample_connection"] x by (simp add: sample_store_def)
  moreover have "routes = Map.empty" using y(2) x by (auto simp: fun_eq_iff split: if_splits)
  ultimately show ?thesis using y(1) by (simp add: r)
qed

text \<open>C2. The loop of \<open>push_to_network\<close> relays the stream: it does to the client what routing the frames of
  the buffered bytes one by one, in order, would do, it leaves the incomplete rest in the buffer,
  and a malformed frame closes the client.  It always ends, and never panics.\<close>

theorem stream_relayed:
  assumes "poll_works P" and "walk_ok walk" and "\<forall>i. host_ok (hosts i)"
    and "client_inv w" and "\<not> cl_closed (cw_client w)"
  shows "\<exists>w'. push_to_network P walk hosts n w = Some w' \<and> client_inv w'
    \<and> relay_stream P walk hosts n (bb_peek (cl_input w)) (sans_input w) = Some (sans_input w')
    \<and> (\<not> cl_closed (cw_client w') \<longrightarrow> bb_peek (cl_input w') = snd (frames (bb_peek (cl_input w))))"
proof -
  obtain fs rest where f: "frames (bb_peek (cl_input w)) = (fs, rest)" by (cases "frames (bb_peek (cl_input w))")
  from push_to_network_ok [OF assms(1-5) f, of n] show ?thesis by (auto simp: f)
qed

theorem stream_relayed_witness:
  "\<exists>w'. push_to_network sample_poll sample_walk (\<lambda>_. sample_host) 0 (sample_world sample_syn sample_connection) = Some w'
    \<and> relay_frames sample_poll sample_walk (\<lambda>_. sample_host) 0 [sample_syn]
        (sans_input (sample_world sample_syn sample_connection)) = Some (sans_input w')"
proof -
  have len: "length sample_syn = 40" and none: "front_packet_length [] = ok None" by code_simp+
  have "client_inv (sample_world sample_syn sample_connection)"
    by (rule sample_world_inv [OF sample_connection_flow]) (simp add: len MAX_IP_PACKET_LENGTH_def)
  from stream_relayed [OF sample_poll_works sample_walk_ok _ this sample_world_open, of "\<lambda>_. sample_host" 0]
  show ?thesis
    using sample_host_ok sample_syn_frames none
    by (auto simp: sample_world_input relay_stream_def split: bind_splits)
qed

text \<open>C19. The loop of \<open>push_to_network\<close> ends, however the packets are answered: it runs at most once for
  every 20 bytes in the buffer, the least a frame takes, and once more.\<close>

theorem push_to_network_ends:
  "push_fuel (bb_head (cl_input w) div 20 + 1) P walk hosts n w = Some (push_to_network P walk hosts n w)"
  by (rule push_fuel_enough) (simp add: mult.commute dividend_less_times_div)

text \<open>C18. Deferred packets go out whole, first come first served among those that fit: after
  \<open>process_pending\<close> the channel holds what it held and then the packets that fit, and the sources
  of the others wait in the order in which they were.\<close>

theorem pending_in_order:
  assumes "poll_works P" and "client_inv w" and "\<not> cl_closed (cw_client w)"
    and "cl_pending_packet_sources (cw_client w) = rs" and "distinct rs" and "\<forall>r \<in> set rs. pending_source w r (q r)"
  shows "\<exists>w'. process_pending P w = Some w' \<and> client_inv w' \<and> pending_ok w'
    \<and> cl_output w' = cl_output w @ fst (fit (cl_room w) (map (\<lambda>r. (r, ip_raw (q r))) rs))
    \<and> cl_pending_packet_sources (cw_client w') = snd (fit (cl_room w) (map (\<lambda>r. (r, ip_raw (q r))) rs))"
  using process_pending_ok [OF assms] by blast

theorem pending_in_order_witness:
  "\<exists>c (q :: ipv4_packet) w'. process_pending sample_poll (on_client (cl_pending_packet_sources_update (\<lambda>_. [0])) (sample_world [] c)) = Some w'
    \<and> cl_output w' = ip_raw q \<and> cl_pending_packet_sources (cw_client w') = []"
proof -
  obtain c q where c: "sample_flow c" "owes_packet c q" "length (ip_raw q) = 43"
    using sample_deferred by blast
  let ?w = "on_client (cl_pending_packet_sources_update (\<lambda>_. [0])) (sample_world [] c)"
  have "client_inv ?w"
    using sample_world_inv [OF c(1), of "[]"] sample_world_open
    by (simp add: client_inv_def client_router_def client_env_def)
  moreover have "pending_source ?w 0 q"
    using c by (auto simp: pending_source_def sample_world_def sample_client_def sample_store_def)
  moreover have "cl_pending_packet_sources (cw_client ?w) = [0]" "\<not> cl_closed (cw_client ?w)" "cl_output ?w = []"
    "length (ip_raw q) \<le> cl_room ?w"
    using c(3) by (simp_all add: sample_world_def sample_client_def MAX_PACKET_LENGTH_def)
  ultimately have "\<exists>w'. process_pending sample_poll ?w = Some w' \<and> cl_output w' = ip_raw q
      \<and> cl_pending_packet_sources (cw_client w') = []"
    using pending_in_order [OF sample_poll_works, of ?w "[0]" "\<lambda>_. q"] by auto
  then show ?thesis by (intro exI [of _ c] exI [of _ q])
qed

text \<open>C13. An event of the client's socket does not panic as long as every deferred packet still has its source
  (\<open>pending_ok\<close>; \<open>process_pending_closed\<close> shows the panic otherwise), and it never reaches past the client:
  whatever the socket and the hosts answer, the invariant is kept, other connections of the relay and the tokens
  outside stay as they were, and the close listener is called exactly when the client closes.\<close>

theorem client_event_safe:
  assumes "io_ok io" and "client_inv w" and "cl_closed (cw_client w) \<or> pending_ok w"
  shows "\<exists>w'. client_on_ready io ready w = Some w' \<and> client_inv w'
    \<and> cw_on_closed w' + of_bool (cl_closed (cw_client w)) = cw_on_closed w + of_bool (cl_closed (cw_client w'))
    \<and> (\<forall>t. t \<noteq> cl_token w \<and> outside t (client_router w) \<longrightarrow> live_token (cw_selector w') t)
    \<and> (\<forall>r. r < st_next (cw_store w) \<and> r \<notin> ran (cl_routes (cw_client w)) \<longrightarrow>
        st_conns (cw_store w') r = st_conns (cw_store w) r)"
proof -
  obtain w' where "client_on_ready io ready w = Some w'" "client_inv w'" "client_step w w'"
    using client_on_ready_ok [OF assms(1,2), of ready] assms(3) by blast
  then show ?thesis by (auto simp: client_step_def outside_def client_router_def)
qed

theorem client_event_safe_witness:
  "\<exists>w'. client_on_ready sample_client_io (Ready True True) (sample_world [] sample_connection) = Some w' \<and> client_inv w'"
proof -
  have "client_inv (sample_world [] sample_connection)" by (rule sample_world_inv [OF sample_connection_flow]) simp
  moreover have "pending_ok (sample_world [] sample_connection)"
    by (simp add: pending_ok_def sample_world_def sample_client_def)
  ultimately show ?thesis using client_event_safe [OF sample_client_io_ok] by blast
qed

section \<open>The server and the loop\<close>

text \<open>C9. Clients are isolated: whatever an open client does in one event, closing included, the event does not
  panic and every other client in the list keeps its record, its registration, and each of its
  connections with its registration; only its own closing takes a client off the list.  The condition
  is that of the client's own event, \<open>pending_ok\<close>: every deferred packet still has its source.\<close>

theorem clients_isolated:
  assumes "server_inv x" and "k \<in> set (ts_clients (rw_server (fst x)))" and "client_world_of k x = Some w"
    and "io_ok io" and "pending_ok w"
  shows "\<exists>w' x'. client_on_ready io ready w = Some w' \<and> in_client k (client_on_ready io ready) x = Some x' \<and> server_inv x'
    \<and> set (ts_clients (rw_server (fst x'))) = set (ts_clients (rw_server (fst x))) - (if cl_closed (cw_client w') then {k} else {})
    \<and> rw_clients (fst x') k = Some (cw_client w')
    \<and> (\<forall>j v. j \<noteq> k \<and> j \<in> set (ts_clients (rw_server (fst x))) \<and> client_world_of j x = Some v \<longrightarrow>
        rw_clients (fst x') j = rw_clients (fst x) j \<and> live_token (snd x') (cl_token v)
        \<and> (\<forall>cid r c. cl_routes (cw_client v) cid = Some r \<and> st_conns (rw_store (fst x)) r = Some c \<longrightarrow>
            st_conns (rw_store (fst x')) r = Some c \<and> live_token (snd x') (conn_token c)))"
proof -
  have "client_inv w" using server_invD(5) [OF assms(1,2)] assms(3) by (auto simp: open_client_def)
  then obtain w' where w': "client_on_ready io ready w = Some w'" "client_inv w'" "client_step w w'"
    using client_on_ready_ok [OF assms(4) _ assms(5)] by blast
  from in_client_ok [of x k w "client_on_ready io ready" w', OF assms(1-3) this]
  obtain x' where x': "in_client k (client_on_ready io ready) x = Some x'" "server_inv x'"
    "set (ts_clients (rw_server (fst x'))) = set (ts_clients (rw_server (fst x))) - (if cl_closed (cw_client w') then {k} else {})"
    "\<forall>j. j \<noteq> k \<longrightarrow> rw_clients (fst x') j = rw_clients (fst x) j" "rw_clients (fst x') k = Some (cw_client w')"
    "snd x' = cw_selector w'" "rw_store (fst x') = cw_store w'"
    by blast
  note kept = others_kept [OF assms(1-3) _ _ _ w'(3)]
  show ?thesis
    using w'(1) x'(1-5) kept unfolding x'(6,7) [symmetric] by (intro exI [of _ w'] exI [of _ x'] conjI) blast+
qed

theorem clients_isolated_witness:
  "\<exists>x'. in_client 0 (client_on_ready sample_client_io (Ready True True)) sample_relay = Some x'
    \<and> rw_clients (fst x') 1 = rw_clients (fst sample_relay) 1 \<and> rw_clients (fst x') 1 \<noteq> None"
proof -
  have "0 \<in> set (ts_clients (rw_server (fst sample_relay)))" "1 \<in> set (ts_clients (rw_server (fst sample_relay)))"
    by (simp_all add: sample_relay_def)
  moreover obtain v where "client_world_of 1 sample_relay = Some v" "rw_clients (fst sample_relay) 1 \<noteq> None"
    using server_invD(5) [OF sample_relay_inv calculation(2)] in_client_world [of 1 "fst sample_relay" "snd sample_relay"]
    by (fastforce simp: open_client_def)
  moreover have "pending_ok (sample_world sample_syn sample_connection)"
    by (simp add: pending_ok_def sample_world_def sample_client_def)
  ultimately show ?thesis
    using clients_isolated [OF sample_relay_inv _ sample_relay_worlds(1) sample_client_io_ok, of "Ready True True"]
    by (metis zero_neq_one)
qed

text \<open>\<open>TunnelServer::on_ready\<close> accepts until the first error: the clients it adds are open, in the
  order of their arrival at the end of the list, with consecutive ids that continue the counter,
  and the clients that were there stay as they were.\<close>

theorem accepted_clients_numbered:
  assumes "slab_ok vacant" and "server_inv (rw, s)"
  shows "\<exists>rw' s' m. server_on_ready P vacant accepted (rw, s) = Some (rw', s') \<and> server_inv (rw', s')
    \<and> ts_clients (rw_server rw') = ts_clients (rw_server rw) @ [rw_next rw ..< rw_next rw + m] \<and> m \<le> length accepted
    \<and> (\<forall>i < m. \<exists>c. rw_clients rw' (rw_next rw + i) = Some c \<and> cl_id c = ts_next_client_id (rw_server rw) + of_nat i)
    \<and> (\<forall>k < rw_next rw. rw_clients rw' k = rw_clients rw k)"
  using server_on_ready_ok [OF assms] .

theorem accepted_clients_numbered_witness:
  "\<exists>rw s m. server_on_ready sample_poll (\<lambda>handlers. LEAST t. handlers t = None) [Inr 20, Inr 21, Inl WouldBlock] sample_relay
      = Some (rw, s) \<and> ts_clients (rw_server rw) = [0, 1] @ [2 ..< 2 + m] \<and> m \<le> 3"
  using accepted_clients_numbered [OF sample_slab, of "fst sample_relay" "snd sample_relay" sample_poll
      "[Inr 20, Inr 21, Inl WouldBlock]"] sample_relay_inv
  by (fastforce simp: sample_relay_def)



text \<open>C29. The two deadlines of the loop.  An iteration cleans up exactly when the clean-up deadline has been
  reached, and then sets it five seconds ahead; as long as the wall clock does not go back, both
  deadlines stay ahead of it by at most their intervals, and a poll waits at most five seconds and
  exactly to the first of them.  When the clock is set back, the wait is longer by as much, and no
  iteration cleans up until the clock has caught up with the deadline.\<close>

theorem deadlines_kept:
  assumes "timers_ok t timers" and "poll_iteration k events (timers, x) = Some (timers', x')"
  shows "(t \<le> wk_now k \<longrightarrow> timers_ok (wk_now k) timers')
    \<and> (if wk_now k < next_cleaning_deadline timers
       then next_cleaning_deadline timers' = next_cleaning_deadline timers
         \<and> (if events = [] then x' = x else run_handlers (dispatch (wk_io k)) events x = Some x')
       else next_cleaning_deadline timers' = wk_now k + CLEANING_INTERVAL_SECONDS
         \<and> (\<exists>y. clean_up (wk_poll k) (wk_walk k) (wk_instant k) x = Some y
             \<and> (if events = [] then x' = y else run_handlers (dispatch (wk_io k)) events y = Some x')))
    \<and> (t \<le> now \<longrightarrow> 0 \<le> poll_timeout now timers \<and> poll_timeout now timers \<le> CLEANING_INTERVAL_SECONDS
         \<and> now + poll_timeout now timers = max now (min (next_cleaning_deadline timers) (next_stats_deadline timers)))
    \<and> (now < t \<longrightarrow> t - now < poll_timeout now timers)"
  using poll_iteration_timers(1) [OF assms(2,1)] poll_timeout_bounds [OF assms(1), of now]
  by (intro conjI impI poll_iteration_timers(2) [OF assms(2)]) simp_all

theorem deadlines_kept_witness:
  "\<exists>rw s k timers'. poll_iteration k [] (start_timers 0, rw, s) = Some (timers', rw, s) \<and> timers_ok 7 timers'
    \<and> next_cleaning_deadline timers' = 12 \<and> 3600 < poll_timeout (- 3600) (start_timers 0)"
proof -
  obtain rw :: relay_world and s :: selector where t: "ts_clients (rw_server rw) = []"
    using sample_created [of "\<lambda>_. Inr None" "\<lambda>_. Inr 6" 31417 6] by (auto simp: start_socket_def)
  let ?k = "\<lparr>wk_result = Inr [], wk_now = 7, wk_instant = 0, wk_poll = sample_poll, wk_walk = sample_walk, wk_io = undefined\<rparr>"
  have c: "clean_up sample_poll sample_walk 0 (rw, s) = Some (rw, s)" using t by (simp add: clean_up_def)
  then obtain timers' where p: "poll_iteration ?k [] (start_timers 0, rw, s) = Some (timers', rw, s)"
    by (auto simp: poll_iteration_def start_timers_def interval_defs)
  from deadlines_kept [OF start_timers_ok p, of "- 3600"] have "timers_ok 7 timers'" "next_cleaning_deadline timers' = 12"
    "3600 < poll_timeout (- 3600) (start_timers 0)"
    by (simp_all add: start_timers_def interval_defs)
  with p show ?thesis by blast
qed

section \<open>DNS\<close>

text \<open>The resolver is found: the address of a \<open>nameserver\<close> line at the head of \<open>resolv.conf\<close> is read back
  as it was written, whatever follows.\<close>

theorem resolver_roundtrip:
  "parse_resolver (ascii ''nameserver'' @ 32 # show_addr a @ 10 # rest) = Some a"
  by (rule parse_resolver_roundtrip)

text \<open>\<open>dns::configure\<close> succeeds at most once, and only with an address that can serve: not the virtual
  resolver itself, not unspecified, multicast or broadcast; a failed call leaves the configuration.\<close>

theorem dns_configured_once:
  assumes "configure explicit resolver upstream = (r, upstream')"
  shows "case r of Inl _ \<Rightarrow> upstream' = upstream
    | Inr u \<Rightarrow> upstream = None \<and> upstream' = Some u \<and> snd u = 53 \<and> addr_u32 (fst u) \<noteq> VIRTUAL_DNS
        \<and> \<not> is_unspecified (fst u) \<and> \<not> is_multicast (fst u) \<and> \<not> is_broadcast (fst u)"
  using configure_ok(2,3) [OF assms] by (cases r) simp_all

theorem dns_configured_once_witness:
  "\<exists>u. configure (Some (192, 168, 1, 1)) (Inl OtherError) None = (Inr u, Some u) \<and> snd u = 53
    \<and> addr_u32 (fst u) \<noteq> VIRTUAL_DNS"
proof -
  have c: "configure (Some (192, 168, 1, 1)) (Inl OtherError) None = (Inr ((192, 168, 1, 1), 53), Some ((192, 168, 1, 1), 53))"
    by code_simp
  show ?thesis using dns_configured_once [OF c] c by auto
qed



section \<open>The process\<close>

text \<open>C10. Only this machine can reach the relay: a server that was created on a port listens on the socket that
  the system bound to 127.0.0.1 at that port, the only address it is ever asked for, or on one that a
  parent handed over, whose number is no standard stream and whose address the system reports as
  loopback with that port.\<close>

theorem loopback_only:
  assumes "tunnel_server_create P vacant (\<lambda>port. inherited port var io) bind_to port s = Some (Inr rw, s')"
  shows "var = NotPresent \<and> bind_to (SocketV4 (127, 0, 0, 1) port) = Inr (ts_tcp_listener (rw_server rw))
    \<or> (\<exists>value fd a. var = Present value \<and> parse_i32 value = Some fd \<and> 3 \<le> fd \<and> li_local_addr io fd = Inr a
      \<and> is_loopback a \<and> socket_port a = port \<and> li_set_nonblocking io fd = Inr ()
      \<and> li_from_std io fd = Inr (ts_tcp_listener (rw_server rw)))"
  by (rule start_socket_loopback [OF created_listener [OF assms]])

theorem loopback_only_witness:
  "(\<exists>rw s. tunnel_server_create sample_poll (\<lambda>handlers. LEAST t. handlers t = None)
      (\<lambda>port. inherited port NotPresent sample_listener_io)
      (\<lambda>a. if a = SocketV4 (127, 0, 0, 1) 31417 then Inr 6 else Inl OtherError) 31417 selector_create
      = Some (Inr rw, s) \<and> ts_tcp_listener (rw_server rw) = 6)
    \<and> (\<exists>rw s. tunnel_server_create sample_poll (\<lambda>handlers. LEAST t. handlers t = None)
      (\<lambda>port. inherited port (Present (ascii ''7'')) sample_listener_io) (\<lambda>_. Inl OtherError) 31417 selector_create
      = Some (Inr rw, s) \<and> ts_tcp_listener (rw_server rw) = 7)"
proof -
  let ?bind = "\<lambda>a. if a = SocketV4 (127, 0, 0, 1) 31417 then Inr 6 else Inl OtherError"
  have p: "parse_i32 (ascii ''7'') = Some 7" by code_simp
  have i: "start_socket (\<lambda>port. inherited port NotPresent sample_listener_io) ?bind 31417 = Inr 6"
    "start_socket (\<lambda>port. inherited port (Present (ascii ''7'')) sample_listener_io) (\<lambda>_. Inl OtherError) 31417 = Inr 7"
    unfolding start_socket_def inherited_def env_var.case p by (simp_all add: sample_listener_io_def)
  obtain rw s where c: "tunnel_server_create sample_poll (\<lambda>handlers. LEAST t. handlers t = None)
      (\<lambda>port. inherited port NotPresent sample_listener_io) ?bind 31417 selector_create = Some (Inr rw, s)"
    using sample_created [OF i(1)] by blast
  obtain rw' s' where c': "tunnel_server_create sample_poll (\<lambda>handlers. LEAST t. handlers t = None)
      (\<lambda>port. inherited port (Present (ascii ''7'')) sample_listener_io) (\<lambda>_. Inl OtherError) 31417 selector_create
      = Some (Inr rw', s')"
    using sample_created [OF i(2)] by blast
  have "ts_tcp_listener (rw_server rw) = 6" using loopback_only [OF c] by simp
  moreover have "ts_tcp_listener (rw_server rw') = 7"
    using loopback_only [OF c'] by (auto simp: p [simplified] sample_listener_io_def)
  ultimately show ?thesis using c c' by blast
qed

text \<open>A command line with any number of \<open>--port\<close> and \<open>--dns\<close> options in any order is read back: the last of
  each counts, and 31417 and the resolver of the system stand in for what is not given.\<close>

theorem command_line_roundtrip:
  assumes "Inl 0 \<notin> set os"
  shows "parse_command (command_line os) = chosen os 31417 None"
  by (rule parse_command_chosen [OF assms])

theorem command_line_roundtrip_witness:
  "parse_command (command_line [Inl 8080, Inr (9, 9, 9, 9), Inl 9090]) = Serve 9090 (Some (9, 9, 9, 9))"
  using command_line_roundtrip [of "[Inl 8080, Inr (9, 9, 9, 9), Inl 9090]"] by simp



end
